(* ===== verification/Prelude.thy ===== *)
theory Prelude
  imports Main "HOL-Library.Word"
begin

text \<open>
  Shared vocabulary of the development: Rust's fixed-width integers and byte
  vectors, the \<open>Result\<close> type with its panics, little-endian conversions,
  \<open>slice::chunks\<close>, and the generic lemmas the component theories rely on.
  \<^item> \<open>u8\<close>, \<open>u16\<close>, \<open>u32\<close>, \<open>u64\<close> are machine words, so \<open>wrapping_add\<close> is \<open>+\<close>;
    \<open>usize\<close> is \<open>nat\<close>: additions of lengths of in-memory objects cannot exceed
    the address space, and every subtraction writes out the underflow panic.
  \<^item> An error is its format string together with the formatted arguments.
  \<^item> \<open>Panic\<close> is what the overflow, shift and index checks of the default
    (\<open>dev\<close>) profile do; the workspace overrides no profile.
  \<^item> An operation on \<open>&mut self\<close> returns the result and the new state; an early
    return with \<open>?\<close> keeps the mutations made so far (\<open>and_then\<close>).
\<close>

unbundle bit_operations_syntax

section \<open>Types\<close>

type_synonym u8 = "8 word"
type_synonym u16 = "16 word"
type_synonym u32 = "32 word"
type_synonym u64 = "64 word"
type_synonym bytes = "u8 list"

datatype rust_error = InvalidPacket string "nat list"

datatype ('a, 'e) rresult = Ok 'a | Err 'e | Panic string

type_synonym 'a result = "('a, rust_error) rresult"

text \<open>Two abbreviations for the error values: a literal message, a formatted one.\<close>

abbreviation invalid :: "string \<Rightarrow> 'a result" where
  "invalid msg \<equiv> Err (InvalidPacket msg [])"

abbreviation invalid_fmt :: "string \<Rightarrow> nat list \<Rightarrow> 'a result" where
  "invalid_fmt msg args \<equiv> Err (InvalidPacket msg args)"

type_synonym ('s, 'a, 'e) op = "'s \<Rightarrow> ('a, 'e) rresult \<times> 's"

named_theorems rust_simps \<open>equations of the result and state-passing combinators\<close>
named_theorems le_simps \<open>little-endian conversions and their round trips\<close>

section \<open>Results and stateful operations\<close>

fun bind_result :: "('a, 'e) rresult \<Rightarrow> ('a \<Rightarrow> ('b, 'e) rresult) \<Rightarrow> ('b, 'e) rresult" where
  "bind_result (Ok x) k = k x"
| "bind_result (Err e) k = Err e"
| "bind_result (Panic m) k = Panic m"

fun is_ok :: "('a, 'e) rresult \<Rightarrow> bool" where
  "is_ok (Ok x) = True"
| "is_ok r = False"

fun is_err :: "('a, 'e) rresult \<Rightarrow> bool" where
  "is_err (Err e) = True"
| "is_err r = False"

fun is_panic :: "('a, 'e) rresult \<Rightarrow> bool" where
  "is_panic (Panic m) = True"
| "is_panic r = False"

definition and_then :: "('s, 'a, 'e) op \<Rightarrow> ('a \<Rightarrow> ('s, 'b, 'e) op) \<Rightarrow> ('s, 'b, 'e) op" where
  "and_then m k s =
     (case m s of
        (Ok x, s') \<Rightarrow> k x s'
      | (Err e, s') \<Rightarrow> (Err e, s')
      | (Panic p, s') \<Rightarrow> (Panic p, s'))"

definition lift_result :: "('a, 'e) rresult \<Rightarrow> ('s, 'a, 'e) op" where
  "lift_result r s = (r, s)"

lemma bind_result_eq_Ok [simp]:
  "bind_result r k = Ok y \<longleftrightarrow> (\<exists>x. r = Ok x \<and> k x = Ok y)"
  by (cases r) auto

lemma bind_result_cong [fundef_cong]:
  "r = r' \<Longrightarrow> (\<And>x. r' = Ok x \<Longrightarrow> k x = k' x) \<Longrightarrow> bind_result r k = bind_result r' k'"
  by (cases r') auto

lemma and_then_simps [rust_simps]:
  "m s = (Ok x, s') \<Longrightarrow> and_then m k s = k x s'"
  "m s = (Err e, s') \<Longrightarrow> and_then m k s = (Err e, s')"
  "m s = (Panic p, s') \<Longrightarrow> and_then m k s = (Panic p, s')"
  by (simp_all add: and_then_def)

lemma and_then_Ok:
  assumes "and_then m k s = (Ok y, t)"
  obtains x s' where "m s = (Ok x, s')" and "k x s' = (Ok y, t)"
proof (cases "m s")
  case (Pair r s')
  show thesis
    using assms Pair that by (cases r) (auto simp: and_then_def)
qed

text \<open>
  An invariant of the state that two operations keep is kept by their
  sequence, whatever the first one returns.
\<close>

lemma and_then_keeps:
  assumes "I (snd (m s))"
    and "\<And>x s'. m s = (Ok x, s') \<Longrightarrow> I (snd (k x s'))"
  shows "I (snd (and_then m k s))"
  using assms by (auto simp: and_then_def split: prod.splits rresult.splits)

section \<open>Machines and their runs\<close>

text \<open>
  A component driven by a sequence of calls: each call returns an output and
  the next state. \<open>run_machine\<close> collects the outputs.
\<close>

fun run_machine :: "('s \<Rightarrow> 'e \<Rightarrow> 'o \<times> 's) \<Rightarrow> 's \<Rightarrow> 'e list \<Rightarrow> 'o list \<times> 's" where
  "run_machine step s [] = ([], s)"
| "run_machine step s (e # es) =
     (let (r, s1) = step s e; (rs, s2) = run_machine step s1 es in (r # rs, s2))"

text \<open>
  The contract of such a component: an invariant every call keeps, and a
  predicate every output satisfies in states with the invariant.
\<close>

locale machine =
  fixes step :: "'s \<Rightarrow> 'e \<Rightarrow> 'o \<times> 's"
    and inv :: "'s \<Rightarrow> bool"
    and good :: "'o \<Rightarrow> bool"
  assumes step_inv: "inv s \<Longrightarrow> inv (snd (step s e))"
    and step_good: "inv s \<Longrightarrow> good (fst (step s e))"
begin

lemma run_inv: "inv s \<Longrightarrow> inv (snd (run_machine step s es))"
proof (induction es arbitrary: s)
  case (Cons e es)
  from Cons.IH [OF step_inv [OF Cons.prems, of e]] show ?case
    by (simp add: split_beta Let_def)
qed simp

lemma run_good: "inv s \<Longrightarrow> r \<in> set (fst (run_machine step s es)) \<Longrightarrow> good r"
proof (induction es arbitrary: s)
  case (Cons e es)
  have "good (fst (step s e))" using Cons.prems(1) by (rule step_good)
  moreover have "inv (snd (step s e))" using Cons.prems(1) by (rule step_inv)
  ultimately show ?case
    using Cons.prems(2) Cons.IH by (auto simp: split_beta Let_def)
qed simp

end

lemma run_machine_append:
  "run_machine step s (es @ fs) =
     (let (rs, s1) = run_machine step s es; (qs, s2) = run_machine step s1 fs in (rs @ qs, s2))"
  by (induction es arbitrary: s) (auto simp: split_beta Let_def)

section \<open>Little-endian conversions\<close>

definition u16_to_le_bytes :: "u16 \<Rightarrow> bytes" where
  "u16_to_le_bytes w = [ucast w, ucast (drop_bit 8 w)]"

definition u16_from_le_bytes :: "u8 \<Rightarrow> u8 \<Rightarrow> u16" where
  "u16_from_le_bytes a b = ucast a OR push_bit 8 (ucast b)"

definition u32_to_le_bytes :: "u32 \<Rightarrow> bytes" where
  "u32_to_le_bytes w =
     [ucast w, ucast (drop_bit 8 w), ucast (drop_bit 16 w), ucast (drop_bit 24 w)]"

definition u32_from_le_bytes :: "u8 \<Rightarrow> u8 \<Rightarrow> u8 \<Rightarrow> u8 \<Rightarrow> u32" where
  "u32_from_le_bytes a b c d =
     ucast a OR push_bit 8 (ucast b) OR push_bit 16 (ucast c) OR push_bit 24 (ucast d)"

definition u64_to_le_bytes :: "u64 \<Rightarrow> bytes" where
  "u64_to_le_bytes w = map (\<lambda>i. ucast (drop_bit (8 * i) w)) [0, 1, 2, 3, 4, 5, 6, 7]"

lemma length_to_le_bytes [simp]:
  "length (u16_to_le_bytes w) = 2"
  "length (u32_to_le_bytes x) = 4"
  "length (u64_to_le_bytes y) = 8"
  by (simp_all add: u16_to_le_bytes_def u32_to_le_bytes_def u64_to_le_bytes_def)

lemma u16_from_to_le [le_simps, simp]:
  "u16_from_le_bytes (ucast w) (ucast (drop_bit 8 w)) = (w :: u16)"
  unfolding u16_from_le_bytes_def
  by (rule bit_word_eqI) (auto simp: bit_simps)

lemma u16_from_le_nth:
  "u16_from_le_bytes (u16_to_le_bytes w ! 0) (u16_to_le_bytes w ! 1) = w"
  by (simp add: u16_to_le_bytes_def)

lemma u8_no_high_bit [simp]: "\<not> bit (a :: u8) (8 + n)"
  using bit_imp_le_length [of a "8 + n"] by auto

lemma u16_to_from_le [le_simps, simp]:
  "u16_to_le_bytes (u16_from_le_bytes a b) = [a, b]"
  unfolding u16_from_le_bytes_def u16_to_le_bytes_def
  by (auto intro!: bit_word_eqI simp: bit_simps)

lemma u32_from_to_le [le_simps, simp]:
  "u32_from_le_bytes (ucast w) (ucast (drop_bit 8 w)) (ucast (drop_bit 16 w))
     (ucast (drop_bit 24 w)) = (w :: u32)"
  unfolding u32_from_le_bytes_def
proof (rule bit_word_eqI)
  fix n
  assume "n < LENGTH(32)"
  then consider "n < 8" | "8 \<le> n" "n < 16" | "16 \<le> n" "n < 24" | "24 \<le> n" "n < 32"
    by force
  then show "bit (ucast (ucast w :: u8) OR push_bit 8 (ucast (ucast (drop_bit 8 w) :: u8)) OR
      push_bit 16 (ucast (ucast (drop_bit 16 w) :: u8)) OR
      push_bit 24 (ucast (ucast (drop_bit 24 w) :: u8)) :: u32) n = bit w n"
    by cases (auto simp: bit_simps)
qed

lemma unat_u16_less: "unat (w :: u16) < 65536"
  using unsigned_less [of w] by simp

lemma unat_u16_le: "unat (w :: u16) \<le> 65535"
  using unat_u16_less [of w] by simp

lemma unat_u8_less: "unat (w :: u8) < 256"
  using unsigned_less [of w] by simp

lemma unat_of_nat_u16: "n < 65536 \<Longrightarrow> unat (of_nat n :: u16) = n"
  by (simp add: unat_of_nat take_bit_nat_eq_self)

lemma unat_of_nat_u8: "n < 256 \<Longrightarrow> unat (of_nat n :: u8) = n"
  by (simp add: unat_of_nat take_bit_nat_eq_self)

section \<open>Slices\<close>

text \<open>\<open>slice::chunks(n)\<close>: consecutive pieces of \<open>n\<close> elements, the last one shorter.\<close>

fun chunks :: "nat \<Rightarrow> 'a list \<Rightarrow> 'a list list" where
  "chunks n xs = (if xs = [] \<or> n = 0 then [] else take n xs # chunks n (drop n xs))"

declare chunks.simps [simp del]

lemma chunks_Nil [simp]: "chunks n [] = []"
  by (simp add: chunks.simps)

lemma chunks_rec:
  "0 < n \<Longrightarrow> xs \<noteq> [] \<Longrightarrow> chunks n xs = take n xs # chunks n (drop n xs)"
  by (simp add: chunks.simps)

lemma concat_chunks [simp]: "0 < n \<Longrightarrow> concat (chunks n xs) = xs"
proof (induction n xs rule: chunks.induct)
  case (1 n xs)
  then show ?case by (cases "xs = []") (simp_all add: chunks_rec)
qed

lemma chunks_bounds:
  "c \<in> set (chunks n xs) \<Longrightarrow> c \<noteq> [] \<and> length c \<le> n"
proof (induction n xs rule: chunks.induct)
  case (1 n xs)
  then show ?case
    by (subst (asm) (2) chunks.simps) (auto split: if_splits)
qed

lemma chunks_eq_Nil_iff [simp]: "chunks n xs = [] \<longleftrightarrow> xs = [] \<or> n = 0"
  by (simp add: chunks.simps)

lemma length_chunks: "0 < n \<Longrightarrow> length (chunks n xs) = (length xs + n - 1) div n"
proof (induction n xs rule: chunks.induct)
  case (1 n xs)
  show ?case
  proof (cases "xs = []")
    case True
    with 1 show ?thesis by simp
  next
    case False
    with 1 have IH: "length (chunks n (drop n xs)) = (length xs - n + n - 1) div n"
      by simp
    have "(length xs + n - 1) div n = Suc ((length xs - n + n - 1) div n)"
    proof (cases "length xs < n")
      case True
      with False 1 have "(length xs + n - 1) div n = (n + (length xs - 1)) div n"
        by (cases xs) (simp_all add: add.commute)
      also have "\<dots> = Suc ((length xs - 1) div n)"
        using 1(2) by (subst div_add_self1) simp_all
      finally show ?thesis using True by simp
    next
      case ge: False
      then have "length xs + n - 1 = n + (length xs - n + n - 1)"
        using 1 by simp
      with 1(2) show ?thesis by (simp only: div_add_self1 [of n])
    qed
    with IH False 1 show ?thesis by (simp add: chunks_rec)
  qed
qed

lemma chunks_nth:
  "0 < n \<Longrightarrow> i < length (chunks n xs) \<longleftrightarrow> i * n < length xs"
  "0 < n \<Longrightarrow> i * n < length xs \<Longrightarrow> chunks n xs ! i = take n (drop (i * n) xs)"
proof (induction n xs arbitrary: i rule: chunks.induct)
  case (1 n xs)
  { case 1
    then show ?case
      using "1.IH"(1) [of "i - 1"]
      by (cases "xs = []"; cases i) (auto simp: chunks_rec less_diff_conv add.commute)
  next
    case 2
    then show ?case
      using "1.IH"(2) [of "i - 1"]
      by (cases "xs = []"; cases i) (auto simp: chunks_rec less_diff_conv add.commute)
  }
qed

lemma drop_eq_ConsD:
  "drop n xs = y # ys \<Longrightarrow> n < length xs \<and> xs ! n = y \<and> ys = drop (Suc n) xs"
  by (metis Cons_nth_drop_Suc drop_eq_Nil2 list.distinct(1) list.inject not_le)

section \<open>Bit fields\<close>

named_theorems mask_simps \<open>the masks of the wire formats as bit truncations\<close>

lemma word_mask_simps [mask_simps]:
  "(w :: u16) AND 0x0FFF = take_bit 12 w"
  "(w :: u16) AND 3 = take_bit 2 w"
  "(w :: u16) AND 1 = take_bit 1 w"
  "(b :: u8) AND 1 = take_bit 1 b"
  "(b :: u8) AND 3 = take_bit 2 b"
  "(b :: u8) AND 0x3F = take_bit 6 b"
  "(b :: u8) AND 0x7F = take_bit 7 b"
  by (simp_all add: take_bit_eq_mask mask_eq_exp_minus_1)

lemma word_bit_below:
  fixes w :: "'a::len word"
  assumes "unat w < 2 ^ k" and "bit w n"
  shows "n < k"
proof (rule ccontr)
  assume "\<not> n < k"
  then have "(2::nat) ^ k \<le> 2 ^ n" by (simp add: power_increasing)
  moreover have "bit (unat w) n" using assms(2) by (simp add: bit_unsigned_iff)
  then have "2 ^ n \<le> unat w"
    by (metis bit_iff_odd div_less even_zero not_le)
  ultimately show False using assms(1) by linarith
qed

lemma field_high_bits:
  "unat (h :: u16) < 4096 \<Longrightarrow> 12 \<le> n \<Longrightarrow> \<not> bit h n"
  "unat (b :: u8) < 4 \<Longrightarrow> 2 \<le> n \<Longrightarrow> \<not> bit b n"
  "unat (b :: u8) < 2 \<Longrightarrow> Suc 0 \<le> n \<Longrightarrow> \<not> bit b n"
  "unat (b :: u8) < 64 \<Longrightarrow> 6 \<le> n \<Longrightarrow> \<not> bit b n"
  "unat (b :: u8) < 128 \<Longrightarrow> 7 \<le> n \<Longrightarrow> \<not> bit b n"
  using word_bit_below [of h 12 n] word_bit_below [of b 2 n] word_bit_below [of b 1 n]
    word_bit_below [of b 6 n] word_bit_below [of b 7 n]
  by force+

lemma field_bits_below:
  "unat (h :: u16) < 4096 \<Longrightarrow> bit h n \<Longrightarrow> n < 12"
  "unat (b :: u8) < 4 \<Longrightarrow> bit b n \<Longrightarrow> n < 2"
  "unat (b :: u8) < 2 \<Longrightarrow> bit b n \<Longrightarrow> n = 0"
  "unat (b :: u8) < 64 \<Longrightarrow> bit b n \<Longrightarrow> n < 6"
  "unat (b :: u8) < 128 \<Longrightarrow> bit b n \<Longrightarrow> n < 7"
  using word_bit_below [of h 12 n] word_bit_below [of b 2 n] word_bit_below [of b 1 n]
    word_bit_below [of b 6 n] word_bit_below [of b 7 n]
  by simp_all

section \<open>Codecs\<close>

text \<open>
  The contract of a wire format: an encoder, a decoder and the values the
  format can carry. Decoding an encoding gives the value back, so on those
  values the encoding is unambiguous.
\<close>

locale codec =
  fixes enc :: "'a \<Rightarrow> bytes"
    and dec :: "bytes \<Rightarrow> 'a result"
    and wf :: "'a \<Rightarrow> bool"
  assumes dec_enc: "wf x \<Longrightarrow> dec (enc x) = Ok x"
begin

lemma enc_inject: "wf x \<Longrightarrow> wf y \<Longrightarrow> enc x = enc y \<longleftrightarrow> x = y"
  using dec_enc by (metis rresult.inject(1))

lemma dec_enc_all: "list_all wf xs \<Longrightarrow> map (dec \<circ> enc) xs = map Ok xs"
  by (induction xs) (simp_all add: dec_enc)

end

end
