(* ===== verification/L2cap_Pdu.thy ===== *)
theory L2cap_Pdu
  imports Prelude
begin

text \<open>
  The frame layer of \<open>bumble-l2cap/src/lib.rs\<close>: the CRC-16 frame check sequence, the
  variable-length PSM field and the basic PDU; and, from \<open>bumble-l2cap/src/classic.rs\<close>,
  the FCS of ERTM frames and the validation of PSM values.
\<close>

section \<open>Frame check sequence\<close>

definition crc_step :: "u16 \<Rightarrow> u16" where
  "crc_step crc = (if crc AND 1 \<noteq> 0 then drop_bit 1 crc XOR 0xA001 else drop_bit 1 crc)"

definition crc_byte :: "u16 \<Rightarrow> u8 \<Rightarrow> u16" where
  "crc_byte crc b = (crc_step ^^ 8) (crc XOR ucast b)"

definition crc_16 :: "bytes \<Rightarrow> u16" where
  "crc_16 data = foldl crc_byte 0 data"

section \<open>Protocol/service multiplexer values\<close>

lemma unat_drop_bit_8_less:
  assumes "(w :: u32) \<noteq> 0"
  shows "unat (drop_bit 8 w) < unat w"
proof -
  have "0 < unat w" using assms by (simp add: unat_gt_0)
  then show ?thesis by (simp add: drop_bit_eq_div unat_div)
qed

function psm_tail :: "u32 \<Rightarrow> bytes" where
  "psm_tail rest = (if rest \<noteq> 0 then ucast (rest AND 0xFF) # psm_tail (drop_bit 8 rest) else [])"
  by pat_completeness auto
termination
  by (relation "measure unat") (simp_all add: unat_drop_bit_8_less)

declare psm_tail.simps [simp del]

definition serialize_psm :: "u32 \<Rightarrow> bytes" where
  "serialize_psm psm = u16_to_le_bytes (ucast (psm AND 0xFFFF)) @ psm_tail (drop_bit 16 psm)"

text \<open>
  The loop of \<open>parse_psm\<close>. Shifting a \<open>u32\<close> by 32 or more is a panic.
\<close>

function parse_psm_loop :: "bytes \<Rightarrow> nat \<Rightarrow> u32 \<Rightarrow> nat \<Rightarrow> (nat \<times> u32) result" where
  "parse_psm_loop data offset psm psm_length =
     (if odd (unat (data ! (offset + psm_length - 1))) then
        if offset + psm_length \<ge> length data then invalid ''truncated PSM''
        else if 8 * psm_length \<ge> 32 then Panic ''attempt to shift left with overflow''
        else parse_psm_loop data offset
               (psm OR push_bit (8 * psm_length) (ucast (data ! (offset + psm_length))))
               (psm_length + 1)
      else Ok (offset + psm_length, psm))"
  by pat_completeness auto
termination
  by (relation "measure (\<lambda>(data, offset, psm, n). length data - (offset + n))") auto

declare parse_psm_loop.simps [simp del]

definition parse_psm :: "bytes \<Rightarrow> nat \<Rightarrow> (nat \<times> u32) result" where
  "parse_psm data offset =
     (if offset + 2 > length data then invalid ''not enough data for PSM''
      else parse_psm_loop data offset
             (ucast (data ! offset) OR push_bit 8 (ucast (data ! (offset + 1)))) 2)"

text \<open>\<open>validate_psm\<close> of the Classic channel manager.\<close>

function psm_high_even :: "u32 \<Rightarrow> bool" where
  "psm_high_even high =
     (if high \<noteq> 0 then if high AND 1 \<noteq> 0 then False else psm_high_even (drop_bit 8 high) else True)"
  by pat_completeness auto
termination
  by (relation "measure unat") (simp_all add: unat_drop_bit_8_less)

declare psm_high_even.simps [simp del]

definition validate_psm :: "u32 \<Rightarrow> unit result" where
  "validate_psm psm =
     (if psm = 0 \<or> psm AND 1 = 0 then invalid ''invalid Classic PSM''
      else if psm_high_even (drop_bit 8 psm) then Ok ()
      else invalid ''invalid Classic PSM'')"

section \<open>The basic PDU\<close>

record l2cap_pdu =
  cid :: u16
  pdu_payload :: bytes

definition l2cap_pdu_new :: "u16 \<Rightarrow> bytes \<Rightarrow> l2cap_pdu" where
  "l2cap_pdu_new c payload = \<lparr>cid = c, pdu_payload = payload\<rparr>"

definition pdu_from_bytes :: "bytes \<Rightarrow> l2cap_pdu result" where
  "pdu_from_bytes data =
     (if length data < 4 then invalid ''not enough data for L2CAP header''
      else let len = unat (u16_from_le_bytes (data ! 0) (data ! 1));
               end_pos = min (4 + len) (length data)
           in Ok \<lparr>cid = u16_from_le_bytes (data ! 2) (data ! 3),
                  pdu_payload = drop 4 (take end_pos data)\<rparr>)"

definition pdu_to_bytes :: "bool \<Rightarrow> l2cap_pdu \<Rightarrow> bytes" where
  "pdu_to_bytes with_fcs pdu =
     (let len = length (pdu_payload pdu) + (if with_fcs then 2 else 0);
          body = u16_to_le_bytes (of_nat len) @ u16_to_le_bytes (cid pdu) @ pdu_payload pdu
      in if with_fcs then body @ u16_to_le_bytes (crc_16 body) else body)"

section \<open>The FCS of ERTM frames\<close>

definition append_fcs :: "u16 \<Rightarrow> bytes \<Rightarrow> bytes result" where
  "append_fcs c payload =
     (if length payload + 2 > 65535 then invalid ''ERTM frame is too large''
      else let checked = u16_to_le_bytes (of_nat (length payload + 2)) @ u16_to_le_bytes c @ payload
           in Ok (payload @ u16_to_le_bytes (crc_16 checked)))"

definition verify_and_strip_fcs :: "u16 \<Rightarrow> bytes \<Rightarrow> bytes result" where
  "verify_and_strip_fcs c payload =
     (if length payload < 2 then invalid ''ERTM frame is missing its FCS''
      else if length payload > 65535 then invalid ''ERTM frame is too large''
      else let split = length payload - 2;
               expected = u16_from_le_bytes (payload ! split) (payload ! (split + 1));
               checked = u16_to_le_bytes (of_nat (length payload)) @ u16_to_le_bytes c @ take split payload
           in if crc_16 checked \<noteq> expected then invalid ''ERTM frame has an invalid FCS''
              else Ok (take split payload))"

section \<open>Lemmas on the CRC\<close>

lemma odd_word_and_1: "(w :: u16) AND 1 \<noteq> 0 \<longleftrightarrow> bit w 0"
  by (simp add: mask_simps take_bit_Suc bit_0 even_iff_mod_2_eq_zero)

lemma crc_poly_bits: "bit (0xA001 :: u16) 15"
  by simp

text \<open>The top bit of the result tells which branch was taken, so a step is reversible.\<close>

lemma crc_step_top: "bit (crc_step c) 15 \<longleftrightarrow> bit c 0"
  using bit_imp_le_length [of c 16]
  by (auto simp: crc_step_def odd_word_and_1 bit_simps)

lemma inj_crc_step: "inj crc_step"
proof (rule injI)
  fix c d :: u16
  assume eq: "crc_step c = crc_step d"
  then have b0: "bit c 0 \<longleftrightarrow> bit d 0" using crc_step_top by metis
  have shift: "drop_bit 1 c = drop_bit 1 d"
  proof (cases "bit c 0")
    case True
    with eq b0 have "(drop_bit 1 c XOR 0xA001) XOR 0xA001 = (drop_bit 1 d XOR 0xA001) XOR 0xA001"
      by (simp add: crc_step_def odd_word_and_1)
    then show ?thesis by (simp add: xor.assoc)
  next
    case False
    with eq b0 show ?thesis by (simp add: crc_step_def odd_word_and_1)
  qed
  show "c = d"
  proof (rule bit_word_eqI)
    fix n
    have "bit (drop_bit 1 c) (n - 1) = bit (drop_bit 1 d) (n - 1)" by (simp only: shift)
    then show "bit c n = bit d n" using b0 by (cases n) (simp_all add: bit_drop_bit_eq)
  qed
qed

lemma inj_funpow: "inj (f :: u16 \<Rightarrow> u16) \<Longrightarrow> inj (f ^^ n)"
  by (induction n) (auto intro: inj_compose)

lemma crc_byte_inj_byte: "crc_byte c a = crc_byte c b \<longleftrightarrow> a = b"
proof
  assume "crc_byte c a = crc_byte c b"
  then have "c XOR ucast a = c XOR (ucast b :: u16)"
    using inj_funpow [OF inj_crc_step, of 8] by (auto simp: crc_byte_def dest: injD)
  then have "(ucast a :: u16) = ucast b"
    by (metis xor.assoc xor_self_eq xor.left_neutral)
  then show "a = b" by (metis u16_to_from_le list.inject u16_from_le_bytes_def)
qed simp

lemma crc_byte_inj_crc: "crc_byte c b = crc_byte d b \<longleftrightarrow> c = d"
proof
  assume "crc_byte c b = crc_byte d b"
  then have "c XOR ucast b = d XOR (ucast b :: u16)"
    using inj_funpow [OF inj_crc_step, of 8] by (auto simp: crc_byte_def dest: injD)
  then show "c = d" by (metis xor.assoc xor_self_eq xor.right_neutral)
qed simp

lemma foldl_crc_inj: "foldl crc_byte c ys = foldl crc_byte d ys \<longleftrightarrow> c = d"
  by (induction ys arbitrary: c d) (simp_all add: crc_byte_inj_crc)

text \<open>Any corruption confined to one byte changes the CRC.\<close>

lemma crc_16_one_byte: "crc_16 (xs @ a # ys) = crc_16 (xs @ b # ys) \<longleftrightarrow> a = b"
  by (simp add: crc_16_def foldl_crc_inj crc_byte_inj_byte)


text \<open>Eight steps on a word whose low byte is zero only shift it.\<close>

lemma crc_steps_shift:
  "(\<forall>i < n. \<not> bit c i) \<Longrightarrow> (crc_step ^^ n) c = drop_bit n c"
proof (induction n arbitrary: c)
  case (Suc n)
  then have "crc_step c = drop_bit 1 c" by (simp add: crc_step_def odd_word_and_1)
  then have "(crc_step ^^ Suc n) c = (crc_step ^^ n) (drop_bit 1 c)"
    by (simp only: funpow_Suc_right o_apply)
  also have "\<dots> = drop_bit n (drop_bit 1 c)"
    using Suc.prems by (intro Suc.IH) (simp add: bit_drop_bit_eq)
  finally show ?case by simp
qed simp

text \<open>Running the CRC over its own little-endian bytes clears it.\<close>

lemma crc_self: "foldl crc_byte c (u16_to_le_bytes c) = 0"
proof -
  have "crc_byte c (ucast c) = drop_bit 8 (c XOR ucast (ucast c :: u8))"
    unfolding crc_byte_def by (rule crc_steps_shift) (auto simp: bit_simps)
  also have "\<dots> = drop_bit 8 c"
    by (rule bit_word_eqI) (auto simp: bit_simps)
  finally have first: "crc_byte c (ucast c) = drop_bit 8 c" .
  have "drop_bit 8 c XOR ucast (ucast (drop_bit 8 c) :: u8) = 0"
    using bit_imp_le_length [of c] by (intro bit_word_eqI) (force simp: bit_simps)
  then have "crc_byte (drop_bit 8 c) (ucast (drop_bit 8 c)) = 0"
    unfolding crc_byte_def using crc_steps_shift [of 8 0] by simp
  with first show ?thesis by (simp add: u16_to_le_bytes_def)
qed

lemma crc_16_residue: "crc_16 (data @ u16_to_le_bytes (crc_16 data)) = 0"
  by (simp add: crc_16_def crc_self)

section \<open>Lemmas on the PDU codec\<close>

definition pdu_wf :: "l2cap_pdu \<Rightarrow> bool" where
  "pdu_wf pdu \<longleftrightarrow> length (pdu_payload pdu) \<le> 65535"

lemma u16_to_le_bytes_nth [simp]:
  "u16_from_le_bytes ((u16_to_le_bytes w @ xs) ! 0) ((u16_to_le_bytes w @ xs) ! Suc 0) = w"
  by (simp add: u16_to_le_bytes_def)

lemma pdu_from_bytes_parts:
  "pdu_from_bytes (u16_to_le_bytes n @ u16_to_le_bytes c @ payload) =
     Ok \<lparr>cid = c, pdu_payload = take (unat n) payload\<rparr>"
  by (simp add: pdu_from_bytes_def Let_def u16_to_le_bytes_def min_def take_Cons')

lemma pdu_dec_enc: "pdu_wf pdu \<Longrightarrow> pdu_from_bytes (pdu_to_bytes False pdu) = Ok pdu"
  by (simp add: pdu_to_bytes_def Let_def pdu_from_bytes_parts pdu_wf_def unat_of_nat_u16)

interpretation pdu: codec "pdu_to_bytes False" pdu_from_bytes pdu_wf
  by unfold_locales (rule pdu_dec_enc)

lemma verify_append_fcs:
  "append_fcs c payload = Ok framed \<Longrightarrow> verify_and_strip_fcs c framed = Ok payload"
  by (auto simp: append_fcs_def verify_and_strip_fcs_def Let_def u16_to_le_bytes_def nth_append
      split: if_splits)


section \<open>Lemmas on PSM values\<close>

lemma drop_bit_eq_0_iff: "drop_bit n (w :: u32) = 0 \<longleftrightarrow> unat w < 2 ^ n"
proof -
  have "unat (drop_bit n w) = unat w div 2 ^ n"
    by (simp only: unat_drop_bit_eq) (simp only: drop_bit_eq_div)
  then show ?thesis by (metis div_eq_0_iff unat_eq_zero power_not_zero zero_neq_numeral)
qed

lemma odd_unat_iff: "odd (unat (b :: u8)) \<longleftrightarrow> bit b 0"
  by (simp add: bit_unsigned_iff flip: bit_0)

text \<open>The bytes of a PSM, little end first.\<close>

abbreviation psm_byte :: "u32 \<Rightarrow> nat \<Rightarrow> u8" where
  "psm_byte psm i \<equiv> ucast (drop_bit (8 * i) psm)"

lemma serialize_psm_bytes:
  "serialize_psm psm = psm_byte psm 0 # psm_byte psm 1 #
     (if unat psm < 2 ^ 16 then []
      else if unat psm < 2 ^ 24 then [psm_byte psm 2] else [psm_byte psm 2, psm_byte psm 3])"
proof -
  have low: "u16_to_le_bytes (ucast (psm AND 0xFFFF)) = [psm_byte psm 0, psm_byte psm 1]"
  proof -
    have "psm AND 0xFFFF = take_bit 16 psm"
      by (simp add: take_bit_eq_mask mask_eq_exp_minus_1)
    then show ?thesis
      unfolding u16_to_le_bytes_def by (auto intro!: bit_word_eqI simp: bit_simps)
  qed
  have byte: "ucast (w AND 0xFF) = (ucast w :: u8)" for w :: u32
  proof -
    have "w AND 0xFF = take_bit 8 w" by (simp add: take_bit_eq_mask mask_eq_exp_minus_1)
    then show ?thesis by (auto intro!: bit_word_eqI simp: bit_simps)
  qed
  have dd: "drop_bit 8 (drop_bit 16 psm) = drop_bit 24 psm" "drop_bit 8 (drop_bit 24 psm) = 0"
    using unsigned_less [of psm]
    by (simp_all add: drop_bit_eq_0_iff)
  have tail: "psm_tail (drop_bit 16 psm) =
      (if unat psm < 2 ^ 16 then []
       else if unat psm < 2 ^ 24 then [psm_byte psm 2] else [psm_byte psm 2, psm_byte psm 3])"
    by (simp add: psm_tail.simps [of "drop_bit 16 psm"] psm_tail.simps [of "drop_bit 24 psm"]
        psm_tail.simps [of 0] byte dd drop_bit_eq_0_iff)
  show ?thesis by (simp add: serialize_psm_def low tail)
qed

text \<open>
  The parser extends the field while the byte it read last is odd. These are
  the values whose serialization it reads back.
\<close>

definition psm_parsable :: "u32 \<Rightarrow> bool" where
  "psm_parsable psm \<longleftrightarrow>
     (unat psm < 2 ^ 16 \<and> \<not> bit psm 8) \<or>
     (2 ^ 16 \<le> unat psm \<and> unat psm < 2 ^ 24 \<and> bit psm 8 \<and> \<not> bit psm 16) \<or>
     (2 ^ 24 \<le> unat psm \<and> bit psm 8 \<and> bit psm 16 \<and> \<not> bit psm 24)"

lemma psm_byte_odd: "odd (unat (psm_byte psm i)) \<longleftrightarrow> bit psm (8 * i)"
  by (simp add: odd_unat_iff bit_simps del: bit_0)

lemma psm_high_zero: "unat (psm :: u32) < 2 ^ k \<Longrightarrow> k \<le> n \<Longrightarrow> \<not> bit psm n"
  using word_bit_below [of psm k n] by auto

lemma psm_low_bytes:
  "ucast (psm_byte psm 0) OR push_bit 8 (ucast (psm_byte psm 1)) = take_bit 16 (psm :: u32)"
  by (rule bit_word_eqI) (auto simp: bit_simps)

lemma psm_join_byte:
  "k = 8 * i \<Longrightarrow> take_bit k psm OR push_bit k (ucast (psm_byte psm i)) = take_bit (k + 8) (psm :: u32)"
  by (rule bit_word_eqI) (auto simp: bit_simps)

lemma parse_serialize_psm:
  assumes "psm_parsable psm"
  shows "parse_psm (serialize_psm psm @ rest) 0 = Ok (length (serialize_psm psm), psm)"
proof -
  have all: "take_bit 32 psm = psm" by (simp add: take_bit_length_eq [where 'a = 32, simplified])
  have low: "take_bit k psm = psm" if "unat psm < 2 ^ k" for k
    using word_bit_below [OF that] by (intro bit_word_eqI) (auto simp: bit_simps)
  consider "unat psm < 2 ^ 16" "\<not> bit psm 8"
    | "2 ^ 16 \<le> unat psm" "unat psm < 2 ^ 24" "bit psm 8" "\<not> bit psm 16"
    | "2 ^ 24 \<le> unat psm" "bit psm 8" "bit psm 16" "\<not> bit psm 24"
    using assms by (auto simp: psm_parsable_def)
  then show ?thesis
  proof cases
    case 1
    then show ?thesis
      using psm_byte_odd [of 1 psm] psm_low_bytes [of psm] low [of 16]
      by (simp add: parse_psm_def serialize_psm_bytes parse_psm_loop.simps)
  next
    case 2
    then show ?thesis
      using psm_byte_odd [of 1 psm] psm_byte_odd [of 2 psm] psm_low_bytes [of psm]
        psm_join_byte [of 16 2 psm] low [of 24]
      by (simp add: parse_psm_def serialize_psm_bytes parse_psm_loop.simps)
  next
    case 3
    then show ?thesis
      using psm_byte_odd [of 1 psm] psm_byte_odd [of 2 psm] psm_byte_odd [of 3 psm] psm_low_bytes [of psm]
        psm_join_byte [of 16 2 psm] psm_join_byte [of 24 3 psm] all
      by (simp add: parse_psm_def serialize_psm_bytes parse_psm_loop.simps)
  qed
qed

lemma validate_psm_Ok:
  assumes "validate_psm psm = Ok ()"
  shows "bit psm 0 \<and> \<not> bit psm 8"
proof -
  have one: "w AND 1 = 0 \<longleftrightarrow> \<not> bit w 0" for w :: u32
    by (simp add: and_one_eq bit_0 even_iff_mod_2_eq_zero)
  have "psm_high_even (drop_bit 8 psm)" and "bit psm 0"
    using assms by (auto simp: validate_psm_def one split: if_splits)
  moreover have "\<not> bit (drop_bit 8 psm) 0"
    using calculation(1) one [of "drop_bit 8 psm"]
    by (subst (asm) psm_high_even.simps) (auto split: if_splits)
  ultimately show ?thesis by (simp add: bit_drop_bit_eq)
qed

lemma parse_stops_after_two:
  assumes "\<not> bit psm 8"
  shows "parse_psm (serialize_psm psm @ rest) 0 = Ok (2, take_bit 16 psm)"
  using assms psm_byte_odd [of 1 psm] psm_low_bytes [of psm]
  by (simp add: parse_psm_def serialize_psm_bytes parse_psm_loop.simps)

lemma list_length_2: "length xs = 2 \<Longrightarrow> \<exists>a b. xs = [a, b]"
  by (auto simp: numeral_2_eq_2 length_Suc_conv)

section \<open>Properties\<close>

text \<open>
  A basic PDU of at most 65535 payload bytes survives serialization and
  parsing, and the bytes after it are not read into it.
\<close>

theorem l2cap_pdu_roundtrip:
  assumes "pdu_wf pdu"
  shows "pdu_from_bytes (pdu_to_bytes False pdu) = Ok pdu \<and>
    pdu_from_bytes (pdu_to_bytes False pdu @ rest) = Ok pdu"
  using assms
  by (simp add: pdu.dec_enc) (simp add: pdu_to_bytes_def Let_def pdu_from_bytes_parts pdu_wf_def unat_of_nat_u16)

theorem l2cap_pdu_roundtrip_witness:
  "pdu_from_bytes (pdu_to_bytes False \<lparr>cid = 0x40, pdu_payload = [1, 2, 3]\<rparr> @ [9]) =
     Ok \<lparr>cid = 0x40, pdu_payload = [1, 2, 3]\<rparr>"
  using l2cap_pdu_roundtrip [of "\<lparr>cid = 0x40, pdu_payload = [1, 2, 3]\<rparr>" "[9]"]
  by (simp add: pdu_wf_def)

text \<open>
  The CRC over a frame followed by its own frame check sequence is zero, so a
  serialized PDU with FCS always has residue zero.
\<close>

theorem pdu_fcs_residue: "crc_16 (pdu_to_bytes True pdu) = 0"
  using crc_16_residue [of "u16_to_le_bytes (of_nat (length (pdu_payload pdu) + 2)) @
      u16_to_le_bytes (cid pdu) @ pdu_payload pdu"]
  by (simp add: pdu_to_bytes_def Let_def)

text \<open>
  Property C33: an ERTM frame with an FCS is accepted and stripped to what was sent, and a frame in
  which any single byte was altered is refused.
\<close>

theorem fcs_detects_corruption:
  assumes "append_fcs c payload = Ok framed"
  shows "verify_and_strip_fcs c framed = Ok payload \<and>
    (\<forall>i x. i < length framed \<and> x \<noteq> framed ! i \<longrightarrow>
       verify_and_strip_fcs c (framed[i := x]) = invalid ''ERTM frame has an invalid FCS'')"
proof (intro conjI allI impI)
  show "verify_and_strip_fcs c framed = Ok payload"
    using assms by (rule verify_append_fcs)
next
  fix i x
  assume i: "i < length framed \<and> x \<noteq> framed ! i"
  define hdr where "hdr = u16_to_le_bytes (of_nat (length payload + 2)) @ u16_to_le_bytes c"
  define f where "f = u16_to_le_bytes (crc_16 (hdr @ payload))"
  have len: "length payload + 2 \<le> 65535" and framed: "framed = payload @ f" and f2: "length f = 2"
    using assms by (auto simp: append_fcs_def Let_def hdr_def f_def split: if_splits)
  have verify: "verify_and_strip_fcs c (p @ u16_to_le_bytes w) =
      (if crc_16 (hdr @ p) \<noteq> w then invalid ''ERTM frame has an invalid FCS'' else Ok p)"
    if "length p = length payload" for p w
    using that len by (simp add: verify_and_strip_fcs_def Let_def hdr_def u16_to_le_bytes_def nth_append)
  show "verify_and_strip_fcs c (framed[i := x]) = invalid ''ERTM frame has an invalid FCS''"
  proof (cases "i < length payload")
    case True
    have split: "payload = take i payload @ payload ! i # drop (Suc i) payload"
      using True by (rule id_take_nth_drop)
    have "crc_16 (hdr @ payload[i := x]) \<noteq> crc_16 (hdr @ payload)"
      using i True framed crc_16_one_byte [of "hdr @ take i payload" x "drop (Suc i) payload" "payload ! i"]
      by (metis append.assoc nth_append split upd_conv_take_nth_drop)
    with True show ?thesis
      using verify [of "payload[i := x]" "crc_16 (hdr @ payload)"]
      by (simp add: framed f_def list_update_append1)
  next
    case False
    define j where "j = i - length payload"
    have j: "j < 2" and upd: "framed[i := x] = payload @ f[j := x]" and "x \<noteq> f ! j"
      using False i f2 by (auto simp: framed j_def list_update_append nth_append)
    have "length (f[j := x]) = 2" using f2 by simp
    then obtain a b where "f[j := x] = [a, b]" by (metis list_length_2)
    then obtain w where w: "f[j := x] = u16_to_le_bytes w" using u16_to_from_le by metis
    have "f[j := x] \<noteq> f"
      using j f2 \<open>x \<noteq> f ! j\<close> by (metis nth_list_update_eq)
    then have "crc_16 (hdr @ payload) \<noteq> w" using w f_def by auto
    with verify [of payload w] show ?thesis by (simp add: upd w)
  qed
qed

theorem fcs_detects_corruption_witness:
  "\<exists>framed. append_fcs 0x40 [1, 2, 3] = Ok framed \<and> verify_and_strip_fcs 0x40 framed = Ok [1, 2, 3] \<and>
     verify_and_strip_fcs 0x40 (framed[0 := 7]) = invalid ''ERTM frame has an invalid FCS''"
proof -
  obtain framed where f: "append_fcs 0x40 [1, 2, 3] = Ok framed" and "framed ! 0 = 1" "0 < length framed"
    by (simp add: append_fcs_def Let_def)
  moreover from fcs_detects_corruption [OF f]
  have "verify_and_strip_fcs 0x40 framed = Ok [1, 2, 3]"
    and "\<forall>i x. i < length framed \<and> x \<noteq> framed ! i \<longrightarrow>
       verify_and_strip_fcs 0x40 (framed[i := x]) = invalid ''ERTM frame has an invalid FCS''"
    by blast+
  ultimately show ?thesis by (intro exI [of _ framed]) simp
qed

text \<open>
  A PSM that fits 16 bits and passes \<open>validate_psm\<close> is read back from its
  serialization; one that passes \<open>validate_psm\<close> but needs more than 16 bits never is: the
  parser stops after two bytes and drops the high part.
\<close>

theorem psm_valid_roundtrip:
  assumes "validate_psm psm = Ok ()"
  shows "if unat psm < 2 ^ 16
    then parse_psm (serialize_psm psm @ rest) 0 = Ok (length (serialize_psm psm), psm)
    else parse_psm (serialize_psm psm @ rest) 0 = Ok (2, take_bit 16 psm) \<and> take_bit 16 psm \<noteq> psm \<and>
      2 < length (serialize_psm psm)"
proof (cases "unat psm < 2 ^ 16")
  case True
  then have "psm_parsable psm" using validate_psm_Ok [OF assms] by (simp add: psm_parsable_def)
  with True show ?thesis by (simp add: parse_serialize_psm)
next
  case False
  have "unat (take_bit 16 psm) < 2 ^ 16"
    by (metis unsigned_take_bit_eq take_bit_nat_less_exp)
  with False show ?thesis
    using parse_stops_after_two [of psm rest] validate_psm_Ok [OF assms]
    by (auto simp: serialize_psm_bytes)
qed

theorem psm_valid_roundtrip_witness:
  "parse_psm (serialize_psm 0x1001 @ [7]) 0 = Ok (length (serialize_psm 0x1001), 0x1001) \<and>
   parse_psm (serialize_psm 0x20001 @ [7]) 0 = Ok (2, 1)"
proof -
  have a: "validate_psm 0x1001 = Ok ()" and b: "validate_psm 0x20001 = Ok ()"
    by (simp_all add: validate_psm_def psm_high_even.simps)
  show ?thesis using psm_valid_roundtrip [OF a, of "[7]"] psm_valid_roundtrip [OF b, of "[7]"] by simp
qed

end
