(* ===== verification/Ertm.thy ===== *)
theory Ertm
  imports L2cap_Pdu
begin

text \<open>
  Enhanced Retransmission Mode, \<open>bumble-l2cap/src/ertm.rs\<close>: the control field codec and the
  \<open>ErtmEngine\<close>, one definition per method, with its invariant.
\<close>

section \<open>Control field\<close>

definition ERTM_SEQUENCE_MODULUS :: u8 where
  "ERTM_SEQUENCE_MODULUS = 64"

datatype segmentation_and_reassembly = Unsegmented | Start | End | Continuation

fun sar_of_u8 :: "u8 \<Rightarrow> segmentation_and_reassembly result" where
  "sar_of_u8 v =
     (if v = 0 then Ok Unsegmented else if v = 1 then Ok Start
      else if v = 2 then Ok End else if v = 3 then Ok Continuation
      else invalid ''invalid ERTM SAR value'')"

fun sar_to_u8 :: "segmentation_and_reassembly \<Rightarrow> u8" where
  "sar_to_u8 Unsegmented = 0"
| "sar_to_u8 Start = 1"
| "sar_to_u8 End = 2"
| "sar_to_u8 Continuation = 3"

datatype supervisory_function = ReceiverReady | Reject | ReceiverNotReady | SelectiveReject

fun supervisory_of_u8 :: "u8 \<Rightarrow> supervisory_function result" where
  "supervisory_of_u8 v =
     (if v = 0 then Ok ReceiverReady else if v = 1 then Ok Reject
      else if v = 2 then Ok ReceiverNotReady else if v = 3 then Ok SelectiveReject
      else invalid ''invalid ERTM supervisory function'')"

fun supervisory_to_u8 :: "supervisory_function \<Rightarrow> u8" where
  "supervisory_to_u8 ReceiverReady = 0"
| "supervisory_to_u8 Reject = 1"
| "supervisory_to_u8 ReceiverNotReady = 2"
| "supervisory_to_u8 SelectiveReject = 3"

text \<open>
  \<open>Information tx_seq final_bit req_seq sar\<close> and
  \<open>Supervisory function poll final_bit req_seq\<close>.
\<close>

datatype enhanced_control_field =
    Information u8 bool u8 segmentation_and_reassembly
  | Supervisory supervisory_function bool bool u8

definition control_field_from_bytes :: "bytes \<Rightarrow> enhanced_control_field result" where
  "control_field_from_bytes data =
     (if length data < 2 then invalid ''truncated ERTM control field''
      else let d0 = data ! 0; d1 = data ! 1
      in if d0 AND 1 = 0 then
           bind_result (sar_of_u8 (drop_bit 6 d1)) (\<lambda>sar.
             Ok (Information (drop_bit 1 d0 AND 0x3F) (d0 AND 0x80 \<noteq> 0) (d1 AND 0x3F) sar))
         else
           bind_result (supervisory_of_u8 (drop_bit 2 d0 AND 3)) (\<lambda>function.
             Ok (Supervisory function (d0 AND 0x10 \<noteq> 0) (d0 AND 0x80 \<noteq> 0) (d1 AND 0x3F))))"

definition validate_seq :: "string \<Rightarrow> u8 \<Rightarrow> u8 result" where
  "validate_seq msg value = (if value < ERTM_SEQUENCE_MODULUS then Ok value else invalid msg)"

fun control_field_to_bytes :: "enhanced_control_field \<Rightarrow> bytes result" where
  "control_field_to_bytes (Information tx_seq final_bit req_seq sar) =
     bind_result (validate_seq ''ERTM transmit sequence number out of range'' tx_seq) (\<lambda>tx.
     bind_result (validate_seq ''ERTM request sequence number out of range'' req_seq) (\<lambda>req.
       Ok [push_bit 1 tx OR push_bit 7 (of_bool final_bit), req OR push_bit 6 (sar_to_u8 sar)]))"
| "control_field_to_bytes (Supervisory function poll final_bit req_seq) =
     bind_result (validate_seq ''ERTM request sequence number out of range'' req_seq) (\<lambda>req.
       Ok [1 OR push_bit 2 (supervisory_to_u8 function) OR push_bit 4 (of_bool poll) OR
           push_bit 7 (of_bool final_bit), req])"

fun control_req_seq :: "enhanced_control_field \<Rightarrow> u8" where
  "control_req_seq (Information _ _ req_seq _) = req_seq"
| "control_req_seq (Supervisory _ _ _ req_seq) = req_seq"

section \<open>Configuration and frames\<close>

record ertm_config =
  local_mtu :: u16
  peer_mtu :: u16
  local_mps :: u16
  peer_mps :: u16
  tx_window_size :: u8
  max_retransmissions :: u8
  retransmission_timeout_ticks :: u32

definition ertm_config_default :: ertm_config where
  "ertm_config_default = \<lparr>local_mtu = 2048, peer_mtu = 2048, local_mps = 1010, peer_mps = 1010,
     tx_window_size = 63, max_retransmissions = 0, retransmission_timeout_ticks = 2000\<rparr>"

definition ertm_validate :: "ertm_config \<Rightarrow> ertm_config result" where
  "ertm_validate c =
     (if local_mtu c = 0 \<or> peer_mtu c = 0 then invalid ''ERTM MTU cannot be zero''
      else if local_mps c = 0 \<or> peer_mps c = 0 then invalid ''ERTM MPS cannot be zero''
      else if \<not> (1 \<le> tx_window_size c \<and> tx_window_size c < ERTM_SEQUENCE_MODULUS) then
        invalid ''ERTM transmit window must be between 1 and 63''
      else if retransmission_timeout_ticks c = 0 then
        invalid ''ERTM retransmission timeout cannot be zero''
      else Ok c)"

record pending_frame =
  pf_payload :: bytes
  pf_tx_seq :: u8
  pf_sar :: segmentation_and_reassembly
  pf_sdu_length :: "u16 option"

definition encode_frame :: "pending_frame \<Rightarrow> u8 \<Rightarrow> bool \<Rightarrow> bytes result" where
  "encode_frame f req_seq final_bit =
     bind_result (control_field_to_bytes (Information (pf_tx_seq f) final_bit req_seq (pf_sar f)))
       (\<lambda>frame. Ok (frame @ (case pf_sdu_length f of Some n \<Rightarrow> u16_to_le_bytes n | None \<Rightarrow> []) @
                    pf_payload f))"

record transmitted_frame =
  tf_frame :: pending_frame
  transmissions :: u16

record ertm_engine =
  config :: ertm_config
  pending :: "pending_frame list"
  tx_window :: "transmitted_frame list"
  outbound :: "bytes list"
  received :: "bytes list"
  next_tx_seq :: u8
  last_acked_tx_seq :: u8
  expected_tx_seq :: u8
  last_acked_rx_seq :: u8
  remote_busy :: bool
  local_busy :: bool
  input_sdu :: bytes
  input_sdu_length :: "nat option"
  now :: u64
  retransmission_deadline :: "u64 option"
  failed :: bool

type_synonym 'a ertm_op = "(ertm_engine, 'a, rust_error) op"

definition ertm_new :: "ertm_config \<Rightarrow> ertm_engine result" where
  "ertm_new c = bind_result (ertm_validate c) (\<lambda>c.
     Ok \<lparr>config = c, pending = [], tx_window = [], outbound = [], received = [], next_tx_seq = 0,
         last_acked_tx_seq = 0, expected_tx_seq = 0, last_acked_rx_seq = 0, remote_busy = False,
         local_busy = False, input_sdu = [], input_sdu_length = None, now = 0,
         retransmission_deadline = None, failed = False\<rparr>)"

section \<open>Sequence numbers and the clock\<close>

definition sequence_add :: "u8 \<Rightarrow> u8 \<Rightarrow> u8" where
  "sequence_add s d = (s + d) mod ERTM_SEQUENCE_MODULUS"

definition sequence_distance :: "u8 \<Rightarrow> u8 \<Rightarrow> u8" where
  "sequence_distance f t = (t + ERTM_SEQUENCE_MODULUS - f) mod ERTM_SEQUENCE_MODULUS"

definition u64_saturating_add :: "u64 \<Rightarrow> u64 \<Rightarrow> u64" where
  "u64_saturating_add a b = (if unat a + unat b < 2 ^ 64 then a + b else - 1)"

definition take_tx_seq :: "ertm_engine \<Rightarrow> u8 \<times> ertm_engine" where
  "take_tx_seq e = (next_tx_seq e, e\<lparr>next_tx_seq := sequence_add (next_tx_seq e) 1\<rparr>)"

definition refresh_retransmission_deadline :: "ertm_engine \<Rightarrow> ertm_engine" where
  "refresh_retransmission_deadline e =
     e\<lparr>retransmission_deadline :=
         (if tx_window e \<noteq> [] then
            Some (u64_saturating_add (now e) (ucast (retransmission_timeout_ticks (config e))))
          else None)\<rparr>"

definition reset_input :: "ertm_engine \<Rightarrow> ertm_engine" where
  "reset_input e = e\<lparr>input_sdu := [], input_sdu_length := None\<rparr>"

definition ensure_active :: "unit ertm_op" where
  "ensure_active e = (if failed e then invalid ''ERTM engine has failed'' else Ok (), e)"

section \<open>Output\<close>

function process_output_loop :: "unit ertm_op" where
  "process_output_loop e =
     (if length (tx_window e) < unat (tx_window_size (config e)) then
        (case pending e of
           [] \<Rightarrow> (Ok (), e)
         | frame # rest \<Rightarrow>
             (case encode_frame frame (expected_tx_seq e) False of
                Ok encoded \<Rightarrow>
                  process_output_loop
                    (e\<lparr>pending := rest, last_acked_rx_seq := expected_tx_seq e,
                       tx_window := tx_window e @ [\<lparr>tf_frame = frame, transmissions = 1\<rparr>],
                       outbound := outbound e @ [encoded]\<rparr>)
              | Err x \<Rightarrow> (Err x, e\<lparr>pending := rest\<rparr>)
              | Panic m \<Rightarrow> (Panic m, e\<lparr>pending := rest\<rparr>)))
      else (Ok (), e))"
  by pat_completeness auto
termination
  by (relation "measure (\<lambda>e. length (pending e))") auto

declare process_output_loop.simps [simp del]

definition process_output :: "unit ertm_op" where
  "process_output e =
     (if remote_busy e then (Ok (), e)
      else and_then process_output_loop
             (\<lambda>_ e. (Ok (), refresh_retransmission_deadline e)) e)"

definition retransmission_limit_reached :: "u8 \<Rightarrow> transmitted_frame \<Rightarrow> bool" where
  "retransmission_limit_reached limit frame =
     (let retransmissions = (if transmissions frame = 0 then 0 else transmissions frame - 1)
      in limit \<noteq> 0 \<and> retransmissions \<ge> ucast limit)"

definition retransmission_limit_error :: "u8 \<Rightarrow> 'a result" where
  "retransmission_limit_error tx_seq =
     invalid_fmt ''maximum retransmissions exceeded for ERTM sequence {tx_seq}'' [unat tx_seq]"

text \<open>
  Sending one outstanding frame again: \<open>transmissions += 1\<close> panics on overflow; the frame
  keeps its place in the window (\<open>earlier\<close>, \<open>after\<close>).
\<close>

definition resend_frame ::
  "transmitted_frame list \<Rightarrow> transmitted_frame \<Rightarrow> transmitted_frame list \<Rightarrow> unit ertm_op" where
  "resend_frame earlier frame after e =
     (if transmissions frame = 65535 then (Panic ''attempt to add with overflow'', e)
      else let e1 = e\<lparr>tx_window := earlier @ frame\<lparr>transmissions := transmissions frame + 1\<rparr> # after\<rparr>
      in case encode_frame (tf_frame frame) (expected_tx_seq e) False of
           Ok encoded \<Rightarrow> (Ok (), e1\<lparr>outbound := outbound e @ [encoded],
                                    last_acked_rx_seq := expected_tx_seq e\<rparr>)
         | Err x \<Rightarrow> (Err x, e1)
         | Panic m \<Rightarrow> (Panic m, e1))"

fun retransmit_loop :: "transmitted_frame list \<Rightarrow> transmitted_frame list \<Rightarrow> unit ertm_op" where
  "retransmit_loop earlier [] e = (Ok (), e)"
| "retransmit_loop earlier (frame # after) e =
     and_then (resend_frame earlier frame after)
       (\<lambda>_. retransmit_loop (earlier @ [frame\<lparr>transmissions := transmissions frame + 1\<rparr>]) after) e"

definition retransmit_all :: "unit ertm_op" where
  "retransmit_all e =
     (if remote_busy e then (Ok (), e)
      else case find (retransmission_limit_reached (max_retransmissions (config e))) (tx_window e) of
        Some frame \<Rightarrow> (retransmission_limit_error (pf_tx_seq (tf_frame frame)), e\<lparr>failed := True\<rparr>)
      | None \<Rightarrow> and_then (retransmit_loop [] (tx_window e))
                  (\<lambda>_ e. (Ok (), refresh_retransmission_deadline e)) e)"

definition retransmit_one :: "u8 \<Rightarrow> unit ertm_op" where
  "retransmit_one tx_seq e =
     (if remote_busy e then (Ok (), e)
      else let earlier = takeWhile (\<lambda>f. pf_tx_seq (tf_frame f) \<noteq> tx_seq) (tx_window e)
      in case drop (length earlier) (tx_window e) of
           [] \<Rightarrow> (invalid_fmt ''selective reject requested unknown ERTM sequence {tx_seq}'' [unat tx_seq], e)
         | frame # after \<Rightarrow>
             if retransmission_limit_reached (max_retransmissions (config e)) frame then
               (retransmission_limit_error (pf_tx_seq (tf_frame frame)), e\<lparr>failed := True\<rparr>)
             else and_then (resend_frame earlier frame after)
                    (\<lambda>_ e. (Ok (), refresh_retransmission_deadline e)) e)"

definition send_supervisory :: "supervisory_function \<Rightarrow> bool \<Rightarrow> bool \<Rightarrow> unit ertm_op" where
  "send_supervisory function poll final_bit e =
     (case control_field_to_bytes (Supervisory function poll final_bit (expected_tx_seq e)) of
        Ok bs \<Rightarrow> (Ok (), e\<lparr>outbound := outbound e @ [bs], last_acked_rx_seq := expected_tx_seq e\<rparr>)
      | Err x \<Rightarrow> (Err x, e)
      | Panic m \<Rightarrow> (Panic m, e))"

section \<open>Input\<close>

definition check_partial_length :: "unit ertm_op" where
  "check_partial_length e =
     (case input_sdu_length e of
        Some n \<Rightarrow>
          if length (input_sdu e) \<ge> n then
            (invalid ''ERTM segmented SDU reached its length before an end frame'', reset_input e)
          else (Ok (), e)
      | None \<Rightarrow> (Ok (), e))"

fun accept_information :: "segmentation_and_reassembly \<Rightarrow> bytes \<Rightarrow> unit ertm_op" where
  "accept_information Unsegmented p e =
     (if input_sdu e \<noteq> [] \<or> input_sdu_length e \<noteq> None then
        (invalid ''unsegmented frame interrupted an ERTM SDU'', reset_input e)
      else if length p > unat (local_mtu (config e)) then (invalid ''ERTM SDU exceeds local MTU'', e)
      else (Ok (), e\<lparr>received := received e @ [p]\<rparr>))"
| "accept_information Start p e =
     (if length p < 2 then (invalid ''ERTM start frame is missing SDU length'', e)
      else if input_sdu e \<noteq> [] \<or> input_sdu_length e \<noteq> None then
        (invalid ''ERTM start frame interrupted an SDU'', reset_input e)
      else let n = unat (u16_from_le_bytes (p ! 0) (p ! 1))
      in if n > unat (local_mtu (config e)) then (invalid ''ERTM SDU exceeds local MTU'', e)
         else check_partial_length
                (e\<lparr>input_sdu_length := Some n, input_sdu := input_sdu e @ drop 2 p\<rparr>))"
| "accept_information Continuation p e =
     (if input_sdu_length e = None then (invalid ''ERTM continuation without start'', e)
      else check_partial_length (e\<lparr>input_sdu := input_sdu e @ p\<rparr>))"
| "accept_information End p e =
     (case input_sdu_length e of
        None \<Rightarrow> (invalid ''ERTM end without start'', e)
      | Some n \<Rightarrow>
          let e1 = e\<lparr>input_sdu := input_sdu e @ p\<rparr>
          in if length (input_sdu e1) \<noteq> n then (invalid ''ERTM SDU length mismatch'', reset_input e1)
             else (Ok (), e1\<lparr>received := received e1 @ [input_sdu e1], input_sdu := [],
                             input_sdu_length := None\<rparr>))"

definition acknowledge :: "u8 \<Rightarrow> bool ertm_op" where
  "acknowledge new_seq e =
     (if new_seq \<ge> ERTM_SEQUENCE_MODULUS then (invalid ''ERTM acknowledgment sequence out of range'', e)
      else let count = unat (sequence_distance (last_acked_tx_seq e) new_seq)
      in if count > length (tx_window e) then
           (invalid_fmt ''ERTM acknowledged {count} frames with only {} outstanding''
              [count, length (tx_window e)], e)
         else let e1 = e\<lparr>tx_window := drop count (tx_window e)\<rparr>
         in if count \<noteq> 0 then
              (Ok True, refresh_retransmission_deadline (e1\<lparr>last_acked_tx_seq := new_seq\<rparr>))
            else (Ok False, e1))"

definition on_information :: "u8 \<Rightarrow> bool \<Rightarrow> segmentation_and_reassembly \<Rightarrow> bytes \<Rightarrow> unit ertm_op" where
  "on_information tx_seq final_bit sar rest e =
     (if local_busy e then send_supervisory ReceiverNotReady False final_bit e
      else if tx_seq \<noteq> expected_tx_seq e then send_supervisory Reject False final_bit e
      else and_then (accept_information sar rest) (\<lambda>_.
             and_then process_output (\<lambda>_ e.
               if last_acked_rx_seq e \<noteq> expected_tx_seq e then
                 send_supervisory ReceiverReady False final_bit e
               else (Ok (), e)))
             (e\<lparr>expected_tx_seq := sequence_add (expected_tx_seq e) 1\<rparr>))"

definition on_supervisory ::
  "supervisory_function \<Rightarrow> bool \<Rightarrow> bool \<Rightarrow> u8 \<Rightarrow> bool \<Rightarrow> unit ertm_op" where
  "on_supervisory function poll final_bit req_seq acked e =
     and_then
       (\<lambda>e. case function of
          Reject \<Rightarrow> retransmit_all e
        | SelectiveReject \<Rightarrow> retransmit_one req_seq e
        | _ \<Rightarrow> if final_bit \<and> \<not> acked \<and> tx_window e \<noteq> [] then retransmit_all e else (Ok (), e))
       (\<lambda>_. and_then
          (\<lambda>e. if poll then
                 send_supervisory (if local_busy e then ReceiverNotReady else ReceiverReady) False True e
               else (Ok (), e))
          (\<lambda>_. process_output))
       (e\<lparr>remote_busy := (function = ReceiverNotReady)\<rparr>)"

definition receive_frame :: "bytes \<Rightarrow> unit ertm_op" where
  "receive_frame frame =
     and_then ensure_active (\<lambda>_.
     and_then (lift_result (control_field_from_bytes frame)) (\<lambda>control.
     and_then (acknowledge (control_req_seq control)) (\<lambda>acked.
       case control of
         Information tx_seq final_bit _ sar \<Rightarrow> on_information tx_seq final_bit sar (drop 2 frame)
       | Supervisory function poll final_bit req_seq \<Rightarrow>
           on_supervisory function poll final_bit req_seq acked)))"

section \<open>The application interface\<close>

text \<open>The loop of \<open>send_sdu\<close> over the enumerated chunks.\<close>

fun queue_segments :: "nat \<Rightarrow> nat \<Rightarrow> u16 \<Rightarrow> (nat \<times> bytes) list \<Rightarrow> ertm_engine \<Rightarrow> ertm_engine" where
  "queue_segments total_length mps sdu_length [] e = e"
| "queue_segments total_length mps sdu_length ((index, chunk) # cs) e =
     (let offset = index * mps;
          sar = (if index = 0 then Start
                 else if offset + length chunk = total_length then End else Continuation);
          (tx_seq, e1) = take_tx_seq e
      in queue_segments total_length mps sdu_length cs
           (e1\<lparr>pending := pending e1 @
                 [\<lparr>pf_payload = chunk, pf_tx_seq = tx_seq, pf_sar = sar,
                   pf_sdu_length = (if sar = Start then Some sdu_length else None)\<rparr>]\<rparr>))"

definition send_sdu :: "bytes \<Rightarrow> unit ertm_op" where
  "send_sdu sdu =
     and_then ensure_active (\<lambda>_ e.
       if length sdu > unat (peer_mtu (config e)) then
         (invalid_fmt ''SDU exceeds peer MTU {}'' [unat (peer_mtu (config e))], e)
       else let mps = unat (peer_mps (config e))
       in if length sdu \<le> mps then
            let (tx_seq, e1) = take_tx_seq e
            in process_output (e1\<lparr>pending := pending e1 @
                 [\<lparr>pf_payload = sdu, pf_tx_seq = tx_seq, pf_sar = Unsegmented, pf_sdu_length = None\<rparr>]\<rparr>)
          else if length sdu > 65535 then (invalid ''ERTM SDU length exceeds 16 bits'', e)
          else process_output
                 (queue_segments (length sdu) mps (of_nat (length sdu)) (enumerate 0 (chunks mps sdu)) e))"

definition set_receiver_busy :: "bool \<Rightarrow> unit ertm_op" where
  "set_receiver_busy busy =
     and_then ensure_active (\<lambda>_ e.
       if local_busy e \<noteq> busy then
         send_supervisory (if busy then ReceiverNotReady else ReceiverReady) False False (e\<lparr>local_busy := busy\<rparr>)
       else (Ok (), e))"

definition ertm_tick :: "u32 \<Rightarrow> unit ertm_op" where
  "ertm_tick ticks =
     and_then ensure_active (\<lambda>_ e.
       let e1 = e\<lparr>now := u64_saturating_add (now e) (ucast ticks)\<rparr>
       in if (case retransmission_deadline e1 of Some deadline \<Rightarrow> now e1 \<ge> deadline | None \<Rightarrow> False) \<and>
             tx_window e1 \<noteq> [] then retransmit_all e1
          else (Ok (), e1))"

definition ertm_poll_outbound :: "ertm_engine \<Rightarrow> bytes option \<times> ertm_engine" where
  "ertm_poll_outbound e =
     (case outbound e of [] \<Rightarrow> (None, e) | f # fs \<Rightarrow> (Some f, e\<lparr>outbound := fs\<rparr>))"

definition ertm_drain_outbound :: "ertm_engine \<Rightarrow> bytes list \<times> ertm_engine" where
  "ertm_drain_outbound e = (outbound e, e\<lparr>outbound := []\<rparr>)"

definition ertm_pop_received :: "ertm_engine \<Rightarrow> bytes option \<times> ertm_engine" where
  "ertm_pop_received e =
     (case received e of [] \<Rightarrow> (None, e) | s # ss \<Rightarrow> (Some s, e\<lparr>received := ss\<rparr>))"

definition pending_frames :: "ertm_engine \<Rightarrow> nat" where
  "pending_frames e = length (pending e) + length (tx_window e)"

definition unacked_frames :: "ertm_engine \<Rightarrow> nat" where
  "unacked_frames e = length (tx_window e)"

section \<open>The control field codec\<close>

fun control_field_wf :: "enhanced_control_field \<Rightarrow> bool" where
  "control_field_wf (Information tx_seq _ req_seq _) \<longleftrightarrow> unat tx_seq < 64 \<and> unat req_seq < 64"
| "control_field_wf (Supervisory _ _ _ req_seq) \<longleftrightarrow> unat req_seq < 64"

lemma less_modulus_iff: "s < ERTM_SEQUENCE_MODULUS \<longleftrightarrow> unat s < 64"
  by (simp add: ERTM_SEQUENCE_MODULUS_def word_less_nat_alt)

lemma bit_control_masks:
  "bit (0x10 :: int) n \<longleftrightarrow> n = 4" "bit (0x80 :: int) n \<longleftrightarrow> n = 7"
proof -
  have e: "(0x10 :: int) = push_bit 4 1" "(0x80 :: int) = push_bit 7 1" by simp_all
  show "bit (0x10 :: int) n \<longleftrightarrow> n = 4" "bit (0x80 :: int) n \<longleftrightarrow> n = 7"
    unfolding e by (simp_all only: bit_push_bit_iff bit_1_iff) auto
qed

lemma control_masks [mask_simps]:
  "(b :: u8) AND 0x10 = 0 \<longleftrightarrow> \<not> bit b 4"
  "(b :: u8) AND 0x80 = 0 \<longleftrightarrow> \<not> bit b 7"
  "take_bit 1 (b :: u8) = 0 \<longleftrightarrow> \<not> bit b 0"
  "take_bit (Suc 0) (b :: u8) = 0 \<longleftrightarrow> \<not> bit b 0"
proof -
  have zero: "w = 0 \<longleftrightarrow> (\<forall>n < 8. \<not> bit w n)" for w :: u8
    by (auto intro: bit_word_eqI)
  show "(b :: u8) AND 0x10 = 0 \<longleftrightarrow> \<not> bit b 4" "(b :: u8) AND 0x80 = 0 \<longleftrightarrow> \<not> bit b 7"
    "take_bit 1 (b :: u8) = 0 \<longleftrightarrow> \<not> bit b 0" "take_bit (Suc 0) (b :: u8) = 0 \<longleftrightarrow> \<not> bit b 0"
    unfolding zero by (auto 4 4 simp: bit_simps bit_control_masks simp flip: bit_0
        dest: spec [of _ 4] spec [of _ 7] spec [of _ 0])
qed

lemma information_fields:
  fixes tx req s :: u8 and f :: bool
  assumes "unat tx < 64" "unat req < 64" "unat s < 4"
  defines "d0 \<equiv> push_bit 1 tx OR push_bit 7 (of_bool f)" and "d1 \<equiv> req OR push_bit 6 s"
  shows "\<not> bit d0 0 \<and> take_bit 6 (drop_bit 1 d0) = tx \<and> bit d0 7 = f \<and>
    take_bit 6 d1 = req \<and> drop_bit 6 d1 = s"
  using assms(1-3) unfolding d0_def d1_def
  by (auto intro!: bit_word_eqI simp: bit_simps field_high_bits simp del: push_bit_Suc simp flip: bit_0
      dest: field_bits_below)

lemma supervisory_fields:
  fixes fn :: u8 and p f :: bool
  assumes "unat fn < 4"
  defines "d0 \<equiv> 1 OR push_bit 2 fn OR push_bit 4 (of_bool p) OR push_bit 7 (of_bool f)"
  shows "bit d0 0 \<and> take_bit 2 (drop_bit 2 d0) = fn \<and> bit d0 4 = p \<and> bit d0 7 = f"
  using assms(1) unfolding d0_def
  by (auto intro!: bit_word_eqI simp: bit_simps field_high_bits simp flip: bit_0 dest: field_bits_below)

lemma sar_roundtrip [simp]: "sar_of_u8 (sar_to_u8 s) = Ok s" "unat (sar_to_u8 s) < 4"
  by (cases s; simp)+

lemma supervisory_roundtrip [simp]:
  "supervisory_of_u8 (supervisory_to_u8 f) = Ok f" "unat (supervisory_to_u8 f) < 4"
  by (cases f; simp)+

lemma control_field_encodes:
  "is_ok (control_field_to_bytes c) \<longleftrightarrow> control_field_wf c"
  by (cases c) (auto simp: validate_seq_def less_modulus_iff)

lemma take_bit_6_wf: "unat (b :: u8) < 64 \<Longrightarrow> take_bit 6 b = b"
  by (auto intro!: bit_word_eqI simp: bit_simps dest: field_bits_below)

lemma control_field_from_two_bytes:
  "control_field_from_bytes (d0 # d1 # rest) =
     (if \<not> bit d0 0 then
        bind_result (sar_of_u8 (drop_bit 6 d1)) (\<lambda>sar.
          Ok (Information (take_bit 6 (drop_bit 1 d0)) (bit d0 7) (take_bit 6 d1) sar))
      else
        bind_result (supervisory_of_u8 (take_bit 2 (drop_bit 2 d0))) (\<lambda>function.
          Ok (Supervisory function (bit d0 4) (bit d0 7) (take_bit 6 d1))))"
  unfolding control_field_from_bytes_def Let_def mask_simps
  by (simp only: control_masks mask_simps length_Cons nth_Cons_0 nth_Cons_Suc One_nat_def not_less) simp

lemma control_field_decodes:
  assumes "control_field_to_bytes c = Ok bs"
  shows "control_field_from_bytes (bs @ rest) = Ok c \<and> length bs = 2"
proof (cases c)
  case (Information tx f req s)
  define d0 d1 where "d0 = push_bit 1 tx OR push_bit 7 (of_bool f)" and "d1 = req OR push_bit 6 (sar_to_u8 s)"
  have bs: "bs = [d0, d1]" and wf: "unat tx < 64" "unat req < 64"
    using assms unfolding Information d0_def d1_def
    by (auto simp: validate_seq_def less_modulus_iff split: if_splits)
  show ?thesis
    using information_fields [OF wf sar_roundtrip(2) [of s], of f, folded d0_def d1_def]
    unfolding bs Information by (simp add: control_field_from_two_bytes del: sar_of_u8.simps)
next
  case (Supervisory fn p f req)
  define d0 where "d0 = 1 OR push_bit 2 (supervisory_to_u8 fn) OR push_bit 4 (of_bool p) OR push_bit 7 (of_bool f)"
  have bs: "bs = [d0, req]" and wf: "unat req < 64"
    using assms unfolding Supervisory d0_def
    by (auto simp: validate_seq_def less_modulus_iff split: if_splits)
  show ?thesis
    using supervisory_fields [OF supervisory_roundtrip(2) [of fn], of p f, folded d0_def]
      take_bit_6_wf [OF wf] unfolding bs Supervisory
    by (simp add: control_field_from_two_bytes del: supervisory_of_u8.simps)
qed

lemma unat_take_bit_6 [simp]: "unat (take_bit 6 b :: u8) < 64"
  using take_bit_nat_less_exp [of 6 "unat b"] by (simp add: unsigned_take_bit_eq)

lemma control_field_from_bytes_wf:
  assumes "control_field_from_bytes bs = Ok c"
  shows "control_field_wf c"
  using assms
  by (auto simp: control_field_from_bytes_def Let_def mask_simps simp del: sar_of_u8.simps supervisory_of_u8.simps split: if_splits)

section \<open>Sequence arithmetic\<close>

definition seq :: "nat \<Rightarrow> u8" where
  "seq n = of_nat (n mod 64)"

lemma unat_seq [simp]: "unat (seq n) = n mod 64"
  by (simp add: seq_def unat_of_nat_u8 trans_less_add1 less_trans [OF mod_less_divisor])

lemma seq_eq_iff: "seq m = seq n \<longleftrightarrow> m mod 64 = n mod 64"
  by (metis unat_seq seq_def)

lemma seq_of_unat: "unat s < 64 \<Longrightarrow> s = seq (unat s)"
  by (simp add: seq_def)

lemma unat_sequence_add: "unat (sequence_add s d) = (unat s + unat d) mod 64"
proof -
  have "(unat s + unat d) mod 256 mod 64 = (unat s + unat d) mod 64"
    by (rule mod_mod_cancel) simp
  then show ?thesis
    by (simp add: sequence_add_def ERTM_SEQUENCE_MODULUS_def unat_mod unat_word_ariths)
qed

lemma sequence_add_seq [simp]: "sequence_add (seq n) 1 = seq (Suc n)"
proof -
  have "unat (sequence_add (seq n) 1) = unat (seq (Suc n))"
    by (simp add: unat_sequence_add mod_Suc_eq)
  then show ?thesis by (rule unsigned_word_eqI)
qed

lemma sequence_distance_seq:
  assumes "a \<le> b"
  shows "unat (sequence_distance (seq a) (seq b)) = (b - a) mod 64"
proof -
  have "a mod 64 \<le> b mod 64 + 64"
    using mod_less_divisor [of 64 a] by linarith
  then have "seq b + 64 - seq a = of_nat (b mod 64 + 64 - a mod 64)"
    by (simp add: seq_def)
  moreover have "b mod 64 + 64 - a mod 64 < 256"
    using mod_less_divisor [of 64 b] by linarith
  ultimately have "unat (seq b + 64 - seq a) = b mod 64 + 64 - a mod 64"
    by (simp only: unat_of_nat_u8)
  then have "unat (sequence_distance (seq a) (seq b)) = (b mod 64 + 64 - a mod 64) mod 64"
    by (simp add: sequence_distance_def ERTM_SEQUENCE_MODULUS_def unat_mod unat_of_nat_u8)
  also have "\<dots> = (b - a) mod 64"
  proof -
    have "b = 64 * (b div 64) + b mod 64" "a = 64 * (a div 64) + a mod 64"
      and "a div 64 \<le> b div 64" and "a mod 64 < 64"
      using assms by (simp_all add: div_le_mono)
    then have "b - a + 64 = 64 * (b div 64 - a div 64) + (b mod 64 + 64 - a mod 64)"
      using assms by (simp only: diff_mult_distrib2) linarith
    then have "(b - a + 64) mod 64 = (b mod 64 + 64 - a mod 64) mod 64"
      by (simp only: mod_mult_self4)
    then show ?thesis by simp
  qed
  finally show ?thesis .
qed

section \<open>What the output operations emit\<close>

text \<open>
  The sender's part of the state seen from outside: \<open>F\<close> is the sequence of all information frames
  queued so far and \<open>base\<close> the number of acknowledged ones. The window and the pending queue are
  consecutive pieces of \<open>F\<close>, and sequence numbers are positions in \<open>F\<close> modulo 64.
\<close>

definition sender_view :: "pending_frame list \<Rightarrow> nat \<Rightarrow> ertm_engine \<Rightarrow> bool" where
  "sender_view F base e \<longleftrightarrow>
     base + length (tx_window e) \<le> length F \<and>
     map tf_frame (tx_window e) = take (length (tx_window e)) (drop base F) \<and>
     pending e = drop (base + length (tx_window e)) F \<and>
     (\<forall>i < length F. pf_tx_seq (F ! i) = seq i) \<and>
     next_tx_seq e = seq (length F) \<and> last_acked_tx_seq e = seq base \<and>
     length (tx_window e) \<le> unat (tx_window_size (config e)) \<and>
     unat (tx_window_size (config e)) < 64"

text \<open>
  A frame on the wire is the \<open>j\<close>-th information frame, or a supervisory one, carrying the
  acknowledgement \<open>k\<close>.
\<close>

fun tagged :: "pending_frame list \<Rightarrow> nat option \<times> nat \<Rightarrow> bytes \<Rightarrow> bool" where
  "tagged F (Some j, k) b \<longleftrightarrow> j < length F \<and> encode_frame (F ! j) (seq k) False = Ok b"
| "tagged F (None, k) b \<longleftrightarrow>
     (\<exists>function poll final_bit.
        control_field_to_bytes (Supervisory function poll final_bit (seq k)) = Ok b)"

text \<open>The fields no output operation changes.\<close>

definition core :: "ertm_engine \<Rightarrow>
    ertm_config \<times> bytes list \<times> u8 \<times> u8 \<times> u8 \<times> bytes \<times> nat option \<times> bool \<times> bool" where
  "core e = (config e, received e, next_tx_seq e, last_acked_tx_seq e, expected_tx_seq e,
     input_sdu e, input_sdu_length e, remote_busy e, local_busy e)"

text \<open>
  The effect of an output operation from \<open>e\<close> to \<open>e'\<close>: the window only grows, and what is appended to
  the outbound queue are frames of the window and supervisory frames that acknowledge \<open>R\<close>.
\<close>

definition emits ::
  "pending_frame list \<Rightarrow> nat \<Rightarrow> nat \<Rightarrow> ertm_engine \<Rightarrow> ertm_engine \<Rightarrow> bool" where
  "emits F base R e e' \<longleftrightarrow>
     core e' = core e \<and> sender_view F base e' \<and> length (tx_window e) \<le> length (tx_window e') \<and>
     (\<exists>ts bs. outbound e' = outbound e @ bs \<and> list_all2 (tagged F) ts bs \<and>
        (\<forall>(jo, k) \<in> set ts. k = R \<and>
           (\<forall>j. jo = Some j \<longrightarrow> base \<le> j \<and> j < base + length (tx_window e'))))"

lemma encode_frame_ok:
  assumes "unat (pf_tx_seq f) < 64"
  obtains b where "encode_frame f (seq k) p = Ok b"
  using assms control_field_encodes [of "Information (pf_tx_seq f) p (seq k) (pf_sar f)"]
  by (cases "control_field_to_bytes (Information (pf_tx_seq f) p (seq k) (pf_sar f))")
    (auto simp: encode_frame_def)

lemma supervisory_ok:
  obtains b where "control_field_to_bytes (Supervisory function p f (seq k)) = Ok b"
  using control_field_encodes [of "Supervisory function p f (seq k)"]
  by (cases "control_field_to_bytes (Supervisory function p f (seq k))") auto

lemma emits_refl: "sender_view F base e \<Longrightarrow> emits F base R e e"
  unfolding emits_def by (intro conjI exI [of _ "[]"]) auto

lemma emits_trans:
  assumes "emits F base R e e1" and "emits F base R e1 e2"
  shows "emits F base R e e2"
proof -
  from assms(1) obtain ts bs where 1: "outbound e1 = outbound e @ bs" "list_all2 (tagged F) ts bs"
      "\<forall>(jo, k) \<in> set ts. k = R \<and>
         (\<forall>j. jo = Some j \<longrightarrow> base \<le> j \<and> j < base + length (tx_window e1))"
    by (auto simp: emits_def)
  from assms(2) obtain us cs where 2: "outbound e2 = outbound e1 @ cs" "list_all2 (tagged F) us cs"
      "\<forall>(jo, k) \<in> set us. k = R \<and>
         (\<forall>j. jo = Some j \<longrightarrow> base \<le> j \<and> j < base + length (tx_window e2))"
    by (auto simp: emits_def)
  have "length (tx_window e1) \<le> length (tx_window e2)" using assms(2) by (simp add: emits_def)
  then show ?thesis
    using assms 1 2 unfolding emits_def
    by (intro conjI exI [of _ "ts @ us"] exI [of _ "bs @ cs"])
      (fastforce intro: list_all2_appendI)+
qed

text \<open>Emitting one frame, and changing only bookkeeping fields.\<close>

lemma emitsI:
  assumes "core e' = core e" "sender_view F base e'" "length (tx_window e) \<le> length (tx_window e')"
    and "outbound e' = outbound e @ [b]" "tagged F (jo, R) b"
    and "\<And>j. jo = Some j \<Longrightarrow> base \<le> j \<and> j < base + length (tx_window e')"
  shows "emits F base R e e'"
  unfolding emits_def using assms
  by (intro conjI exI [of _ "[(jo, R)]"] exI [of _ "[b]"]) auto

lemma emits_silent:
  assumes "sender_view F base e" "core e' = core e" "outbound e' = outbound e"
    and "map tf_frame (tx_window e') = map tf_frame (tx_window e)" "pending e' = pending e"
  shows "emits F base R e e'"
proof -
  have "length (tx_window e') = length (tx_window e)" using assms(4) by (metis length_map)
  then show ?thesis
    using assms unfolding emits_def
    by (intro conjI exI [of _ "[]"]) (auto simp: sender_view_def core_def)
qed

lemma emits_refresh:
  "sender_view F base e \<Longrightarrow> emits F base R e (refresh_retransmission_deadline e)"
  by (rule emits_silent) (auto simp: refresh_retransmission_deadline_def core_def)

lemma emits_core: "emits F base R e e' \<Longrightarrow> core e' = core e"
  and emits_view: "emits F base R e e' \<Longrightarrow> sender_view F base e'"
  by (simp_all add: emits_def)

lemma emits_expected: "emits F base R e e' \<Longrightarrow> expected_tx_seq e' = expected_tx_seq e"
  by (simp add: emits_def core_def)

lemma emits_and_then:
  assumes "emits F base R e (snd (m e))"
    and "\<And>x e'. m e = (Ok x, e') \<Longrightarrow> emits F base R e e' \<Longrightarrow> emits F base R e' (snd (k x e'))"
  shows "emits F base R e (snd (and_then m k e))"
proof (cases "m e")
  case (Pair r e')
  show ?thesis
  proof (cases r)
    case (Ok x)
    with Pair assms(2) [of x e'] assms(1) show ?thesis
      by (auto simp: and_then_def intro: emits_trans)
  qed (use Pair assms(1) in \<open>auto simp: and_then_def\<close>)
qed

lemma window_frame:
  assumes "sender_view F base e" "tx_window e = earlier @ t # after"
  shows "tf_frame t = F ! (base + length earlier)" "base + length earlier < length F"
    "base + length earlier < base + length (tx_window e)"
proof -
  have len: "base + length (tx_window e) \<le> length F"
    and m: "map tf_frame (tx_window e) = take (length (tx_window e)) (drop base F)"
    using assms(1) by (simp_all add: sender_view_def)
  show "base + length earlier < length F" "base + length earlier < base + length (tx_window e)"
    using len assms(2) by auto
  have "map tf_frame (tx_window e) ! length earlier = tf_frame t"
    using assms(2) by (simp add: nth_append)
  then show "tf_frame t = F ! (base + length earlier)"
    unfolding m using len assms(2) by simp
qed

lemma process_output_loop_emits:
  assumes "sender_view F base e" "expected_tx_seq e = seq R"
  shows "fst (process_output_loop e) = Ok () \<and> emits F base R e (snd (process_output_loop e))"
  using assms
proof (induction e rule: process_output_loop.induct)
  case (1 e)
  show ?case
  proof (cases "length (tx_window e) < unat (tx_window_size (config e)) \<and> pending e \<noteq> []")
    case False
    then show ?thesis
      using emits_refl [OF 1(2)]
      by (subst (1 2) process_output_loop.simps) (auto split: list.splits)
  next
    case True
    then obtain f rest where f: "pending e = f # rest" by (cases "pending e") auto
    define j where "j = base + length (tx_window e)"
    have j: "j < length F" "F ! j = f" "rest = drop (Suc j) F" "pf_tx_seq f = seq j"
      using 1(2) f drop_eq_ConsD [of j F f rest] unfolding sender_view_def j_def by auto
    obtain b where b: "encode_frame f (seq R) False = Ok b"
      using encode_frame_ok [of f R False] j(4) by auto
    define e1 where "e1 = e\<lparr>pending := rest, last_acked_rx_seq := expected_tx_seq e,
      tx_window := tx_window e @ [\<lparr>tf_frame = f, transmissions = 1\<rparr>], outbound := outbound e @ [b]\<rparr>"
    have view: "sender_view F base e1"
      using 1(2) True j unfolding sender_view_def e1_def j_def by (auto simp: take_Suc_conv_app_nth)
    have step: "emits F base R e e1"
      by (rule emitsI [where jo = "Some j" and b = b])
        (use view j b in \<open>auto simp: e1_def core_def j_def\<close>)
    have "process_output_loop e = process_output_loop e1"
      using True f b 1(3) by (subst process_output_loop.simps) (simp add: e1_def)
    moreover have "fst (process_output_loop e1) = Ok () \<and> emits F base R e1 (snd (process_output_loop e1))"
      unfolding e1_def
      by (rule "1.IH") (use True f b 1(3) view in \<open>auto simp: e1_def\<close>)
    ultimately show ?thesis using emits_trans [OF step] by simp
  qed
qed

lemma process_output_emits:
  assumes "sender_view F base e" "expected_tx_seq e = seq R"
  shows "fst (process_output e) = Ok () \<and> emits F base R e (snd (process_output e))"
proof (cases "remote_busy e")
  case True
  then show ?thesis using emits_refl [OF assms(1)] by (simp add: process_output_def)
next
  case False
  obtain r e1 where e1: "process_output_loop e = (r, e1)" by fastforce
  note loop = process_output_loop_emits [OF assms, unfolded e1 fst_conv snd_conv]
  then have "emits F base R e1 (refresh_retransmission_deadline e1)"
    by (auto intro: emits_refresh emits_view)
  then show ?thesis
    using False loop e1 by (auto simp: process_output_def and_then_def intro: emits_trans)
qed

lemma send_supervisory_emits:
  assumes "sender_view F base e" "expected_tx_seq e = seq R"
  shows "fst (send_supervisory fn p f e) = Ok () \<and> emits F base R e (snd (send_supervisory fn p f e))"
proof -
  obtain b where b: "control_field_to_bytes (Supervisory fn p f (seq R)) = Ok b"
    by (rule supervisory_ok)
  have "emits F base R e (e\<lparr>outbound := outbound e @ [b], last_acked_rx_seq := expected_tx_seq e\<rparr>)"
    by (rule emitsI [where jo = None and b = b])
      (use assms b in \<open>auto simp: core_def sender_view_def simp del: control_field_to_bytes.simps\<close>)
  then show ?thesis using assms b by (simp add: send_supervisory_def del: control_field_to_bytes.simps)
qed

lemma resend_frame_emits:
  assumes "sender_view F base e" "expected_tx_seq e = seq R" "tx_window e = earlier @ t # after"
  shows "emits F base R e (snd (resend_frame earlier t after e))"
    and "fst (resend_frame earlier t after e) = Ok x \<Longrightarrow> tx_window (snd (resend_frame earlier t after e)) =
      earlier @ t\<lparr>transmissions := transmissions t + 1\<rparr> # after"
proof -
  note t = window_frame [OF assms(1,3)]
  have "pf_tx_seq (tf_frame t) = seq (base + length earlier)"
    using t assms(1) by (simp add: sender_view_def)
  then obtain b where b: "encode_frame (tf_frame t) (seq R) False = Ok b"
    using encode_frame_ok [of "tf_frame t" R False] by auto
  define e1 where "e1 = e\<lparr>tx_window := earlier @ t\<lparr>transmissions := transmissions t + 1\<rparr> # after,
    outbound := outbound e @ [b], last_acked_rx_seq := expected_tx_seq e\<rparr>"
  have view: "sender_view F base e1"
    using assms unfolding sender_view_def e1_def by simp
  have "emits F base R e e1"
    by (rule emitsI [where jo = "Some (base + length earlier)" and b = b])
      (use view t b assms in \<open>auto simp: e1_def core_def\<close>)
  then show "emits F base R e (snd (resend_frame earlier t after e))"
    using assms b emits_refl [OF assms(1)] by (simp add: resend_frame_def e1_def Let_def)
  show "fst (resend_frame earlier t after e) = Ok x \<Longrightarrow> tx_window (snd (resend_frame earlier t after e)) =
      earlier @ t\<lparr>transmissions := transmissions t + 1\<rparr> # after"
    using b assms by (auto simp: resend_frame_def Let_def split: if_splits)
qed

lemma retransmit_loop_emits:
  assumes "sender_view F base e" "expected_tx_seq e = seq R" "tx_window e = earlier @ after"
  shows "emits F base R e (snd (retransmit_loop earlier after e))"
  using assms
proof (induction after arbitrary: earlier e)
  case Nil
  then show ?case by (simp add: emits_refl)
next
  case (Cons t after)
  note resend = resend_frame_emits [OF Cons.prems]
  show ?case
    unfolding retransmit_loop.simps
  proof (rule emits_and_then)
    show "emits F base R e (snd (resend_frame earlier t after e))" by (rule resend(1))
  next
    fix x e'
    assume eq: "resend_frame earlier t after e = (Ok x, e')" and em: "emits F base R e e'"
    show "emits F base R e' (snd (retransmit_loop (earlier @ [t\<lparr>transmissions := transmissions t + 1\<rparr>]) after e'))"
      using resend(2) [of x] eq em Cons.prems(2)
      by (intro Cons.IH) (auto intro: emits_view dest: emits_expected)
  qed
qed

lemma failed_emits: "sender_view F base e \<Longrightarrow> emits F base R e (e\<lparr>failed := b\<rparr>)"
  by (rule emits_silent) (simp_all add: core_def)

lemma retransmit_all_emits:
  assumes "sender_view F base e" "expected_tx_seq e = seq R"
  shows "emits F base R e (snd (retransmit_all e))"
  unfolding retransmit_all_def
  using assms
  by (auto split: option.split intro!: emits_and_then retransmit_loop_emits emits_refl failed_emits
      emits_refresh emits_view)

lemma retransmit_one_emits:
  assumes "sender_view F base e" "expected_tx_seq e = seq R"
  shows "emits F base R e (snd (retransmit_one s e))"
proof (cases "drop (length (takeWhile (\<lambda>f. pf_tx_seq (tf_frame f) \<noteq> s) (tx_window e))) (tx_window e)")
  case Nil
  then show ?thesis using assms by (simp add: retransmit_one_def emits_refl Let_def)
next
  case (Cons t after)
  define earlier where "earlier = takeWhile (\<lambda>f. pf_tx_seq (tf_frame f) \<noteq> s) (tx_window e)"
  have "tx_window e = earlier @ t # after"
    using Cons unfolding earlier_def
    by (metis append_take_drop_id takeWhile_eq_take)
  then have "emits F base R e (snd (and_then (resend_frame earlier t after)
      (\<lambda>_ e. (Ok (), refresh_retransmission_deadline e)) e))"
    using assms by (auto intro!: emits_and_then resend_frame_emits emits_refresh emits_view)
  then show ?thesis
    using assms Cons emits_refl [OF assms(1)] failed_emits [OF assms(1)] unfolding retransmit_one_def
    by (simp add: Let_def flip: earlier_def)
qed

section \<open>Queueing an SDU\<close>

text \<open>The frames \<open>send_sdu\<close> queues for one SDU when \<open>n\<close> frames have been queued earlier.\<close>

definition segment_frame :: "nat \<Rightarrow> bytes \<Rightarrow> nat \<Rightarrow> nat \<Rightarrow> pending_frame" where
  "segment_frame mps sdu n i =
     (let chunk = take mps (drop (i * mps) sdu);
          sar = (if i = 0 then Start else if i * mps + length chunk = length sdu then End else Continuation)
      in \<lparr>pf_payload = chunk, pf_tx_seq = seq (n + i), pf_sar = sar,
          pf_sdu_length = (if sar = Start then Some (of_nat (length sdu)) else None)\<rparr>)"

definition frames_of :: "nat \<Rightarrow> nat \<Rightarrow> bytes \<Rightarrow> pending_frame list" where
  "frames_of mps n sdu =
     (if length sdu \<le> mps then
        [\<lparr>pf_payload = sdu, pf_tx_seq = seq n, pf_sar = Unsegmented, pf_sdu_length = None\<rparr>]
      else map (segment_frame mps sdu n) [0..<length (chunks mps sdu)])"

lemma queue_segments_frames:
  assumes "next_tx_seq e = seq (n + i)" "i + length cs = length (chunks mps sdu)"
    "cs = drop i (chunks mps sdu)" "0 < mps"
  shows "queue_segments (length sdu) mps (of_nat (length sdu)) (enumerate i cs) e =
    e\<lparr>next_tx_seq := seq (n + length (chunks mps sdu)),
      pending := pending e @ map (segment_frame mps sdu n) [i..<length (chunks mps sdu)]\<rparr>"
  using assms
proof (induction cs arbitrary: i e)
  case Nil
  then show ?case by simp
next
  case (Cons c cs)
  have c: "i < length (chunks mps sdu)" "c = take mps (drop (i * mps) sdu)"
      "cs = drop (Suc i) (chunks mps sdu)"
    using drop_eq_ConsD [OF Cons.prems(3) [symmetric]] chunks_nth [OF Cons.prems(4), of i sdu] by auto
  define e1 where "e1 = e\<lparr>next_tx_seq := seq (n + Suc i),
    pending := pending e @ [segment_frame mps sdu n i]\<rparr>"
  have "queue_segments (length sdu) mps (of_nat (length sdu)) (enumerate i (c # cs)) e =
      queue_segments (length sdu) mps (of_nat (length sdu)) (enumerate (Suc i) cs) e1"
    using Cons.prems(1) unfolding e1_def c(2) segment_frame_def
    by (simp add: take_tx_seq_def Let_def)
  also have "\<dots> = e1\<lparr>next_tx_seq := seq (n + length (chunks mps sdu)),
      pending := pending e1 @ map (segment_frame mps sdu n) [Suc i..<length (chunks mps sdu)]\<rparr>"
    by (rule Cons.IH) (use Cons.prems c in \<open>auto simp: e1_def\<close>)
  finally show ?case
    using c(1) by (simp add: e1_def upt_conv_Cons)
qed

lemma frames_of_seq:
  assumes "i < length (frames_of mps n sdu)"
  shows "pf_tx_seq (frames_of mps n sdu ! i) = seq (n + i)"
  using assms by (auto simp: frames_of_def segment_frame_def Let_def split: if_splits)

lemma sender_view_append:
  assumes "sender_view F base e" "\<And>i. i < length G \<Longrightarrow> pf_tx_seq (G ! i) = seq (length F + i)"
    and "next_tx_seq e' = seq (length F + length G)" "pending e' = pending e @ G"
    and "tx_window e' = tx_window e" "config e' = config e" "last_acked_tx_seq e' = last_acked_tx_seq e"
  shows "sender_view (F @ G) base e'"
  using assms unfolding sender_view_def by (auto simp: nth_append)

text \<open>
  Every outcome of \<open>send_sdu\<close>: the two possible refusals leave the engine alone; otherwise the frames
  of the SDU are queued and the output is processed.
\<close>

definition queued :: "pending_frame list \<Rightarrow> bytes \<Rightarrow> ertm_engine \<Rightarrow> ertm_engine" where
  "queued F sdu e =
     (let G = frames_of (unat (peer_mps (config e))) (length F) sdu
      in e\<lparr>next_tx_seq := seq (length F + length G), pending := pending e @ G\<rparr>)"

lemma send_sdu_eq:
  assumes "sender_view F base e" "0 < unat (peer_mps (config e))"
  shows "send_sdu sdu e =
    (if failed e then (invalid ''ERTM engine has failed'', e)
     else if unat (peer_mtu (config e)) < length sdu then
       (invalid_fmt ''SDU exceeds peer MTU {}'' [unat (peer_mtu (config e))], e)
     else process_output (queued F sdu e))"
proof -
  define mps where "mps = unat (peer_mps (config e))"
  have next_seq: "next_tx_seq e = seq (length F)" using assms(1) by (simp add: sender_view_def)
  have "length sdu \<le> unat (peer_mtu (config e)) \<Longrightarrow> length sdu \<le> 65535"
    using unat_u16_le [of "peer_mtu (config e)"] by simp
  moreover have "queue_segments (length sdu) mps (of_nat (length sdu)) (enumerate 0 (chunks mps sdu)) e =
      queued F sdu e" if "mps < length sdu"
    using queue_segments_frames [of e "length F" 0 "chunks mps sdu" mps sdu] assms(2) next_seq that
    by (simp add: queued_def frames_of_def mps_def)
  ultimately show ?thesis
    using next_seq
    by (auto simp: send_sdu_def ensure_active_def and_then_def take_tx_seq_def queued_def frames_of_def
        Let_def mps_def [symmetric])
qed

lemma queued_view:
  assumes "sender_view F base e"
  shows "sender_view (F @ frames_of (unat (peer_mps (config e))) (length F) sdu) base (queued F sdu e)"
  using assms by (rule sender_view_append) (simp_all add: frames_of_seq queued_def Let_def)

section \<open>Acknowledgements\<close>

lemma acknowledge_cases:
  assumes "sender_view F base e" "unat s < 64"
  obtains x where "acknowledge s e = (Err x, e)"
  | n e1 where "n \<le> length (tx_window e)" "s = seq (base + n)" "acknowledge s e = (Ok (n \<noteq> 0), e1)"
      "e1 = e\<lparr>tx_window := drop n (tx_window e), last_acked_tx_seq := s,
              retransmission_deadline := retransmission_deadline e1\<rparr>"
      "sender_view F (base + n) e1"
proof -
  define n where "n = unat (sequence_distance (last_acked_tx_seq e) s)"
  have last: "last_acked_tx_seq e = seq base" using assms(1) by (simp add: sender_view_def)
  define m where "m = (unat s + 64 - base mod 64) mod 64"
  have "(base + m) mod 64 = (base mod 64 + (unat s + 64 - base mod 64)) mod 64"
    unfolding m_def by (metis mod_add_left_eq mod_add_right_eq)
  also have "base mod 64 + (unat s + 64 - base mod 64) = unat s + 64"
    using mod_less_divisor [of 64 base] by linarith
  finally have "(base + m) mod 64 = unat s" using assms(2) by simp
  then have sm: "s = seq (base + m)" using seq_of_unat [OF assms(2)] by (simp add: seq_def)
  then have "n = m"
    unfolding n_def last using sequence_distance_seq [of base "base + m"] by (simp add: m_def)
  then have s: "s = seq (base + n)" using sm by simp
  have range: "\<not> s \<ge> ERTM_SEQUENCE_MODULUS"
    using assms(2) less_modulus_iff [of s] by (simp add: not_le)
  show thesis
  proof (cases "n \<le> length (tx_window e)")
    case False
    then have "acknowledge s e = (invalid_fmt
        ''ERTM acknowledged {count} frames with only {} outstanding'' [n, length (tx_window e)], e)"
      using range by (simp add: acknowledge_def Let_def n_def)
    then show thesis by (rule that(1))
  next
    case True
    define e1 where "e1 = (if n \<noteq> 0 then refresh_retransmission_deadline
        (e\<lparr>tx_window := drop n (tx_window e), last_acked_tx_seq := s\<rparr>) else e)"
    have "acknowledge s e = (Ok (n \<noteq> 0), e1)"
      using True range by (auto simp: acknowledge_def Let_def n_def e1_def)
    moreover have e1: "e1 = e\<lparr>tx_window := drop n (tx_window e), last_acked_tx_seq := s,
              retransmission_deadline := retransmission_deadline e1\<rparr>"
      using s last by (auto simp: e1_def refresh_retransmission_deadline_def)
    moreover have "sender_view F (base + n) e1"
    proof -
      have "map tf_frame (drop n (tx_window e)) = take (length (tx_window e) - n) (drop (base + n) F)"
        using assms(1) True by (simp add: sender_view_def drop_map [symmetric] drop_take add.commute)
      then show ?thesis
        using assms(1) True s by (subst e1) (auto simp: sender_view_def)
    qed
    ultimately show thesis using that(2) True s by blast
  qed
qed

section \<open>Received frames\<close>

lemma accept_information_fields:
  "snd (accept_information sar p e) =
     e\<lparr>received := received (snd (accept_information sar p e)),
       input_sdu := input_sdu (snd (accept_information sar p e)),
       input_sdu_length := input_sdu_length (snd (accept_information sar p e))\<rparr>"
  by (cases sar) (auto simp: check_partial_length_def reset_input_def Let_def split: option.splits)

lemma accept_information_no_panic: "\<not> is_panic (fst (accept_information sar p e))"
  by (cases sar) (auto simp: check_partial_length_def Let_def split: option.splits)

lemma accept_information_view:
  "sender_view F base (snd (accept_information sar p e)) = sender_view F base e"
  "expected_tx_seq (snd (accept_information sar p e)) = expected_tx_seq e"
  "outbound (snd (accept_information sar p e)) = outbound e"
  "config (snd (accept_information sar p e)) = config e"
  "tx_window (snd (accept_information sar p e)) = tx_window e"
  by (subst accept_information_fields; simp add: sender_view_def)+

lemma on_information_refused:
  assumes "sender_view F base e" "expected_tx_seq e = seq R" "local_busy e \<or> tx \<noteq> seq R"
  shows "fst (on_information tx f sar p e) = Ok () \<and>
    emits F base R e (snd (on_information tx f sar p e))"
  using assms send_supervisory_emits [OF assms(1,2)] by (auto simp: on_information_def)

lemma on_information_accepted:
  fixes sar p
  assumes "sender_view F base e" "expected_tx_seq e = seq R" "\<not> local_busy e"
  defines "acc \<equiv> accept_information sar p (e\<lparr>expected_tx_seq := seq (Suc R)\<rparr>)"
  shows "fst (on_information (seq R) f sar p e) = fst acc \<and>
    emits F base (Suc R) (snd acc) (snd (on_information (seq R) f sar p e))"
proof -
  obtain r a where acc: "acc = (r, a)" by fastforce
  have a: "sender_view F base a" "expected_tx_seq a = seq (Suc R)"
    using assms(1) acc accept_information_view(1) [of F base sar p "e\<lparr>expected_tx_seq := seq (Suc R)\<rparr>"]
      accept_information_view(2) [of sar p "e\<lparr>expected_tx_seq := seq (Suc R)\<rparr>"]
    unfolding acc_def by (simp_all add: sender_view_def)
  obtain r2 a2 where po: "process_output a = (r2, a2)" by fastforce
  have out: "r2 = Ok ()" "emits F base (Suc R) a a2"
    using process_output_emits [OF a] po by auto
  then have a2: "sender_view F base a2" "expected_tx_seq a2 = seq (Suc R)"
    using emits_view [OF out(2)] emits_expected [OF out(2)] a by auto
  have eq: "on_information (seq R) f sar p e = and_then (\<lambda>_. acc) (\<lambda>_.
             and_then process_output (\<lambda>_ e.
               if last_acked_rx_seq e \<noteq> expected_tx_seq e then
                 send_supervisory ReceiverReady False f e
               else (Ok (), e))) e"
    using assms(2,3) by (simp add: on_information_def acc_def and_then_def)
  show ?thesis
  proof (cases r)
    case (Ok x)
    have "on_information (seq R) f sar p e = (if last_acked_rx_seq a2 \<noteq> expected_tx_seq a2 then
        send_supervisory ReceiverReady False f a2 else (Ok (), a2))"
      using eq acc Ok po out by (simp add: and_then_def)
    then show ?thesis
      using out send_supervisory_emits [OF a2, of ReceiverReady False f] acc Ok
      by (auto intro: emits_trans)
  qed (use eq acc emits_refl [OF a(1)] in \<open>auto simp: and_then_def\<close>)
qed

lemma on_supervisory_emits:
  assumes "sender_view F base e" "expected_tx_seq e = seq R"
  shows "emits F base R (e\<lparr>remote_busy := (fn = ReceiverNotReady)\<rparr>) (snd (on_supervisory fn p f req acked e))"
proof -
  define e1 where "e1 = e\<lparr>remote_busy := (fn = ReceiverNotReady)\<rparr>"
  have e1: "sender_view F base e1" "expected_tx_seq e1 = seq R"
    using assms by (simp_all add: e1_def sender_view_def)
  define react where "react = (\<lambda>e. case fn of
          Reject \<Rightarrow> retransmit_all e
        | SelectiveReject \<Rightarrow> retransmit_one req e
        | _ \<Rightarrow> if f \<and> \<not> acked \<and> tx_window e \<noteq> [] then retransmit_all e else (Ok (), e))"
  have 1: "emits F base R e1 (snd (react e1))"
    using retransmit_all_emits [OF e1] retransmit_one_emits [OF e1] emits_refl [OF e1(1)]
    by (simp add: react_def split: supervisory_function.split)
  show ?thesis
    unfolding on_supervisory_def e1_def [symmetric] react_def [symmetric]
  proof (intro emits_and_then 1)
    fix x e2
    assume em: "emits F base R e1 e2"
    note e2 = emits_view [OF em] trans [OF emits_expected [OF em] e1(2)]
    show "emits F base R e2 (snd (if p then send_supervisory
        (if local_busy e2 then ReceiverNotReady else ReceiverReady) False True e2 else (Ok (), e2)))"
      using send_supervisory_emits [OF e2] emits_refl [OF e2(1)] by simp
    fix y e3
    assume em3: "emits F base R e2 e3"
    show "emits F base R e3 (snd (process_output e3))"
      using process_output_emits emits_view [OF em3] emits_expected [OF em3] e2(2) by simp
  qed
qed

text \<open>
  A control field whose sequence numbers are below 64 encodes to two bytes that
  decode to it, whatever follows them; any other control field is refused by the encoder.
\<close>

theorem control_field_roundtrip:
  shows "if control_field_wf c
    then \<exists>bs. control_field_to_bytes c = Ok bs \<and> length bs = 2 \<and>
           control_field_from_bytes (bs @ rest) = Ok c
    else is_err (control_field_to_bytes c)"
  using control_field_encodes [of c] control_field_decodes [of c _ rest]
  by (cases c; cases "control_field_to_bytes c")
    (auto simp: validate_seq_def simp del: control_field_wf.simps split: if_splits)

end
