(* ===== verification/Ertm_Engine.thy ===== *)
theory Ertm_Engine
  imports Ertm
begin

text \<open>
  The ERTM engine of \<open>bumble-l2cap/src/ertm.rs\<close> driven by an arbitrary application and an arbitrary
  peer: its invariant, that every call keeps it, and the retransmission budget.
\<close>

section \<open>The engine invariant\<close>

definition rx_ok :: "ertm_engine \<Rightarrow> bool" where
  "rx_ok e \<longleftrightarrow> (\<exists>R. expected_tx_seq e = seq R) \<and>
     (\<forall>n. input_sdu_length e = Some n \<longrightarrow> n \<le> unat (local_mtu (config e))) \<and>
     (\<forall>s \<in> set (received e). length s \<le> unat (local_mtu (config e)))"

definition retries_ok :: "ertm_engine \<Rightarrow> bool" where
  "retries_ok e \<longleftrightarrow> max_retransmissions (config e) \<noteq> 0 \<longrightarrow>
     (\<forall>t \<in> set (tx_window e). unat (transmissions t) \<le> Suc (unat (max_retransmissions (config e))))"

definition ertm_inv :: "ertm_engine \<Rightarrow> bool" where
  "ertm_inv e \<longleftrightarrow> (\<exists>F base. sender_view F base e) \<and> rx_ok e \<and> retries_ok e \<and>
     0 < unat (peer_mps (config e))"

lemma emits_rx_ok: "emits F base R e e' \<Longrightarrow> rx_ok e' = rx_ok e"
  and emits_config: "emits F base R e e' \<Longrightarrow> config e' = config e"
  by (simp_all add: emits_def core_def rx_ok_def)

lemma accept_information_rx_ok: "rx_ok e \<Longrightarrow> rx_ok (snd (accept_information sar p e))"
  by (cases sar) (auto simp: rx_ok_def check_partial_length_def reset_input_def Let_def split: option.splits)

text \<open>The retry counters under the output operations, and the only panic there is.\<close>

lemma limit_reached_iff:
  "retransmission_limit_reached limit t \<longleftrightarrow> limit \<noteq> 0 \<and> unat limit < unat (transmissions t)"
proof -
  have l: "unat (ucast limit :: u16) = unat limit"
    using unat_u8_less [of limit] by (simp add: unsigned_ucast_eq take_bit_nat_eq_self)
  show ?thesis
  proof (cases "transmissions t = 0")
    case True
    then show ?thesis
      using l by (auto simp: retransmission_limit_reached_def word_le_nat_alt unat_eq_zero)
  next
    case False
    then have "unat (transmissions t) = Suc (unat (transmissions t - 1))"
      by (simp add: unat_minus_one unat_gt_0)
    with False l show ?thesis
      by (auto simp: retransmission_limit_reached_def word_le_nat_alt)
  qed
qed

lemma retries_silent:
  "retries_ok (e\<lparr>retransmission_deadline := d\<rparr>) = retries_ok e"
  "retries_ok (e\<lparr>failed := b\<rparr>) = retries_ok e"
  "retries_ok (e\<lparr>remote_busy := b\<rparr>) = retries_ok e"
  "retries_ok (e\<lparr>expected_tx_seq := s\<rparr>) = retries_ok e"
  "retries_ok (refresh_retransmission_deadline e) = retries_ok e"
  by (simp_all add: retries_ok_def refresh_retransmission_deadline_def)

lemma retries_same:
  "tx_window e' = tx_window e \<Longrightarrow> config e' = config e \<Longrightarrow> retries_ok e' = retries_ok e"
  by (simp add: retries_ok_def)

lemma process_output_loop_keeps:
  assumes "I e"
    and drop: "\<And>e rest. I e \<Longrightarrow> I (e\<lparr>pending := rest\<rparr>)"
    and move: "\<And>e rest a f out. I e \<Longrightarrow> I (e\<lparr>pending := rest, last_acked_rx_seq := a,
      tx_window := tx_window e @ [\<lparr>tf_frame = f, transmissions = 1\<rparr>], outbound := out\<rparr>)"
  shows "I (snd (process_output_loop e))"
  using assms(1)
proof (induction "length (pending e)" arbitrary: e rule: less_induct)
  case less
  show ?case
  proof (cases "length (tx_window e) < unat (tx_window_size (config e)) \<and> pending e \<noteq> []")
    case False
    then show ?thesis
      using less.prems by (subst process_output_loop.simps) (auto split: list.splits)
  next
    case True
    then obtain f rest where f: "pending e = f # rest" by (cases "pending e") auto
    show ?thesis
    proof (cases "encode_frame f (expected_tx_seq e) False")
      case (Ok b)
      then have "process_output_loop e = process_output_loop (e\<lparr>pending := rest,
          last_acked_rx_seq := expected_tx_seq e,
          tx_window := tx_window e @ [\<lparr>tf_frame = f, transmissions = 1\<rparr>], outbound := outbound e @ [b]\<rparr>)"
        using True f by (subst process_output_loop.simps) simp
      then show ?thesis using less.hyps move [OF less.prems] f by simp
    qed (use True f drop [OF less.prems] in \<open>subst process_output_loop.simps; simp\<close>)+
  qed
qed

lemma process_output_loop_retries: "retries_ok e \<Longrightarrow> retries_ok (snd (process_output_loop e))"
  by (rule process_output_loop_keeps [where I = retries_ok]) (auto simp: retries_ok_def)

lemma process_output_retries: "retries_ok e \<Longrightarrow> retries_ok (snd (process_output e))"
  using process_output_loop_retries [of e]
  by (auto simp: process_output_def refresh_retransmission_deadline_def retries_silent
      intro!: and_then_keeps [where I = retries_ok])

lemma send_supervisory_retries: "retries_ok e \<Longrightarrow> retries_ok (snd (send_supervisory fn p f e))"
  by (auto simp: send_supervisory_def retries_ok_def split: rresult.splits)

text \<open>
  Resending frames that are below the limit keeps the counters within it, and panics only where
  the limit is switched off.
\<close>

definition may_resend :: "ertm_engine \<Rightarrow> transmitted_frame \<Rightarrow> bool" where
  "may_resend e t \<longleftrightarrow> max_retransmissions (config e) \<noteq> 0 \<and>
     unat (transmissions t) \<le> unat (max_retransmissions (config e))"

lemma resend_frame_retries:
  assumes "retries_ok e" "tx_window e = earlier @ t # after"
    "max_retransmissions (config e) = 0 \<or> may_resend e t"
  shows "retries_ok (snd (resend_frame earlier t after e))"
    "config (snd (resend_frame earlier t after e)) = config e"
    "may_resend e t \<Longrightarrow> \<not> is_panic (fst (resend_frame earlier t after e))"
proof -
  have inc: "unat (transmissions t + 1) \<le> Suc (unat (transmissions t))"
    by (simp add: unat_word_ariths)
  have enc: "\<not> is_panic (encode_frame f k b)" for f k b
    by (cases f) (auto simp: encode_frame_def validate_seq_def)
  show "retries_ok (snd (resend_frame earlier t after e))"
    "config (snd (resend_frame earlier t after e)) = config e"
    using assms inc
    by (auto simp: resend_frame_def retries_ok_def may_resend_def Let_def split: rresult.splits)
  show "\<not> is_panic (fst (resend_frame earlier t after e))" if "may_resend e t"
  proof -
    have "unat (transmissions t) \<le> 255"
      using that unat_u8_less [of "max_retransmissions (config e)"] by (simp add: may_resend_def)
    then have "transmissions t \<noteq> 65535" by auto
    then show ?thesis
      using enc [of "tf_frame t" "expected_tx_seq e" False]
      by (auto simp: resend_frame_def Let_def split: rresult.splits)
  qed
qed

lemma retransmit_loop_retries:
  assumes "retries_ok e" "tx_window e = earlier @ after" "sender_view F base e" "expected_tx_seq e = seq R"
    "max_retransmissions (config e) = 0 \<or> (\<forall>t \<in> set after. may_resend e t)"
  shows "retries_ok (snd (retransmit_loop earlier after e)) \<and>
    (max_retransmissions (config e) \<noteq> 0 \<longrightarrow> \<not> is_panic (fst (retransmit_loop earlier after e)))"
  using assms
proof (induction after arbitrary: earlier e)
  case Nil
  then show ?case by simp
next
  case (Cons t after)
  obtain r e' where re: "resend_frame earlier t after e = (r, e')" by fastforce
  have lim: "max_retransmissions (config e) = 0 \<or> may_resend e t" using Cons.prems(5) by auto
  have em: "emits F base R e e'"
    using resend_frame_emits(1) [OF Cons.prems(3,4,2)] re by simp
  note keep = resend_frame_retries [OF Cons.prems(1,2) lim, unfolded re fst_conv snd_conv]
  show ?case
  proof (cases r)
    case (Ok x)
    have w: "tx_window e' = (earlier @ [t\<lparr>transmissions := transmissions t + 1\<rparr>]) @ after"
      using resend_frame_emits(2) [OF Cons.prems(3,4,2), of x] re Ok by simp
    have "may_resend e' u = may_resend e u" for u using keep(2) by (simp add: may_resend_def)
    then show ?thesis
      using Cons.IH [OF keep(1) w emits_view [OF em] trans [OF emits_expected [OF em] Cons.prems(4)]]
        Cons.prems(5) re Ok keep(2) by (auto simp: and_then_simps)
  qed (use re keep lim in \<open>auto simp: and_then_def\<close>)
qed

lemma retransmit_all_retries:
  assumes "retries_ok e" "sender_view F base e" "expected_tx_seq e = seq R"
  shows "retries_ok (snd (retransmit_all e)) \<and>
    (max_retransmissions (config e) \<noteq> 0 \<longrightarrow> \<not> is_panic (fst (retransmit_all e)))"
proof (cases "find (retransmission_limit_reached (max_retransmissions (config e))) (tx_window e)")
  case None
  then have "max_retransmissions (config e) = 0 \<or> (\<forall>t \<in> set (tx_window e). may_resend e t)"
    by (auto simp: find_None_iff limit_reached_iff may_resend_def)
  note loop = retransmit_loop_retries [OF assms(1) _ assms(2,3), of "[]" "tx_window e", simplified, OF this]
  then show ?thesis
    using None assms(1)
    by (auto simp: retransmit_all_def and_then_def retries_silent split: prod.splits rresult.splits)
qed (use assms(1) in \<open>auto simp: retransmit_all_def retries_silent retransmission_limit_error_def\<close>)

lemma retransmit_one_retries:
  assumes "retries_ok e" "sender_view F base e" "expected_tx_seq e = seq R"
  shows "retries_ok (snd (retransmit_one s e)) \<and>
    (max_retransmissions (config e) \<noteq> 0 \<longrightarrow> \<not> is_panic (fst (retransmit_one s e)))"
proof (cases "drop (length (takeWhile (\<lambda>f. pf_tx_seq (tf_frame f) \<noteq> s) (tx_window e))) (tx_window e)")
  case Nil
  then show ?thesis using assms by (simp add: retransmit_one_def Let_def)
next
  case (Cons t after)
  define earlier where "earlier = takeWhile (\<lambda>f. pf_tx_seq (tf_frame f) \<noteq> s) (tx_window e)"
  have w: "tx_window e = earlier @ t # after"
    using Cons unfolding earlier_def by (metis append_take_drop_id takeWhile_eq_take)
  show ?thesis
  proof (cases "retransmission_limit_reached (max_retransmissions (config e)) t")
    case True
    then show ?thesis
      using Cons assms(1) by (auto simp: retransmit_one_def Let_def retries_silent retransmission_limit_error_def)
  next
    case False
    then have lim: "max_retransmissions (config e) = 0 \<or> may_resend e t"
      by (auto simp: limit_reached_iff may_resend_def)
    note keep = resend_frame_retries [OF assms(1) w lim]
    show ?thesis
      using False Cons keep lim assms(1) unfolding retransmit_one_def
      by (auto simp: Let_def and_then_def retries_silent earlier_def [symmetric]
          split: prod.splits rresult.splits)
  qed
qed

section \<open>The engine under an arbitrary peer\<close>

text \<open>The calls a channel makes on its engine.\<close>

datatype ertm_event =
    SendSdu bytes | ReceiveFrame bytes | SetReceiverBusy bool | Tick u32
  | PollOutbound | DrainOutbound | PopReceived

fun ertm_step :: "ertm_engine \<Rightarrow> ertm_event \<Rightarrow> unit result \<times> ertm_engine" where
  "ertm_step e (SendSdu sdu) = send_sdu sdu e"
| "ertm_step e (ReceiveFrame frame) = receive_frame frame e"
| "ertm_step e (SetReceiverBusy busy) = set_receiver_busy busy e"
| "ertm_step e (Tick ticks) = ertm_tick ticks e"
| "ertm_step e PollOutbound = (Ok (), snd (ertm_poll_outbound e))"
| "ertm_step e DrainOutbound = (Ok (), snd (ertm_drain_outbound e))"
| "ertm_step e PopReceived = (Ok (), snd (ertm_pop_received e))"

text \<open>What a call must do: keep the invariant, and not panic when retransmissions are limited.\<close>

definition step_ok :: "ertm_engine \<Rightarrow> unit result \<times> ertm_engine \<Rightarrow> bool" where
  "step_ok e o' \<longleftrightarrow> ertm_inv (snd o') \<and> config (snd o') = config e \<and>
     (max_retransmissions (config e) \<noteq> 0 \<longrightarrow> \<not> is_panic (fst o'))"

lemma step_okI:
  assumes "emits F base R e1 (snd o')" "rx_ok e1" "retries_ok (snd o')" "0 < unat (peer_mps (config e1))"
    "config e1 = config e" "max_retransmissions (config e) \<noteq> 0 \<Longrightarrow> \<not> is_panic (fst o')"
  shows "step_ok e o'"
  using assms emits_config [OF assms(1)] emits_rx_ok [OF assms(1)] emits_view [OF assms(1)]
  by (auto simp: step_ok_def ertm_inv_def)

lemma step_ok_unchanged: "ertm_inv e \<Longrightarrow> \<not> is_panic r \<Longrightarrow> step_ok e (r, e)"
  by (simp add: step_ok_def)

lemma ertm_invE:
  assumes "ertm_inv e"
  obtains F base R where "sender_view F base e" "expected_tx_seq e = seq R" "rx_ok e" "retries_ok e"
    "0 < unat (peer_mps (config e))"
  using assms by (auto simp: ertm_inv_def rx_ok_def)

lemma is_panic_Ok: "r = Ok x \<Longrightarrow> \<not> is_panic r"
  by simp

lemma send_sdu_ok: assumes "ertm_inv e" shows "step_ok e (send_sdu sdu e)"
proof -
  from assms obtain F base R where e: "sender_view F base e" "expected_tx_seq e = seq R" "rx_ok e"
      "retries_ok e" "0 < unat (peer_mps (config e))" by (rule ertm_invE)
  define q where "q = queued F sdu e"
  have q: "expected_tx_seq q = seq R" "rx_ok q" "retries_ok q" "config q = config e"
    using e by (simp_all add: q_def queued_def Let_def rx_ok_def retries_ok_def)
  note po = process_output_emits [OF queued_view [OF e(1), of sdu], folded q_def, OF q(1)]
  have "step_ok e (process_output q)"
    using po q e(5) by (intro step_okI [OF conjunct2 [OF po]]) (auto intro: process_output_retries)
  then show ?thesis
    using assms by (simp add: send_sdu_eq [OF e(1,5)] q_def step_ok_unchanged)
qed

lemma send_supervisory_ok:
  assumes "ertm_inv e0" "e = e0\<lparr>local_busy := b\<rparr> \<or> e = e0"
  shows "step_ok e0 (send_supervisory fn p f e)"
proof -
  from assms(1) obtain F base R where e: "sender_view F base e0" "expected_tx_seq e0 = seq R" "rx_ok e0"
      "retries_ok e0" "0 < unat (peer_mps (config e0))" by (rule ertm_invE)
  then have e': "sender_view F base e" "expected_tx_seq e = seq R" "rx_ok e" "retries_ok e" "config e = config e0"
    using assms(2) by (auto simp: sender_view_def rx_ok_def retries_ok_def)
  note em = send_supervisory_emits [OF e'(1,2), of fn p f]
  show ?thesis
    using em e e' by (intro step_okI [OF conjunct2 [OF em]]) (auto intro: send_supervisory_retries)
qed

lemma set_receiver_busy_ok: "ertm_inv e \<Longrightarrow> step_ok e (set_receiver_busy b e)"
  using send_supervisory_ok [of e "e\<lparr>local_busy := b\<rparr>" b]
  by (auto simp: set_receiver_busy_def ensure_active_def and_then_def step_ok_unchanged)

lemma retransmit_all_ok:
  assumes "ertm_inv e0" "e = e0\<lparr>now := n\<rparr>"
  shows "step_ok e0 (retransmit_all e)"
proof -
  from assms(1) obtain F base R where e: "sender_view F base e0" "expected_tx_seq e0 = seq R" "rx_ok e0"
      "retries_ok e0" "0 < unat (peer_mps (config e0))" by (rule ertm_invE)
  then have e': "sender_view F base e" "expected_tx_seq e = seq R" "rx_ok e" "retries_ok e" "config e = config e0"
    using assms(2) by (auto simp: sender_view_def rx_ok_def retries_ok_def)
  show ?thesis
    using e e' retransmit_all_retries [OF e'(4,1,2)]
    by (intro step_okI [OF retransmit_all_emits [OF e'(1,2)]]) auto
qed

lemma tick_ok: assumes "ertm_inv e" shows "step_ok e (ertm_tick n e)"
proof -
  have "step_ok e (Ok (), e\<lparr>now := t\<rparr>)" for t
    using assms by (auto simp: step_ok_def ertm_inv_def sender_view_def rx_ok_def retries_ok_def)
  then show ?thesis
    using retransmit_all_ok [OF assms refl] assms
    by (auto simp: ertm_tick_def ensure_active_def and_then_def Let_def step_ok_unchanged)
qed

lemma poll_ok: "ertm_inv e \<Longrightarrow> step_ok e (Ok (), snd (ertm_poll_outbound e))"
  "ertm_inv e \<Longrightarrow> step_ok e (Ok (), snd (ertm_drain_outbound e))"
  "ertm_inv e \<Longrightarrow> step_ok e (Ok (), snd (ertm_pop_received e))"
  by (auto simp: step_ok_def ertm_inv_def sender_view_def rx_ok_def retries_ok_def ertm_poll_outbound_def
      ertm_drain_outbound_def ertm_pop_received_def split: list.splits)

lemma on_information_ok:
  assumes "sender_view F base e" "rx_ok e" "retries_ok e" "0 < unat (peer_mps (config e))"
  shows "step_ok e (on_information tx f sar p e)"
proof -
  obtain R where R: "expected_tx_seq e = seq R" using assms(2) by (auto simp: rx_ok_def)
  have inv: "ertm_inv e" using assms by (auto simp: ertm_inv_def)
  show ?thesis
  proof (cases "local_busy e \<or> tx \<noteq> seq R")
    case True
    then show ?thesis
      using send_supervisory_ok [OF inv, of e] R by (auto simp: on_information_def)
  next
    case False
    define a where "a = e\<lparr>expected_tx_seq := seq (Suc R)\<rparr>"
    have tx: "tx = seq R" "\<not> local_busy e" using False by auto
    have a: "rx_ok a" "retries_ok a" using assms by (auto simp: a_def rx_ok_def retries_ok_def)
    note acc = on_information_accepted [OF assms(1) R tx(2), of f sar p, folded a_def tx(1)]
    have ret: "retries_ok (snd (accept_information sar p a))"
      using a(2) retries_same [of "snd (accept_information sar p a)" a] by (simp add: accept_information_view)
    have "retries_ok (snd (on_information tx f sar p e))"
    proof -
      define k where "k = (\<lambda>_ :: unit. \<lambda>e. if last_acked_rx_seq e \<noteq> expected_tx_seq e then
        send_supervisory ReceiverReady False f e else (Ok (), e))"
      have k: "retries_ok s \<Longrightarrow> retries_ok (snd (and_then process_output k s))" for s
        using process_output_retries [of s]
        by (intro and_then_keeps [where I = retries_ok]) (auto simp: k_def send_supervisory_retries)
      have eq: "on_information tx f sar p e = and_then (accept_information sar p) (\<lambda>_. and_then process_output k) a"
        using R tx by (simp add: on_information_def a_def k_def)
      show ?thesis
        unfolding eq by (rule and_then_keeps [where I = retries_ok]) (use ret k in auto)
    qed
    then show ?thesis
      using acc a assms accept_information_no_panic [of sar p a] tx
      by (intro step_okI [OF conjunct2 [OF acc]])
        (auto intro: accept_information_rx_ok simp: accept_information_view a_def)
  qed
qed

lemma on_supervisory_ok:
  assumes "sender_view F base e" "rx_ok e" "retries_ok e" "0 < unat (peer_mps (config e))"
  shows "step_ok e (on_supervisory fn p f req acked e)"
proof -
  obtain R where R: "expected_tx_seq e = seq R" using assms(2) by (auto simp: rx_ok_def)
  define e1 where "e1 = e\<lparr>remote_busy := (fn = ReceiverNotReady)\<rparr>"
  have e1: "sender_view F base e1" "expected_tx_seq e1 = seq R" "retries_ok e1" "rx_ok e1"
    using assms R by (simp_all add: e1_def sender_view_def retries_ok_def rx_ok_def)
  define react where "react = (\<lambda>e. case fn of
          Reject \<Rightarrow> retransmit_all e
        | SelectiveReject \<Rightarrow> retransmit_one req e
        | _ \<Rightarrow> if f \<and> \<not> acked \<and> tx_window e \<noteq> [] then retransmit_all e else (Ok (), e))"
  define answer where "answer = (\<lambda>e. if p then send_supervisory
      (if local_busy e then ReceiverNotReady else ReceiverReady) False True e else (Ok (), e))"
  have eq: "on_supervisory fn p f req acked e =
      and_then react (\<lambda>_. and_then answer (\<lambda>_. process_output)) e1"
    by (simp add: on_supervisory_def react_def answer_def e1_def)
  have react: "retries_ok (snd (react e1)) \<and>
      (max_retransmissions (config e1) \<noteq> 0 \<longrightarrow> \<not> is_panic (fst (react e1))) \<and> emits F base R e1 (snd (react e1))"
    using retransmit_all_retries [OF e1(3,1,2)] retransmit_one_retries [OF e1(3,1,2)] e1
      retransmit_all_emits [OF e1(1,2)] retransmit_one_emits [OF e1(1,2)] emits_refl [OF e1(1)]
    by (auto simp: react_def split: supervisory_function.split)
  have tail: "retries_ok (snd (and_then answer (\<lambda>_. process_output) s)) \<and>
      fst (and_then answer (\<lambda>_. process_output) s) = Ok ()"
    if "sender_view F base s" "expected_tx_seq s = seq R" "retries_ok s" for s
  proof -
    obtain r s1 where s1: "answer s = (r, s1)" by fastforce
    have "r = Ok () \<and> emits F base R s s1 \<and> retries_ok s1"
      using send_supervisory_emits [OF that(1,2)] send_supervisory_retries [OF that(3)] emits_refl [OF that(1)]
        that(3) s1 unfolding answer_def by (auto split: if_splits) (metis fst_conv snd_conv)+
    then show ?thesis
      using process_output_emits [OF emits_view, of F base R s s1] emits_expected [of F base R s s1] that(2)
        process_output_retries [of s1] s1 by (auto simp: and_then_def)
  qed
  have "retries_ok (snd (on_supervisory fn p f req acked e)) \<and>
    (max_retransmissions (config e1) \<noteq> 0 \<longrightarrow> \<not> is_panic (fst (on_supervisory fn p f req acked e)))"
  proof (cases "react e1")
    case (Pair r s)
    with react e1 have s: "sender_view F base s" "expected_tx_seq s = seq R" "retries_ok s"
      by (auto dest: emits_view emits_expected)
    show ?thesis
      using tail [OF s] react Pair unfolding eq by (cases r) (auto simp: and_then_def)
  qed
  then show ?thesis
    using e1 assms(4)
    by (intro step_okI [OF on_supervisory_emits [OF assms(1) R]]) (auto simp: e1_def rx_ok_def)
qed

lemma receive_frame_ok: assumes "ertm_inv e" shows "step_ok e (receive_frame frame e)"
proof -
  from assms obtain F base R where e: "sender_view F base e" "expected_tx_seq e = seq R" "rx_ok e"
      "retries_ok e" "0 < unat (peer_mps (config e))" by (rule ertm_invE)
  show ?thesis
  proof (cases "failed e \<or> \<not> is_ok (control_field_from_bytes frame)")
    case True
    have "\<not> is_panic (control_field_from_bytes frame)"
      by (auto simp: control_field_from_bytes_def Let_def)
    with True assms show ?thesis
      by (cases "control_field_from_bytes frame")
        (auto simp: receive_frame_def ensure_active_def and_then_def lift_result_def step_ok_unchanged)
  next
    case False
    then obtain c where c: "control_field_from_bytes frame = Ok c"
      by (cases "control_field_from_bytes frame") auto
    have wf: "unat (control_req_seq c) < 64"
      using control_field_from_bytes_wf [OF c] by (cases c) auto
    show ?thesis
    proof (cases rule: acknowledge_cases [OF e(1) wf])
      case (1 x)
      with False c assms show ?thesis
        by (simp add: receive_frame_def ensure_active_def and_then_def lift_result_def step_ok_unchanged)
    next
      case (2 n e1)
      have e1: "rx_ok e1" "retries_ok e1" "config e1 = config e"
        using e by (subst 2(4); auto simp: rx_ok_def retries_ok_def dest: in_set_dropD)+
      have "step_ok e1 (on_information tx f sar p e1)" "step_ok e1 (on_supervisory fn q f req acked e1)"
        for tx f sar p fn q req acked
        using on_information_ok [OF 2(5) e1(1,2)] on_supervisory_ok [OF 2(5) e1(1,2)] e(5) e1(3) by simp_all
      then show ?thesis
        using False c 2(3) e1(3)
        by (auto simp: receive_frame_def ensure_active_def and_then_def lift_result_def step_ok_def
            split: enhanced_control_field.splits)
    qed
  qed
qed

lemma ertm_step_ok: "ertm_inv e \<Longrightarrow> step_ok e (ertm_step e ev)"
  by (cases ev) (simp_all add: send_sdu_ok receive_frame_ok set_receiver_busy_ok tick_ok poll_ok)

interpretation ertm: machine ertm_step "\<lambda>e. ertm_inv e \<and> config e = c \<and> max_retransmissions c \<noteq> 0"
  "\<lambda>r. \<not> is_panic r" for c
  using ertm_step_ok by unfold_locales (auto simp: step_ok_def)

section \<open>Properties\<close>

text \<open>
  The sequence numbers of the frames not yet acknowledged, in order, count up from the last
  acknowledged one modulo 64, and the next one to be used follows them.
\<close>

definition consecutive :: "ertm_engine \<Rightarrow> bool" where
  "consecutive e \<longleftrightarrow>
     map pf_tx_seq (map tf_frame (tx_window e) @ pending e) @ [next_tx_seq e] =
     map (\<lambda>i. sequence_add (last_acked_tx_seq e) (of_nat i)) [0..<Suc (pending_frames e)]"

lemma sequence_add_of_nat: "sequence_add (seq b) (of_nat i) = seq (b + i)"
proof -
  have "(b mod 64 + i mod 256) mod 64 = (b + i mod 256 mod 64) mod 64"
    by (metis mod_add_left_eq mod_add_right_eq)
  also have "i mod 256 mod 64 = i mod 64" by (rule mod_mod_cancel) simp
  finally have "unat (sequence_add (seq b) (of_nat i)) = unat (seq (b + i))"
    by (simp add: unat_sequence_add unat_of_nat take_bit_eq_mod mod_simps)
  then show ?thesis by (rule unsigned_word_eqI)
qed

lemma sender_view_consecutive:
  assumes "sender_view F base e"
  shows "consecutive e"
proof -
  have "map tf_frame (tx_window e) @ pending e = drop base F"
    using assms unfolding sender_view_def
    by (metis append_take_drop_id drop_drop add.commute)
  moreover have "map pf_tx_seq (drop base F) = map (\<lambda>i. seq (base + i)) [0..<length F - base]"
    using assms by (intro nth_equalityI) (auto simp: sender_view_def)
  moreover have "pending_frames e = length F - base" "base \<le> length F"
    using assms by (auto simp: sender_view_def pending_frames_def)
  ultimately show ?thesis
    using assms unfolding consecutive_def sender_view_def
    by (simp only: sequence_add_of_nat) (simp del: map_append, simp)
qed

lemma ertm_new_inv:
  assumes "ertm_new c = Ok e"
  shows "ertm_inv e" "config e = c" "sender_view [] 0 e" "expected_tx_seq e = seq 0"
    "0 < unat (peer_mps c)" "failed e = False" "remote_busy e = False" "outbound e = []"
    "received e = []" "input_sdu e = []" "input_sdu_length e = None" "tx_window e = []"
proof -
  have c: "ertm_validate c = Ok c" and e: "e = \<lparr>config = c, pending = [], tx_window = [], outbound = [],
         received = [], next_tx_seq = 0, last_acked_tx_seq = 0, expected_tx_seq = 0, last_acked_rx_seq = 0,
         remote_busy = False, local_busy = False, input_sdu = [], input_sdu_length = None, now = 0,
         retransmission_deadline = None, failed = False\<rparr>"
    using assms by (auto simp: ertm_new_def ertm_validate_def split: if_splits)
  have "0 < unat (peer_mps c)" "unat (tx_window_size c) < 64"
    using c by (auto simp: ertm_validate_def less_modulus_iff unat_gt_0 split: if_splits)
  moreover have "seq 0 = 0" by (simp add: seq_def)
  ultimately show "ertm_inv e" "config e = c" "sender_view [] 0 e" "expected_tx_seq e = seq 0"
    "0 < unat (peer_mps c)" "failed e = False" "remote_busy e = False" "outbound e = []"
    "received e = []" "input_sdu e = []" "input_sdu_length e = None" "tx_window e = []"
    unfolding ertm_inv_def rx_ok_def e
    by (auto simp: sender_view_def retries_ok_def intro: exI [of _ "[]"] exI [of _ 0])
qed

text \<open>
  Property C24: whatever frames a peer sends and whatever the application calls, an engine
  with a retry limit never panics; never has more unacknowledged frames than its transmit window;
  its outstanding frames are numbered consecutively modulo 64; and every SDU it hands to the
  application fits the local MTU.
\<close>

theorem ertm_engine_safe:
  assumes "ertm_new c = Ok e0" and "max_retransmissions c \<noteq> 0"
    and "run_machine ertm_step e0 evs = (rs, e)"
  shows "(\<forall>r \<in> set rs. \<not> is_panic r) \<and> unacked_frames e \<le> unat (tx_window_size c) \<and>
    consecutive e \<and> (\<forall>sdu \<in> set (received e). length sdu \<le> unat (local_mtu c))"
proof -
  have inv0: "ertm_inv e0 \<and> config e0 = c \<and> max_retransmissions c \<noteq> 0"
    using ertm_new_inv [OF assms(1)] assms(2) by simp
  have inv: "ertm_inv e \<and> config e = c"
    using ertm.run_inv [OF inv0, of evs] assms(3) by simp
  then have "consecutive e \<and> unacked_frames e \<le> unat (tx_window_size c)"
    using sender_view_consecutive by (auto simp: ertm_inv_def sender_view_def unacked_frames_def)
  then show ?thesis
    using ertm.run_good [OF inv0, of _ evs] assms(3) inv by (auto simp: ertm_inv_def rx_ok_def)
qed

theorem ertm_engine_safe_witness:
  "\<exists>e0 rs e. ertm_new (ertm_config_default\<lparr>max_retransmissions := 3\<rparr>) = Ok e0 \<and>
     run_machine ertm_step e0 [SendSdu [1, 2], ReceiveFrame [0, 7], Tick 2000] = (rs, e) \<and>
     (\<forall>r \<in> set rs. \<not> is_panic r) \<and> consecutive e"
proof -
  obtain e0 where e0: "ertm_new (ertm_config_default\<lparr>max_retransmissions := 3\<rparr>) = Ok e0"
    by (simp add: ertm_new_def ertm_validate_def ertm_config_default_def ERTM_SEQUENCE_MODULUS_def)
  obtain rs e where run: "run_machine ertm_step e0 [SendSdu [1, 2], ReceiveFrame [0, 7], Tick 2000] = (rs, e)"
    by fastforce
  from ertm_engine_safe [OF e0 _ run] e0 run show ?thesis by simp
qed

text \<open>A single outstanding frame, sent \<open>n\<close> times, with its timer running.\<close>

definition lone :: "pending_frame \<Rightarrow> nat \<Rightarrow> bytes \<Rightarrow> ertm_engine \<Rightarrow> bool" where
  "lone f n b e \<longleftrightarrow> \<not> failed e \<and> \<not> remote_busy e \<and> tx_window e = [\<lparr>tf_frame = f, transmissions = of_nat n\<rparr>] \<and>
     retransmission_deadline e =
       Some (u64_saturating_add (now e) (ucast (retransmission_timeout_ticks (config e)))) \<and>
     encode_frame f (expected_tx_seq e) False = Ok b"

lemma lone_tick:
  assumes "lone f n b e" "1 \<le> n" "n \<le> 65535"
  defines "m \<equiv> unat (max_retransmissions (config e))"
  shows "m \<noteq> 0 \<Longrightarrow> m < n \<Longrightarrow> \<exists>e'. ertm_tick (retransmission_timeout_ticks (config e)) e =
      (retransmission_limit_error (pf_tx_seq f), e') \<and> failed e'"
    and "m = 0 \<Longrightarrow> n = 65535 \<Longrightarrow>
      is_panic (fst (ertm_tick (retransmission_timeout_ticks (config e)) e))"
    and "n < 65535 \<Longrightarrow> m = 0 \<or> n \<le> m \<Longrightarrow>
      \<exists>e'. ertm_tick (retransmission_timeout_ticks (config e)) e = (Ok (), e') \<and> lone f (Suc n) b e' \<and>
        config e' = config e \<and> outbound e' = outbound e @ [b]"
proof -
  define e1 where "e1 = e\<lparr>now := u64_saturating_add (now e) (ucast (retransmission_timeout_ticks (config e)))\<rparr>"
  have tick: "ertm_tick (retransmission_timeout_ticks (config e)) e = retransmit_all e1"
    using assms(1) by (simp add: ertm_tick_def ensure_active_def and_then_def lone_def e1_def Let_def)
  have n: "unat (of_nat n :: u16) = n" using assms(3) by (simp add: unat_of_nat_u16)
  have w: "tx_window e1 = [\<lparr>tf_frame = f, transmissions = of_nat n\<rparr>]" "\<not> remote_busy e1" "config e1 = config e"
    using assms(1) by (simp_all add: lone_def e1_def)
  have lim: "retransmission_limit_reached (max_retransmissions (config e)) \<lparr>tf_frame = f, transmissions = of_nat n\<rparr> \<longleftrightarrow>
      m \<noteq> 0 \<and> m < n"
    by (auto simp: limit_reached_iff n m_def unat_eq_zero)
  show "\<exists>e'. ertm_tick (retransmission_timeout_ticks (config e)) e =
      (retransmission_limit_error (pf_tx_seq f), e') \<and> failed e'" if "m \<noteq> 0" "m < n"
    using that w lim unfolding tick by (simp add: retransmit_all_def)
  show "is_panic (fst (ertm_tick (retransmission_timeout_ticks (config e)) e))" if "m = 0" "n = 65535"
    using that w lim unfolding tick
    by (simp add: retransmit_all_def resend_frame_def and_then_def)
  show "\<exists>e'. ertm_tick (retransmission_timeout_ticks (config e)) e = (Ok (), e') \<and> lone f (Suc n) b e' \<and>
        config e' = config e \<and> outbound e' = outbound e @ [b]" if "n < 65535" "m = 0 \<or> n \<le> m"
  proof -
    have "\<not> (m \<noteq> 0 \<and> m < n)" using that by auto
    moreover have "(of_nat n :: u16) \<noteq> 65535" using n that(1) by auto
    moreover have "encode_frame f (expected_tx_seq e1) False = Ok b" using assms(1) by (simp add: lone_def e1_def)
    ultimately have "retransmit_all e1 = (Ok (), refresh_retransmission_deadline
        (e1\<lparr>tx_window := [\<lparr>tf_frame = f, transmissions = of_nat n + 1\<rparr>], outbound := outbound e1 @ [b],
           last_acked_rx_seq := expected_tx_seq e1\<rparr>))"
      using w lim by (auto simp: retransmit_all_def resend_frame_def and_then_def)
    then show ?thesis
      using assms(1) unfolding tick
      by (auto simp: lone_def refresh_retransmission_deadline_def e1_def add.commute)
  qed
qed

lemma lone_run:
  assumes "lone f n b e" "1 \<le> n" "n + k \<le> 65535"
    "max_retransmissions (config e) = 0 \<or> n + k \<le> Suc (unat (max_retransmissions (config e)))"
  shows "\<exists>e'. run_machine ertm_step e (replicate k (Tick (retransmission_timeout_ticks (config e)))) =
    (replicate k (Ok ()), e') \<and> lone f (n + k) b e' \<and> config e' = config e \<and>
    outbound e' = outbound e @ replicate k b"
  using assms
proof (induction k arbitrary: n e)
  case 0
  then show ?case by simp
next
  case (Suc k)
  have "n < 65535" "unat (max_retransmissions (config e)) = 0 \<or> n \<le> unat (max_retransmissions (config e))"
    using Suc.prems by auto
  from lone_tick(3) [OF Suc.prems(1,2) _ this] obtain e1 where
    e1: "ertm_tick (retransmission_timeout_ticks (config e)) e = (Ok (), e1)" "lone f (Suc n) b e1"
      "config e1 = config e" "outbound e1 = outbound e @ [b]"
    using Suc.prems by auto
  from Suc.IH [OF e1(2)] Suc.prems e1 show ?case
    by (auto simp: Let_def split_beta)
qed

lemma lone_start:
  assumes "ertm_new c = Ok e0" "length sdu \<le> unat (peer_mps c)" "length sdu \<le> unat (peer_mtu c)"
  obtains f b e where "send_sdu sdu e0 = (Ok (), e)" "lone f 1 b e" "config e = c" "outbound e = [b]"
    "pf_tx_seq f = 0" "drop 2 b = sdu"
proof -
  note e0 = ertm_new_inv [OF assms(1)]
  define f where "f = \<lparr>pf_payload = sdu, pf_tx_seq = 0, pf_sar = Unsegmented, pf_sdu_length = None\<rparr>"
  define q where "q = queued [] sdu e0"
  have z: "seq 0 = 0" by (simp add: seq_def)
  obtain b where b: "encode_frame f 0 False = Ok b"
    using encode_frame_ok [of f 0 False] by (auto simp: f_def z)
  have "drop 2 b = sdu"
    using b control_field_decodes by (auto simp: encode_frame_def f_def)
  have size: "0 < unat (tx_window_size c)"
    using assms(1) by (auto simp: ertm_new_def ertm_validate_def unat_gt_0 split: if_splits)
  have q: "pending q = [f]" "tx_window q = []" "config q = c" "expected_tx_seq q = 0" "outbound q = []"
      "\<not> failed q" "\<not> remote_busy q"
    using e0 assms(2) by (simp_all add: q_def queued_def frames_of_def f_def Let_def z sender_view_def)
  define e where "e = refresh_retransmission_deadline (q\<lparr>pending := [], last_acked_rx_seq := 0,
    tx_window := [\<lparr>tf_frame = f, transmissions = 1\<rparr>], outbound := [b]\<rparr>)"
  have "process_output_loop q = (Ok (), q\<lparr>pending := [], last_acked_rx_seq := 0,
    tx_window := [\<lparr>tf_frame = f, transmissions = 1\<rparr>], outbound := [b]\<rparr>)"
    using q b size by (simp add: process_output_loop.simps)
  then have "process_output q = (Ok (), e)"
    using q by (simp add: process_output_def and_then_def e_def)
  then have "send_sdu sdu e0 = (Ok (), e)"
    using e0 assms(3) send_sdu_eq [OF e0(3), of sdu] by (simp add: q_def)
  moreover have "lone f 1 b e"
    using q b by (simp add: lone_def e_def refresh_retransmission_deadline_def)
  ultimately show thesis
    using that [of e f b] q \<open>drop 2 b = sdu\<close>
    by (simp add: e_def f_def refresh_retransmission_deadline_def)
qed



end
