(* ===== verification/Ertm_Link.thy ===== *)
theory Ertm_Link
  imports Ertm_Engine "HOL-Library.Sublist"
begin

text \<open>
  Two ERTM engines (\<open>bumble-l2cap/src/ertm.rs\<close>) joined by two wires that keep the order of frames
  and may lose any of them at any time. The applications, the clocks, the wires and the losses
  interleave arbitrarily. The theory shows that each side delivers a prefix of what the other side
  sent: nothing is lost, duplicated, reordered or corrupted, across any number of wrap-arounds of
  the six-bit sequence numbers.
\<close>

section \<open>Two engines and a lossy link\<close>

record ertm_link =
  left :: ertm_engine
  right :: ertm_engine
  wire_lr :: "bytes list"
  wire_rl :: "bytes list"
  sent_l :: "bytes list"
  sent_r :: "bytes list"
  got_l :: "bytes list"
  got_r :: "bytes list"

definition mirror :: "ertm_link \<Rightarrow> ertm_link" where
  "mirror s = \<lparr>left = right s, right = left s, wire_lr = wire_rl s, wire_rl = wire_lr s,
     sent_l = sent_r s, sent_r = sent_l s, got_l = got_r s, got_r = got_l s\<rparr>"

datatype link_event =
    AppSend bytes | AppBusy bool | Time u32 | AppPop | Transmit | Lose nat | Deliver

fun act :: "ertm_link \<Rightarrow> link_event \<Rightarrow> ertm_link" where
  "act s (AppSend sdu) =
     (let (r, e) = send_sdu sdu (left s)
      in s\<lparr>left := e, sent_l := sent_l s @ (if r = Ok () then [sdu] else [])\<rparr>)"
| "act s (AppBusy busy) = s\<lparr>left := snd (set_receiver_busy busy (left s))\<rparr>"
| "act s (Time ticks) = s\<lparr>left := snd (ertm_tick ticks (left s))\<rparr>"
| "act s AppPop =
     (case ertm_pop_received (left s) of
        (Some sdu, e) \<Rightarrow> s\<lparr>left := e, got_l := got_l s @ [sdu]\<rparr>
      | (None, e) \<Rightarrow> s)"
| "act s Transmit =
     (case ertm_poll_outbound (left s) of
        (Some frame, e) \<Rightarrow> s\<lparr>left := e, wire_lr := wire_lr s @ [frame]\<rparr>
      | (None, e) \<Rightarrow> s)"
| "act s (Lose i) = s\<lparr>wire_lr := take i (wire_lr s) @ drop (Suc i) (wire_lr s)\<rparr>"
| "act s Deliver =
     (case wire_rl s of
        [] \<Rightarrow> s
      | frame # frames \<Rightarrow> s\<lparr>wire_rl := frames, left := snd (receive_frame frame (left s))\<rparr>)"

fun link_step :: "ertm_link \<Rightarrow> bool \<times> link_event \<Rightarrow> ertm_link" where
  "link_step s (True, ev) = act s ev"
| "link_step s (False, ev) = mirror (act (mirror s) ev)"

definition link_start :: "ertm_engine \<Rightarrow> ertm_engine \<Rightarrow> ertm_link" where
  "link_start a b = \<lparr>left = a, right = b, wire_lr = [], wire_rl = [], sent_l = [], sent_r = [],
     got_l = [], got_r = []\<rparr>"

section \<open>The frame stream of a sequence of SDUs\<close>

definition stream :: "nat \<Rightarrow> bytes list \<Rightarrow> pending_frame list" where
  "stream mps sdus = fold (\<lambda>sdu F. F @ frames_of mps (length F) sdu) sdus []"

lemma stream_simps [simp]:
  "stream mps [] = []"
  "stream mps (sdus @ [sdu]) = stream mps sdus @ frames_of mps (length (stream mps sdus)) sdu"
  by (simp_all add: stream_def)

lemma stream_append: "\<exists>G. stream mps (xs @ ys) = stream mps xs @ G"
proof (induction ys rule: rev_induct)
  case (snoc y ys)
  then show ?case by (metis append.assoc stream_simps(2))
qed simp

lemma stream_nth:
  assumes "i < length (frames_of mps (length (stream mps xs)) s)"
  shows "stream mps (xs @ s # ys) ! (length (stream mps xs) + i) = frames_of mps (length (stream mps xs)) s ! i"
proof -
  obtain G where "stream mps ((xs @ [s]) @ ys) = stream mps (xs @ [s]) @ G"
    using stream_append by blast
  then show ?thesis using assms by (simp add: nth_append)
qed

definition frame_body :: "pending_frame \<Rightarrow> bytes" where
  "frame_body f = (case pf_sdu_length f of Some n \<Rightarrow> u16_to_le_bytes n | None \<Rightarrow> []) @ pf_payload f"

text \<open>
  The receiver after \<open>R\<close> frames of the stream of \<open>sdus\<close>: the complete SDUs among them have been
  delivered, and of an incomplete one the first \<open>i\<close> segments are stored.
\<close>

definition reassembled ::
  "nat \<Rightarrow> bytes list \<Rightarrow> nat \<Rightarrow> bytes list \<Rightarrow> bytes \<Rightarrow> nat option \<Rightarrow> bool" where
  "reassembled mps sdus R out acc len \<longleftrightarrow>
     (\<exists>rest i. sdus = out @ rest \<and> R = length (stream mps out) + i \<and>
        (i = 0 \<and> acc = [] \<and> len = None \<or>
         (\<exists>s ss. rest = s # ss \<and> mps < length s \<and> 0 < i \<and> i * mps < length s \<and>
            acc = take (i * mps) s \<and> len = Some (length s))))"

lemma reassembled_append:
  "reassembled mps sdus R out acc len \<Longrightarrow> reassembled mps (sdus @ extra) R out acc len"
  unfolding reassembled_def by fastforce

lemma reassembled_prefix: "reassembled mps sdus R out acc len \<Longrightarrow> out = take (length out) sdus"
  by (auto simp: reassembled_def)

lemma length_frames_of:
  "0 < mps \<Longrightarrow> mps < length s \<Longrightarrow> i < length (frames_of mps n s) \<longleftrightarrow> i * mps < length s"
  "0 < length (frames_of mps n s) \<longleftrightarrow> length s \<le> mps \<or> 0 < mps"
  by (auto simp: frames_of_def chunks_nth)

lemma take_segment: "take (i * m) s @ take m (drop (i * m) s) = take (Suc i * m) s"
  by (metis add.commute mult_Suc take_add)

lemma accept_next:
  assumes "reassembled mps sdus R (g @ received e) (input_sdu e) (input_sdu_length e)"
    and "R < length (stream mps sdus)" and "0 < mps"
    and mtu: "\<And>s. s \<in> set sdus \<Longrightarrow> length s \<le> unat (local_mtu (config e))"
    and f: "f = stream mps sdus ! R"
  shows "\<exists>e'. accept_information (pf_sar f) (frame_body f) e = (Ok (), e') \<and>
    reassembled mps sdus (Suc R) (g @ received e') (input_sdu e') (input_sdu_length e')"
proof -
  let ?out = "g @ received e"
  define n where "n = length (stream mps ?out)"
  obtain rest i where sdus: "sdus = ?out @ rest" and R: "R = n + i"
    and st: "i = 0 \<and> input_sdu e = [] \<and> input_sdu_length e = None \<or>
         (\<exists>s ss. rest = s # ss \<and> mps < length s \<and> 0 < i \<and> i * mps < length s \<and>
            input_sdu e = take (i * mps) s \<and> input_sdu_length e = Some (length s))"
    using assms(1) unfolding reassembled_def n_def by blast
  have "rest \<noteq> []" using assms(2) st sdus R by (auto simp: n_def)
  then obtain s ss where rest: "rest = s # ss" by (cases rest) auto
  have len: "length s \<le> unat (local_mtu (config e))" "length s \<le> 65535"
    using mtu [of s] sdus rest unat_u16_le [of "local_mtu (config e)"] by auto
  have bound: "i < length (frames_of mps n s)"
    using st rest assms(3) length_frames_of(1) [of mps s i n] length_frames_of(2) [of mps n s] by auto
  then have fi: "f = frames_of mps n s ! i"
    using stream_nth [of i mps ?out s ss] by (simp add: f R sdus rest n_def)
  consider (whole) "length s \<le> mps" "i = 0" | (start) "mps < length s" "i = 0"
    | (later) "mps < length s" "0 < i"
    using st rest by (cases "length s \<le> mps") auto
  then show ?thesis
  proof cases
    case whole
    have "reassembled mps sdus (Suc R) (g @ (received e @ [s])) [] None"
      using whole sdus rest R unfolding reassembled_def
      by (intro exI [of _ ss] exI [of _ 0]) (simp add: frames_of_def n_def flip: append_assoc)
    then show ?thesis
      using whole len st fi by (simp add: frames_of_def frame_body_def)
  next
    case start
    then have f0: "f = segment_frame mps s n 0" using fi bound by (simp add: frames_of_def)
    have "reassembled mps sdus (Suc R) (g @ received e) (take mps s) (Some (length s))"
      using start sdus rest R assms(3) unfolding reassembled_def
      by (intro exI [of _ rest] exI [of _ 1]) (auto simp: n_def)
    then show ?thesis
      using start len st f0
      by (auto simp: segment_frame_def frame_body_def check_partial_length_def u16_to_le_bytes_def
          unat_of_nat_u16 Let_def)
  next
    case later
    have f0: "f = segment_frame mps s n i" using later fi bound by (simp add: frames_of_def)
    have acc: "input_sdu e = take (i * mps) s" "input_sdu_length e = Some (length s)" "i * mps < length s"
      using st later rest by auto
    define chunk where "chunk = take mps (drop (i * mps) s)"
    have whole: "take (i * mps) s @ chunk = take (Suc i * mps) s" by (simp only: chunk_def take_segment)
    show ?thesis
    proof (cases "i * mps + length chunk = length s")
      case True
      have "length (take (Suc i * mps) s) = length s"
        using True acc(3) unfolding whole [symmetric] by simp
      then have all: "take (i * mps) s @ chunk = s" unfolding whole by simp
      have last: "length (frames_of mps n s) = Suc i"
      proof -
        have "\<not> Suc i * mps < length s" using \<open>length (take (Suc i * mps) s) = length s\<close> by simp
        then show ?thesis
          using bound length_frames_of(1) [OF assms(3) later(1), of "Suc i" n] by linarith
      qed
      have "reassembled mps sdus (Suc R) (g @ (received e @ [s])) [] None"
        using sdus rest R last unfolding reassembled_def
        by (intro exI [of _ ss] exI [of _ 0]) (simp add: n_def flip: append_assoc)
      then show ?thesis
        using True later acc f0 all
        by (simp add: segment_frame_def frame_body_def chunk_def [symmetric] Let_def)
    next
      case False
      have lt: "Suc i * mps < length s"
        using False acc(3) by (simp add: chunk_def)
      have "reassembled mps sdus (Suc R) (g @ received e) (take (Suc i * mps) s) (Some (length s))"
        using later sdus rest R lt unfolding reassembled_def
        by (intro exI [of _ rest] exI [of _ "Suc i"]) (auto simp: n_def)
      then show ?thesis
        using False later acc f0 lt whole
        by (simp add: segment_frame_def frame_body_def chunk_def [symmetric] check_partial_length_def Let_def)
    qed
  qed
qed

section \<open>The link invariant\<close>

text \<open>
  One direction of the link, from the sender \<open>A\<close> to the receiver \<open>B\<close>. \<open>base\<close> frames are
  acknowledged, \<open>R\<close> have been accepted; \<open>js\<close> are the information frames under way from \<open>A\<close> and
  \<open>ks\<close> the acknowledgements under way to \<open>A\<close>, both oldest first. The distances between them stay
  below 64, so that sequence numbers identify frames.
\<close>

definition flow ::
  "ertm_engine \<Rightarrow> ertm_engine \<Rightarrow> bytes list \<Rightarrow> bytes list \<Rightarrow> nat \<Rightarrow> nat \<Rightarrow> nat list \<Rightarrow> nat list \<Rightarrow> bool" where
  "flow A B sdus got base R js ks \<longleftrightarrow>
     0 < unat (peer_mps (config A)) \<and> unat (peer_mtu (config A)) \<le> unat (local_mtu (config B)) \<and>
     (\<forall>s \<in> set sdus. length s \<le> unat (local_mtu (config B))) \<and>
     sender_view (stream (unat (peer_mps (config A))) sdus) base A \<and>
     expected_tx_seq B = seq R \<and>
     reassembled (unat (peer_mps (config A))) sdus R (got @ received B) (input_sdu B) (input_sdu_length B) \<and>
     base \<le> R \<and> R \<le> base + length (tx_window A) \<and>
     (\<forall>j \<in> set js. j < base + length (tx_window A) \<and> R \<le> j + 63) \<and>
     sorted_wrt (\<lambda>j j'. j \<le> j' + 62) js \<and>
     sorted (ks @ [R]) \<and> (\<forall>k \<in> set ks. base \<le> k)"

definition infos :: "(nat option \<times> nat) list \<Rightarrow> nat list" where
  "infos ts = List.map_filter fst ts"

lemma infos_simps [simp]:
  "infos [] = []" "infos ((None, k) # ts) = infos ts" "infos ((Some j, k) # ts) = j # infos ts"
  "infos (ts @ us) = infos ts @ infos us"
  by (simp_all add: infos_def map_filter_def)

lemma in_infos: "j \<in> set (infos ts) \<longleftrightarrow> (\<exists>k. (Some j, k) \<in> set ts)"
  by (force simp: infos_def map_filter_def)

abbreviation frames_sent :: "ertm_engine \<Rightarrow> bytes list \<Rightarrow> pending_frame list" where
  "frames_sent A sdus \<equiv> stream (unat (peer_mps (config A))) sdus"

text \<open>
  Both directions, with the tags of the frames in the two queues \<open>qA\<close> (sent by \<open>A\<close>) and \<open>qB\<close>.
\<close>

definition linked_at where
  "linked_at ts us bA rA bB rB A B qA qB sA sB gA gB \<longleftrightarrow>
     list_all2 (tagged (frames_sent A sA)) ts qA \<and> list_all2 (tagged (frames_sent B sB)) us qB \<and>
     flow A B sA gB bA rB (infos ts) (map snd us) \<and> flow B A sB gA bB rA (infos us) (map snd ts)"

definition linked where
  "linked A B qA qB sA sB gA gB \<longleftrightarrow>
     (\<exists>ts us bA rA bB rB. linked_at ts us bA rA bB rB A B qA qB sA sB gA gB)"

lemma linked_sym: "linked A B qA qB sA sB gA gB \<Longrightarrow> linked B A qB qA sB sA gB gA"
  unfolding linked_def linked_at_def by blast

text \<open>A queue may lose frames.\<close>

lemma flow_subseq:
  assumes "flow A B sdus got base R (xs @ ys @ zs) ks" shows "flow A B sdus got base R (xs @ zs) ks"
  using assms by (auto simp: flow_def sorted_wrt_append)

lemma flow_subseq_ack:
  assumes "flow A B sdus got base R js (xs @ ys @ zs)" shows "flow A B sdus got base R js (xs @ zs)"
  using assms by (auto simp: flow_def sorted_append)

lemma linked_at_lose:
  assumes "linked_at ts us bA rA bB rB A B (p @ b # q) qB sA sB gA gB"
  shows "\<exists>ts'. linked_at ts' us bA rA bB rB A B (p @ q) qB sA sB gA gB"
proof -
  obtain t1 t t2 where t: "ts = t1 @ t # t2" "list_all2 (tagged (frames_sent A sA)) t1 p"
      "list_all2 (tagged (frames_sent A sA)) t2 q"
    using assms unfolding linked_at_def by (auto simp: list_all2_append2 list_all2_Cons2)
  have ts: "infos ts = infos t1 @ infos [t] @ infos t2" "map snd ts = map snd t1 @ [snd t] @ map snd t2"
    using t(1) infos_simps(4) [of "[t]" t2] by simp_all
  have "linked_at (t1 @ t2) us bA rA bB rB A B (p @ q) qB sA sB gA gB"
    using assms t(2,3) flow_subseq_ack [of B A sB gA bB rA "infos us" "map snd t1" "[snd t]" "map snd t2"]
    unfolding linked_at_def ts by (auto intro: list_all2_appendI dest: flow_subseq)
  then show ?thesis by blast
qed

text \<open>The engine \<open>A\<close> emits frames.\<close>

lemma sorted_wrt_all: "(\<And>x y. x \<in> set xs \<Longrightarrow> y \<in> set xs \<Longrightarrow> P x y) \<Longrightarrow> sorted_wrt P xs"
  by (induction xs) auto

lemma flow_emit_sender:
  assumes "flow A B sA gB bA rB js ks" "emits (frames_sent A sA) bA rA A A'"
    and "\<forall>j \<in> set new. bA \<le> j \<and> j < bA + length (tx_window A')"
  shows "flow A' B sA gB bA rB (js @ new) ks"
proof -
  have w: "length (tx_window A) \<le> length (tx_window A')" "length (tx_window A') < 64" "config A' = config A"
    using assms(2) emits_config [OF assms(2)] by (auto simp: emits_def sender_view_def)
  have "sorted_wrt (\<lambda>j j'. j \<le> j' + 62) new"
  proof (rule sorted_wrt_all)
    fix x y assume "x \<in> set new" "y \<in> set new"
    then have "x < bA + length (tx_window A')" "bA \<le> y" using assms(3) by auto
    with w(2) show "x \<le> y + 62" by linarith
  qed
  moreover have "\<forall>j \<in> set (js @ new). j < bA + length (tx_window A') \<and> rB \<le> j + 63"
    using assms(1,3) w unfolding flow_def by fastforce
  moreover have "\<forall>j \<in> set js. \<forall>j' \<in> set new. j \<le> j' + 62"
    using assms(1,3) w unfolding flow_def by fastforce
  moreover have "rB \<le> bA + length (tx_window A')" using assms(1) w by (simp add: flow_def)
  ultimately show ?thesis
    using assms(1) w(3) emits_view [OF assms(2)] unfolding flow_def by (simp add: sorted_wrt_append)
qed

lemma flow_emit_receiver:
  assumes "flow B A sB gA bB rA js ks" "core A' = core A" "\<forall>k \<in> set new. k = rA"
  shows "flow B A' sB gA bB rA js (ks @ new)"
proof -
  have "sorted new" by (rule sorted_wrt_all) (metis assms(3) order_refl)
  then have "sorted ((ks @ new) @ [rA])" "\<forall>k \<in> set (ks @ new). bB \<le> k"
    using assms(1,3) by (auto simp: flow_def sorted_append)
  then show ?thesis
    using assms(1,2) unfolding flow_def core_def by simp
qed

lemma linked_at_emits:
  assumes "linked_at ts us bA rA bB rB A B (w @ outbound A) qB sA sB gA gB"
    and "emits (frames_sent A sA) bA rA A A'"
  shows "linked A' B (w @ outbound A') qB sA sB gA gB"
proof -
  obtain vs bs where out: "outbound A' = outbound A @ bs" "list_all2 (tagged (frames_sent A sA)) vs bs"
    and vs: "\<forall>(jo, k) \<in> set vs. k = rA \<and> (\<forall>j. jo = Some j \<longrightarrow> bA \<le> j \<and> j < bA + length (tx_window A'))"
    using assms(2) by (auto simp: emits_def)
  have "\<forall>j \<in> set (infos vs). bA \<le> j \<and> j < bA + length (tx_window A')" "\<forall>k \<in> set (map snd vs). k = rA"
    using vs by (fastforce simp: in_infos)+
  then have "linked_at (ts @ vs) us bA rA bB rB A' B (w @ outbound A') qB sA sB gA gB"
    using assms(1) out emits_config [OF assms(2)] flow_emit_sender [OF _ assms(2)]
      flow_emit_receiver [OF _ emits_core [OF assms(2)]]
    unfolding linked_at_def by (auto simp flip: append_assoc intro: list_all2_appendI)
  then show ?thesis unfolding linked_def by blast
qed

text \<open>Fields the invariant does not look at.\<close>

lemma flow_cong:
  assumes "config A' = config A" "tx_window A' = tx_window A" "pending A' = pending A"
    "next_tx_seq A' = next_tx_seq A" "last_acked_tx_seq A' = last_acked_tx_seq A"
    and "config B' = config B" "expected_tx_seq B' = expected_tx_seq B" "g' @ received B' = g @ received B"
    "input_sdu B' = input_sdu B" "input_sdu_length B' = input_sdu_length B"
  shows "flow A' B' sdus g' base R js ks = flow A B sdus g base R js ks"
  unfolding flow_def sender_view_def using assms by simp

lemma linked_at_send:
  assumes "linked_at ts us bA rA bB rB A B qA qB sA sB gA gB" "length sdu \<le> unat (peer_mtu (config A))"
  shows "linked_at ts us bA rA bB rB (queued (frames_sent A sA) sdu A) B qA qB (sA @ [sdu]) sB gA gB"
proof -
  define A' where "A' = queued (frames_sent A sA) sdu A"
  define G where "G = frames_of (unat (peer_mps (config A))) (length (frames_sent A sA)) sdu"
  have c: "config A' = config A" "tx_window A' = tx_window A" by (simp_all add: A'_def queued_def Let_def)
  have F: "frames_sent A' (sA @ [sdu]) = frames_sent A sA @ G" using c by (simp add: G_def)
  have view: "sender_view (frames_sent A' (sA @ [sdu])) bA A'"
    using assms(1) queued_view [of "frames_sent A sA" bA A sdu]
    unfolding F unfolding G_def A'_def linked_at_def flow_def by simp
  have mono: "tagged (frames_sent A sA) t b \<Longrightarrow> tagged (frames_sent A sA @ G) t b" for t b
    by (cases t; cases "fst t") (auto simp: nth_append)
  have "list_all2 (tagged (frames_sent A sA @ G)) ts qA"
    using assms(1) mono unfolding linked_at_def by (auto elim: list_all2_mono)
  moreover have "flow A' B (sA @ [sdu]) gB bA rB (infos ts) (map snd us)"
    using assms view c unfolding linked_at_def flow_def by (auto intro: reassembled_append)
  moreover have "flow B A' sB gA bB rA (infos us) (map snd ts) = flow B A sB gA bB rA (infos us) (map snd ts)"
    by (rule flow_cong) (simp_all add: A'_def queued_def Let_def)
  ultimately show ?thesis
    using assms(1) unfolding A'_def [symmetric] linked_at_def F by simp
qed

section \<open>Delivery\<close>

lemma seq_window:
  assumes "seq i = seq j" "i < j + 64" "j < i + 64"
  shows "i = j"
proof -
  have m: "i mod 64 = j mod 64" using assms(1) by (simp add: seq_eq_iff)
  show ?thesis
  proof (cases "i \<le> j")
    case True
    then have "64 dvd j - i" using mod_eq_dvd_iff_nat [of i j 64] m by simp
    then show ?thesis using assms(3) True nat_dvd_not_less [of "j - i" 64] by linarith
  next
    case False
    then have "64 dvd i - j" using mod_eq_dvd_iff_nat [of j i 64] m by simp
    then show ?thesis using assms(2) False nat_dvd_not_less [of "i - j" 64] by linarith
  qed
qed

lemma tagged_information:
  assumes "tagged F (Some j, k) b"
  shows "control_field_from_bytes b = Ok (Information (pf_tx_seq (F ! j)) False (seq k) (pf_sar (F ! j)))"
    "drop 2 b = frame_body (F ! j)"
proof -
  obtain bs where bs: "control_field_to_bytes (Information (pf_tx_seq (F ! j)) False (seq k) (pf_sar (F ! j))) = Ok bs"
      "b = bs @ frame_body (F ! j)"
    using assms by (auto simp: encode_frame_def frame_body_def simp del: control_field_to_bytes.simps)
  show "control_field_from_bytes b = Ok (Information (pf_tx_seq (F ! j)) False (seq k) (pf_sar (F ! j)))"
    "drop 2 b = frame_body (F ! j)"
    using control_field_decodes [OF bs(1)] bs(2) by auto
qed

lemma tagged_supervisory:
  assumes "tagged F (None, k) b"
  obtains fn poll final_bit where
    "control_field_from_bytes b = Ok (Supervisory fn poll final_bit (seq k))"
  using assms control_field_decodes [of _ b "[]"] by (auto simp del: control_field_to_bytes.simps)

lemma receive_frame_eq:
  assumes "\<not> failed A" "control_field_from_bytes b = Ok c" "acknowledge (control_req_seq c) A = (Ok acked, A1)"
  shows "receive_frame b A = (case c of
         Information tx_seq final_bit _ sar \<Rightarrow> on_information tx_seq final_bit sar (drop 2 b) A1
       | Supervisory function poll final_bit req_seq \<Rightarrow>
           on_supervisory function poll final_bit req_seq acked A1)"
  using assms
  by (simp add: receive_frame_def ensure_active_def and_then_def lift_result_def
      split: enhanced_control_field.splits)

lemma linked_at_pop:
  assumes "linked_at ts (t # us) bA rA bB rB A B qA (b # qs) sA sB gA gB"
  shows "linked_at ts us bA rA bB rB A B qA qs sA sB gA gB"
  using assms flow_subseq [of B A sB gA bB rA "[]" "infos [t]" "infos us"] infos_simps(4) [of "[t]" us]
    flow_subseq_ack [of A B sA gB bA rB "infos ts" "[]" "[snd t]" "map snd us"]
  unfolding linked_at_def by simp

text \<open>An acknowledgement under way is never refused, and moves \<open>base\<close> to the value it carries.\<close>

lemma linked_at_acknowledge:
  assumes "linked_at ts ((jo, k) # us) bA rA bB rB A B qA (b # qs) sA sB gA gB"
  obtains acked A1 where "acknowledge (seq k) A = (Ok acked, A1)"
    "A1 = A\<lparr>tx_window := tx_window A1, last_acked_tx_seq := seq k,
            retransmission_deadline := retransmission_deadline A1\<rparr>"
    "sender_view (frames_sent A sA) k A1"
    "linked_at ts us k rA bB rB A1 B qA qs sA sB gA gB"
proof -
  have fl: "flow A B sA gB bA rB (infos ts) (k # map snd us)"
    using assms by (simp add: linked_at_def)
  have k: "bA \<le> k" "k \<le> rB" "rB \<le> bA + length (tx_window A)" "\<forall>k' \<in> set (map snd us). k \<le> k'"
    "length (tx_window A) < 64" and view: "sender_view (frames_sent A sA) bA A"
    using fl unfolding flow_def by (auto simp: sender_view_def)
  show thesis
  proof (cases rule: acknowledge_cases [OF view, of "seq k"])
    case 1
    then show ?case by simp
  next
    case (2 x)
    have "k - bA < 64" using k by linarith
    then have "unat (sequence_distance (last_acked_tx_seq A) (seq k)) = k - bA"
      using view k(1) sequence_distance_seq [of bA k] by (simp add: sender_view_def)
    moreover have "\<not> seq k \<ge> ERTM_SEQUENCE_MODULUS"
      using less_modulus_iff [of "seq k"] by (simp add: not_le)
    ultimately have False
      using 2 k by (auto simp: acknowledge_def Let_def split: if_splits)
    then show thesis ..
  next
    case (3 n A1)
    have kn: "k = bA + n" by (rule seq_window [OF 3(2)]) (use 3(1) k in linarith)+
    have w: "length (tx_window A1) = length (tx_window A) - n" "config A1 = config A"
      by (subst 3(4); simp)+
    have "flow A1 B sA gB k rB (infos ts) (map snd us)"
      using fl 3(5) w k 3(1) kn unfolding flow_def by auto
    moreover have "flow B A1 sB gA bB rA (infos us) (map snd ts) = flow B A sB gA bB rA (infos us) (map snd ts)"
      by (rule flow_cong) (simp_all, (subst 3(4), simp)+)
    ultimately have "linked_at ts us k rA bB rB A1 B qA qs sA sB gA gB"
      using linked_at_pop [OF assms] w(2) unfolding linked_at_def by simp
    moreover have "A1 = A\<lparr>tx_window := tx_window A1, last_acked_tx_seq := seq k,
            retransmission_deadline := retransmission_deadline A1\<rparr>"
      using 3(4) by (cases A1; cases A) simp
    ultimately show thesis using that 3 kn by simp
  qed
qed

text \<open>The receiver takes the next frame of the stream.\<close>

lemma linked_at_accept:
  assumes before: "linked_at ts ((Some rA, k) # us) bA rA bB rB A B qA (b # qs) sA sB gA gB"
    and after: "linked_at ts us k rA bB rB A1 B qA qs sA sB gA gB"
  defines "f \<equiv> frames_sent B sB ! rA"
  obtains A2 where "accept_information (pf_sar f) (frame_body f) (A1\<lparr>expected_tx_seq := seq (Suc rA)\<rparr>) = (Ok (), A2)"
    "linked_at ts us k (Suc rA) bB rB A2 B qA qs sA sB gA gB"
proof -
  define A' where "A' = A1\<lparr>expected_tx_seq := seq (Suc rA)\<rparr>"
  have fl: "flow B A1 sB gA bB rA (infos us) (map snd ts)" using after by (simp add: linked_at_def)
  have j: "rA < bB + length (tx_window B)" "\<forall>j \<in> set (infos us). rA \<le> j + 62" "rA < length (frames_sent B sB)"
    using before by (auto simp: linked_at_def flow_def)
  obtain A2 where A2: "accept_information (pf_sar f) (frame_body f) A' = (Ok (), A2)"
    and re: "reassembled (unat (peer_mps (config B))) sB (Suc rA) (gA @ received A2) (input_sdu A2) (input_sdu_length A2)"
    using accept_next [of "unat (peer_mps (config B))" sB rA gA A' f] fl j(3)
    unfolding flow_def f_def A'_def by auto
  have a2: "A2 = A1\<lparr>expected_tx_seq := seq (Suc rA), received := received A2, input_sdu := input_sdu A2,
      input_sdu_length := input_sdu_length A2\<rparr>"
    using accept_information_fields [of "pf_sar f" "frame_body f" A', unfolded A2 snd_conv]
    unfolding A'_def by simp
  have c: "config A2 = config A1" "expected_tx_seq A2 = seq (Suc rA)" by (subst a2; simp)+
  have "flow B A2 sB gA bB (Suc rA) (infos us) (map snd ts)"
    using fl c re j unfolding flow_def by (fastforce simp: sorted_append)
  moreover have "flow A2 B sA gB k rB (infos ts) (map snd us) = flow A1 B sA gB k rB (infos ts) (map snd us)"
    by (rule flow_cong) ((subst a2, simp)+, simp_all)
  ultimately have "linked_at ts us k (Suc rA) bB rB A2 B qA qs sA sB gA gB"
    using after c(1) unfolding linked_at_def by simp
  then show thesis using that A2 unfolding A'_def by blast
qed

lemma linked_deliver:
  assumes "linked A B (w @ outbound A) (b # qs) sA sB gA gB"
  defines "A' \<equiv> snd (receive_frame b A)"
  shows "linked A' B (w @ outbound A') qs sA sB gA gB"
proof -
  obtain ts vs bA rA bB rB where at0: "linked_at ts vs bA rA bB rB A B (w @ outbound A) (b # qs) sA sB gA gB"
    using assms(1) by (auto simp: linked_def)
  then obtain jo k us where vs: "vs = (jo, k) # us" "tagged (frames_sent B sB) (jo, k) b"
    by (auto simp: linked_at_def list_all2_Cons2)
  note at = at0 [unfolded vs(1)]
  show ?thesis
  proof (cases "failed A")
    case True
    then have "A' = A" by (simp add: A'_def receive_frame_def ensure_active_def and_then_def)
    then show ?thesis using linked_at_pop [OF at] unfolding linked_def by blast
  next
    case False
    obtain acked A1 where ack: "acknowledge (seq k) A = (Ok acked, A1)"
      and a1: "A1 = A\<lparr>tx_window := tx_window A1, last_acked_tx_seq := seq k,
            retransmission_deadline := retransmission_deadline A1\<rparr>"
      and view: "sender_view (frames_sent A sA) k A1"
      and at1: "linked_at ts us k rA bB rB A1 B (w @ outbound A) qs sA sB gA gB"
      by (rule linked_at_acknowledge [OF at])
    have o1: "outbound A1 = outbound A" "config A1 = config A" by (subst a1; simp)+
    have ex: "expected_tx_seq A1 = seq rA" using at1 by (simp add: linked_at_def flow_def)
    note emit = linked_at_emits [where w = w]
    show ?thesis
    proof (cases jo)
      case None
      obtain fn p f where c: "control_field_from_bytes b = Ok (Supervisory fn p f (seq k))"
        using tagged_supervisory [OF vs(2) [unfolded None]] by blast
      define A2 where "A2 = A1\<lparr>remote_busy := (fn = ReceiverNotReady)\<rparr>"
      have "linked_at ts us k rA bB rB A2 B (w @ outbound A2) qs sA sB gA gB"
        using at1 o1 flow_cong [of A2 A1 B B gB gB] flow_cong [of B B A2 A1 gA gA]
        unfolding linked_at_def A2_def by simp
      moreover have "emits (frames_sent A2 sA) k rA A2 A'"
        using on_supervisory_emits [OF view ex, of fn p f "seq k" acked] receive_frame_eq [OF False c] ack o1
        by (simp add: A'_def A2_def)
      ultimately show ?thesis by (rule emit)
    next
      case (Some j)
      define f where "f = frames_sent B sB ! j"
      have j: "j < length (frames_sent B sB)" "j < bB + length (tx_window B)" "rA \<le> j + 63"
          "bB \<le> rA" "length (tx_window B) < 64" "pf_tx_seq f = seq j"
        using at vs(2) Some unfolding linked_at_def flow_def sender_view_def f_def by auto
      have A': "A' = snd (on_information (seq j) False (pf_sar f) (frame_body f) A1)"
        using receive_frame_eq [OF False tagged_information(1)] tagged_information vs(2) Some ack j(6)
        by (simp add: A'_def f_def del: tagged.simps)
      show ?thesis
      proof (cases "local_busy A1 \<or> seq j \<noteq> seq rA")
        case True
        then have "emits (frames_sent A1 sA) k rA A1 A'"
          using on_information_refused [OF view ex] o1 unfolding A' by simp
        then show ?thesis using emit at1 o1 by metis
      next
        case False
        then have "j = rA" using seq_window [of j rA] j by auto
        then obtain A2 where
            A2: "accept_information (pf_sar f) (frame_body f) (A1\<lparr>expected_tx_seq := seq (Suc rA)\<rparr>) = (Ok (), A2)"
          and at2: "linked_at ts us k (Suc rA) bB rB A2 B (w @ outbound A) qs sA sB gA gB"
          using linked_at_accept [OF _ at1] at Some unfolding f_def by blast
        have o2: "outbound A2 = outbound A" "config A2 = config A"
          using accept_information_view(3,4) [of "pf_sar f" "frame_body f" "A1\<lparr>expected_tx_seq := seq (Suc rA)\<rparr>"] A2 o1
          by simp_all
        have "emits (frames_sent A2 sA) k (Suc rA) A2 A'"
          using on_information_accepted [OF view ex, of False "pf_sar f" "frame_body f"] False A2 o2
          unfolding A' by simp
        then show ?thesis using emit at2 o2 by metis
      qed
    qed
  qed
qed

section \<open>Runs of the link\<close>

definition link_inv :: "ertm_link \<Rightarrow> bool" where
  "link_inv s \<longleftrightarrow> linked (left s) (right s) (wire_lr s @ outbound (left s)) (wire_rl s @ outbound (right s))
     (sent_l s) (sent_r s) (got_l s) (got_r s)"

lemma mirror_inv: "link_inv (mirror s) \<longleftrightarrow> link_inv s"
  by (auto simp: link_inv_def mirror_def intro: linked_sym)

lemma mirror_mirror [simp]: "mirror (mirror s) = s"
  by (simp add: mirror_def)

lemma link_inv_emits:
  assumes "link_inv s"
    and "\<And>F base R. sender_view F base (left s) \<Longrightarrow> expected_tx_seq (left s) = seq R \<Longrightarrow> emits F base R e1 e'"
    and "\<And>F base. sender_view F base e1 = sender_view F base (left s)" "core e1 = core ((left s)\<lparr>local_busy := b\<rparr>)"
      "outbound e1 = outbound (left s)" "tx_window e1 = tx_window (left s)" "pending e1 = pending (left s)"
  shows "link_inv (s\<lparr>left := e'\<rparr>)"
proof -
  obtain ts us bA rA bB rB where at: "linked_at ts us bA rA bB rB (left s) (right s)
      (wire_lr s @ outbound (left s)) (wire_rl s @ outbound (right s)) (sent_l s) (sent_r s) (got_l s) (got_r s)"
    using assms(1) by (auto simp: link_inv_def linked_def)
  have c: "config e1 = config (left s)" "received e1 = received (left s)" "next_tx_seq e1 = next_tx_seq (left s)"
    "last_acked_tx_seq e1 = last_acked_tx_seq (left s)" "expected_tx_seq e1 = expected_tx_seq (left s)"
    "input_sdu e1 = input_sdu (left s)" "input_sdu_length e1 = input_sdu_length (left s)"
    using assms(4) by (simp_all add: core_def)
  have "linked_at ts us bA rA bB rB e1 (right s)
      (wire_lr s @ outbound e1) (wire_rl s @ outbound (right s)) (sent_l s) (sent_r s) (got_l s) (got_r s)"
    using at c assms(5-7) flow_cong [of e1 "left s" "right s" "right s" "got_r s" "got_r s"]
      flow_cong [of "right s" "right s" e1 "left s" "got_l s" "got_l s"]
    unfolding linked_at_def by simp
  moreover have "emits (frames_sent e1 (sent_l s)) bA rA e1 e'"
    using at c(1) by (intro assms(2)) (auto simp: linked_at_def flow_def)
  ultimately have "linked e' (right s) (wire_lr s @ outbound e') (wire_rl s @ outbound (right s)) (sent_l s) (sent_r s)
      (got_l s) (got_r s)"
    by (rule linked_at_emits)
  then show ?thesis by (simp add: link_inv_def)
qed

lemma act_busy: "link_inv s \<Longrightarrow> link_inv (act s (AppBusy b))"
proof (cases "failed (left s) \<or> local_busy (left s) = b")
  case True
  assume "link_inv s"
  then show ?thesis
    using True by (auto simp: set_receiver_busy_def ensure_active_def and_then_def)
next
  case False
  assume inv: "link_inv s"
  let ?e = "(left s)\<lparr>local_busy := b\<rparr>"
  have eq: "set_receiver_busy b (left s) =
      send_supervisory (if b then ReceiverNotReady else ReceiverReady) False False ?e"
    using False by (auto simp: set_receiver_busy_def ensure_active_def and_then_def)
  show ?thesis
    unfolding act.simps eq
    by (rule link_inv_emits [OF inv, where ?e1.0 = ?e and b = b])
      (auto simp: sender_view_def core_def intro!: conjunct2 [OF send_supervisory_emits])
qed

lemma act_time:
  assumes "link_inv s" shows "link_inv (act s (Time n))"
proof -
  let ?e = "(left s)\<lparr>now := u64_saturating_add (now (left s)) (ucast n)\<rparr>"
  have "emits F base R ?e (snd (ertm_tick n (left s)))"
    if "\<not> failed (left s)" "sender_view F base (left s)" "expected_tx_seq (left s) = seq R" for F base R
  proof -
    have e: "sender_view F base ?e" "expected_tx_seq ?e = seq R" using that by (simp_all add: sender_view_def)
    show ?thesis
      using that(1) retransmit_all_emits [OF e] emits_refl [OF e(1)]
      by (auto simp: ertm_tick_def ensure_active_def and_then_def Let_def)
  qed
  then have "link_inv (s\<lparr>left := snd (ertm_tick n (left s))\<rparr>)" if "\<not> failed (left s)"
    using that by (intro link_inv_emits [OF assms, where ?e1.0 = ?e and b = "local_busy (left s)"])
      (auto simp: sender_view_def core_def)
  then show ?thesis
    using assms by (cases "failed (left s)") (simp_all add: ertm_tick_def ensure_active_def and_then_def)
qed

lemma act_send:
  assumes "link_inv s" shows "link_inv (act s (AppSend sdu))"
proof -
  define A where "A = left s"
  obtain ts us bA rA bB rB where at: "linked_at ts us bA rA bB rB A (right s)
      (wire_lr s @ outbound A) (wire_rl s @ outbound (right s)) (sent_l s) (sent_r s) (got_l s) (got_r s)"
    using assms by (auto simp: link_inv_def linked_def A_def)
  have A: "sender_view (frames_sent A (sent_l s)) bA A" "0 < unat (peer_mps (config A))" "expected_tx_seq A = seq rA"
    using at by (auto simp: linked_at_def flow_def)
  show ?thesis
  proof (cases "failed A \<or> unat (peer_mtu (config A)) < length sdu")
    case True
    then have "act s (AppSend sdu) = s"
      using send_sdu_eq [OF A(1,2), of sdu] unfolding A_def by auto
    then show ?thesis using assms by (simp del: act.simps)
  next
    case False
    define q where "q = queued (frames_sent A (sent_l s)) sdu A"
    have q: "outbound q = outbound A" "config q = config A" "expected_tx_seq q = seq rA"
      using A(3) by (simp_all add: q_def queued_def Let_def)
    have at': "linked_at ts us bA rA bB rB q (right s) (wire_lr s @ outbound q) (wire_rl s @ outbound (right s))
        (sent_l s @ [sdu]) (sent_r s) (got_l s) (got_r s)"
      using linked_at_send [OF at, of sdu] False unfolding q(1) q_def [symmetric] by simp
    then have "sender_view (frames_sent q (sent_l s @ [sdu])) bA q" by (auto simp: linked_at_def flow_def)
    note po = process_output_emits [OF this q(3)]
    obtain e where e: "process_output q = (Ok (), e)" "emits (frames_sent q (sent_l s @ [sdu])) bA rA q e"
      using po by (cases "process_output q") auto
    then show ?thesis
      using linked_at_emits [OF at' e(2)] send_sdu_eq [OF A(1,2), of sdu] False
      by (simp add: A_def [symmetric] q_def [symmetric] link_inv_def)
  qed
qed

lemma act_transmit: "link_inv s \<Longrightarrow> link_inv (act s Transmit)"
proof (cases "outbound (left s)")
  case Nil
  then show "link_inv s \<Longrightarrow> ?thesis" by (simp add: ertm_poll_outbound_def)
next
  case (Cons b bs)
  assume "link_inv s"
  then show ?thesis
    using Cons flow_cong [of "(left s)\<lparr>outbound := bs\<rparr>" "left s" "right s" "right s" "got_r s" "got_r s"]
      flow_cong [of "right s" "right s" "(left s)\<lparr>outbound := bs\<rparr>" "left s" "got_l s" "got_l s"]
    by (simp add: ertm_poll_outbound_def link_inv_def linked_def linked_at_def)
qed

lemma act_pop: "link_inv s \<Longrightarrow> link_inv (act s AppPop)"
proof (cases "received (left s)")
  case Nil
  then show "link_inv s \<Longrightarrow> ?thesis" by (simp add: ertm_pop_received_def)
next
  case (Cons b bs)
  assume "link_inv s"
  then show ?thesis
    using Cons flow_cong [of "(left s)\<lparr>received := bs\<rparr>" "left s" "right s" "right s" "got_r s" "got_r s"]
      flow_cong [of "right s" "right s" "(left s)\<lparr>received := bs\<rparr>" "left s" "got_l s @ [b]" "got_l s"]
    by (simp add: ertm_pop_received_def link_inv_def linked_def linked_at_def)
qed

lemma act_lose: "link_inv s \<Longrightarrow> link_inv (act s (Lose i))"
proof (cases "i < length (wire_lr s)")
  case True
  assume inv: "link_inv s"
  have "wire_lr s = take i (wire_lr s) @ wire_lr s ! i # drop (Suc i) (wire_lr s)"
    using True by (rule id_take_nth_drop)
  with inv obtain ts us bA rA bB rB where "linked_at ts us bA rA bB rB (left s) (right s)
      (take i (wire_lr s) @ wire_lr s ! i # (drop (Suc i) (wire_lr s) @ outbound (left s)))
      (wire_rl s @ outbound (right s)) (sent_l s) (sent_r s) (got_l s) (got_r s)"
    unfolding link_inv_def linked_def by (metis append.assoc append_Cons)
  then have "\<exists>ts'. linked_at ts' us bA rA bB rB (left s) (right s)
      (take i (wire_lr s) @ drop (Suc i) (wire_lr s) @ outbound (left s))
      (wire_rl s @ outbound (right s)) (sent_l s) (sent_r s) (got_l s) (got_r s)"
    by (rule linked_at_lose)
  then show ?thesis unfolding link_inv_def linked_def by (simp del: split_paired_Ex) blast
qed simp

lemma act_deliver: "link_inv s \<Longrightarrow> link_inv (act s Deliver)"
  using linked_deliver [of "left s" "right s" "wire_lr s" _ _ "sent_l s" "sent_r s" "got_l s" "got_r s"]
  by (auto simp: link_inv_def split: list.split)

lemma act_inv: "link_inv s \<Longrightarrow> link_inv (act s ev)"
  by (cases ev) (simp_all only: act_send act_busy act_time act_pop act_transmit act_lose act_deliver)

lemma link_step_inv: "link_inv s \<Longrightarrow> link_inv (link_step s ev)"
  by (cases "(s, ev)" rule: link_step.cases) (simp_all only: link_step.simps prod.inject mirror_inv act_inv)

section \<open>Properties\<close>

lemma link_run_inv: "link_inv s \<Longrightarrow> link_inv (foldl link_step s evs)"
  by (induction evs arbitrary: s) (simp_all add: link_step_inv)

lemma link_start_inv:
  assumes "ertm_new ca = Ok a" "ertm_new cb = Ok b"
    and "peer_mtu ca \<le> local_mtu cb" "peer_mtu cb \<le> local_mtu ca"
  shows "link_inv (link_start a b)"
proof -
  note a = ertm_new_inv [OF assms(1)] and b = ertm_new_inv [OF assms(2)]
  have "reassembled mps [] 0 [] [] None" for mps by (simp add: reassembled_def)
  then have "linked_at [] [] 0 0 0 0 a b [] [] [] [] [] []"
    using a b assms(3,4) by (simp add: linked_at_def flow_def word_le_nat_alt)
  then have "linked a b [] [] [] [] [] []" unfolding linked_def by blast
  then show ?thesis
    using a b by (simp add: link_inv_def link_start_def)
qed

text \<open>
  Property C4: two ERTM engines whose MTUs agree, over a link that loses frames
  arbitrarily. Whatever the applications send and whenever they pause, tick or fetch, the SDUs the
  right side has received are at all times a prefix of the SDUs the left side's \<open>send_sdu\<close>
  accepted, and vice versa.
\<close>

theorem ertm_reliable_delivery:
  assumes "ertm_new ca = Ok a" and "ertm_new cb = Ok b"
    and "peer_mtu ca \<le> local_mtu cb" and "peer_mtu cb \<le> local_mtu ca"
    and "foldl link_step (link_start a b) evs = s"
  shows "prefix (got_r s @ received (right s)) (sent_l s) \<and>
    prefix (got_l s @ received (left s)) (sent_r s)"
proof -
  have "link_inv s"
    using link_run_inv [OF link_start_inv [OF assms(1-4)], of evs] assms(5) by simp
  then obtain mps mps' R R' where
      "reassembled mps (sent_l s) R (got_r s @ received (right s)) (input_sdu (right s)) (input_sdu_length (right s))"
      "reassembled mps' (sent_r s) R' (got_l s @ received (left s)) (input_sdu (left s)) (input_sdu_length (left s))"
    unfolding link_inv_def linked_def linked_at_def flow_def by blast
  then show ?thesis by (auto dest!: reassembled_prefix) (metis take_is_prefix)+
qed

theorem ertm_reliable_delivery_witness:
  "\<exists>e s. ertm_new ertm_config_default = Ok e \<and>
     foldl link_step (link_start e e) [(True, AppSend [1, 2, 3]), (True, Transmit), (True, Lose 0),
       (True, Time 2000), (True, Transmit), (False, Deliver), (False, AppPop)] = s \<and>
     prefix (got_r s @ received (right s)) (sent_l s)"
proof -
  obtain e where e: "ertm_new ertm_config_default = Ok e"
    by (simp add: ertm_new_def ertm_validate_def ertm_config_default_def ERTM_SEQUENCE_MODULUS_def)
  have "peer_mtu ertm_config_default \<le> local_mtu ertm_config_default" by (simp add: ertm_config_default_def)
  from ertm_reliable_delivery [OF e e this this refl] e show ?thesis by blast
qed

end
