(* ===== verification/Le_Credit.thy ===== *)
theory Le_Credit
  imports Prelude
begin

text \<open>
  LE credit-based channels, the first half of \<open>bumble-l2cap/src/le_credit.rs\<close>:
  \<open>LeCreditBasedChannelSpec\<close> and every method of \<open>LeCreditBasedChannel\<close>.
\<close>

section \<open>Parameters\<close>

definition LE_MIN_MTU :: u16 where "LE_MIN_MTU = 23"
definition LE_MIN_MPS :: u16 where "LE_MIN_MPS = 23"
definition LE_MAX_MPS :: u16 where "LE_MAX_MPS = 65533"

record le_spec =
  spec_psm :: "u16 option"
  spec_mtu :: u16
  spec_mps :: u16
  spec_max_credits :: u16

definition le_spec_default :: le_spec where
  "le_spec_default = \<lparr>spec_psm = None, spec_mtu = 2048, spec_mps = 2048, spec_max_credits = 256\<rparr>"

definition le_spec_validate :: "le_spec \<Rightarrow> le_spec result" where
  "le_spec_validate s =
     (if spec_max_credits s = 0 then invalid ''max credits out of range''
      else if spec_mtu s < LE_MIN_MTU then invalid ''MTU out of range''
      else if \<not> (LE_MIN_MPS \<le> spec_mps s \<and> spec_mps s \<le> LE_MAX_MPS) then invalid ''MPS out of range''
      else Ok s)"

section \<open>The channel\<close>

datatype le_state = Connected | Disconnecting | Disconnected

record le_channel =
  ch_psm :: u16
  ch_source_cid :: u16
  ch_destination_cid :: u16
  ch_mtu :: u16
  ch_mps :: u16
  ch_credits :: u16
  ch_peer_mtu :: u16
  ch_peer_mps :: u16
  ch_peer_credits :: u16
  ch_peer_max_credits :: u16
  ch_att_mtu :: u16
  ch_state :: le_state
  ch_peer_credit_threshold :: u16
  ch_output_stream :: bytes
  ch_output_sdu :: bytes
  ch_outbound_pdus :: "bytes list"
  ch_input_sdu :: bytes
  ch_input_sdu_length :: "nat option"
  ch_received_sdus :: "bytes list"
  ch_pending_credit_grants :: "u16 list"
  ch_reading_paused :: bool

type_synonym 'a le_op = "(le_channel, 'a, rust_error) op"

definition le_connected ::
  "u16 \<Rightarrow> u16 \<Rightarrow> u16 \<Rightarrow> le_spec \<Rightarrow> u16 \<Rightarrow> u16 \<Rightarrow> u16 \<Rightarrow> le_channel result" where
  "le_connected psm source_cid destination_cid spec peer_mtu peer_mps credits =
     bind_result (le_spec_validate spec) (\<lambda>local.
       if peer_mtu < LE_MIN_MTU then invalid ''peer MTU out of range''
       else if \<not> (LE_MIN_MPS \<le> peer_mps \<and> peer_mps \<le> LE_MAX_MPS) then invalid ''peer MPS out of range''
       else Ok \<lparr>ch_psm = psm, ch_source_cid = source_cid, ch_destination_cid = destination_cid,
         ch_mtu = spec_mtu local, ch_mps = spec_mps local, ch_credits = credits,
         ch_peer_mtu = peer_mtu, ch_peer_mps = peer_mps,
         ch_peer_credits = spec_max_credits local, ch_peer_max_credits = spec_max_credits local,
         ch_att_mtu = min (spec_mtu local) peer_mtu, ch_state = Connected,
         ch_peer_credit_threshold = spec_max_credits local div 2,
         ch_output_stream = [], ch_output_sdu = [], ch_outbound_pdus = [], ch_input_sdu = [],
         ch_input_sdu_length = None, ch_received_sdus = [], ch_pending_credit_grants = [],
         ch_reading_paused = False\<rparr>)"

definition le_ensure_connected :: "unit le_op" where
  "le_ensure_connected c =
     (if ch_state c \<noteq> Connected then invalid ''channel is not connected'' else Ok (), c)"

definition le_reset_input :: "le_channel \<Rightarrow> le_channel" where
  "le_reset_input c = c\<lparr>ch_input_sdu := [], ch_input_sdu_length := None\<rparr>"

text \<open>The body of the output loop, then the loop: one credit is spent per PDU.\<close>

definition le_refill :: "le_channel \<Rightarrow> le_channel" where
  "le_refill c =
     (if ch_output_sdu c = [] then
        let n = min (length (ch_output_stream c)) (unat (ch_peer_mtu c))
        in c\<lparr>ch_output_sdu := u16_to_le_bytes (of_nat n) @ take n (ch_output_stream c),
             ch_output_stream := drop n (ch_output_stream c)\<rparr>
      else c)"

definition le_emit :: "le_channel \<Rightarrow> le_channel" where
  "le_emit c =
     (let n = min (length (ch_output_sdu c)) (unat (ch_peer_mps c))
      in c\<lparr>ch_outbound_pdus := ch_outbound_pdus c @ [take n (ch_output_sdu c)],
           ch_output_sdu := drop n (ch_output_sdu c), ch_credits := ch_credits c - 1\<rparr>)"

function le_process_output :: "le_channel \<Rightarrow> le_channel" where
  "le_process_output c =
     (if ch_credits c = 0 then c
      else if ch_output_sdu c = [] \<and> ch_output_stream c = [] then c
      else le_process_output (le_emit (le_refill c)))"
  by pat_completeness auto
termination
  by (relation "measure (\<lambda>c. unat (ch_credits c))")
    (auto simp: le_emit_def le_refill_def Let_def unat_minus_one unat_gt_0)

declare le_process_output.simps [simp del]

definition le_replenish_peer_credits :: "unit le_op" where
  "le_replenish_peer_credits c =
     (if ch_reading_paused c \<or> ch_peer_credits c > ch_peer_credit_threshold c then (Ok (), c)
      else if ch_peer_max_credits c < ch_peer_credits c then
        (Panic ''attempt to subtract with overflow'', c)
      else let grant = ch_peer_max_credits c - ch_peer_credits c
      in if grant \<noteq> 0 then
           (Ok (), c\<lparr>ch_pending_credit_grants := ch_pending_credit_grants c @ [grant],
                     ch_peer_credits := ch_peer_max_credits c\<rparr>)
         else (Ok (), c))"

definition le_write :: "bytes \<Rightarrow> unit le_op" where
  "le_write data =
     and_then le_ensure_connected (\<lambda>_ c.
       if data = [] then (invalid ''cannot queue an empty buffer'', c)
       else (Ok (), le_process_output (c\<lparr>ch_output_stream := ch_output_stream c @ data\<rparr>)))"

definition le_add_credits :: "u16 \<Rightarrow> unit le_op" where
  "le_add_credits credits =
     and_then le_ensure_connected (\<lambda>_ c.
       if unat (ch_credits c) + unat credits > 65535 then (invalid ''outbound credit overflow'', c)
       else (Ok (), le_process_output (c\<lparr>ch_credits := ch_credits c + credits\<rparr>)))"

text \<open>\<open>receive_pdu\<close> after the credit has been taken: reassembly.\<close>

definition le_reassemble :: "bytes \<Rightarrow> unit le_op" where
  "le_reassemble pdu c0 =
     (let c = c0\<lparr>ch_input_sdu := ch_input_sdu c0 @ pdu\<rparr>;
          n = unat (u16_from_le_bytes (ch_input_sdu c ! 0) (ch_input_sdu c ! 1));
          fresh = (ch_input_sdu_length c = None \<and> length (ch_input_sdu c) \<ge> 2)
      in if fresh \<and> n > unat (ch_mtu c) then
           (invalid_fmt ''incoming SDU exceeds MTU {}'' [unat (ch_mtu c)], le_reset_input c)
         else let c = (if fresh then c\<lparr>ch_input_sdu_length := Some n\<rparr> else c)
         in case ch_input_sdu_length c of
              None \<Rightarrow> (Ok (), c)
            | Some n \<Rightarrow>
                if length (ch_input_sdu c) < n + 2 then (Ok (), c)
                else if length (ch_input_sdu c) > n + 2 then
                  (invalid ''incoming SDU overflow'', le_reset_input c)
                else (Ok (), le_reset_input
                       (c\<lparr>ch_received_sdus := ch_received_sdus c @ [take n (drop 2 (ch_input_sdu c))]\<rparr>)))"

definition le_receive_pdu :: "bytes \<Rightarrow> unit le_op" where
  "le_receive_pdu pdu =
     and_then le_ensure_connected (\<lambda>_ c.
       if length pdu > unat (ch_mps c) then
         (invalid_fmt ''incoming PDU exceeds MPS {}'' [unat (ch_mps c)], c)
       else if ch_peer_credits c = 0 then (invalid ''received PDU after peer exhausted credits'', c)
       else and_then le_replenish_peer_credits (\<lambda>_. le_reassemble pdu)
              (c\<lparr>ch_peer_credits := ch_peer_credits c - 1\<rparr>))"

definition le_poll_outbound_pdu :: "le_channel \<Rightarrow> bytes option \<times> le_channel" where
  "le_poll_outbound_pdu c =
     (case ch_outbound_pdus c of [] \<Rightarrow> (None, c) | p # ps \<Rightarrow> (Some p, c\<lparr>ch_outbound_pdus := ps\<rparr>))"

definition le_poll_credit_grant :: "le_channel \<Rightarrow> u16 option \<times> le_channel" where
  "le_poll_credit_grant c =
     (case ch_pending_credit_grants c of
        [] \<Rightarrow> (None, c) | g # gs \<Rightarrow> (Some g, c\<lparr>ch_pending_credit_grants := gs\<rparr>))"

definition le_pop_received :: "le_channel \<Rightarrow> bytes option \<times> le_channel" where
  "le_pop_received c =
     (case ch_received_sdus c of [] \<Rightarrow> (None, c) | s # ss \<Rightarrow> (Some s, c\<lparr>ch_received_sdus := ss\<rparr>))"

definition le_is_drained :: "le_channel \<Rightarrow> bool" where
  "le_is_drained c \<longleftrightarrow> ch_output_stream c = [] \<and> ch_output_sdu c = [] \<and> ch_outbound_pdus c = []"

definition le_pause_reading :: "unit le_op" where
  "le_pause_reading =
     and_then le_ensure_connected (\<lambda>_ c. (Ok (), c\<lparr>ch_reading_paused := True\<rparr>))"

definition le_resume_reading :: "unit le_op" where
  "le_resume_reading =
     and_then le_ensure_connected (\<lambda>_ c. le_replenish_peer_credits (c\<lparr>ch_reading_paused := False\<rparr>))"

definition le_flush :: "le_channel \<Rightarrow> le_channel" where
  "le_flush c = le_reset_input (c\<lparr>ch_output_stream := [], ch_output_sdu := [], ch_outbound_pdus := []\<rparr>)"

definition le_begin_disconnect :: "le_channel \<Rightarrow> le_channel" where
  "le_begin_disconnect c = le_flush (c\<lparr>ch_state := Disconnecting\<rparr>)"

definition le_complete_disconnect :: "le_channel \<Rightarrow> le_channel" where
  "le_complete_disconnect c = le_flush (c\<lparr>ch_state := Disconnected\<rparr>)"

definition le_disconnect :: "unit le_op" where
  "le_disconnect =
     and_then le_ensure_connected (\<lambda>_ c. (Ok (), le_complete_disconnect (le_begin_disconnect c)))"

definition le_abort :: "le_channel \<Rightarrow> le_channel" where
  "le_abort c =
     (if ch_state c = Connected \<or> ch_state c = Disconnecting then le_complete_disconnect c else c)"

definition le_reconfigure_local :: "u16 \<Rightarrow> u16 \<Rightarrow> le_channel \<Rightarrow> le_channel" where
  "le_reconfigure_local mtu mps c =
     c\<lparr>ch_mtu := mtu, ch_mps := mps, ch_att_mtu := min mtu (ch_peer_mtu c)\<rparr>"

definition le_reconfigure_peer :: "u16 \<Rightarrow> u16 \<Rightarrow> le_channel \<Rightarrow> le_channel" where
  "le_reconfigure_peer mtu mps c =
     le_process_output (c\<lparr>ch_peer_mtu := mtu, ch_peer_mps := mps, ch_att_mtu := min (ch_mtu c) mtu\<rparr>)"

section \<open>The channel under an arbitrary peer\<close>

text \<open>A channel that has nothing to send, or no credit to send it with.\<close>

definition le_settled :: "le_channel \<Rightarrow> bool" where
  "le_settled S \<longleftrightarrow> ch_credits S = 0 \<or> ch_output_sdu S = [] \<and> ch_output_stream S = []"

text \<open>
  What holds of a channel whatever its peer does: the credits granted to the peer stay within
  the configured maximum, so that replenishing never underflows.
\<close>

definition le_channel_inv :: "le_channel \<Rightarrow> bool" where
  "le_channel_inv c \<longleftrightarrow> ch_peer_credits c \<le> ch_peer_max_credits c \<and> le_settled c"

lemma le_process_output_inv:
  "ch_peer_credits c \<le> ch_peer_max_credits c \<Longrightarrow> le_channel_inv (le_process_output c)"
proof (induction c rule: le_process_output.induct)
  case (1 c)
  show ?case
  proof (cases "ch_credits c = 0 \<or> ch_output_sdu c = [] \<and> ch_output_stream c = []")
    case True
    then have "le_process_output c = c" by (subst le_process_output.simps) auto
    then show ?thesis using 1(2) True by (simp add: le_settled_def le_channel_inv_def)
  next
    case False
    then have "le_process_output c = le_process_output (le_emit (le_refill c))"
      by (subst le_process_output.simps) auto
    moreover have "ch_peer_credits (le_emit (le_refill c)) \<le> ch_peer_max_credits (le_emit (le_refill c))"
      using 1(2) by (simp add: le_emit_def le_refill_def Let_def)
    ultimately show ?thesis using 1 False by simp
  qed
qed

text \<open>\<open>process_output\<close> runs to completion: doing it again changes nothing.\<close>

lemma le_process_output_settled: "le_settled c \<Longrightarrow> le_process_output c = c"
  by (subst le_process_output.simps) (auto simp: le_settled_def)

lemma le_process_output_identity:
  "ch_source_cid (le_process_output c) = ch_source_cid c"
  "ch_destination_cid (le_process_output c) = ch_destination_cid c"
  "ch_state (le_process_output c) = ch_state c"
proof (induction c rule: le_process_output.induct)
  case (1 c)
  { case 1
    then show ?case using "1.IH"(1)
      by (subst le_process_output.simps) (auto simp: le_emit_def le_refill_def Let_def)
  next
    case 2
    then show ?case using "1.IH"(2)
      by (subst le_process_output.simps) (auto simp: le_emit_def le_refill_def Let_def)
  next
    case 3
    then show ?case using "1.IH"(3)
      by (subst le_process_output.simps) (auto simp: le_emit_def le_refill_def Let_def)
  }
qed

lemma le_replenish_inv:
  assumes "ch_peer_credits c \<le> ch_peer_max_credits c" "le_settled c"
  shows "le_channel_inv (snd (le_replenish_peer_credits c)) \<and> fst (le_replenish_peer_credits c) = Ok () \<and>
    snd (le_replenish_peer_credits c) = c\<lparr>ch_peer_credits := ch_peer_credits (snd (le_replenish_peer_credits c)),
      ch_pending_credit_grants := ch_pending_credit_grants (snd (le_replenish_peer_credits c))\<rparr>"
  using assms by (auto simp: le_replenish_peer_credits_def le_channel_inv_def le_settled_def Let_def not_less)

lemma le_reassemble_fields:
  "snd (le_reassemble p c) = c\<lparr>ch_input_sdu := ch_input_sdu (snd (le_reassemble p c)),
     ch_input_sdu_length := ch_input_sdu_length (snd (le_reassemble p c)),
     ch_received_sdus := ch_received_sdus (snd (le_reassemble p c))\<rparr>"
  by (auto simp: le_reassemble_def le_reset_input_def Let_def split: option.splits)

lemma le_reassemble_no_panic: "\<not> is_panic (fst (le_reassemble p c))"
  by (auto simp: le_reassemble_def Let_def split: option.splits)

text \<open>
  The result of a call on a channel: the invariant is kept, nothing panics, the identity of the
  channel is untouched, and a refused call emits no PDU.
\<close>

definition le_call_ok :: "le_channel \<Rightarrow> ('a, rust_error) rresult \<times> le_channel \<Rightarrow> bool" where
  "le_call_ok c o' \<longleftrightarrow> le_channel_inv (snd o') \<and> \<not> is_panic (fst o') \<and>
     ch_source_cid (snd o') = ch_source_cid c \<and> ch_destination_cid (snd o') = ch_destination_cid c \<and>
     (is_err (fst o') \<longrightarrow> ch_outbound_pdus (snd o') = ch_outbound_pdus c)"

lemma le_write_ok: "le_channel_inv c \<Longrightarrow> le_call_ok c (le_write data c)"
  by (auto simp: le_write_def le_ensure_connected_def and_then_def le_call_ok_def le_process_output_identity
      le_channel_inv_def intro!: le_process_output_inv [unfolded le_channel_inv_def])

lemma le_add_credits_ok: "le_channel_inv c \<Longrightarrow> le_call_ok c (le_add_credits g c)"
  by (auto simp: le_add_credits_def le_ensure_connected_def and_then_def le_call_ok_def le_process_output_identity
      le_channel_inv_def intro!: le_process_output_inv [unfolded le_channel_inv_def])

lemma le_pause_ok: "le_channel_inv c \<Longrightarrow> le_call_ok c (le_pause_reading c)"
  by (auto simp: le_pause_reading_def le_ensure_connected_def and_then_def le_call_ok_def le_channel_inv_def
      le_settled_def)

lemma le_resume_ok:
  assumes "le_channel_inv c" shows "le_call_ok c (le_resume_reading c)"
proof (cases "ch_state c = Connected")
  case True
  let ?c = "c\<lparr>ch_reading_paused := False\<rparr>"
  have "ch_peer_credits ?c \<le> ch_peer_max_credits ?c" "le_settled ?c"
    using assms by (simp_all add: le_channel_inv_def le_settled_def)
  note rep = le_replenish_inv [OF this]
  obtain c' where c': "le_replenish_peer_credits ?c = (Ok (), c')" "le_channel_inv c'"
      "c' = ?c\<lparr>ch_peer_credits := ch_peer_credits c', ch_pending_credit_grants := ch_pending_credit_grants c'\<rparr>"
    using rep by (cases "le_replenish_peer_credits ?c") auto
  have "ch_source_cid c' = ch_source_cid c" "ch_destination_cid c' = ch_destination_cid c"
    by (subst c'(3), simp)+
  then show ?thesis
    using True c' by (simp add: le_resume_reading_def le_ensure_connected_def and_then_def le_call_ok_def)
qed (use assms in \<open>simp add: le_resume_reading_def le_ensure_connected_def and_then_def le_call_ok_def\<close>)

lemma le_receive_pdu_ok:
  assumes "le_channel_inv c" shows "le_call_ok c (le_receive_pdu p c)"
proof (cases "ch_state c = Connected \<and> length p \<le> unat (ch_mps c) \<and> ch_peer_credits c \<noteq> 0")
  case True
  let ?c = "c\<lparr>ch_peer_credits := ch_peer_credits c - 1\<rparr>"
  have "unat (ch_peer_credits c - 1) \<le> unat (ch_peer_max_credits c)"
    using assms True by (auto simp: le_channel_inv_def word_le_nat_alt unat_minus_one)
  then have "ch_peer_credits ?c \<le> ch_peer_max_credits ?c" "le_settled ?c"
    using assms by (simp_all add: le_channel_inv_def le_settled_def word_le_nat_alt)
  note rep = le_replenish_inv [OF this]
  obtain c' where c': "le_replenish_peer_credits ?c = (Ok (), c')" "le_channel_inv c'"
      "c' = ?c\<lparr>ch_peer_credits := ch_peer_credits c', ch_pending_credit_grants := ch_pending_credit_grants c'\<rparr>"
    using rep by (cases "le_replenish_peer_credits ?c") auto
  have same: "ch_source_cid c' = ch_source_cid c" "ch_destination_cid c' = ch_destination_cid c"
      "ch_outbound_pdus c' = ch_outbound_pdus c"
    by (subst c'(3), simp)+
  have "le_receive_pdu p c = le_reassemble p c'"
    using True c'(1) by (simp add: le_receive_pdu_def le_ensure_connected_def and_then_def)
  moreover have "le_call_ok c (le_reassemble p c')"
    unfolding le_call_ok_def
    using same c'(2) le_reassemble_no_panic [of p c']
    by (subst (1 2 3 4) le_reassemble_fields) (simp add: le_channel_inv_def le_settled_def)
  ultimately show ?thesis by simp
qed (use assms in \<open>auto simp: le_receive_pdu_def le_ensure_connected_def and_then_def le_call_ok_def\<close>)

lemma le_begin_disconnect_inv: "le_channel_inv c \<Longrightarrow> le_channel_inv (le_begin_disconnect c)"
  by (simp add: le_begin_disconnect_def le_flush_def le_reset_input_def le_channel_inv_def le_settled_def)

lemma le_connected_inv:
  assumes "le_connected psm scid dcid spec mtu mps credits = Ok c"
  shows "le_channel_inv c" "ch_source_cid c = scid" "ch_destination_cid c = dcid" "ch_outbound_pdus c = []"
  using assms by (auto simp: le_connected_def le_channel_inv_def le_settled_def split: if_splits)

end
