(* ===== verification/Le_Credit_Link.thy ===== *)
theory Le_Credit_Link
  imports Le_Credit "HOL-Library.Sublist"
begin

text \<open>
  Two LE credit-based channels (\<open>LeCreditBasedChannel\<close> of \<open>bumble-l2cap/src/le_credit.rs\<close>) joined by
  wires that keep order, as a logical link does. Credits are conserved, so flow control never
  refuses a PDU or a grant; SDUs arrive whole, in order and unchanged; and the pair does not
  get stuck while a reader is willing to read.
\<close>


section \<open>Two channels and their wires\<close>

text \<open>
  PDUs and credit grants travel on their own wires, both of which keep order. \<open>ll_ok\<close> records that
  no call made on behalf of the peer has failed.
\<close>

record le_link =
  ll_a :: le_channel
  ll_b :: le_channel
  pdus_ab :: "bytes list"
  pdus_ba :: "bytes list"
  grants_ab :: "u16 list"
  grants_ba :: "u16 list"
  written_a :: bytes
  written_b :: bytes
  fetched_a :: "bytes list"
  fetched_b :: "bytes list"
  ll_ok :: bool

definition le_mirror :: "le_link \<Rightarrow> le_link" where
  "le_mirror s = \<lparr>ll_a = ll_b s, ll_b = ll_a s, pdus_ab = pdus_ba s, pdus_ba = pdus_ab s,
     grants_ab = grants_ba s, grants_ba = grants_ab s, written_a = written_b s, written_b = written_a s,
     fetched_a = fetched_b s, fetched_b = fetched_a s, ll_ok = ll_ok s\<rparr>"

datatype le_event =
    Write bytes | SendPdu | SendGrant | RecvPdu | RecvGrant | Pause | Resume | Fetch

fun le_act :: "le_link \<Rightarrow> le_event \<Rightarrow> le_link" where
  "le_act s (Write data) =
     (let (r, c) = le_write data (ll_a s)
      in s\<lparr>ll_a := c, written_a := written_a s @ (if r = Ok () then data else [])\<rparr>)"
| "le_act s SendPdu =
     (case le_poll_outbound_pdu (ll_a s) of
        (Some p, c) \<Rightarrow> s\<lparr>ll_a := c, pdus_ab := pdus_ab s @ [p]\<rparr>
      | (None, c) \<Rightarrow> s)"
| "le_act s SendGrant =
     (case le_poll_credit_grant (ll_a s) of
        (Some g, c) \<Rightarrow> s\<lparr>ll_a := c, grants_ab := grants_ab s @ [g]\<rparr>
      | (None, c) \<Rightarrow> s)"
| "le_act s RecvPdu =
     (case pdus_ba s of
        [] \<Rightarrow> s
      | p # ps \<Rightarrow> let (r, c) = le_receive_pdu p (ll_a s)
                  in s\<lparr>ll_a := c, pdus_ba := ps, ll_ok := (ll_ok s \<and> r = Ok ())\<rparr>)"
| "le_act s RecvGrant =
     (case grants_ba s of
        [] \<Rightarrow> s
      | g # gs \<Rightarrow> let (r, c) = le_add_credits g (ll_a s)
                  in s\<lparr>ll_a := c, grants_ba := gs, ll_ok := (ll_ok s \<and> r = Ok ())\<rparr>)"
| "le_act s Pause =
     (let (r, c) = le_pause_reading (ll_a s) in s\<lparr>ll_a := c, ll_ok := (ll_ok s \<and> r = Ok ())\<rparr>)"
| "le_act s Resume =
     (let (r, c) = le_resume_reading (ll_a s) in s\<lparr>ll_a := c, ll_ok := (ll_ok s \<and> r = Ok ())\<rparr>)"
| "le_act s Fetch =
     (case le_pop_received (ll_a s) of
        (Some sdu, c) \<Rightarrow> s\<lparr>ll_a := c, fetched_a := fetched_a s @ [sdu]\<rparr>
      | (None, c) \<Rightarrow> s)"

fun le_link_step :: "le_link \<Rightarrow> bool \<times> le_event \<Rightarrow> le_link" where
  "le_link_step s (True, ev) = le_act s ev"
| "le_link_step s (False, ev) = le_mirror (le_act (le_mirror s) ev)"

definition le_link_start :: "le_channel \<Rightarrow> le_channel \<Rightarrow> le_link" where
  "le_link_start a b = \<lparr>ll_a = a, ll_b = b, pdus_ab = [], pdus_ba = [], grants_ab = [], grants_ba = [],
     written_a = [], written_b = [], fetched_a = [], fetched_b = [], ll_ok = True\<rparr>"

section \<open>Segments on the wire\<close>

definition sdu_frame :: "bytes \<Rightarrow> bytes" where
  "sdu_frame d = u16_to_le_bytes (of_nat (length d)) @ d"

lemma sdu_frame_simps [simp]:
  "length (sdu_frame d) = length d + 2" "sdu_frame d \<noteq> []" "drop 2 (sdu_frame d) = d"
  by (simp_all add: sdu_frame_def u16_to_le_bytes_def)

lemma sdu_frame_header:
  assumes "prefix acc (sdu_frame d)" "2 \<le> length acc" "length d \<le> 65535"
  shows "unat (u16_from_le_bytes (acc ! 0) (acc ! 1)) = length d"
proof -
  obtain r where r: "acc @ r = sdu_frame d" using assms(1) by (auto simp: prefix_def)
  have "acc ! i = sdu_frame d ! i" if "i < 2" for i
    using r assms(2) that by (metis nth_append order_less_le_trans)
  then show ?thesis
    using assms(3) by (simp add: sdu_frame_def u16_to_le_bytes_def unat_of_nat_u16)
qed

text \<open>
  \<open>aligned acc ps t ds\<close>: with \<open>acc\<close> stored at the receiver, the PDUs \<open>ps\<close> on the way and \<open>t\<close> left to be
  segmented at the sender, the receiver will complete exactly the SDUs \<open>ds\<close>; no PDU straddles two SDUs
  and the first PDU of an SDU holds its length field.
\<close>

fun aligned :: "bytes \<Rightarrow> bytes list \<Rightarrow> bytes \<Rightarrow> bytes list \<Rightarrow> bool" where
  "aligned acc [] t ds \<longleftrightarrow> (if t = [] then acc = [] \<and> ds = [] else \<exists>d. ds = [d] \<and> acc @ t = sdu_frame d)"
| "aligned acc (p # ps) t [] \<longleftrightarrow> False"
| "aligned acc (p # ps) t (d # ds) \<longleftrightarrow>
     (if acc @ p = sdu_frame d then aligned [] ps t ds
      else 2 \<le> length (acc @ p) \<and> strict_prefix (acc @ p) (sdu_frame d) \<and> aligned (acc @ p) ps t (d # ds))"

lemma aligned_refill:
  "aligned acc ps [] ds \<Longrightarrow> aligned acc ps (sdu_frame d) (ds @ [d])"
proof (induction ps arbitrary: acc ds)
  case (Cons p ps)
  then show ?case by (cases ds) (auto split: if_splits dest: Cons.IH [of _ "_ # _"])
qed simp

lemma strict_prefix_take: "n < length t \<Longrightarrow> strict_prefix (acc @ take n t) (acc @ t)"
  by (simp add: strict_prefix_def take_is_prefix)

lemma aligned_emit:
  assumes "aligned acc ps t ds" "t \<noteq> []" "0 < n" "2 \<le> n \<or> length t \<le> n"
  shows "aligned acc (ps @ [take n t]) (drop n t) ds"
  using assms(1)
proof (induction ps arbitrary: acc ds)
  case Nil
  then obtain d where d: "ds = [d]" "acc @ t = sdu_frame d" using assms(2) by auto
  show ?case
  proof (cases "length t \<le> n")
    case True
    then show ?thesis using d by simp
  next
    case False
    then show ?thesis
      using strict_prefix_take [of n t acc] assms(3,4) d by (auto simp: strict_prefix_def)
  qed
next
  case (Cons p ps)
  then show ?case by (cases ds) (auto split: if_splits)
qed

section \<open>One direction of the link\<close>

text \<open>
  The sender's and the receiver's half of a channel; every operation touches only one of them.
\<close>

definition out_half where
  "out_half c = (ch_state c, ch_peer_mtu c, ch_peer_mps c, ch_credits c, ch_output_stream c,
     ch_output_sdu c, ch_outbound_pdus c)"

definition in_half where
  "in_half c = (ch_state c, ch_mtu c, ch_mps c, ch_peer_credits c, ch_peer_max_credits c,
     ch_peer_credit_threshold c, ch_input_sdu c, ch_input_sdu_length c, ch_received_sdus c,
     ch_pending_credit_grants c, ch_reading_paused c)"

abbreviation grant_sum :: "u16 list \<Rightarrow> nat" where
  "grant_sum gs \<equiv> sum_list (map unat gs)"

definition credit_flow :: "le_channel \<Rightarrow> le_channel \<Rightarrow> bytes list \<Rightarrow> u16 list \<Rightarrow> bool" where
  "credit_flow S R ps gs \<longleftrightarrow>
     unat (ch_credits S) + length (ps @ ch_outbound_pdus S) + grant_sum (gs @ ch_pending_credit_grants R) =
       unat (ch_peer_credits R) \<and>
     ch_peer_credits R \<le> ch_peer_max_credits R \<and> 0 < ch_peer_max_credits R \<and>
     ch_peer_credit_threshold R = ch_peer_max_credits R div 2 \<and>
     (\<not> ch_reading_paused R \<longrightarrow> ch_peer_credit_threshold R < ch_peer_credits R)"

definition data_flow :: "le_channel \<Rightarrow> le_channel \<Rightarrow> bytes list \<Rightarrow> bytes \<Rightarrow> bytes list \<Rightarrow> bool" where
  "data_flow S R ps written fetched \<longleftrightarrow>
     (\<exists>ds. aligned (ch_input_sdu R) (ps @ ch_outbound_pdus S) (ch_output_sdu S) ds \<and>
        written = concat (fetched @ ch_received_sdus R) @ concat ds @ ch_output_stream S \<and>
        (\<forall>d \<in> set ds. length d \<le> unat (ch_mtu R)) \<and>
        (if ch_input_sdu R = [] then ch_input_sdu_length R = None
         else 2 \<le> length (ch_input_sdu R) \<and> ds \<noteq> [] \<and> ch_input_sdu_length R = Some (length (hd ds)) \<and>
              strict_prefix (ch_input_sdu R) (sdu_frame (hd ds))))"

definition le_flow ::
  "le_channel \<Rightarrow> le_channel \<Rightarrow> bytes list \<Rightarrow> u16 list \<Rightarrow> bytes \<Rightarrow> bytes list \<Rightarrow> bool" where
  "le_flow S R ps gs written fetched \<longleftrightarrow>
     ch_state S = Connected \<and> ch_state R = Connected \<and>
     23 \<le> unat (ch_peer_mps S) \<and> unat (ch_peer_mps S) \<le> unat (ch_mps R) \<and>
     unat (ch_peer_mtu S) \<le> unat (ch_mtu R) \<and>
     (\<forall>p \<in> set (ps @ ch_outbound_pdus S). length p \<le> unat (ch_mps R)) \<and>
     credit_flow S R ps gs \<and> data_flow S R ps written fetched"

lemma le_flow_halves:
  assumes "out_half S' = out_half S" "in_half R' = in_half R"
  shows "le_flow S' R' ps gs written fetched = le_flow S R ps gs written fetched"
  using assms unfolding out_half_def in_half_def le_flow_def credit_flow_def data_flow_def by simp

subsection \<open>The sender\<close>

lemma le_process_output_halves:
  "in_half (le_process_output c) = in_half c"
  "ch_peer_mtu (le_process_output c) = ch_peer_mtu c" "ch_peer_mps (le_process_output c) = ch_peer_mps c"
proof (induction c rule: le_process_output.induct)
  case (1 c)
  { case 1
    then show ?case using "1.IH"(1)
      by (subst le_process_output.simps) (auto simp: in_half_def le_emit_def le_refill_def Let_def)
  next
    case 2
    then show ?case using "1.IH"(2)
      by (subst le_process_output.simps) (auto simp: le_emit_def le_refill_def Let_def)
  next
    case 3
    then show ?case using "1.IH"(3)
      by (subst le_process_output.simps) (auto simp: le_emit_def le_refill_def Let_def)
  }
qed

lemma refill_flow:
  assumes "le_flow S R ps gs written fetched" "ch_output_sdu S \<noteq> [] \<or> ch_output_stream S \<noteq> []"
  shows "le_flow (le_refill S) R ps gs written fetched" "ch_output_sdu (le_refill S) \<noteq> []"
    "ch_credits (le_refill S) = ch_credits S"
proof -
  show "ch_output_sdu (le_refill S) \<noteq> []" "ch_credits (le_refill S) = ch_credits S"
    by (simp_all add: le_refill_def Let_def u16_to_le_bytes_def)
  show "le_flow (le_refill S) R ps gs written fetched"
  proof (cases "ch_output_sdu S = []")
    case False
    then show ?thesis using assms(1) by (simp add: le_refill_def)
  next
    case True
    define n where "n = min (length (ch_output_stream S)) (unat (ch_peer_mtu S))"
    define d where "d = take n (ch_output_stream S)"
    have d: "length d = n" "length d \<le> unat (ch_mtu R)"
      using assms(1) by (auto simp: d_def n_def le_flow_def)
    have S': "le_refill S = S\<lparr>ch_output_sdu := sdu_frame d, ch_output_stream := drop n (ch_output_stream S)\<rparr>"
      using True d(1) by (simp add: le_refill_def Let_def n_def [symmetric] d_def sdu_frame_def)
    obtain ds where ds: "aligned (ch_input_sdu R) (ps @ ch_outbound_pdus S) [] ds"
        "written = concat (fetched @ ch_received_sdus R) @ concat ds @ ch_output_stream S"
        "\<forall>d \<in> set ds. length d \<le> unat (ch_mtu R)"
        "if ch_input_sdu R = [] then ch_input_sdu_length R = None
         else 2 \<le> length (ch_input_sdu R) \<and> ds \<noteq> [] \<and> ch_input_sdu_length R = Some (length (hd ds)) \<and>
              strict_prefix (ch_input_sdu R) (sdu_frame (hd ds))"
      using assms(1) True unfolding le_flow_def data_flow_def by auto
    have "data_flow (le_refill S) R ps written fetched"
      unfolding data_flow_def S'
      using aligned_refill [OF ds(1), of d] ds d(2)
      by (intro exI [of _ "ds @ [d]"]) (auto simp: d_def split: if_splits)
    then show ?thesis
      using assms(1) unfolding le_flow_def credit_flow_def S' by auto
  qed
qed

lemma emit_flow:
  assumes "le_flow S R ps gs written fetched" "ch_output_sdu S \<noteq> []" "ch_credits S \<noteq> 0"
  shows "le_flow (le_emit S) R ps gs written fetched"
proof -
  define n where "n = min (length (ch_output_sdu S)) (unat (ch_peer_mps S))"
  have S': "le_emit S = S\<lparr>ch_outbound_pdus := ch_outbound_pdus S @ [take n (ch_output_sdu S)],
      ch_output_sdu := drop n (ch_output_sdu S), ch_credits := ch_credits S - 1\<rparr>"
    by (simp add: le_emit_def n_def Let_def)
  have n: "0 < n" "2 \<le> n \<or> length (ch_output_sdu S) \<le> n" "n \<le> unat (ch_mps R)"
    using assms(1,2) by (auto simp: le_flow_def n_def)
  have "unat (ch_credits S) = Suc (unat (ch_credits S - 1))"
    using assms(3) by (simp add: unat_minus_one unat_gt_0)
  then have "credit_flow (le_emit S) R ps gs"
    using assms(1) unfolding le_flow_def credit_flow_def S' by auto
  moreover have "data_flow (le_emit S) R ps written fetched"
  proof -
    obtain ds where "aligned (ch_input_sdu R) (ps @ ch_outbound_pdus S) (ch_output_sdu S) ds"
        "written = concat (fetched @ ch_received_sdus R) @ concat ds @ ch_output_stream S"
        "\<forall>d \<in> set ds. length d \<le> unat (ch_mtu R)"
        "if ch_input_sdu R = [] then ch_input_sdu_length R = None
         else 2 \<le> length (ch_input_sdu R) \<and> ds \<noteq> [] \<and> ch_input_sdu_length R = Some (length (hd ds)) \<and>
              strict_prefix (ch_input_sdu R) (sdu_frame (hd ds))"
      using assms(1) unfolding le_flow_def data_flow_def by auto
    with aligned_emit [OF this(1) assms(2) n(1,2)] show ?thesis
      unfolding data_flow_def S' by (intro exI [of _ ds]) simp
  qed
  ultimately show ?thesis
    using assms(1) n(3) unfolding le_flow_def S' by auto
qed

lemma process_output_flow:
  assumes "le_flow S R ps gs written fetched"
  shows "le_flow (le_process_output S) R ps gs written fetched \<and> le_settled (le_process_output S)"
  using assms
proof (induction S rule: le_process_output.induct)
  case (1 S)
  show ?case
  proof (cases "ch_credits S = 0 \<or> ch_output_sdu S = [] \<and> ch_output_stream S = []")
    case True
    then have "le_process_output S = S" by (subst le_process_output.simps) auto
    then show ?thesis using 1(2) True by (simp add: le_settled_def)
  next
    case False
    then have "le_process_output S = le_process_output (le_emit (le_refill S))"
      by (subst le_process_output.simps) auto
    moreover have "le_flow (le_emit (le_refill S)) R ps gs written fetched"
      using refill_flow [OF 1(2)] False by (intro emit_flow) auto
    ultimately show ?thesis using "1.IH" False by simp
  qed
qed

lemma le_write_flow:
  assumes "le_flow S R ps gs written fetched" "data \<noteq> []"
  shows "\<exists>S'. le_write data S = (Ok (), S') \<and> le_flow S' R ps gs (written @ data) fetched \<and> le_settled S' \<and>
    in_half S' = in_half S"
proof -
  define S1 where "S1 = S\<lparr>ch_output_stream := ch_output_stream S @ data\<rparr>"
  have "le_write data S = (Ok (), le_process_output S1)"
    using assms by (simp add: le_write_def le_ensure_connected_def and_then_def le_flow_def S1_def)
  moreover have "le_flow S1 R ps gs (written @ data) fetched"
    using assms(1) unfolding le_flow_def credit_flow_def data_flow_def S1_def by fastforce
  moreover have "in_half S1 = in_half S" by (simp add: S1_def in_half_def)
  ultimately show ?thesis using process_output_flow le_process_output_halves(1) [of S1] by auto
qed

lemma le_add_credits_flow:
  assumes "le_flow S R ps (g # gs) written fetched"
  shows "\<exists>S'. le_add_credits g S = (Ok (), S') \<and> le_flow S' R ps gs written fetched \<and> le_settled S' \<and>
    in_half S' = in_half S"
proof -
  define S1 where "S1 = S\<lparr>ch_credits := ch_credits S + g\<rparr>"
  have sum: "unat (ch_credits S) + unat g \<le> 65535"
    using assms unat_u16_le [of "ch_peer_credits R"] unfolding le_flow_def credit_flow_def by simp
  then have u: "unat (ch_credits S + g) = unat (ch_credits S) + unat g"
    by (simp add: unat_word_ariths)
  have "le_add_credits g S = (Ok (), le_process_output S1)"
    using assms sum by (simp add: le_add_credits_def le_ensure_connected_def and_then_def le_flow_def S1_def)
  moreover have "le_flow S1 R ps gs written fetched"
    using assms u unfolding le_flow_def credit_flow_def data_flow_def S1_def by auto
  moreover have "in_half S1 = in_half S" by (simp add: S1_def in_half_def)
  ultimately show ?thesis using process_output_flow le_process_output_halves(1) [of S1] by auto
qed

subsection \<open>The receiver\<close>

text \<open>
  Replenishing keeps the balance of credits and restores the margin above the threshold, without
  the subtraction ever underflowing.
\<close>

lemma replenish_credit_flow:
  assumes "unat (ch_credits S) + length (ps @ ch_outbound_pdus S) +
      grant_sum (gs @ ch_pending_credit_grants R) = unat (ch_peer_credits R)"
    "ch_peer_credits R \<le> ch_peer_max_credits R" "0 < ch_peer_max_credits R"
    "ch_peer_credit_threshold R = ch_peer_max_credits R div 2"
  shows "\<exists>R'. le_replenish_peer_credits R = (Ok (), R') \<and> credit_flow S R' ps gs \<and>
    R' = R\<lparr>ch_peer_credits := ch_peer_credits R', ch_pending_credit_grants := ch_pending_credit_grants R'\<rparr>"
proof -
  have half: "ch_peer_max_credits R div 2 < ch_peer_max_credits R"
    using assms(3) by (simp add: word_less_nat_alt unat_div)
  have sub: "unat (ch_peer_max_credits R - ch_peer_credits R) =
      unat (ch_peer_max_credits R) - unat (ch_peer_credits R)"
    using assms(2) by (simp add: unat_sub word_le_nat_alt)
  show ?thesis
  proof (cases "ch_reading_paused R \<or> ch_peer_credit_threshold R < ch_peer_credits R")
    case True
    then show ?thesis using assms by (auto simp: le_replenish_peer_credits_def credit_flow_def)
  next
    case False
    then have "ch_peer_credits R \<noteq> ch_peer_max_credits R" using half assms(4) by auto
    then have "ch_peer_max_credits R - ch_peer_credits R \<noteq> 0" by simp
    moreover have "unat (ch_peer_credits R) \<le> unat (ch_peer_max_credits R)"
      using assms(2) by (simp add: word_le_nat_alt)
    ultimately show ?thesis
      using False assms half sub
      by (auto simp: le_replenish_peer_credits_def credit_flow_def Let_def)
  qed
qed

lemma reassemble_flow:
  assumes "aligned (ch_input_sdu R) (p # ps) t ds"
    and "written = concat (fetched @ ch_received_sdus R) @ concat ds @ stream"
    and mtu: "\<forall>d \<in> set ds. length d \<le> unat (ch_mtu R)"
    and st: "if ch_input_sdu R = [] then ch_input_sdu_length R = None
         else 2 \<le> length (ch_input_sdu R) \<and> ds \<noteq> [] \<and> ch_input_sdu_length R = Some (length (hd ds)) \<and>
              strict_prefix (ch_input_sdu R) (sdu_frame (hd ds))"
  shows "\<exists>R' ds'. le_reassemble p R = (Ok (), R') \<and> aligned (ch_input_sdu R') ps t ds' \<and>
    written = concat (fetched @ ch_received_sdus R') @ concat ds' @ stream \<and> set ds' \<subseteq> set ds \<and>
    (if ch_input_sdu R' = [] then ch_input_sdu_length R' = None
         else 2 \<le> length (ch_input_sdu R') \<and> ds' \<noteq> [] \<and> ch_input_sdu_length R' = Some (length (hd ds')) \<and>
              strict_prefix (ch_input_sdu R') (sdu_frame (hd ds'))) \<and>
    R' = R\<lparr>ch_input_sdu := ch_input_sdu R', ch_input_sdu_length := ch_input_sdu_length R',
           ch_received_sdus := ch_received_sdus R'\<rparr>"
proof -
  obtain d ds1 where ds: "ds = d # ds1" using assms(1) by (cases ds) auto
  define acc where "acc = ch_input_sdu R @ p"
  have d: "length d \<le> unat (ch_mtu R)" "length d \<le> 65535"
    using mtu ds unat_u16_le [of "ch_mtu R"] by auto
  have pre: "prefix acc (sdu_frame d)" "2 \<le> length acc"
    using assms(1) ds unfolding acc_def by (cases "ch_input_sdu R @ p = sdu_frame d"; simp add: strict_prefix_def)+
  have n: "unat (u16_from_le_bytes (acc ! 0) (acc ! 1)) = length d"
    using sdu_frame_header [OF pre d(2)] .
  define R1 where "R1 = R\<lparr>ch_input_sdu := acc, ch_input_sdu_length := Some (length d)\<rparr>"
  have len: "ch_input_sdu_length R = None \<or> ch_input_sdu_length R = Some (length d)"
    using st ds by (auto split: if_splits)
  have eq: "le_reassemble p R = (if length acc < length d + 2 then (Ok (), R1)
      else if length acc > length d + 2 then (invalid ''incoming SDU overflow'', le_reset_input R1)
      else (Ok (), le_reset_input (R1\<lparr>ch_received_sdus := ch_received_sdus R @ [take (length d) (drop 2 acc)]\<rparr>)))"
  proof (cases "ch_input_sdu_length R")
    case None
    then show ?thesis
      using pre(2) d(1) n by (simp add: le_reassemble_def le_reset_input_def Let_def R1_def flip: acc_def)
  next
    case (Some k)
    then have "R\<lparr>ch_input_sdu := acc, ch_input_sdu_length := Some (length d)\<rparr> = R\<lparr>ch_input_sdu := acc\<rparr>"
      using len by simp
    then show ?thesis
      using Some len by (simp add: le_reassemble_def le_reset_input_def Let_def R1_def flip: acc_def)
  qed
  show ?thesis
  proof (cases "acc = sdu_frame d")
    case True
    then show ?thesis
      using assms(1,2) ds unfolding eq
      by (intro exI [of _ "le_reset_input (R1\<lparr>ch_received_sdus := ch_received_sdus R @ [d]\<rparr>)"] exI [of _ ds1])
        (auto simp: le_reset_input_def R1_def acc_def)
  next
    case False
    then have "strict_prefix acc (sdu_frame d)" using pre by (simp add: strict_prefix_def)
    moreover from this have "length acc < length d + 2" using prefix_length_less by fastforce
    moreover have "acc \<noteq> []" using pre(2) by auto
    ultimately show ?thesis
      using assms(1,2) ds False pre(2) unfolding eq
      by (intro exI [of _ R1] exI [of _ ds]) (auto simp: R1_def acc_def)
  qed
qed

lemma le_receive_pdu_flow:
  assumes "le_flow S R (p # ps) gs written fetched"
  shows "\<exists>R'. le_receive_pdu p R = (Ok (), R') \<and> le_flow S R' ps gs written fetched \<and>
    out_half R' = out_half R"
proof -
  have con: "ch_state R = Connected" "length p \<le> unat (ch_mps R)" "credit_flow S R (p # ps) gs"
    using assms by (auto simp: le_flow_def)
  then have pos: "ch_peer_credits R \<noteq> 0" by (auto simp: credit_flow_def)
  define R1 where "R1 = R\<lparr>ch_peer_credits := ch_peer_credits R - 1\<rparr>"
  have dec: "unat (ch_peer_credits R) = Suc (unat (ch_peer_credits R - 1))"
    using pos by (simp add: unat_minus_one unat_gt_0)
  have "ch_peer_credits R - 1 \<le> ch_peer_max_credits R"
    using con(3) dec by (simp add: credit_flow_def word_le_nat_alt)
  then obtain R2 where R2: "le_replenish_peer_credits R1 = (Ok (), R2)" "credit_flow S R2 ps gs"
      "R2 = R1\<lparr>ch_peer_credits := ch_peer_credits R2, ch_pending_credit_grants := ch_pending_credit_grants R2\<rparr>"
    using replenish_credit_flow [of S ps gs R1] con(3) dec by (auto simp: R1_def credit_flow_def)
  have same: "ch_input_sdu R2 = ch_input_sdu R" "ch_input_sdu_length R2 = ch_input_sdu_length R"
      "ch_received_sdus R2 = ch_received_sdus R" "ch_mtu R2 = ch_mtu R" "ch_mps R2 = ch_mps R"
      "ch_state R2 = ch_state R" "out_half R2 = out_half R"
    by (subst R2(3), simp add: R1_def out_half_def)+
  obtain ds where ds: "aligned (ch_input_sdu R2) (p # ps @ ch_outbound_pdus S) (ch_output_sdu S) ds"
      "written = concat (fetched @ ch_received_sdus R2) @ concat ds @ ch_output_stream S"
      "\<forall>d \<in> set ds. length d \<le> unat (ch_mtu R2)"
      "if ch_input_sdu R2 = [] then ch_input_sdu_length R2 = None
         else 2 \<le> length (ch_input_sdu R2) \<and> ds \<noteq> [] \<and> ch_input_sdu_length R2 = Some (length (hd ds)) \<and>
              strict_prefix (ch_input_sdu R2) (sdu_frame (hd ds))"
    using assms unfolding le_flow_def data_flow_def same by auto
  obtain R3 ds' where R3: "le_reassemble p R2 = (Ok (), R3)"
      "aligned (ch_input_sdu R3) (ps @ ch_outbound_pdus S) (ch_output_sdu S) ds'"
      "written = concat (fetched @ ch_received_sdus R3) @ concat ds' @ ch_output_stream S" "set ds' \<subseteq> set ds"
      "if ch_input_sdu R3 = [] then ch_input_sdu_length R3 = None
         else 2 \<le> length (ch_input_sdu R3) \<and> ds' \<noteq> [] \<and> ch_input_sdu_length R3 = Some (length (hd ds')) \<and>
              strict_prefix (ch_input_sdu R3) (sdu_frame (hd ds'))"
      "R3 = R2\<lparr>ch_input_sdu := ch_input_sdu R3, ch_input_sdu_length := ch_input_sdu_length R3,
           ch_received_sdus := ch_received_sdus R3\<rparr>"
    using reassemble_flow [OF ds] by blast
  have same3: "ch_mtu R3 = ch_mtu R" "ch_mps R3 = ch_mps R" "ch_state R3 = ch_state R" "out_half R3 = out_half R"
      "credit_flow S R3 ps gs"
    using same R2(2) by (subst R3(6), simp add: out_half_def credit_flow_def)+
  have "le_receive_pdu p R = (Ok (), R3)"
    using con pos R2(1) R3(1)
    by (simp add: le_receive_pdu_def le_ensure_connected_def and_then_def R1_def [symmetric])
  moreover have "data_flow S R3 ps written fetched"
    unfolding data_flow_def using R3(2-5) ds(3) same(4) same3(1) by (intro exI [of _ ds']) auto
  ultimately show ?thesis
    using assms same3 unfolding le_flow_def by auto
qed

lemma le_pause_flow:
  assumes "le_flow S R ps gs written fetched"
  shows "\<exists>R'. le_pause_reading R = (Ok (), R') \<and> le_flow S R' ps gs written fetched \<and> out_half R' = out_half R"
  using assms
  by (auto simp: le_pause_reading_def le_ensure_connected_def and_then_def le_flow_def credit_flow_def
      data_flow_def out_half_def)

lemma le_resume_flow:
  assumes "le_flow S R ps gs written fetched"
  shows "\<exists>R'. le_resume_reading R = (Ok (), R') \<and> le_flow S R' ps gs written fetched \<and> out_half R' = out_half R"
proof -
  define R1 where "R1 = R\<lparr>ch_reading_paused := False\<rparr>"
  obtain R2 where R2: "le_replenish_peer_credits R1 = (Ok (), R2)" "credit_flow S R2 ps gs"
      "R2 = R1\<lparr>ch_peer_credits := ch_peer_credits R2, ch_pending_credit_grants := ch_pending_credit_grants R2\<rparr>"
    using replenish_credit_flow [of S ps gs R1] assms by (auto simp: R1_def credit_flow_def le_flow_def)
  have "data_flow S R2 ps written fetched = data_flow S R ps written fetched" "ch_mtu R2 = ch_mtu R"
    "ch_mps R2 = ch_mps R" "ch_state R2 = ch_state R" "out_half R2 = out_half R"
    by (subst R2(3), simp add: R1_def data_flow_def out_half_def)+
  then show ?thesis
    using assms R2(1,2)
    by (simp add: le_flow_def le_resume_reading_def le_ensure_connected_def and_then_def R1_def [symmetric])
qed

section \<open>Runs of the link\<close>

definition le_link_inv :: "le_link \<Rightarrow> bool" where
  "le_link_inv s \<longleftrightarrow> ll_ok s \<and> le_settled (ll_a s) \<and> le_settled (ll_b s) \<and>
     le_flow (ll_a s) (ll_b s) (pdus_ab s) (grants_ba s) (written_a s) (fetched_b s) \<and>
     le_flow (ll_b s) (ll_a s) (pdus_ba s) (grants_ab s) (written_b s) (fetched_a s)"

lemma le_mirror_inv: "le_link_inv (le_mirror s) \<longleftrightarrow> le_link_inv s"
  by (auto simp: le_link_inv_def le_mirror_def)

lemma le_act_write: "le_link_inv s \<Longrightarrow> le_link_inv (le_act s (Write data))"
proof (cases "data = []")
  case True
  assume "le_link_inv s"
  then show ?thesis
    using True by (simp add: le_write_def le_ensure_connected_def and_then_def le_link_inv_def le_flow_def)
next
  case False
  assume inv: "le_link_inv s"
  then obtain c where "le_write data (ll_a s) = (Ok (), c)"
      "le_flow c (ll_b s) (pdus_ab s) (grants_ba s) (written_a s @ data) (fetched_b s)" "le_settled c"
      "in_half c = in_half (ll_a s)"
    using le_write_flow [OF _ False] unfolding le_link_inv_def by metis
  then show ?thesis
    using inv le_flow_halves [OF refl, of c "ll_a s" "ll_b s"] by (simp add: le_link_inv_def)
qed

lemma le_act_recv_grant: "le_link_inv s \<Longrightarrow> le_link_inv (le_act s RecvGrant)"
proof (cases "grants_ba s")
  case (Cons g gs)
  assume inv: "le_link_inv s"
  then obtain c where "le_add_credits g (ll_a s) = (Ok (), c)"
      "le_flow c (ll_b s) (pdus_ab s) gs (written_a s) (fetched_b s)" "le_settled c"
      "in_half c = in_half (ll_a s)"
    using le_add_credits_flow [of "ll_a s"] Cons unfolding le_link_inv_def by metis
  then show ?thesis
    using inv Cons le_flow_halves [OF refl, of c "ll_a s" "ll_b s"] by (simp add: le_link_inv_def)
qed simp

text \<open>An operation of the receiving half of the left channel.\<close>

lemma le_link_receiver:
  assumes "le_link_inv s" "le_flow (ll_b s) c ps gs (written_b s) fa" "out_half c = out_half (ll_a s)"
  shows "le_link_inv (s\<lparr>ll_a := c, pdus_ba := ps, grants_ab := gs, fetched_a := fa\<rparr>)"
  using assms le_flow_halves [OF assms(3) refl, of "ll_b s"]
  by (simp add: le_link_inv_def le_settled_def out_half_def)

lemma le_act_recv_pdu: "le_link_inv s \<Longrightarrow> le_link_inv (le_act s RecvPdu)"
proof (cases "pdus_ba s")
  case (Cons p ps)
  assume inv: "le_link_inv s"
  then obtain c where c: "le_receive_pdu p (ll_a s) = (Ok (), c)"
      "le_flow (ll_b s) c ps (grants_ab s) (written_b s) (fetched_a s)" "out_half c = out_half (ll_a s)"
    using le_receive_pdu_flow [of "ll_b s" "ll_a s"] Cons unfolding le_link_inv_def by metis
  then show ?thesis
    using le_link_receiver [OF inv c(2,3)] inv Cons by (simp add: le_link_inv_def)
qed simp

lemma le_act_pause: "le_link_inv s \<Longrightarrow> le_link_inv (le_act s Pause)"
  and le_act_resume: "le_link_inv s \<Longrightarrow> le_link_inv (le_act s Resume)"
proof -
  assume inv: "le_link_inv s"
  then have fl: "le_flow (ll_b s) (ll_a s) (pdus_ba s) (grants_ab s) (written_b s) (fetched_a s)"
    by (simp add: le_link_inv_def)
  obtain c where c: "le_pause_reading (ll_a s) = (Ok (), c)"
      "le_flow (ll_b s) c (pdus_ba s) (grants_ab s) (written_b s) (fetched_a s)" "out_half c = out_half (ll_a s)"
    using le_pause_flow [OF fl] by metis
  obtain d where d: "le_resume_reading (ll_a s) = (Ok (), d)"
      "le_flow (ll_b s) d (pdus_ba s) (grants_ab s) (written_b s) (fetched_a s)" "out_half d = out_half (ll_a s)"
    using le_resume_flow [OF fl] by metis
  show "le_link_inv (le_act s Pause)"
    using le_link_receiver [OF inv c(2,3)] inv c(1) by (simp add: le_link_inv_def)
  show "le_link_inv (le_act s Resume)"
    using le_link_receiver [OF inv d(2,3)] inv d(1) by (simp add: le_link_inv_def)
qed

lemma le_act_send_pdu: "le_link_inv s \<Longrightarrow> le_link_inv (le_act s SendPdu)"
proof (cases "ch_outbound_pdus (ll_a s)")
  case (Cons p ps)
  assume inv: "le_link_inv s"
  define c where "c = (ll_a s)\<lparr>ch_outbound_pdus := ps\<rparr>"
  have "le_flow c (ll_b s) (pdus_ab s @ [p]) (grants_ba s) (written_a s) (fetched_b s)"
  proof -
    have "credit_flow c (ll_b s) (pdus_ab s @ [p]) gs = credit_flow (ll_a s) (ll_b s) (pdus_ab s) gs"
      "data_flow c (ll_b s) (pdus_ab s @ [p]) w f = data_flow (ll_a s) (ll_b s) (pdus_ab s) w f" for gs w f
      using Cons by (simp_all add: credit_flow_def data_flow_def c_def)
    then show ?thesis using inv Cons by (simp add: le_link_inv_def le_flow_def c_def)
  qed
  then show ?thesis
    using inv Cons le_flow_halves [OF refl, of c "ll_a s" "ll_b s"]
    by (simp add: le_poll_outbound_pdu_def le_link_inv_def le_settled_def c_def in_half_def)
qed (simp add: le_poll_outbound_pdu_def)

lemma le_act_send_grant: "le_link_inv s \<Longrightarrow> le_link_inv (le_act s SendGrant)"
proof (cases "ch_pending_credit_grants (ll_a s)")
  case (Cons g gs)
  assume inv: "le_link_inv s"
  define c where "c = (ll_a s)\<lparr>ch_pending_credit_grants := gs\<rparr>"
  have "credit_flow (ll_b s) c ps (grants_ab s @ [g]) = credit_flow (ll_b s) (ll_a s) ps (grants_ab s)"
      "data_flow (ll_b s) c ps w f = data_flow (ll_b s) (ll_a s) ps w f" for ps w f
    using Cons by (simp_all add: credit_flow_def data_flow_def c_def)
  then have "le_flow (ll_b s) c (pdus_ba s) (grants_ab s @ [g]) (written_b s) (fetched_a s)"
    using inv by (simp add: le_link_inv_def le_flow_def c_def)
  then show ?thesis
    using le_link_receiver [OF inv, of c "pdus_ba s" "grants_ab s @ [g]" "fetched_a s"] Cons
    by (simp add: le_poll_credit_grant_def c_def out_half_def)
qed (simp add: le_poll_credit_grant_def)

lemma le_act_fetch: "le_link_inv s \<Longrightarrow> le_link_inv (le_act s Fetch)"
proof (cases "ch_received_sdus (ll_a s)")
  case (Cons d ds)
  assume inv: "le_link_inv s"
  define c where "c = (ll_a s)\<lparr>ch_received_sdus := ds\<rparr>"
  have "credit_flow (ll_b s) c ps gs = credit_flow (ll_b s) (ll_a s) ps gs"
      "data_flow (ll_b s) c ps w (fetched_a s @ [d]) = data_flow (ll_b s) (ll_a s) ps w (fetched_a s)" for ps w gs
    using Cons by (simp_all add: credit_flow_def data_flow_def c_def)
  then have "le_flow (ll_b s) c (pdus_ba s) (grants_ab s) (written_b s) (fetched_a s @ [d])"
    using inv by (simp add: le_link_inv_def le_flow_def c_def)
  then show ?thesis
    using le_link_receiver [OF inv, of c "pdus_ba s" "grants_ab s" "fetched_a s @ [d]"] Cons
    by (simp add: le_pop_received_def c_def out_half_def)
qed (simp add: le_pop_received_def)

lemma le_link_step_inv: "le_link_inv s \<Longrightarrow> le_link_inv (le_link_step s ev)"
proof -
  have act: "le_link_inv s \<Longrightarrow> le_link_inv (le_act s e)" for s e
    by (cases e) (simp_all only: le_act_write le_act_send_pdu le_act_send_grant le_act_recv_pdu
        le_act_recv_grant le_act_pause le_act_resume le_act_fetch)
  show "le_link_inv s \<Longrightarrow> le_link_inv (le_link_step s ev)"
    by (cases "(s, ev)" rule: le_link_step.cases) (simp_all only: le_link_step.simps prod.inject le_mirror_inv act)
qed

lemma le_link_run_inv: "le_link_inv s \<Longrightarrow> le_link_inv (foldl le_link_step s evs)"
  by (induction evs arbitrary: s) (simp_all add: le_link_step_inv)

lemma le_link_start_inv:
  assumes "le_connected psm ca cb spec_a (spec_mtu spec_b) (spec_mps spec_b) (spec_max_credits spec_b) = Ok a"
    and "le_connected psm cb ca spec_b (spec_mtu spec_a) (spec_mps spec_a) (spec_max_credits spec_a) = Ok b"
  shows "le_link_inv (le_link_start a b)"
proof -
  have half: "(w :: u16) div 2 < w" if "w \<noteq> 0" for w
    using that by (simp add: word_less_nat_alt unat_div unat_gt_0)
  have gt: "(0 :: u16) < w" if "w \<noteq> 0" for w using that by (simp add: word_neq_0_conv)
  show ?thesis
    using assms
    by (auto simp: le_connected_def le_spec_validate_def le_link_inv_def le_link_start_def le_settled_def le_flow_def
        credit_flow_def data_flow_def LE_MIN_MPS_def word_le_nat_alt half gt split: if_splits)
qed

text \<open>
  Property C6: two LE credit-based channels connected with each other's parameters, over
  wires that keep order. Whatever the applications write, fetch, pause and resume, and however
  the wires are scheduled: no incoming PDU and no credit grant is ever refused; the bytes
  fetched and waiting at one side are a prefix of the bytes written at the other; and when
  nothing is under way in one direction and its reader is not paused, all of them have arrived.
\<close>

theorem le_credit_transfer:
  assumes "le_connected psm ca cb spec_a (spec_mtu spec_b) (spec_mps spec_b) (spec_max_credits spec_b) = Ok a"
    and "le_connected psm cb ca spec_b (spec_mtu spec_a) (spec_mps spec_a) (spec_max_credits spec_a) = Ok b"
    and "foldl le_link_step (le_link_start a b) evs = s"
  shows "ll_ok s \<and> prefix (concat (fetched_b s @ ch_received_sdus (ll_b s))) (written_a s) \<and>
    (pdus_ab s = [] \<and> ch_outbound_pdus (ll_a s) = [] \<and> grants_ba s = [] \<and>
     ch_pending_credit_grants (ll_b s) = [] \<and> \<not> ch_reading_paused (ll_b s) \<longrightarrow>
       concat (fetched_b s @ ch_received_sdus (ll_b s)) = written_a s \<and> le_is_drained (ll_a s))"
proof -
  have inv: "le_link_inv s"
    using le_link_run_inv [OF le_link_start_inv [OF assms(1,2)], of evs] assms(3) by simp
  then obtain ds where ds: "aligned (ch_input_sdu (ll_b s)) (pdus_ab s @ ch_outbound_pdus (ll_a s)) (ch_output_sdu (ll_a s)) ds"
      "written_a s = concat (fetched_b s @ ch_received_sdus (ll_b s)) @ concat ds @ ch_output_stream (ll_a s)"
    unfolding le_link_inv_def le_flow_def data_flow_def by blast
  have cr: "credit_flow (ll_a s) (ll_b s) (pdus_ab s) (grants_ba s)" and st: "le_settled (ll_a s)"
    using inv by (auto simp: le_link_inv_def le_flow_def)
  have "le_is_drained (ll_a s) \<and> ds = []"
    if q: "pdus_ab s = []" "ch_outbound_pdus (ll_a s) = []" "grants_ba s = []"
     "ch_pending_credit_grants (ll_b s) = []" "\<not> ch_reading_paused (ll_b s)"
  proof -
    have "0 < unat (ch_peer_credits (ll_b s))"
      using cr q(5) by (auto simp: credit_flow_def word_less_nat_alt)
    then have "ch_credits (ll_a s) \<noteq> 0" using cr q by (auto simp: credit_flow_def)
    then show ?thesis using st ds(1) q by (auto simp: le_settled_def le_is_drained_def)
  qed
  then show ?thesis
    using inv ds(2) by (auto simp: le_link_inv_def le_is_drained_def)
qed

theorem le_credit_transfer_witness:
  "\<exists>a b s. le_connected 128 64 65 le_spec_default 2048 2048 256 = Ok a \<and>
     le_connected 128 65 64 le_spec_default 2048 2048 256 = Ok b \<and>
     foldl le_link_step (le_link_start a b)
       [(True, Write [1, 2, 3]), (True, SendPdu), (False, RecvPdu), (False, Fetch)] = s \<and>
     ll_ok s \<and> prefix (concat (fetched_b s @ ch_received_sdus (ll_b s))) (written_a s)"
proof -
  let ?spec = le_spec_default
  obtain a b where ab: "le_connected 128 64 65 ?spec (spec_mtu ?spec) (spec_mps ?spec) (spec_max_credits ?spec) = Ok a"
      "le_connected 128 65 64 ?spec (spec_mtu ?spec) (spec_mps ?spec) (spec_max_credits ?spec) = Ok b"
    by (simp add: le_connected_def le_spec_validate_def le_spec_default_def LE_MIN_MTU_def LE_MIN_MPS_def LE_MAX_MPS_def)
  have spec: "spec_mtu ?spec = 2048" "spec_mps ?spec = 2048" "spec_max_credits ?spec = 256"
    by (simp_all add: le_spec_default_def)
  from le_credit_transfer [OF ab refl] ab show ?thesis unfolding spec by blast
qed

end
