(* ===== verification/Ordered_Map.thy ===== *)
theory Ordered_Map
  imports Prelude "HOL-Library.Multiset"
begin

text \<open>
  \<open>std::collections::BTreeMap\<close> as the code uses it: \<open>get\<close>, \<open>insert\<close>, \<open>remove\<close>,
  \<open>contains_key\<close>, \<open>clear\<close> and iteration in key order. The map is the list of its
  entries in strictly ascending key order; the locale \<open>ordered_map\<close> is the
  contract the components rely on, and its lemmas are what they use.
\<close>

section \<open>The contract\<close>

locale ordered_map =
  fixes empty :: "'m"
    and get :: "'m \<Rightarrow> 'k::linorder \<Rightarrow> 'v option"
    and insert :: "'k \<Rightarrow> 'v \<Rightarrow> 'm \<Rightarrow> 'm"
    and remove :: "'k \<Rightarrow> 'm \<Rightarrow> 'm"
    and entries :: "'m \<Rightarrow> ('k \<times> 'v) list"
    and wf :: "'m \<Rightarrow> bool"
  assumes wf_empty: "wf empty"
    and entries_empty: "entries empty = []"
    and wf_insert: "wf m \<Longrightarrow> wf (insert k v m)"
    and wf_remove: "wf m \<Longrightarrow> wf (remove k m)"
    and get_insert: "wf m \<Longrightarrow> get (insert k v m) k' = (if k' = k then Some v else get m k')"
    and get_remove: "wf m \<Longrightarrow> get (remove k m) k' = (if k' = k then None else get m k')"
    and get_entries: "wf m \<Longrightarrow> (k, v) \<in> set (entries m) \<longleftrightarrow> get m k = Some v"
    and keys_ascending: "wf m \<Longrightarrow> sorted_wrt (<) (map fst (entries m))"
begin

lemma get_empty: "get empty k = None"
  using get_entries [OF wf_empty, of k] entries_empty by (cases "get empty k") auto

lemma distinct_keys: "wf m \<Longrightarrow> distinct (map fst (entries m))"
  using keys_ascending strict_sorted_iff by blast

lemma dom_get: "wf m \<Longrightarrow> {k. get m k \<noteq> None} = fst ` set (entries m)"
  using get_entries by force

lemma ex_value:
  "wf m \<Longrightarrow> (\<exists>v \<in> set (map snd (entries m)). P v) \<longleftrightarrow> (\<exists>k v. get m k = Some v \<and> P v)"
  using get_entries by force

lemma sum_values:
  fixes f :: "'v \<Rightarrow> nat"
  assumes "wf m"
  shows "(\<Sum>v\<leftarrow>map snd (entries m). f v) = (\<Sum>k | get m k \<noteq> None. f (the (get m k)))"
proof -
  have inj: "inj_on fst (set (entries m))"
    using distinct_keys [OF assms] by (simp add: distinct_map)
  have "(\<Sum>v\<leftarrow>map snd (entries m). f v) = (\<Sum>p\<leftarrow>entries m. f (snd p))"
    by (simp add: o_def)
  also have "\<dots> = (\<Sum>p\<in>set (entries m). f (snd p))"
    using distinct_keys [OF assms] by (simp add: distinct_map sum_list_distinct_conv_sum_set)
  also have "\<dots> = (\<Sum>p\<in>set (entries m). f (the (get m (fst p))))"
    using get_entries [OF assms] by (intro sum.cong) force+
  also have "\<dots> = (\<Sum>k\<in>fst ` set (entries m). f (the (get m k)))"
    by (simp add: sum.reindex [OF inj])
  finally show ?thesis by (simp only: dom_get [OF assms])
qed

lemma finite_dom: "wf m \<Longrightarrow> finite {k. get m k \<noteq> None}"
  by (simp only: dom_get) simp

lemma sum_split_key:
  fixes f :: "'v \<Rightarrow> nat"
  assumes "wf m"
  shows "(\<Sum>j | get m j \<noteq> None. f (the (get m j))) =
    (case get m k of None \<Rightarrow> 0 | Some y \<Rightarrow> f y) + (\<Sum>j\<in>{j. get m j \<noteq> None} - {k}. f (the (get m j)))"
proof (cases "get m k")
  case None
  then show ?thesis by (simp del: not_None_eq)
next
  case (Some y)
  then have "k \<in> {j. get m j \<noteq> None}" by simp
  from sum.remove [OF finite_dom [OF assms] this, of "\<lambda>j. f (the (get m j))"] Some
  show ?thesis by simp
qed

lemma sum_values_insert:
  fixes f :: "'v \<Rightarrow> nat"
  assumes wf: "wf m"
  shows "(\<Sum>v\<leftarrow>map snd (entries (insert k x m)). f v) + (case get m k of None \<Rightarrow> 0 | Some y \<Rightarrow> f y)
    = (\<Sum>v\<leftarrow>map snd (entries m). f v) + f x"
proof -
  let ?D = "{k. get m k \<noteq> None}"
  let ?g = "\<lambda>j. f (the (get (insert k x m) j))"
  have dom: "{j. get (insert k x m) j \<noteq> None} = Set.insert k ?D"
    using wf by (auto simp: get_insert)
  have rest: "(\<Sum>j\<in>?D - {k}. ?g j) = (\<Sum>j\<in>?D - {k}. f (the (get m j)))"
    using wf by (intro sum.cong) (auto simp: get_insert)
  have new: "(\<Sum>j\<in>Set.insert k ?D. ?g j) = f x + (\<Sum>j\<in>?D - {k}. f (the (get m j)))"
    using finite_dom [OF wf] wf by (simp add: sum.insert_remove rest get_insert)
  show ?thesis
    using new sum_split_key [OF wf, of f k] by (simp only: sum_values [OF wf] sum_values [OF wf_insert [OF wf]] dom)
qed

lemma sum_values_remove:
  fixes f :: "'v \<Rightarrow> nat"
  assumes wf: "wf m"
  shows "(\<Sum>v\<leftarrow>map snd (entries (remove k m)). f v) + (case get m k of None \<Rightarrow> 0 | Some y \<Rightarrow> f y)
    = (\<Sum>v\<leftarrow>map snd (entries m). f v)"
proof -
  let ?D = "{k. get m k \<noteq> None}"
  have dom: "{j. get (remove k m) j \<noteq> None} = ?D - {k}"
    using wf by (auto simp: get_remove)
  have rest: "(\<Sum>j\<in>?D - {k}. f (the (get (remove k m) j))) = (\<Sum>j\<in>?D - {k}. f (the (get m j)))"
    using wf by (intro sum.cong) (auto simp: get_remove)
  show ?thesis
    using sum_split_key [OF wf, of f k] by (simp only: sum_values [OF wf] sum_values [OF wf_remove [OF wf]] dom rest)
qed

end

section \<open>The model of \<open>BTreeMap\<close>\<close>

type_synonym ('k, 'v) btree_map = "('k \<times> 'v) list"

definition bt_wf :: "('k::linorder, 'v) btree_map \<Rightarrow> bool" where
  "bt_wf m = sorted_wrt (<) (map fst m)"

definition bt_get :: "('k, 'v) btree_map \<Rightarrow> 'k \<Rightarrow> 'v option" where
  "bt_get m k = map_of m k"

definition bt_contains_key :: "('k, 'v) btree_map \<Rightarrow> 'k \<Rightarrow> bool" where
  "bt_contains_key m k = (bt_get m k \<noteq> None)"

primrec bt_insert :: "'k::linorder \<Rightarrow> 'v \<Rightarrow> ('k, 'v) btree_map \<Rightarrow> ('k, 'v) btree_map" where
  "bt_insert k v [] = [(k, v)]"
| "bt_insert k v (e # m) =
     (if fst e < k then e # bt_insert k v m
      else if fst e = k then (k, v) # m
      else (k, v) # e # m)"

definition bt_remove :: "'k \<Rightarrow> ('k, 'v) btree_map \<Rightarrow> ('k, 'v) btree_map" where
  "bt_remove k m = filter (\<lambda>e. fst e \<noteq> k) m"

definition bt_keys :: "('k, 'v) btree_map \<Rightarrow> 'k list" where
  "bt_keys m = map fst m"

definition bt_values :: "('k, 'v) btree_map \<Rightarrow> 'v list" where
  "bt_values m = map snd m"

lemma fst_set_bt_insert: "fst ` set (bt_insert k v m) = Set.insert k (fst ` set m)"
  by (induction m) auto

lemma bt_wf_insert: "bt_wf m \<Longrightarrow> bt_wf (bt_insert k v m)"
proof (induction m)
  case Nil
  then show ?case by (simp add: bt_wf_def)
next
  case (Cons e m)
  then have IH: "bt_wf (bt_insert k v m)" and e: "\<forall>x \<in> fst ` set m. fst e < x"
    by (auto simp: bt_wf_def)
  show ?case
  proof (cases "fst e < k")
    case True
    have "\<forall>x \<in> fst ` set (bt_insert k v m). fst e < x"
      using True e unfolding fst_set_bt_insert by blast
    with True IH show ?thesis by (auto simp: bt_wf_def)
  next
    case False
    with Cons.prems show ?thesis by (auto simp: bt_wf_def)
  qed
qed

lemma bt_get_insert:
  "bt_wf m \<Longrightarrow> bt_get (bt_insert k v m) k' = (if k' = k then Some v else bt_get m k')"
  by (induction m) (auto simp: bt_get_def bt_wf_def)

lemma bt_get_insert_same: "bt_get (bt_insert k v m) k = Some v"
  by (induction m) (auto simp: bt_get_def)

lemma bt_get_remove: "bt_get (bt_remove k m) k' = (if k' = k then None else bt_get m k')"
  by (induction m) (auto simp: bt_get_def bt_remove_def)

lemma bt_wf_remove: "bt_wf m \<Longrightarrow> bt_wf (bt_remove k m)"
  by (induction m) (auto simp: bt_wf_def bt_remove_def)

lemma bt_get_entries: "bt_wf m \<Longrightarrow> (k, v) \<in> set m \<longleftrightarrow> bt_get m k = Some v"
  by (auto simp: bt_get_def bt_wf_def strict_sorted_iff dest: map_of_SomeD)

interpretation bt: ordered_map "[]" bt_get bt_insert bt_remove "\<lambda>m. m" bt_wf
proof
qed (auto simp: bt_wf_insert bt_get_insert bt_get_remove bt_wf_remove bt_get_entries,
     simp_all add: bt_wf_def)

lemma bt_wf_Nil [simp]: "bt_wf []"
  by (simp add: bt_wf_def)

lemma bt_get_Nil [simp]: "bt_get [] k = None"
  by (simp add: bt_get_def)

lemmas bt_simps = bt_get_insert bt_get_remove bt_wf_insert bt_wf_remove bt_contains_key_def

section \<open>Keys and values with multiplicity\<close>

lemma bt_insert_split:
  assumes "bt_wf m"
  shows "\<exists>xs ys. bt_insert k v m = xs @ (k, v) # ys \<and>
    (case bt_get m k of None \<Rightarrow> m = xs @ ys | Some w \<Rightarrow> m = xs @ (k, w) # ys)"
  using assms
proof (induction m)
  case (Cons e m)
  obtain j u where e: "e = (j, u)" by fastforce
  have wf: "bt_wf m" using Cons.prems by (simp add: bt_wf_def)
  consider "j < k" | "j = k" | "k < j" by fastforce
  then show ?case
  proof cases
    case 1
    obtain xs ys where "bt_insert k v m = xs @ (k, v) # ys"
      "case bt_get m k of None \<Rightarrow> m = xs @ ys | Some w \<Rightarrow> m = xs @ (k, w) # ys"
      using Cons.IH [OF wf] by blast
    with 1 e show ?thesis
      by (intro exI [of _ "e # xs"] exI [of _ ys]) (auto simp: bt_get_def split: option.splits)
  next
    case 2
    with e show ?thesis by (intro exI [of _ "[]"] exI [of _ m]) (simp add: bt_get_def)
  next
    case 3
    have "k \<notin> fst ` set (e # m)" using Cons.prems 3 e by (auto simp: bt_wf_def)
    then have "bt_get (e # m) k = None" by (metis bt_get_def map_of_eq_None_iff)
    with 3 e show ?thesis by (intro exI [of _ "[]"] exI [of _ "e # m"]) auto
  qed
qed simp

lemma bt_remove_split:
  assumes "bt_wf m" "bt_get m k = Some w"
  shows "\<exists>xs ys. m = xs @ (k, w) # ys \<and> bt_remove k m = xs @ ys"
proof -
  have "(k, w) \<in> set m" using assms bt_get_entries by metis
  then obtain xs ys where m: "m = xs @ (k, w) # ys" by (auto simp: in_set_conv_decomp)
  have "k \<notin> fst ` set xs" "k \<notin> fst ` set ys"
    using assms(1) unfolding m bt_wf_def by (auto simp: sorted_wrt_append)
  then have "filter (\<lambda>e. fst e \<noteq> k) xs = xs" "filter (\<lambda>e. fst e \<noteq> k) ys = ys"
    by (auto simp: filter_id_conv)
  then show ?thesis unfolding m bt_remove_def by auto
qed

lemma bt_values_insert: "bt_wf m \<Longrightarrow> mset (bt_values (bt_insert k v m)) \<subseteq># add_mset v (mset (bt_values m))"
  using bt_insert_split [of m k v] by (auto simp: bt_values_def split: option.splits)

lemma bt_keys_update: "bt_wf m \<Longrightarrow> bt_get m k = Some w \<Longrightarrow> bt_keys (bt_insert k v m) = bt_keys m"
  using bt_insert_split [of m k v] by (auto simp: bt_keys_def)

lemma bt_keys_insert:
  "bt_wf m \<Longrightarrow> mset (bt_keys (bt_insert k v m)) \<subseteq># add_mset k (mset (bt_keys m))"
  using bt_insert_split [of m k v] by (auto simp: bt_keys_def split: option.splits)

lemma bt_keys_remove: "mset (bt_keys (bt_remove k m)) \<subseteq># mset (bt_keys m)"
  by (simp add: bt_keys_def bt_remove_def) (metis image_mset_subseteq_mono mset_filter multiset_filter_subset mset_map)

lemma bt_values_remove:
  assumes "bt_wf m" "bt_get m k = Some w"
  shows "mset (bt_values m) = add_mset w (mset (bt_values (bt_remove k m)))"
  using bt_remove_split [OF assms] by (auto simp: bt_values_def)

lemma bt_values_get: "bt_wf m \<Longrightarrow> v \<in> set (bt_values m) \<longleftrightarrow> (\<exists>k. bt_get m k = Some v)"
  using bt_get_entries [of m] by (force simp: bt_values_def)

lemma bt_keys_get: "k \<in> set (bt_keys m) \<longleftrightarrow> bt_get m k \<noteq> None"
  by (simp add: bt_keys_def bt_get_def map_of_eq_None_iff)

lemma bt_insert_twice: "bt_insert k v (bt_insert k w m) = bt_insert k v m"
  by (induction m) auto

lemma bt_reinsert:
  assumes "bt_wf m" shows "bt_insert k v (bt_remove k m) = bt_insert k v m"
  using assms
proof (induction m)
  case (Cons e m)
  have "bt_remove k m = m" if "fst e = k"
    using Cons.prems that by (auto simp: bt_wf_def bt_remove_def filter_id_conv)
  moreover have "bt_insert k v m = (k, v) # m" if "fst e = k"
    using Cons.prems that by (cases m) (auto simp: bt_wf_def)
  moreover have "bt_remove k m = m" if "k < fst e"
    using Cons.prems that by (auto simp: bt_wf_def bt_remove_def filter_id_conv)
  ultimately show ?case
    using Cons by (cases "fst e" k rule: linorder_cases) (auto simp: bt_wf_def bt_remove_def)
qed (simp add: bt_remove_def)

end
