(* ===== verification/L2cap_Signaling.thy ===== *)
theory L2cap_Signaling
  imports L2cap_Pdu
begin

text \<open>
  The signaling layer of \<open>bumble-l2cap/src/lib.rs\<close>: every \<open>ControlFrame\<close> variant with its
  code, payload and parser, the configuration option list, and the information
  capabilities a manager answers Information Requests from.
\<close>

section \<open>Control frames\<close>

abbreviation COMMAND_REJECT :: u8 where "COMMAND_REJECT \<equiv> 0x01"
abbreviation CONNECTION_REQUEST :: u8 where "CONNECTION_REQUEST \<equiv> 0x02"
abbreviation CONNECTION_RESPONSE :: u8 where "CONNECTION_RESPONSE \<equiv> 0x03"
abbreviation CONFIGURE_REQUEST :: u8 where "CONFIGURE_REQUEST \<equiv> 0x04"
abbreviation CONFIGURE_RESPONSE :: u8 where "CONFIGURE_RESPONSE \<equiv> 0x05"
abbreviation DISCONNECTION_REQUEST :: u8 where "DISCONNECTION_REQUEST \<equiv> 0x06"
abbreviation DISCONNECTION_RESPONSE :: u8 where "DISCONNECTION_RESPONSE \<equiv> 0x07"
abbreviation ECHO_REQUEST :: u8 where "ECHO_REQUEST \<equiv> 0x08"
abbreviation ECHO_RESPONSE :: u8 where "ECHO_RESPONSE \<equiv> 0x09"
abbreviation INFORMATION_REQUEST :: u8 where "INFORMATION_REQUEST \<equiv> 0x0A"
abbreviation INFORMATION_RESPONSE :: u8 where "INFORMATION_RESPONSE \<equiv> 0x0B"
abbreviation CONNECTION_PARAMETER_UPDATE_REQUEST :: u8 where "CONNECTION_PARAMETER_UPDATE_REQUEST \<equiv> 0x12"
abbreviation CONNECTION_PARAMETER_UPDATE_RESPONSE :: u8 where "CONNECTION_PARAMETER_UPDATE_RESPONSE \<equiv> 0x13"
abbreviation LE_CREDIT_BASED_CONNECTION_REQUEST :: u8 where "LE_CREDIT_BASED_CONNECTION_REQUEST \<equiv> 0x14"
abbreviation LE_CREDIT_BASED_CONNECTION_RESPONSE :: u8 where "LE_CREDIT_BASED_CONNECTION_RESPONSE \<equiv> 0x15"
abbreviation LE_FLOW_CONTROL_CREDIT :: u8 where "LE_FLOW_CONTROL_CREDIT \<equiv> 0x16"
abbreviation CREDIT_BASED_CONNECTION_REQUEST :: u8 where "CREDIT_BASED_CONNECTION_REQUEST \<equiv> 0x17"
abbreviation CREDIT_BASED_CONNECTION_RESPONSE :: u8 where "CREDIT_BASED_CONNECTION_RESPONSE \<equiv> 0x18"
abbreviation CREDIT_BASED_RECONFIGURE_REQUEST :: u8 where "CREDIT_BASED_RECONFIGURE_REQUEST \<equiv> 0x19"
abbreviation CREDIT_BASED_RECONFIGURE_RESPONSE :: u8 where "CREDIT_BASED_RECONFIGURE_RESPONSE \<equiv> 0x1A"

text \<open>The fields are in the order of the source's variants; the first is the identifier.\<close>

datatype control_frame =
    CommandReject (cf_identifier: u8) (cf_reason: u16) (cf_data: bytes)
  | ConnectionRequest (cf_identifier: u8) (cf_psm: u32) (cf_source_cid: u16)
  | ConnectionResponse (cf_identifier: u8) (cf_destination_cid: u16) (cf_source_cid: u16)
      (cf_result: u16) (cf_status: u16)
  | ConfigureRequest (cf_identifier: u8) (cf_destination_cid: u16) (cf_flags: u16) (cf_options: bytes)
  | ConfigureResponse (cf_identifier: u8) (cf_source_cid: u16) (cf_flags: u16) (cf_result: u16)
      (cf_options: bytes)
  | DisconnectionRequest (cf_identifier: u8) (cf_destination_cid: u16) (cf_source_cid: u16)
  | DisconnectionResponse (cf_identifier: u8) (cf_destination_cid: u16) (cf_source_cid: u16)
  | EchoRequest (cf_identifier: u8) (cf_data: bytes)
  | EchoResponse (cf_identifier: u8) (cf_data: bytes)
  | InformationRequest (cf_identifier: u8) (cf_info_type: u16)
  | InformationResponse (cf_identifier: u8) (cf_info_type: u16) (cf_result: u16) (cf_data: bytes)
  | ConnectionParameterUpdateRequest (cf_identifier: u8) (cf_interval_min: u16) (cf_interval_max: u16)
      (cf_latency: u16) (cf_timeout: u16)
  | ConnectionParameterUpdateResponse (cf_identifier: u8) (cf_result: u16)
  | LeCreditBasedConnectionRequest (cf_identifier: u8) (cf_le_psm: u16) (cf_source_cid: u16)
      (cf_mtu: u16) (cf_mps: u16) (cf_initial_credits: u16)
  | LeCreditBasedConnectionResponse (cf_identifier: u8) (cf_destination_cid: u16) (cf_mtu: u16)
      (cf_mps: u16) (cf_initial_credits: u16) (cf_result: u16)
  | LeFlowControlCredit (cf_identifier: u8) (cf_cid: u16) (cf_credits: u16)
  | CreditBasedConnectionRequest (cf_identifier: u8) (cf_spsm: u16) (cf_mtu: u16) (cf_mps: u16)
      (cf_initial_credits: u16) (cf_source_cids: "u16 list")
  | CreditBasedConnectionResponse (cf_identifier: u8) (cf_mtu: u16) (cf_mps: u16)
      (cf_initial_credits: u16) (cf_result: u16) (cf_destination_cids: "u16 list")
  | CreditBasedReconfigureRequest (cf_identifier: u8) (cf_mtu: u16) (cf_mps: u16)
      (cf_destination_cids: "u16 list")
  | CreditBasedReconfigureResponse (cf_identifier: u8) (cf_result: u16)
  | Generic (cf_code: u8) (cf_identifier: u8) (cf_payload: bytes)

fun code :: "control_frame \<Rightarrow> u8" where
  "code (CommandReject _ _ _) = COMMAND_REJECT"
| "code (ConnectionRequest _ _ _) = CONNECTION_REQUEST"
| "code (ConnectionResponse _ _ _ _ _) = CONNECTION_RESPONSE"
| "code (ConfigureRequest _ _ _ _) = CONFIGURE_REQUEST"
| "code (ConfigureResponse _ _ _ _ _) = CONFIGURE_RESPONSE"
| "code (DisconnectionRequest _ _ _) = DISCONNECTION_REQUEST"
| "code (DisconnectionResponse _ _ _) = DISCONNECTION_RESPONSE"
| "code (EchoRequest _ _) = ECHO_REQUEST"
| "code (EchoResponse _ _) = ECHO_RESPONSE"
| "code (InformationRequest _ _) = INFORMATION_REQUEST"
| "code (InformationResponse _ _ _ _) = INFORMATION_RESPONSE"
| "code (ConnectionParameterUpdateRequest _ _ _ _ _) = CONNECTION_PARAMETER_UPDATE_REQUEST"
| "code (ConnectionParameterUpdateResponse _ _) = CONNECTION_PARAMETER_UPDATE_RESPONSE"
| "code (LeCreditBasedConnectionRequest _ _ _ _ _ _) = LE_CREDIT_BASED_CONNECTION_REQUEST"
| "code (LeCreditBasedConnectionResponse _ _ _ _ _ _) = LE_CREDIT_BASED_CONNECTION_RESPONSE"
| "code (LeFlowControlCredit _ _ _) = LE_FLOW_CONTROL_CREDIT"
| "code (CreditBasedConnectionRequest _ _ _ _ _ _) = CREDIT_BASED_CONNECTION_REQUEST"
| "code (CreditBasedConnectionResponse _ _ _ _ _ _) = CREDIT_BASED_CONNECTION_RESPONSE"
| "code (CreditBasedReconfigureRequest _ _ _ _) = CREDIT_BASED_RECONFIGURE_REQUEST"
| "code (CreditBasedReconfigureResponse _ _) = CREDIT_BASED_RECONFIGURE_RESPONSE"
| "code (Generic c _ _) = c"

fun frame_identifier :: "control_frame \<Rightarrow> u8" where
  "frame_identifier (CommandReject i _ _) = i"
| "frame_identifier (ConnectionRequest i _ _) = i"
| "frame_identifier (ConnectionResponse i _ _ _ _) = i"
| "frame_identifier (ConfigureRequest i _ _ _) = i"
| "frame_identifier (ConfigureResponse i _ _ _ _) = i"
| "frame_identifier (DisconnectionRequest i _ _) = i"
| "frame_identifier (DisconnectionResponse i _ _) = i"
| "frame_identifier (EchoRequest i _) = i"
| "frame_identifier (EchoResponse i _) = i"
| "frame_identifier (InformationRequest i _) = i"
| "frame_identifier (InformationResponse i _ _ _) = i"
| "frame_identifier (ConnectionParameterUpdateRequest i _ _ _ _) = i"
| "frame_identifier (ConnectionParameterUpdateResponse i _) = i"
| "frame_identifier (LeCreditBasedConnectionRequest i _ _ _ _ _) = i"
| "frame_identifier (LeCreditBasedConnectionResponse i _ _ _ _ _) = i"
| "frame_identifier (LeFlowControlCredit i _ _) = i"
| "frame_identifier (CreditBasedConnectionRequest i _ _ _ _ _) = i"
| "frame_identifier (CreditBasedConnectionResponse i _ _ _ _ _) = i"
| "frame_identifier (CreditBasedReconfigureRequest i _ _ _) = i"
| "frame_identifier (CreditBasedReconfigureResponse i _) = i"
| "frame_identifier (Generic _ i _) = i"

abbreviation push_u16 :: "u16 \<Rightarrow> bytes" where
  "push_u16 v \<equiv> u16_to_le_bytes v"

fun payload :: "control_frame \<Rightarrow> bytes" where
  "payload (CommandReject _ reason data) = push_u16 reason @ data"
| "payload (ConnectionRequest _ psm scid) = serialize_psm psm @ push_u16 scid"
| "payload (ConnectionResponse _ dcid scid result status) =
     push_u16 dcid @ push_u16 scid @ push_u16 result @ push_u16 status"
| "payload (ConfigureRequest _ dcid flags options) = push_u16 dcid @ push_u16 flags @ options"
| "payload (ConfigureResponse _ scid flags result options) =
     push_u16 scid @ push_u16 flags @ push_u16 result @ options"
| "payload (DisconnectionRequest _ dcid scid) = push_u16 dcid @ push_u16 scid"
| "payload (DisconnectionResponse _ dcid scid) = push_u16 dcid @ push_u16 scid"
| "payload (EchoRequest _ data) = data"
| "payload (EchoResponse _ data) = data"
| "payload (InformationRequest _ info_type) = push_u16 info_type"
| "payload (InformationResponse _ info_type result data) = push_u16 info_type @ push_u16 result @ data"
| "payload (ConnectionParameterUpdateRequest _ imin imax latency timeout) =
     push_u16 imin @ push_u16 imax @ push_u16 latency @ push_u16 timeout"
| "payload (ConnectionParameterUpdateResponse _ result) = push_u16 result"
| "payload (LeCreditBasedConnectionRequest _ le_psm scid mtu mps credits) =
     push_u16 le_psm @ push_u16 scid @ push_u16 mtu @ push_u16 mps @ push_u16 credits"
| "payload (LeCreditBasedConnectionResponse _ dcid mtu mps credits result) =
     push_u16 dcid @ push_u16 mtu @ push_u16 mps @ push_u16 credits @ push_u16 result"
| "payload (LeFlowControlCredit _ c credits) = push_u16 c @ push_u16 credits"
| "payload (CreditBasedConnectionRequest _ spsm mtu mps credits scids) =
     push_u16 spsm @ push_u16 mtu @ push_u16 mps @ push_u16 credits @ concat (map push_u16 scids)"
| "payload (CreditBasedConnectionResponse _ mtu mps credits result dcids) =
     push_u16 mtu @ push_u16 mps @ push_u16 credits @ push_u16 result @ concat (map push_u16 dcids)"
| "payload (CreditBasedReconfigureRequest _ mtu mps dcids) =
     push_u16 mtu @ push_u16 mps @ concat (map push_u16 dcids)"
| "payload (CreditBasedReconfigureResponse _ result) = push_u16 result"
| "payload (Generic _ _ data) = data"

definition control_to_bytes :: "control_frame \<Rightarrow> bytes" where
  "control_to_bytes f =
     [code f, frame_identifier f] @ u16_to_le_bytes (of_nat (length (payload f))) @ payload f"

definition need :: "bytes \<Rightarrow> nat \<Rightarrow> unit result" where
  "need p n =
     (if length p < n then
        invalid_fmt ''control frame payload too short: need {n}, have {}'' [n, length p]
      else Ok ())"

definition le16 :: "bytes \<Rightarrow> nat \<Rightarrow> u16" where
  "le16 data offset = u16_from_le_bytes (data ! offset) (data ! (offset + 1))"

fun chunks_exact_u16 :: "bytes \<Rightarrow> u16 list" where
  "chunks_exact_u16 (a # b # rest) = u16_from_le_bytes a b # chunks_exact_u16 rest"
| "chunks_exact_u16 _ = []"

definition read_cid_list :: "bytes \<Rightarrow> u16 list result" where
  "read_cid_list data =
     (if odd (length data) then invalid ''CID list has an odd byte length''
      else Ok (chunks_exact_u16 data))"

text \<open>The \<open>match code\<close> of the parser, on the payload cut to its declared length.\<close>

definition control_of_payload :: "u8 \<Rightarrow> u8 \<Rightarrow> bytes \<Rightarrow> control_frame result" where
  "control_of_payload c i p =
     (if c = COMMAND_REJECT then
        bind_result (need p 2) (\<lambda>_. Ok (CommandReject i (le16 p 0) (drop 2 p)))
      else if c = CONNECTION_REQUEST then
        bind_result (parse_psm p 0) (\<lambda>(offset, psm).
          if offset + 2 > length p then invalid ''truncated Connection_Request''
          else Ok (ConnectionRequest i psm (u16_from_le_bytes (p ! offset) (p ! (offset + 1)))))
      else if c = CONNECTION_RESPONSE then
        bind_result (need p 8) (\<lambda>_. Ok (ConnectionResponse i (le16 p 0) (le16 p 2) (le16 p 4) (le16 p 6)))
      else if c = CONFIGURE_REQUEST then
        bind_result (need p 4) (\<lambda>_. Ok (ConfigureRequest i (le16 p 0) (le16 p 2) (drop 4 p)))
      else if c = CONFIGURE_RESPONSE then
        bind_result (need p 6) (\<lambda>_. Ok (ConfigureResponse i (le16 p 0) (le16 p 2) (le16 p 4) (drop 6 p)))
      else if c = DISCONNECTION_REQUEST then
        bind_result (need p 4) (\<lambda>_. Ok (DisconnectionRequest i (le16 p 0) (le16 p 2)))
      else if c = DISCONNECTION_RESPONSE then
        bind_result (need p 4) (\<lambda>_. Ok (DisconnectionResponse i (le16 p 0) (le16 p 2)))
      else if c = ECHO_REQUEST then Ok (EchoRequest i p)
      else if c = ECHO_RESPONSE then Ok (EchoResponse i p)
      else if c = INFORMATION_REQUEST then
        bind_result (need p 2) (\<lambda>_. Ok (InformationRequest i (le16 p 0)))
      else if c = INFORMATION_RESPONSE then
        bind_result (need p 4) (\<lambda>_. Ok (InformationResponse i (le16 p 0) (le16 p 2) (drop 4 p)))
      else if c = CONNECTION_PARAMETER_UPDATE_REQUEST then
        bind_result (need p 8) (\<lambda>_.
          Ok (ConnectionParameterUpdateRequest i (le16 p 0) (le16 p 2) (le16 p 4) (le16 p 6)))
      else if c = CONNECTION_PARAMETER_UPDATE_RESPONSE then
        bind_result (need p 2) (\<lambda>_. Ok (ConnectionParameterUpdateResponse i (le16 p 0)))
      else if c = LE_CREDIT_BASED_CONNECTION_REQUEST then
        bind_result (need p 10) (\<lambda>_.
          Ok (LeCreditBasedConnectionRequest i (le16 p 0) (le16 p 2) (le16 p 4) (le16 p 6) (le16 p 8)))
      else if c = LE_CREDIT_BASED_CONNECTION_RESPONSE then
        bind_result (need p 10) (\<lambda>_.
          Ok (LeCreditBasedConnectionResponse i (le16 p 0) (le16 p 2) (le16 p 4) (le16 p 6) (le16 p 8)))
      else if c = LE_FLOW_CONTROL_CREDIT then
        bind_result (need p 4) (\<lambda>_. Ok (LeFlowControlCredit i (le16 p 0) (le16 p 2)))
      else if c = CREDIT_BASED_CONNECTION_REQUEST then
        bind_result (need p 8) (\<lambda>_. bind_result (read_cid_list (drop 8 p)) (\<lambda>cids.
          Ok (CreditBasedConnectionRequest i (le16 p 0) (le16 p 2) (le16 p 4) (le16 p 6) cids)))
      else if c = CREDIT_BASED_CONNECTION_RESPONSE then
        bind_result (need p 8) (\<lambda>_. bind_result (read_cid_list (drop 8 p)) (\<lambda>cids.
          Ok (CreditBasedConnectionResponse i (le16 p 0) (le16 p 2) (le16 p 4) (le16 p 6) cids)))
      else if c = CREDIT_BASED_RECONFIGURE_REQUEST then
        bind_result (need p 4) (\<lambda>_. bind_result (read_cid_list (drop 4 p)) (\<lambda>cids.
          Ok (CreditBasedReconfigureRequest i (le16 p 0) (le16 p 2) cids)))
      else if c = CREDIT_BASED_RECONFIGURE_RESPONSE then
        bind_result (need p 2) (\<lambda>_. Ok (CreditBasedReconfigureResponse i (le16 p 0)))
      else Ok (Generic c i p))"

definition control_from_bytes :: "bytes \<Rightarrow> control_frame result" where
  "control_from_bytes pdu =
     (if length pdu < 4 then invalid ''not enough data for control frame''
      else let len = unat (u16_from_le_bytes (pdu ! 2) (pdu ! 3));
               end_pos = min (4 + len) (length pdu)
           in control_of_payload (pdu ! 0) (pdu ! 1) (drop 4 (take end_pos pdu)))"

section \<open>Configuration options\<close>

record configuration_option =
  option_type :: u8
  hint :: bool
  option_value :: bytes

definition configuration_option_new :: "u8 \<Rightarrow> bytes \<Rightarrow> configuration_option" where
  "configuration_option_new t v = \<lparr>option_type = t AND 0x7F, hint = False, option_value = v\<rparr>"

definition configuration_option_hinted :: "u8 \<Rightarrow> bytes \<Rightarrow> configuration_option" where
  "configuration_option_hinted t v = \<lparr>option_type = t AND 0x7F, hint = True, option_value = v\<rparr>"

fun encode_configuration_options :: "configuration_option list \<Rightarrow> bytes result" where
  "encode_configuration_options [] = Ok []"
| "encode_configuration_options (opt # opts) =
     (if length (option_value opt) > 255 then invalid ''configuration option is too long''
      else bind_result (encode_configuration_options opts) (\<lambda>rest.
        Ok ((option_type opt OR (if hint opt then 0x80 else 0)) #
            of_nat (length (option_value opt)) # option_value opt @ rest)))"

function decode_configuration_options :: "bytes \<Rightarrow> configuration_option list result" where
  "decode_configuration_options data =
     (if data = [] then Ok []
      else if length data < 2 then invalid ''truncated configuration option header''
      else let raw_type = data ! 0; len = unat (data ! 1)
           in if length data < 2 + len then invalid ''truncated configuration option value''
              else bind_result (decode_configuration_options (drop (2 + len) data)) (\<lambda>opts.
                Ok (\<lparr>option_type = raw_type AND 0x7F, hint = (raw_type AND 0x80 \<noteq> 0),
                     option_value = take len (drop 2 data)\<rparr> # opts)))"
  by pat_completeness auto
termination
  by (relation "measure length") auto

declare decode_configuration_options.simps [simp del]

section \<open>Information capabilities\<close>

record information_capabilities =
  connectionless_mtu :: u16
  extended_features :: u32
  fixed_channels :: u64

definition information_default :: information_capabilities where
  "information_default = \<lparr>connectionless_mtu = 1024, extended_features = 0,
     fixed_channels = push_bit 1 1 OR push_bit 5 1\<rparr>"

text \<open>Summing \<open>u32\<close> values panics on overflow.\<close>

definition information_new :: "u16 list \<Rightarrow> information_capabilities result" where
  "information_new features =
     (if (\<Sum>f\<leftarrow>features. unat f) \<ge> 2 ^ 32 then Panic ''attempt to add with overflow''
      else Ok (information_default\<lparr>extended_features := (\<Sum>f\<leftarrow>features. ucast f)\<rparr>))"

definition register_fixed_channel ::
  "u16 \<Rightarrow> (information_capabilities, unit, rust_error) op" where
  "register_fixed_channel c info =
     (if unat c \<ge> 64 then
        (invalid_fmt ''fixed channel CID {cid} cannot be represented in the information mask'' [unat c], info)
      else (Ok (), info\<lparr>fixed_channels := fixed_channels info OR push_bit (unat c) 1\<rparr>))"

definition deregister_fixed_channel ::
  "u16 \<Rightarrow> information_capabilities \<Rightarrow> bool \<times> information_capabilities" where
  "deregister_fixed_channel c info =
     (if unat c \<ge> 64 then (False, info)
      else let b = push_bit (unat c) 1
           in (fixed_channels info AND b \<noteq> 0, info\<lparr>fixed_channels := fixed_channels info AND NOT b\<rparr>))"

definition information_response :: "information_capabilities \<Rightarrow> u8 \<Rightarrow> u16 \<Rightarrow> control_frame" where
  "information_response info i info_type =
     (let (result, data) =
        (if info_type = 0x0001 then (0x0000, u16_to_le_bytes (connectionless_mtu info))
         else if info_type = 0x0002 then (0x0000, u32_to_le_bytes (extended_features info))
         else if info_type = 0x0003 then (0x0000, u64_to_le_bytes (fixed_channels info))
         else (0x0001, []))
      in InformationResponse i info_type result data)"

text \<open>\<open>InformationResponse\<close>: a response a channel manager has received.\<close>

record information_reply =
  ir_identifier :: u8
  ir_info_type :: u16
  ir_result :: u16
  ir_data :: bytes

section \<open>Lemmas on control frames\<close>

definition known_code :: "u8 \<Rightarrow> bool" where
  "known_code c = (c \<in> {0x01, 0x02, 0x03, 0x04, 0x05, 0x06, 0x07, 0x08, 0x09, 0x0A, 0x0B, 0x12, 0x13,
     0x14, 0x15, 0x16, 0x17, 0x18, 0x19, 0x1A})"

fun control_wf :: "control_frame \<Rightarrow> bool" where
  "control_wf (ConnectionRequest _ psm _) = psm_parsable psm"
| "control_wf (Generic c _ data) = (\<not> known_code c \<and> length data \<le> 65535)"
| "control_wf f = (length (payload f) \<le> 65535)"

lemma chunks_exact_u16_concat [simp]: "chunks_exact_u16 (concat (map push_u16 cids)) = cids"
  by (induction cids) (simp_all add: u16_to_le_bytes_def)

lemma length_concat_push_u16: "length (concat (map push_u16 cids)) = 2 * length cids"
  by (induction cids) simp_all

lemma read_cid_list_push [simp]: "read_cid_list (concat (map push_u16 cids)) = Ok cids"
  by (simp add: read_cid_list_def length_concat_push_u16)

lemma le16_append [simp]:
  "le16 (push_u16 w @ xs) 0 = w"
  "2 \<le> n \<Longrightarrow> le16 (push_u16 w @ xs) n = le16 xs (n - 2)"
  "le16 (push_u16 w) 0 = w"
  by (auto simp: le16_def u16_to_le_bytes_def nth_append Suc_diff_Suc nth_Cons' numeral_2_eq_2)

lemma drop_push_u16 [simp]:
  "2 \<le> n \<Longrightarrow> drop n (push_u16 w @ xs) = drop (n - 2) xs"
  by simp

lemma length_serialize_psm: "length (serialize_psm psm) \<le> 4"
  by (simp add: serialize_psm_bytes)

lemma control_wf_length: "control_wf f \<Longrightarrow> length (payload f) \<le> 65535"
  using order_trans [OF length_serialize_psm, of 65533] by (cases f) auto

lemma control_of_payload_inverse:
  assumes "control_wf f"
  shows "control_of_payload (code f) (frame_identifier f) (payload f) = Ok f"
proof (cases f)
  case (ConnectionRequest i psm scid)
  with assms have "parse_psm (serialize_psm psm @ push_u16 scid) 0 = Ok (length (serialize_psm psm), psm)"
    by (simp add: parse_serialize_psm)
  with ConnectionRequest show ?thesis
    by (simp add: control_of_payload_def nth_append u16_to_le_bytes_def)
next
  case (Generic c i data)
  with assms show ?thesis by (auto simp: control_of_payload_def known_code_def)
qed (simp_all add: control_of_payload_def need_def)

lemma control_from_bytes_parts:
  "control_from_bytes ([c, i] @ u16_to_le_bytes n @ p) = control_of_payload c i (take (unat n) p)"
  by (simp add: control_from_bytes_def Let_def u16_to_le_bytes_def min_def take_Cons')

lemma control_dec_enc_append:
  assumes "control_wf f"
  shows "control_from_bytes (control_to_bytes f @ rest) = Ok f"
proof -
  have "control_to_bytes f @ rest =
      [code f, frame_identifier f] @ u16_to_le_bytes (of_nat (length (payload f))) @ payload f @ rest"
    by (simp add: control_to_bytes_def)
  with control_wf_length [OF assms] control_of_payload_inverse [OF assms] show ?thesis
    by (simp only: control_from_bytes_parts) (simp add: unat_of_nat_u16)
qed

interpretation control: codec control_to_bytes control_from_bytes control_wf
  by unfold_locales (use control_dec_enc_append [of _ "[]"] in simp)


text \<open>Where the PSM parser panics, exactly: five bytes are there and three odd ones in a row.\<close>

lemma parse_psm_panic_iff:
  "is_panic (parse_psm p 0) \<longleftrightarrow>
     4 < length p \<and> odd (unat (p ! 1)) \<and> odd (unat (p ! 2)) \<and> odd (unat (p ! 3))"
  by (simp add: parse_psm_def parse_psm_loop.simps [of p 0 _ 2] parse_psm_loop.simps [of p 0 _ 3]
      parse_psm_loop.simps [of p 0 _ 4])

lemma is_panic_bind:
  "is_panic (bind_result r k) \<longleftrightarrow> is_panic r \<or> (\<exists>x. r = Ok x \<and> is_panic (k x))"
  by (cases r) auto

lemma control_of_payload_panic_iff:
  "is_panic (control_of_payload c i p) \<longleftrightarrow> c = CONNECTION_REQUEST \<and> is_panic (parse_psm p 0)"
  by (simp add: control_of_payload_def is_panic_bind need_def read_cid_list_def)

section \<open>Lemmas on configuration options\<close>

definition option_wf :: "configuration_option \<Rightarrow> bool" where
  "option_wf opt \<longleftrightarrow> unat (option_type opt) < 128 \<and> length (option_value opt) \<le> 255"

lemma and_0x80: "(b :: u8) AND 0x80 \<noteq> 0 \<longleftrightarrow> bit b 7"
proof -
  have "(0x80 :: u8) = 2 ^ 7" by simp
  then show ?thesis by (simp only: and_exp_eq_0_iff_not_bit) simp
qed

text \<open>The simplifier reads the bits of a word numeral off the integer.\<close>

lemma bit_0x80: "bit (0x80 :: int) n \<longleftrightarrow> n = 7"
proof -
  have e: "(0x80 :: int) = push_bit 7 1" by simp
  show ?thesis unfolding e by (simp only: bit_push_bit_iff bit_1_iff) auto
qed

lemma option_type_bits:
  assumes "unat (t :: u8) < 128"
  shows "take_bit 7 (t OR (if h then 0x80 else 0)) = t"
    and "bit (t OR (if h then 0x80 else 0)) 7 = h"
  using field_bits_below(5) [OF assms] field_high_bits(5) [OF assms, of 7]
  by (auto intro!: bit_word_eqI simp: bit_simps bit_0x80)

lemma raw_type_split:
  "take_bit 7 (raw :: u8) OR (if bit raw 7 then 0x80 else 0) = raw"
proof (rule bit_word_eqI)
  fix n
  assume "n < LENGTH(8)"
  then consider "n < 7" | "n = 7" by force
  then show "bit (take_bit 7 raw OR (if bit raw 7 then 0x80 else 0)) n = bit raw n"
    by cases (auto simp: bit_simps bit_0x80)
qed

lemma decode_options_Cons:
  assumes "length v \<le> 255"
  shows "decode_configuration_options (raw # of_nat (length v) # v @ rest) =
    bind_result (decode_configuration_options rest) (\<lambda>opts.
      Ok (\<lparr>option_type = raw AND 0x7F, hint = (raw AND 0x80 \<noteq> 0), option_value = v\<rparr> # opts))"
  using assms by (subst decode_configuration_options.simps) (simp add: Let_def unat_of_nat_u8)

lemma encode_options_total:
  "list_all option_wf opts \<Longrightarrow> \<exists>bs. encode_configuration_options opts = Ok bs"
  by (induction opts) (auto simp: option_wf_def)

lemma decode_encode_options:
  "list_all option_wf opts \<Longrightarrow> encode_configuration_options opts = Ok bs \<Longrightarrow>
    decode_configuration_options bs = Ok opts"
proof (induction opts arbitrary: bs)
  case Nil
  then show ?case by (simp add: decode_configuration_options.simps)
next
  case (Cons opt opts)
  then obtain rest where rest: "encode_configuration_options opts = Ok rest"
    and wf: "unat (option_type opt) < 128" "length (option_value opt) \<le> 255"
    and bs: "bs = (option_type opt OR (if hint opt then 0x80 else 0)) #
      of_nat (length (option_value opt)) # option_value opt @ rest"
    by (auto simp: option_wf_def split: if_splits)
  have IH: "decode_configuration_options rest = Ok opts"
    using Cons.IH [OF _ rest] Cons.prems(1) by simp
  show ?case
    unfolding bs decode_options_Cons [OF wf(2)] IH
    using option_type_bits [OF wf(1), of "hint opt"]
    by (simp only: and_0x80 mask_simps bind_result.simps) simp
qed

lemma encode_decode_options:
  "decode_configuration_options bs = Ok opts \<Longrightarrow>
    encode_configuration_options opts = Ok bs \<and> list_all option_wf opts"
proof (induction bs arbitrary: opts rule: decode_configuration_options.induct)
  case (1 data)
  show ?case
  proof (cases "data = []")
    case True
    with "1.prems" show ?thesis by (simp add: decode_configuration_options.simps)
  next
    case False
    let ?len = "unat (data ! 1)"
    from "1.prems" False obtain rest where
      len: "2 + ?len \<le> length data" and
      rest: "decode_configuration_options (drop (2 + ?len) data) = Ok rest" and
      opts: "opts = \<lparr>option_type = data ! 0 AND 0x7F, hint = (data ! 0 AND 0x80 \<noteq> 0),
                     option_value = take ?len (drop 2 data)\<rparr> # rest"
      by (subst (asm) decode_configuration_options.simps) (auto simp: Let_def split: if_splits)
    have IH: "encode_configuration_options rest = Ok (drop (2 + ?len) data) \<and> list_all option_wf rest"
      using "1.IH" [OF False _ refl refl _ rest] len by simp
    define v where "v = take ?len (drop 2 data)"
    have data: "data ! 0 # data ! 1 # v @ drop (2 + ?len) data = data"
      using len unfolding v_def by (cases data; cases "tl data") (auto simp flip: drop_drop)
    have v: "length v = ?len" using len by (simp add: v_def)
    have small: "length v \<le> 255" using unat_u8_less [of "data ! 1"] v by simp
    have "unat (take_bit 7 (data ! 0)) < 128"
      using take_bit_nat_less_exp [of 7 "unat (data ! 0)"] by (simp add: unsigned_take_bit_eq)
    then show ?thesis
      using IH small data raw_type_split [of "data ! 0"]
      unfolding opts v_def [symmetric] by (simp add: and_0x80 mask_simps v) (simp add: option_wf_def v)
  qed
qed

section \<open>Properties\<close>

text \<open>
  Property C28: every signaling frame whose payload length fits its 16-bit field, whose PSM
  is in the form the parser can delimit and (for \<open>Generic\<close>) whose code is not a known
  one is read back unchanged from its bytes, also when other bytes follow.
\<close>

theorem control_frame_roundtrip:
  assumes "control_wf f"
  shows "control_from_bytes (control_to_bytes f) = Ok f \<and>
    control_from_bytes (control_to_bytes f @ rest) = Ok f"
  using assms by (simp add: control.dec_enc control_dec_enc_append)

theorem control_frame_roundtrip_witness:
  "control_from_bytes (control_to_bytes (CreditBasedConnectionRequest 7 0x80 100 100 5 [0x40, 0x41]) @ [1]) =
     Ok (CreditBasedConnectionRequest 7 0x80 100 100 5 [0x40, 0x41])"
  using control_frame_roundtrip [of "CreditBasedConnectionRequest 7 0x80 100 100 5 [0x40, 0x41]" "[1]"]
  by simp

text \<open>
  Property C34: the parser panics on a received frame exactly when it is a Connection Request
  whose declared payload has at least five bytes with odd second, third and fourth
  bytes: the fourth extension byte of the PSM would be shifted by 32 bits. On every other
  input it returns a frame or an error.
\<close>

theorem control_parse_panics_iff:
  "is_panic (control_from_bytes pdu) \<longleftrightarrow>
     4 \<le> length pdu \<and> pdu ! 0 = CONNECTION_REQUEST \<and>
     (let p = drop 4 (take (min (4 + unat (u16_from_le_bytes (pdu ! 2) (pdu ! 3))) (length pdu)) pdu)
      in 4 < length p \<and> odd (unat (p ! 1)) \<and> odd (unat (p ! 2)) \<and> odd (unat (p ! 3)))"
  unfolding control_from_bytes_def
  by (simp only: Let_def if_distrib [of is_panic] is_panic.simps control_of_payload_panic_iff parse_psm_panic_iff)
    auto

text \<open>
  Property C35: the configuration option list is a canonical format: encoding options whose
  type fits 7 bits and whose value fits 255 bytes succeeds and decodes to the same
  options, and whatever bytes decode are the encoding of what they decode to.
\<close>

theorem configuration_options_roundtrip:
  "(list_all option_wf opts \<longleftrightarrow>
     (\<exists>bs. encode_configuration_options opts = Ok bs \<and> decode_configuration_options bs = Ok opts)) \<and>
   (decode_configuration_options data = Ok opts \<longleftrightarrow>
     list_all option_wf opts \<and> encode_configuration_options opts = Ok data)"
proof (intro conjI iffI)
  assume wf: "list_all option_wf opts"
  then show "\<exists>bs. encode_configuration_options opts = Ok bs \<and> decode_configuration_options bs = Ok opts"
    using encode_options_total decode_encode_options by blast
next
  assume "\<exists>bs. encode_configuration_options opts = Ok bs \<and> decode_configuration_options bs = Ok opts"
  then show "list_all option_wf opts" using encode_decode_options by blast
next
  assume dec: "decode_configuration_options data = Ok opts"
  then show "list_all option_wf opts" "encode_configuration_options opts = Ok data"
    using encode_decode_options by blast+
next
  assume "list_all option_wf opts \<and> encode_configuration_options opts = Ok data"
  then show "decode_configuration_options data = Ok opts" using decode_encode_options by blast
qed

text \<open>
  The fixed-channel mask implements a set of channel identifiers below 64:
  registering adds exactly the identifier, deregistering removes exactly it and
  reports whether it was there, identifiers of 64 and more are refused unchanged.
\<close>

theorem fixed_channel_mask_is_a_set:
  "(case register_fixed_channel c info of (r, info') \<Rightarrow>
      {n. bit (fixed_channels info') n} =
        (if unat c < 64 then insert (unat c) {n. bit (fixed_channels info) n}
         else {n. bit (fixed_channels info) n}) \<and>
      is_ok r = (unat c < 64)) \<and>
   (case deregister_fixed_channel c info of (was, info') \<Rightarrow>
      {n. bit (fixed_channels info') n} = {n. bit (fixed_channels info) n} - {unat c} \<and>
      was = (unat c \<in> {n. bit (fixed_channels info) n}))"
proof -
  have "\<not> bit (fixed_channels info) n" if "64 \<le> n" for n
    using that bit_imp_le_length [of "fixed_channels info" n] by auto
  moreover have "x < 64" if "bit (fixed_channels info) x" for x
    using bit_imp_le_length [OF that] by simp
  moreover have "fixed_channels info AND push_bit k 1 \<noteq> 0 \<longleftrightarrow> bit (fixed_channels info) k" for k
    by (simp add: push_bit_eq_mult and_exp_eq_0_iff_not_bit)
  ultimately show ?thesis
    by (auto simp: register_fixed_channel_def deregister_fixed_channel_def Let_def bit_simps
        simp del: push_bit_of_1)
qed

end
