(* ===== verification/Le_Manager.thy ===== *)
theory Le_Manager
  imports Le_Credit Ordered_Map L2cap_Signaling
begin

text \<open>
  The LE credit-based channel manager, the second half of \<open>bumble-l2cap/src/le_credit.rs\<close>:
  \<open>LeCreditChannelManager\<close> as a record and one definition per method and signaling handler. A
  channel removed from the table is dropped, so its last state change is not written out.
\<close>

section \<open>Constants\<close>

definition L2CAP_LE_SIGNALING_CID :: u16 where "L2CAP_LE_SIGNALING_CID = 5"

definition LE_CID_START :: nat where "LE_CID_START = 0x40"
definition LE_CID_END :: nat where "LE_CID_END = 0x7F"
definition LE_PSM_START :: nat where "LE_PSM_START = 0x80"
definition LE_PSM_END :: nat where "LE_PSM_END = 0xFF"
definition CREDIT_BASED_MAX_CHANNELS :: nat where "CREDIT_BASED_MAX_CHANNELS = 5"

definition LE_CONNECTION_SUCCESSFUL :: u16 where "LE_CONNECTION_SUCCESSFUL = 0"
definition LE_REFUSED_PSM_NOT_SUPPORTED :: u16 where "LE_REFUSED_PSM_NOT_SUPPORTED = 2"
definition LE_REFUSED_NO_RESOURCES :: u16 where "LE_REFUSED_NO_RESOURCES = 4"
definition LE_REFUSED_INVALID_SOURCE_CID :: u16 where "LE_REFUSED_INVALID_SOURCE_CID = 9"
definition LE_REFUSED_SOURCE_CID_ALREADY_ALLOCATED :: u16 where
  "LE_REFUSED_SOURCE_CID_ALREADY_ALLOCATED = 0x0A"
definition LE_REFUSED_UNACCEPTABLE_PARAMETERS :: u16 where "LE_REFUSED_UNACCEPTABLE_PARAMETERS = 0x0B"
definition LE_REFUSED_INVALID_PARAMETERS :: u16 where "LE_REFUSED_INVALID_PARAMETERS = 0x0C"

definition RECONFIGURATION_SUCCESSFUL :: u16 where "RECONFIGURATION_SUCCESSFUL = 0"
definition RECONFIGURATION_MTU_REDUCTION :: u16 where "RECONFIGURATION_MTU_REDUCTION = 1"
definition RECONFIGURATION_MPS_REDUCTION :: u16 where "RECONFIGURATION_MPS_REDUCTION = 2"
definition RECONFIGURATION_INVALID_CIDS :: u16 where "RECONFIGURATION_INVALID_CIDS = 3"
definition RECONFIGURATION_UNACCEPTABLE :: u16 where "RECONFIGURATION_UNACCEPTABLE = 4"

section \<open>State\<close>

record le_pending_connection =
  pc_psm :: u16
  pc_source_cid :: u16
  pc_spec :: le_spec

record le_pending_enhanced =
  pe_psm :: u16
  pe_source_cids :: "u16 list"
  pe_spec :: le_spec

record le_pending_reconfiguration =
  pr_source_cids :: "u16 list"
  pr_mtu :: u16
  pr_mps :: u16

record le_manager =
  lm_servers :: "(u16, le_spec) btree_map"
  lm_channels :: "(u16, le_channel) btree_map"
  lm_pending :: "(u8, le_pending_connection) btree_map"
  lm_pending_enhanced :: "(u8, le_pending_enhanced) btree_map"
  lm_pending_reconfigurations :: "(u8, le_pending_reconfiguration) btree_map"
  lm_connection_results :: "(u16, u16) btree_map"
  lm_reconfiguration_results :: "(u8, u16) btree_map"
  lm_accepted_channels :: "u16 list"
  lm_outbound :: "l2cap_pdu list"
  lm_information :: information_capabilities
  lm_information_responses :: "information_reply list"
  lm_identifier :: u8

type_synonym 'a lm_op = "(le_manager, 'a, rust_error) op"

definition lm_new :: le_manager where
  "lm_new = \<lparr>lm_servers = [], lm_channels = [], lm_pending = [], lm_pending_enhanced = [],
     lm_pending_reconfigurations = [], lm_connection_results = [], lm_reconfiguration_results = [],
     lm_accepted_channels = [], lm_outbound = [], lm_information = information_default,
     lm_information_responses = [], lm_identifier = 0\<rparr>"

definition lm_with_information_capabilities :: "information_capabilities \<Rightarrow> le_manager" where
  "lm_with_information_capabilities info = lm_new\<lparr>lm_information := info\<rparr>"

section \<open>Helpers\<close>

definition validate_mtu_mps :: "u16 \<Rightarrow> u16 \<Rightarrow> unit result" where
  "validate_mtu_mps mtu mps =
     (if mtu < LE_MIN_MTU then invalid ''MTU out of range''
      else if \<not> (LE_MIN_MPS \<le> mps \<and> mps \<le> LE_MAX_MPS) then invalid ''MPS out of range''
      else Ok ())"

text \<open>\<open>sort_unstable\<close>, \<open>dedup\<close> and the comparison of the lengths.\<close>

definition has_duplicates :: "u16 list \<Rightarrow> bool" where
  "has_duplicates cids \<longleftrightarrow> length (remdups_adj (sort cids)) \<noteq> length cids"

definition in_cid_range :: "u16 \<Rightarrow> bool" where
  "in_cid_range c \<longleftrightarrow> LE_CID_START \<le> unat c \<and> unat c \<le> LE_CID_END"

definition queue_control :: "control_frame \<Rightarrow> le_manager \<Rightarrow> le_manager" where
  "queue_control frame m =
     m\<lparr>lm_outbound := lm_outbound m @ [l2cap_pdu_new L2CAP_LE_SIGNALING_CID (control_to_bytes frame)]\<rparr>"

definition next_identifier :: "le_manager \<Rightarrow> u8 \<times> le_manager" where
  "next_identifier m =
     (let i = lm_identifier m + 1; i = (if i = 0 then 1 else i) in (i, m\<lparr>lm_identifier := i\<rparr>))"

definition cid_is_reserved :: "le_manager \<Rightarrow> u16 \<Rightarrow> bool" where
  "cid_is_reserved m c \<longleftrightarrow>
     bt_contains_key (lm_channels m) c \<or>
     list_ex (\<lambda>p. pc_source_cid p = c) (bt_values (lm_pending m)) \<or>
     list_ex (\<lambda>p. c \<in> set (pe_source_cids p)) (bt_values (lm_pending_enhanced m))"

definition cid_range :: "u16 list" where
  "cid_range = map of_nat [LE_CID_START..<Suc LE_CID_END]"

definition allocate_cid :: "le_manager \<Rightarrow> u16 result" where
  "allocate_cid m =
     (case find (\<lambda>c. \<not> cid_is_reserved m c) cid_range of
        Some c \<Rightarrow> Ok c | None \<Rightarrow> invalid ''no free LE CID'')"

definition allocate_cids :: "nat \<Rightarrow> le_manager \<Rightarrow> u16 list result" where
  "allocate_cids n m =
     (let cids = take n (filter (\<lambda>c. \<not> cid_is_reserved m c) cid_range)
      in if length cids \<noteq> n then invalid ''no free LE CIDs'' else Ok cids)"

definition queue_connection_response ::
  "u8 \<Rightarrow> u16 \<Rightarrow> le_spec \<Rightarrow> u16 \<Rightarrow> u16 \<Rightarrow> le_manager \<Rightarrow> le_manager" where
  "queue_connection_response i destination spec credits result =
     queue_control (LeCreditBasedConnectionResponse i destination (spec_mtu spec) (spec_mps spec) credits result)"

definition queue_enhanced_connection_response ::
  "u8 \<Rightarrow> le_spec \<Rightarrow> u16 \<Rightarrow> u16 \<Rightarrow> u16 list \<Rightarrow> le_manager \<Rightarrow> le_manager" where
  "queue_enhanced_connection_response i spec credits result destinations =
     queue_control (CreditBasedConnectionResponse i (spec_mtu spec) (spec_mps spec) credits result destinations)"

text \<open>A method call on \<open>channels.get_mut(cid)\<close>: an unknown channel is an error.\<close>

definition on_channel :: "string \<Rightarrow> u16 \<Rightarrow> 'a le_op \<Rightarrow> 'a lm_op" where
  "on_channel msg c f m =
     (case bt_get (lm_channels m) c of
        None \<Rightarrow> (invalid_fmt msg [unat c], m)
      | Some ch \<Rightarrow> let (r, ch') = f ch in (r, m\<lparr>lm_channels := bt_insert c ch' (lm_channels m)\<rparr>))"

abbreviation unknown_cid :: string where
  "unknown_cid \<equiv> ''unknown LE CID {source_cid:#06x}''"

fun queue_grants :: "(u16 \<times> u16) list \<Rightarrow> le_manager \<Rightarrow> le_manager" where
  "queue_grants [] m = m"
| "queue_grants ((c, credits) # gs) m =
     (let (i, m1) = next_identifier m
      in queue_grants gs (queue_control (LeFlowControlCredit i c credits) m1))"

definition flush_channel :: "u16 \<Rightarrow> unit lm_op" where
  "flush_channel c m =
     (case bt_get (lm_channels m) c of
        None \<Rightarrow> (invalid_fmt unknown_cid [unat c], m)
      | Some ch \<Rightarrow>
          let pdus = map (l2cap_pdu_new (ch_destination_cid ch)) (ch_outbound_pdus ch);
              grants = map (Pair (ch_source_cid ch)) (ch_pending_credit_grants ch);
              ch' = ch\<lparr>ch_outbound_pdus := [], ch_pending_credit_grants := []\<rparr>
          in (Ok (), queue_grants grants
                (m\<lparr>lm_channels := bt_insert c ch' (lm_channels m), lm_outbound := lm_outbound m @ pdus\<rparr>)))"

section \<open>The application interface\<close>

definition lm_request_information :: "u16 \<Rightarrow> le_manager \<Rightarrow> u8 \<times> le_manager" where
  "lm_request_information info_type m =
     (let (i, m1) = next_identifier m in (i, queue_control (InformationRequest i info_type) m1))"

definition lm_poll_information_response :: "le_manager \<Rightarrow> information_reply option \<times> le_manager" where
  "lm_poll_information_response m =
     (case lm_information_responses m of
        [] \<Rightarrow> (None, m) | r # rs \<Rightarrow> (Some r, m\<lparr>lm_information_responses := rs\<rparr>))"

definition lm_drain_information_responses :: "le_manager \<Rightarrow> information_reply list \<times> le_manager" where
  "lm_drain_information_responses m = (lm_information_responses m, m\<lparr>lm_information_responses := []\<rparr>)"

definition psm_range :: "u16 list" where
  "psm_range = map of_nat [LE_PSM_START..<Suc LE_PSM_END]"

definition register_server :: "le_spec \<Rightarrow> u16 lm_op" where
  "register_server spec m =
     and_then (lift_result (le_spec_validate spec)) (\<lambda>_.
     and_then (lift_result
       (case spec_psm spec of
          Some psm \<Rightarrow> if psm = 0 then invalid ''LE PSM cannot be zero'' else Ok psm
        | None \<Rightarrow>
            (case find (\<lambda>p. \<not> bt_contains_key (lm_servers m) p) psm_range of
               Some psm \<Rightarrow> Ok psm | None \<Rightarrow> invalid ''no free LE PSM''))) (\<lambda>psm m.
     if bt_contains_key (lm_servers m) psm then
       (invalid_fmt ''LE PSM {psm:#06x} is already in use'' [unat psm], m)
     else (Ok psm, m\<lparr>lm_servers := bt_insert psm (spec\<lparr>spec_psm := Some psm\<rparr>) (lm_servers m)\<rparr>))) m"

definition unregister_server :: "u16 \<Rightarrow> le_manager \<Rightarrow> bool \<times> le_manager" where
  "unregister_server psm m =
     (bt_contains_key (lm_servers m) psm, m\<lparr>lm_servers := bt_remove psm (lm_servers m)\<rparr>)"

definition le_connect :: "u16 \<Rightarrow> le_spec \<Rightarrow> u16 lm_op" where
  "le_connect psm spec m =
     (if psm = 0 then (invalid ''LE PSM cannot be zero'', m)
      else and_then (lift_result (le_spec_validate spec)) (\<lambda>_ m.
        case allocate_cid m of
          Ok source \<Rightarrow>
            let (i, m1) = next_identifier
                  (m\<lparr>lm_connection_results := bt_remove source (lm_connection_results m)\<rparr>)
            in (Ok source,
                queue_control
                  (LeCreditBasedConnectionRequest i psm source (spec_mtu spec) (spec_mps spec)
                     (spec_max_credits spec))
                  (m1\<lparr>lm_pending := bt_insert i \<lparr>pc_psm = psm, pc_source_cid = source,
                        pc_spec = spec\<lparr>spec_psm := Some psm\<rparr>\<rparr> (lm_pending m1)\<rparr>))
        | Err e \<Rightarrow> (Err e, m)
        | Panic p \<Rightarrow> (Panic p, m)) m)"

definition connect_enhanced :: "u16 \<Rightarrow> le_spec \<Rightarrow> nat \<Rightarrow> u16 list lm_op" where
  "connect_enhanced psm spec n m =
     (if psm = 0 then (invalid ''SPSM cannot be zero'', m)
      else if \<not> (1 \<le> n \<and> n \<le> CREDIT_BASED_MAX_CHANNELS) then
        (invalid ''enhanced channel count must be between 1 and 5'', m)
      else and_then (lift_result (le_spec_validate spec)) (\<lambda>_ m.
        case allocate_cids n m of
          Ok sources \<Rightarrow>
            let (i, m1) = next_identifier
                  (m\<lparr>lm_connection_results := fold bt_remove sources (lm_connection_results m)\<rparr>)
            in (Ok sources,
                queue_control
                  (CreditBasedConnectionRequest i psm (spec_mtu spec) (spec_mps spec)
                     (spec_max_credits spec) sources)
                  (m1\<lparr>lm_pending_enhanced := bt_insert i \<lparr>pe_psm = psm, pe_source_cids = sources,
                        pe_spec = spec\<lparr>spec_psm := Some psm\<rparr>\<rparr> (lm_pending_enhanced m1)\<rparr>))
        | Err e \<Rightarrow> (Err e, m)
        | Panic p \<Rightarrow> (Panic p, m)) m)"

text \<open>The checks of \<open>reconfigure\<close> on each channel, collecting the destination CIDs.\<close>

fun reconfigure_targets :: "nat \<Rightarrow> u16 \<Rightarrow> u16 \<Rightarrow> u16 list \<Rightarrow> le_manager \<Rightarrow> u16 list result" where
  "reconfigure_targets n mtu mps [] m = Ok []"
| "reconfigure_targets n mtu mps (c # cs) m =
     (case bt_get (lm_channels m) c of
        None \<Rightarrow> invalid_fmt unknown_cid [unat c]
      | Some ch \<Rightarrow>
          bind_result (fst (le_ensure_connected ch)) (\<lambda>_.
          if mtu < ch_mtu ch then invalid ''reconfiguration cannot reduce MTU''
          else if n > 1 \<and> mps < ch_mps ch then
            invalid ''multi-channel reconfiguration cannot reduce MPS''
          else bind_result (reconfigure_targets n mtu mps cs m) (\<lambda>ds.
            Ok (ch_destination_cid ch # ds))))"

definition lm_reconfigure :: "u16 list \<Rightarrow> u16 \<Rightarrow> u16 \<Rightarrow> u8 lm_op" where
  "lm_reconfigure sources mtu mps m =
     (if sources = [] \<or> length sources > CREDIT_BASED_MAX_CHANNELS then
        (invalid ''reconfiguration requires between 1 and 5 channels'', m)
      else and_then (lift_result (validate_mtu_mps mtu mps)) (\<lambda>_ m.
        if has_duplicates sources then (invalid ''reconfiguration contains duplicate CIDs'', m)
        else and_then (lift_result (reconfigure_targets (length sources) mtu mps sources m)) (\<lambda>ds m.
          let (i, m1) = next_identifier m
          in (Ok i,
              queue_control (CreditBasedReconfigureRequest i mtu mps ds)
                (m1\<lparr>lm_pending_reconfigurations :=
                      bt_insert i \<lparr>pr_source_cids = sources, pr_mtu = mtu, pr_mps = mps\<rparr>
                        (lm_pending_reconfigurations m1)\<rparr>))) m) m)"

definition lm_connection_result :: "le_manager \<Rightarrow> u16 \<Rightarrow> u16 option" where
  "lm_connection_result m c = bt_get (lm_connection_results m) c"

definition lm_reconfiguration_result :: "le_manager \<Rightarrow> u8 \<Rightarrow> u16 option" where
  "lm_reconfiguration_result m i = bt_get (lm_reconfiguration_results m) i"

definition lm_poll_accepted_channel :: "le_manager \<Rightarrow> u16 option \<times> le_manager" where
  "lm_poll_accepted_channel m =
     (case lm_accepted_channels m of [] \<Rightarrow> (None, m) | c # cs \<Rightarrow> (Some c, m\<lparr>lm_accepted_channels := cs\<rparr>))"

definition lm_poll_outbound :: "le_manager \<Rightarrow> l2cap_pdu option \<times> le_manager" where
  "lm_poll_outbound m =
     (case lm_outbound m of [] \<Rightarrow> (None, m) | p # ps \<Rightarrow> (Some p, m\<lparr>lm_outbound := ps\<rparr>))"

definition lm_drain_outbound :: "le_manager \<Rightarrow> l2cap_pdu list \<times> le_manager" where
  "lm_drain_outbound m = (lm_outbound m, m\<lparr>lm_outbound := []\<rparr>)"

definition lm_send :: "u16 \<Rightarrow> bytes \<Rightarrow> unit lm_op" where
  "lm_send c data = and_then (on_channel unknown_cid c (le_write data)) (\<lambda>_. flush_channel c)"

definition lm_set_reading_paused :: "u16 \<Rightarrow> bool \<Rightarrow> unit lm_op" where
  "lm_set_reading_paused c paused =
     and_then (on_channel unknown_cid c (if paused then le_pause_reading else le_resume_reading))
       (\<lambda>_. flush_channel c)"

definition lm_disconnect :: "u16 \<Rightarrow> unit lm_op" where
  "lm_disconnect c =
     and_then (on_channel unknown_cid c
       (and_then le_ensure_connected (\<lambda>_ ch. (Ok (ch_destination_cid ch), le_begin_disconnect ch))))
       (\<lambda>destination m.
          let (i, m1) = next_identifier m
          in (Ok (), queue_control (DisconnectionRequest i destination c) m1))"

definition lm_abort :: "u16 \<Rightarrow> le_manager \<Rightarrow> bool \<times> le_manager" where
  "lm_abort c m =
     (case bt_get (lm_channels m) c of
        None \<Rightarrow> (False, m)
      | Some ch \<Rightarrow>
          let abortable = (ch_state ch = Connected \<or> ch_state ch = Disconnecting);
              m1 = m\<lparr>lm_channels := bt_remove c (lm_channels m)\<rparr>
          in (abortable,
              if abortable then m1 else m1\<lparr>lm_channels := bt_insert c ch (lm_channels m1)\<rparr>))"

section \<open>Signaling\<close>

definition destination_in_use :: "le_manager \<Rightarrow> u16 \<Rightarrow> bool" where
  "destination_in_use m c = list_ex (\<lambda>ch. ch_destination_cid ch = c) (bt_values (lm_channels m))"

definition on_connection_request :: "u8 \<Rightarrow> u16 \<Rightarrow> u16 \<Rightarrow> u16 \<Rightarrow> u16 \<Rightarrow> u16 \<Rightarrow> unit lm_op" where
  "on_connection_request i psm remote peer_mtu peer_mps credits m =
     (case bt_get (lm_servers m) psm of
        None \<Rightarrow> (Ok (), queue_connection_response i 0 le_spec_default 0 LE_REFUSED_PSM_NOT_SUPPORTED m)
      | Some spec \<Rightarrow>
          if destination_in_use m remote then
            (Ok (), queue_connection_response i 0 spec 0 LE_REFUSED_SOURCE_CID_ALREADY_ALLOCATED m)
          else if peer_mtu < LE_MIN_MTU \<or> \<not> (LE_MIN_MPS \<le> peer_mps \<and> peer_mps \<le> LE_MAX_MPS) then
            (Ok (), queue_connection_response i 0 spec 0 LE_REFUSED_UNACCEPTABLE_PARAMETERS m)
          else case allocate_cid m of
            Ok c \<Rightarrow>
              (case le_connected psm c remote spec peer_mtu peer_mps credits of
                 Ok ch \<Rightarrow>
                   (Ok (), queue_connection_response i c spec (spec_max_credits spec) LE_CONNECTION_SUCCESSFUL
                      (m\<lparr>lm_channels := bt_insert c ch (lm_channels m),
                         lm_accepted_channels := lm_accepted_channels m @ [c]\<rparr>))
               | Err e \<Rightarrow> (Err e, m)
               | Panic p \<Rightarrow> (Panic p, m))
          | Err e \<Rightarrow> (Ok (), queue_connection_response i 0 spec 0 LE_REFUSED_NO_RESOURCES m)
          | Panic p \<Rightarrow> (Panic p, m))"

definition on_connection_response :: "u8 \<Rightarrow> u16 \<Rightarrow> u16 \<Rightarrow> u16 \<Rightarrow> u16 \<Rightarrow> u16 \<Rightarrow> unit lm_op" where
  "on_connection_response i destination peer_mtu peer_mps credits result m =
     (case bt_get (lm_pending m) i of
        None \<Rightarrow> (invalid_fmt ''unknown LE connection response ID {identifier}'' [unat i], m)
      | Some p \<Rightarrow>
          let m1 = m\<lparr>lm_pending := bt_remove i (lm_pending m),
                     lm_connection_results := bt_insert (pc_source_cid p) result (lm_connection_results m)\<rparr>
          in if result \<noteq> LE_CONNECTION_SUCCESSFUL then (Ok (), m1)
             else if destination = 0 then (invalid ''successful response has zero destination CID'', m1)
             else case le_connected (pc_psm p) (pc_source_cid p) destination (pc_spec p) peer_mtu peer_mps credits of
               Ok ch \<Rightarrow> (Ok (), m1\<lparr>lm_channels := bt_insert (pc_source_cid p) ch (lm_channels m1)\<rparr>)
             | Err e \<Rightarrow> (Err e, m1)
             | Panic x \<Rightarrow> (Panic x, m1))"

text \<open>\<open>collect\<close> into a \<open>Result\<close>: the channels in order, or the first error.\<close>

fun connect_all ::
  "u16 \<Rightarrow> le_spec \<Rightarrow> u16 \<Rightarrow> u16 \<Rightarrow> u16 \<Rightarrow> (u16 \<times> u16) list \<Rightarrow> (u16 \<times> le_channel) list result" where
  "connect_all psm spec peer_mtu peer_mps credits [] = Ok []"
| "connect_all psm spec peer_mtu peer_mps credits ((c, remote) # ps) =
     bind_result (le_connected psm c remote spec peer_mtu peer_mps credits) (\<lambda>ch.
     bind_result (connect_all psm spec peer_mtu peer_mps credits ps) (\<lambda>chs. Ok ((c, ch) # chs)))"

definition insert_channels :: "(u16 \<times> le_channel) list \<Rightarrow> le_manager \<Rightarrow> le_manager" where
  "insert_channels chs m = m\<lparr>lm_channels := fold (\<lambda>(c, ch). bt_insert c ch) chs (lm_channels m)\<rparr>"

definition on_enhanced_connection_request ::
  "u8 \<Rightarrow> u16 \<Rightarrow> u16 \<Rightarrow> u16 \<Rightarrow> u16 \<Rightarrow> u16 list \<Rightarrow> unit lm_op" where
  "on_enhanced_connection_request i psm peer_mtu peer_mps credits remotes m =
     (case bt_get (lm_servers m) psm of
        None \<Rightarrow> (Ok (), queue_enhanced_connection_response i le_spec_default 0 LE_REFUSED_PSM_NOT_SUPPORTED [] m)
      | Some spec \<Rightarrow>
          let refuse = (\<lambda>result. (Ok (), queue_enhanced_connection_response i spec 0 result [] m))
          in if remotes = [] \<or> length remotes > CREDIT_BASED_MAX_CHANNELS then
               refuse LE_REFUSED_INVALID_PARAMETERS
             else if has_duplicates remotes \<or> list_ex (\<lambda>c. \<not> in_cid_range c) remotes then
               refuse LE_REFUSED_INVALID_SOURCE_CID
             else if list_ex (destination_in_use m) remotes then
               refuse LE_REFUSED_SOURCE_CID_ALREADY_ALLOCATED
             else if \<not> is_ok (validate_mtu_mps peer_mtu peer_mps) then
               refuse LE_REFUSED_UNACCEPTABLE_PARAMETERS
             else case allocate_cids (length remotes) m of
               Ok cs \<Rightarrow>
                 (case connect_all psm spec peer_mtu peer_mps credits (zip cs remotes) of
                    Ok chs \<Rightarrow>
                      (Ok (), queue_enhanced_connection_response i spec (spec_max_credits spec)
                         LE_CONNECTION_SUCCESSFUL cs
                         ((insert_channels chs m)
                            \<lparr>lm_accepted_channels := lm_accepted_channels m @ map fst chs\<rparr>))
                  | Err e \<Rightarrow> (Err e, m)
                  | Panic p \<Rightarrow> (Panic p, m))
             | Err e \<Rightarrow> refuse LE_REFUSED_NO_RESOURCES
             | Panic p \<Rightarrow> (Panic p, m))"

definition on_enhanced_connection_response ::
  "u8 \<Rightarrow> u16 \<Rightarrow> u16 \<Rightarrow> u16 \<Rightarrow> u16 \<Rightarrow> u16 list \<Rightarrow> unit lm_op" where
  "on_enhanced_connection_response i peer_mtu peer_mps credits result destinations m =
     (case bt_get (lm_pending_enhanced m) i of
        None \<Rightarrow> (invalid_fmt ''unknown enhanced connection response ID {identifier}'' [unat i], m)
      | Some p \<Rightarrow>
          let m1 = m\<lparr>lm_pending_enhanced := bt_remove i (lm_pending_enhanced m),
                     lm_connection_results :=
                       fold (\<lambda>c. bt_insert c result) (pe_source_cids p) (lm_connection_results m)\<rparr>
          in if result \<noteq> LE_CONNECTION_SUCCESSFUL then (Ok (), m1)
             else if length destinations \<noteq> length (pe_source_cids p) then
               (invalid ''enhanced response CID count mismatch'', m1)
             else and_then (lift_result (validate_mtu_mps peer_mtu peer_mps)) (\<lambda>_ m1.
               if has_duplicates destinations \<or>
                  list_ex (\<lambda>c. \<not> in_cid_range c \<or> destination_in_use m1 c) destinations then
                 (invalid ''enhanced response contains invalid destination CIDs'', m1)
               else case connect_all (pe_psm p) (pe_spec p) peer_mtu peer_mps credits
                           (zip (pe_source_cids p) destinations) of
                 Ok chs \<Rightarrow> (Ok (), insert_channels chs m1)
               | Err e \<Rightarrow> (Err e, m1)
               | Panic x \<Rightarrow> (Panic x, m1)) m1)"

text \<open>
  \<open>self.channels[cid]\<close> is evaluated only for CIDs already found in the table.
\<close>

definition some_channel :: "(le_channel \<Rightarrow> bool) \<Rightarrow> u16 list \<Rightarrow> le_manager \<Rightarrow> bool" where
  "some_channel f cs m = list_ex (\<lambda>c. case bt_get (lm_channels m) c of Some ch \<Rightarrow> f ch | None \<Rightarrow> False) cs"

definition reconfigure_verdict :: "u16 \<Rightarrow> u16 \<Rightarrow> u16 list \<Rightarrow> le_manager \<Rightarrow> u16" where
  "reconfigure_verdict mtu mps cs m =
     (if cs = [] \<or> length cs > CREDIT_BASED_MAX_CHANNELS then RECONFIGURATION_INVALID_CIDS
      else if has_duplicates cs \<or>
         list_ex (\<lambda>c. case bt_get (lm_channels m) c of
                        None \<Rightarrow> True | Some ch \<Rightarrow> ch_state ch \<noteq> Connected) cs then
        RECONFIGURATION_INVALID_CIDS
      else if \<not> is_ok (validate_mtu_mps mtu mps) then RECONFIGURATION_UNACCEPTABLE
      else if some_channel (\<lambda>ch. mtu < ch_peer_mtu ch) cs m then RECONFIGURATION_MTU_REDUCTION
      else if length cs > 1 \<and> some_channel (\<lambda>ch. mps < ch_peer_mps ch) cs m then
        RECONFIGURATION_MPS_REDUCTION
      else RECONFIGURATION_SUCCESSFUL)"

fun reconfigure_peers :: "u16 \<Rightarrow> u16 \<Rightarrow> u16 list \<Rightarrow> unit lm_op" where
  "reconfigure_peers mtu mps [] m = (Ok (), m)"
| "reconfigure_peers mtu mps (c # cs) m =
     (case bt_get (lm_channels m) c of
        None \<Rightarrow> (Panic ''validated channel'', m)
      | Some ch \<Rightarrow>
          reconfigure_peers mtu mps cs
            (m\<lparr>lm_channels := bt_insert c (le_reconfigure_peer mtu mps ch) (lm_channels m)\<rparr>))"

definition on_reconfigure_request :: "u8 \<Rightarrow> u16 \<Rightarrow> u16 \<Rightarrow> u16 list \<Rightarrow> unit lm_op" where
  "on_reconfigure_request i mtu mps cs m =
     (let result = reconfigure_verdict mtu mps cs m
      in and_then (if result = RECONFIGURATION_SUCCESSFUL then reconfigure_peers mtu mps cs else Pair (Ok ()))
           (\<lambda>_ m. (Ok (), queue_control (CreditBasedReconfigureResponse i result) m)) m)"

fun reconfigure_locals :: "u16 \<Rightarrow> u16 \<Rightarrow> u16 list \<Rightarrow> unit lm_op" where
  "reconfigure_locals mtu mps [] m = (Ok (), m)"
| "reconfigure_locals mtu mps (c # cs) m =
     (case bt_get (lm_channels m) c of
        None \<Rightarrow> (invalid_fmt unknown_cid [unat c], m)
      | Some ch \<Rightarrow>
          reconfigure_locals mtu mps cs
            (m\<lparr>lm_channels := bt_insert c (le_reconfigure_local mtu mps ch) (lm_channels m)\<rparr>))"

definition on_reconfigure_response :: "u8 \<Rightarrow> u16 \<Rightarrow> unit lm_op" where
  "on_reconfigure_response i result m =
     (case bt_get (lm_pending_reconfigurations m) i of
        None \<Rightarrow> (invalid_fmt ''unknown credit-based reconfiguration response ID {identifier}'' [unat i], m)
      | Some p \<Rightarrow>
          let m1 = m\<lparr>lm_pending_reconfigurations := bt_remove i (lm_pending_reconfigurations m),
                     lm_reconfiguration_results := bt_insert i result (lm_reconfiguration_results m)\<rparr>
          in if result = RECONFIGURATION_SUCCESSFUL then
               reconfigure_locals (pr_mtu p) (pr_mps p) (pr_source_cids p) m1
             else (Ok (), m1))"

definition on_disconnection_request :: "u8 \<Rightarrow> u16 \<Rightarrow> u16 \<Rightarrow> unit lm_op" where
  "on_disconnection_request i destination source m =
     (case bt_get (lm_channels m) destination of
        None \<Rightarrow> (invalid_fmt ''unknown disconnect CID {destination_cid:#06x}'' [unat destination], m)
      | Some ch \<Rightarrow>
          if ch_destination_cid ch \<noteq> source then
            (invalid ''disconnect CID pair mismatch'',
             m\<lparr>lm_channels := bt_insert destination ch (bt_remove destination (lm_channels m))\<rparr>)
          else (Ok (), queue_control (DisconnectionResponse i destination source)
                  (m\<lparr>lm_channels := bt_remove destination (lm_channels m)\<rparr>)))"

definition on_disconnection_response :: "u16 \<Rightarrow> u16 \<Rightarrow> unit lm_op" where
  "on_disconnection_response destination source m =
     (case bt_get (lm_channels m) source of
        None \<Rightarrow> (Ok (), m)
      | Some ch \<Rightarrow>
          if ch_destination_cid ch \<noteq> destination \<or> ch_state ch \<noteq> Disconnecting then
            (invalid ''unexpected disconnect response'',
             m\<lparr>lm_channels := bt_insert source ch (bt_remove source (lm_channels m))\<rparr>)
          else (Ok (), m\<lparr>lm_channels := bt_remove source (lm_channels m)\<rparr>))"

definition on_flow_control_credit :: "u16 \<Rightarrow> u16 \<Rightarrow> unit lm_op" where
  "on_flow_control_credit c credits m =
     (case find (\<lambda>(_, ch). ch_destination_cid ch = c) (lm_channels m) of
        None \<Rightarrow> (invalid_fmt ''unknown credit CID {cid:#06x}'' [unat c], m)
      | Some (source, _) \<Rightarrow>
          and_then (on_channel unknown_cid source (le_add_credits credits)) (\<lambda>_. flush_channel source) m)"

fun process_control :: "control_frame \<Rightarrow> unit lm_op" where
  "process_control (LeCreditBasedConnectionRequest i psm source mtu mps credits) m =
     on_connection_request i psm source mtu mps credits m"
| "process_control (LeCreditBasedConnectionResponse i destination mtu mps credits result) m =
     on_connection_response i destination mtu mps credits result m"
| "process_control (CreditBasedConnectionRequest i psm mtu mps credits sources) m =
     on_enhanced_connection_request i psm mtu mps credits sources m"
| "process_control (CreditBasedConnectionResponse i mtu mps credits result destinations) m =
     on_enhanced_connection_response i mtu mps credits result destinations m"
| "process_control (CreditBasedReconfigureRequest i mtu mps destinations) m =
     on_reconfigure_request i mtu mps destinations m"
| "process_control (CreditBasedReconfigureResponse i result) m = on_reconfigure_response i result m"
| "process_control (LeFlowControlCredit _ c credits) m = on_flow_control_credit c credits m"
| "process_control (DisconnectionRequest i destination source) m =
     on_disconnection_request i destination source m"
| "process_control (DisconnectionResponse _ destination source) m =
     on_disconnection_response destination source m"
| "process_control (EchoRequest i data) m = (Ok (), queue_control (EchoResponse i data) m)"
| "process_control (InformationRequest i info_type) m =
     (Ok (), queue_control (information_response (lm_information m) i info_type) m)"
| "process_control (InformationResponse i info_type result data) m =
     (Ok (), m\<lparr>lm_information_responses := lm_information_responses m @
        [\<lparr>ir_identifier = i, ir_info_type = info_type, ir_result = result, ir_data = data\<rparr>]\<rparr>)"
| "process_control _ m = (Ok (), m)"

definition process_pdu :: "l2cap_pdu \<Rightarrow> unit lm_op" where
  "process_pdu pdu =
     (if cid pdu = L2CAP_LE_SIGNALING_CID then
        and_then (lift_result (control_from_bytes (pdu_payload pdu))) process_control
      else and_then (on_channel unknown_cid (cid pdu) (le_receive_pdu (pdu_payload pdu)))
             (\<lambda>_. flush_channel (cid pdu)))"

end
