(* ===== verification/Le_Manager_Safety.thy ===== *)
theory Le_Manager_Safety
  imports Le_Manager
begin

text \<open>
  The LE credit-based channel manager under an arbitrary peer and application: the invariant of its
  tables, that every method and handler keeps it and does not panic, and the connection handshake.
\<close>

section \<open>The invariant\<close>

text \<open>The CIDs taken by channels and by connection attempts, with multiplicity.\<close>

definition reserved :: "le_manager \<Rightarrow> u16 multiset" where
  "reserved m = mset (bt_keys (lm_channels m)) + image_mset pc_source_cid (mset (bt_values (lm_pending m))) +
     (\<Sum>p\<in>#mset (bt_values (lm_pending_enhanced m)). mset (pe_source_cids p))"

definition cids_ok :: "u16 multiset \<Rightarrow> bool" where
  "cids_ok M \<longleftrightarrow> (\<forall>c. count M c \<le> 1) \<and> (\<forall>c \<in># M. in_cid_range c)"

definition channel_ok :: "u16 \<Rightarrow> le_channel \<Rightarrow> bool" where
  "channel_ok c ch \<longleftrightarrow> ch_source_cid ch = c \<and> le_channel_inv ch \<and> ch_outbound_pdus ch = []"

definition lm_inv :: "le_manager \<Rightarrow> bool" where
  "lm_inv m \<longleftrightarrow> bt_wf (lm_servers m) \<and> bt_wf (lm_channels m) \<and> bt_wf (lm_pending m) \<and> bt_wf (lm_pending_enhanced m) \<and>
     (\<forall>psm spec. bt_get (lm_servers m) psm = Some spec \<longrightarrow> le_spec_validate spec = Ok spec) \<and>
     (\<forall>c ch. bt_get (lm_channels m) c = Some ch \<longrightarrow> channel_ok c ch) \<and> cids_ok (reserved m)"

lemma cids_ok_mono: "cids_ok M \<Longrightarrow> N \<subseteq># M \<Longrightarrow> cids_ok N"
  unfolding cids_ok_def by (meson mset_subset_eqD mset_subset_eq_count order_trans)

lemma cids_ok_add:
  "cids_ok M \<Longrightarrow> distinct cs \<Longrightarrow> set cs \<inter> set_mset M = {} \<Longrightarrow> (\<And>c. c \<in> set cs \<Longrightarrow> in_cid_range c) \<Longrightarrow>
   cids_ok (M + mset cs)"
  unfolding cids_ok_def
proof (intro conjI allI ballI)
  fix c
  assume a: "(\<forall>c. count M c \<le> 1) \<and> (\<forall>c \<in># M. in_cid_range c)" "distinct cs" "set cs \<inter> set_mset M = {}"
  have "count (mset cs) c \<le> 1" using a(2) by (simp add: distinct_count_atmost_1)
  moreover have "count M c = 0 \<or> count (mset cs) c = 0"
    using a(3) by (metis count_inI count_mset_0_iff disjoint_iff set_mset_mset)
  ultimately show "count (M + mset cs) c \<le> 1"
    using a(1) by (metis add.right_neutral add_0 count_union)
qed auto

lemma cid_is_reserved_iff: "cid_is_reserved m c \<longleftrightarrow> c \<in># reserved m"
  by (auto simp: cid_is_reserved_def reserved_def bt_keys_get bt_contains_key_def list_ex_iff image_iff)

lemma cid_range_set: "c \<in> set cid_range \<longleftrightarrow> in_cid_range c" "distinct cid_range"
proof -
  show "c \<in> set cid_range \<longleftrightarrow> in_cid_range c"
  proof
    assume "c \<in> set cid_range"
    then show "in_cid_range c"
      by (auto simp: cid_range_def in_cid_range_def LE_CID_START_def LE_CID_END_def unat_of_nat_u16)
  next
    assume "in_cid_range c"
    then show "c \<in> set cid_range"
      unfolding cid_range_def in_cid_range_def by (auto simp: image_iff simp del: upt_Suc intro!: bexI [of _ "unat c"])
  qed
  show "distinct cid_range"
    unfolding cid_range_def distinct_map
    by (auto simp: inj_on_def LE_CID_START_def LE_CID_END_def dest!: arg_cong [of _ _ unat] simp: unat_of_nat_u16)
qed

lemma allocate_cid_fresh:
  "allocate_cid m = Ok c \<Longrightarrow> in_cid_range c \<and> c \<notin># reserved m"
  by (auto simp: allocate_cid_def find_Some_iff cid_is_reserved_iff split: option.splits
      dest!: nth_mem simp: cid_range_set)

lemma allocate_cids_fresh:
  assumes "allocate_cids n m = Ok cs"
  shows "length cs = n" "distinct cs" "set cs \<inter> set_mset (reserved m) = {}" "c \<in> set cs \<Longrightarrow> in_cid_range c"
  using assms
  by (auto simp: allocate_cids_def Let_def cid_is_reserved_iff cid_range_set dest: in_set_takeD split: if_splits)

lemma allocate_no_panic: "\<not> is_panic (allocate_cid m)" "\<not> is_panic (allocate_cids n m)"
  by (auto simp: allocate_cid_def allocate_cids_def Let_def split: option.splits)

text \<open>Operations that leave the four tables alone.\<close>

definition tables where
  "tables m = (lm_servers m, lm_channels m, lm_pending m, lm_pending_enhanced m)"

lemma lm_inv_tables: "tables m' = tables m \<Longrightarrow> lm_inv m' = lm_inv m"
  by (simp add: tables_def lm_inv_def reserved_def)

lemma queue_tables [simp]:
  "tables (queue_control f m) = tables m"
  "tables (snd (next_identifier m)) = tables m"
  "tables (queue_connection_response i d s cr r m) = tables m"
  "tables (queue_enhanced_connection_response i s cr r ds m) = tables m"
  by (simp_all add: tables_def queue_control_def next_identifier_def Let_def queue_connection_response_def
      queue_enhanced_connection_response_def)

lemma queue_grants_tables [simp]: "tables (queue_grants gs m) = tables m"
  by (induction gs m rule: queue_grants.induct) (auto simp: split_beta)

lemmas lm_inv_queue [simp] = queue_tables [THEN lm_inv_tables] queue_grants_tables [THEN lm_inv_tables]

text \<open>Replacing a channel, removing one, and adding one whose CID was pending or free.\<close>

lemma lm_inv_update:
  assumes "lm_inv m" "bt_get (lm_channels m) c = Some ch" "channel_ok c ch'"
  shows "lm_inv (m\<lparr>lm_channels := bt_insert c ch' (lm_channels m)\<rparr>)"
  using assms by (auto simp: lm_inv_def reserved_def bt_simps bt_keys_update)

lemma lm_inv_remove:
  assumes "lm_inv m"
  shows "lm_inv (m\<lparr>lm_channels := bt_remove c (lm_channels m)\<rparr>)"
proof -
  have "reserved (m\<lparr>lm_channels := bt_remove c (lm_channels m)\<rparr>) \<subseteq># reserved m"
    unfolding reserved_def by (simp add: bt_keys_remove subset_mset.add_mono)
  then show ?thesis
    using assms cids_ok_mono by (auto simp: lm_inv_def bt_simps)
qed

lemma lm_inv_add:
  assumes "lm_inv m" "channel_ok c ch" "cids_ok (add_mset c (reserved m))"
  shows "lm_inv (m\<lparr>lm_channels := bt_insert c ch (lm_channels m)\<rparr>)"
proof -
  have "reserved (m\<lparr>lm_channels := bt_insert c ch (lm_channels m)\<rparr>) \<subseteq># add_mset c (reserved m)"
    using bt_keys_insert [of "lm_channels m" c ch] assms(1) unfolding reserved_def lm_inv_def
    by (auto simp: subset_mset.add_mono simp flip: union_mset_add_mset_left)
  then show ?thesis
    using assms(1,2) cids_ok_mono [OF assms(3)] by (auto simp: lm_inv_def bt_simps)
qed

section \<open>Calls\<close>

text \<open>
  What a call does: the invariant holds afterwards, and the call does not panic.
\<close>

definition lm_call_ok :: "('a, rust_error) rresult \<times> le_manager \<Rightarrow> bool" where
  "lm_call_ok o' \<longleftrightarrow> lm_inv (snd o') \<and> \<not> is_panic (fst o')"

lemma lm_call_okI: "lm_inv m \<Longrightarrow> tables m' = tables m \<Longrightarrow> \<not> is_panic r \<Longrightarrow> lm_call_ok (r, m')"
  using lm_inv_tables [of m' m] by (simp add: lm_call_ok_def)

lemma lm_call_ok_and_then:
  assumes "lm_call_ok (f m)" "\<And>x m'. f m = (Ok x, m') \<Longrightarrow> lm_inv m' \<Longrightarrow> lm_call_ok (k x m')"
  shows "lm_call_ok (and_then f k m)"
proof (cases "f m")
  case (Pair r m')
  with assms show ?thesis by (cases r) (auto simp: lm_call_ok_def and_then_def)
qed

lemma lift_ok: "lm_inv m \<Longrightarrow> \<not> is_panic r \<Longrightarrow> lm_call_ok (lift_result r m)"
  by (simp add: lm_call_ok_def lift_result_def)

text \<open>A call on one channel followed by flushing it.\<close>

lemma flush_after:
  assumes "lm_inv m" "bt_get (lm_channels m) c = Some ch" "ch_source_cid ch' = c" "le_channel_inv ch'"
  shows "lm_call_ok (flush_channel c (m\<lparr>lm_channels := bt_insert c ch' (lm_channels m)\<rparr>))"
proof -
  let ?m = "m\<lparr>lm_channels := bt_insert c ch' (lm_channels m)\<rparr>"
  have wf: "bt_wf (lm_channels m)" using assms(1) by (simp add: lm_inv_def)
  define ch2 where "ch2 = ch'\<lparr>ch_outbound_pdus := [], ch_pending_credit_grants := []\<rparr>"
  have get: "bt_get (lm_channels ?m) c = Some ch'" using wf by (simp add: bt_simps)
  have ok: "channel_ok c ch2"
    using assms(3,4) by (simp add: channel_ok_def ch2_def le_channel_inv_def le_settled_def)
  have "tables (snd (flush_channel c ?m)) = tables (m\<lparr>lm_channels := bt_insert c ch2 (lm_channels m)\<rparr>)"
    and "fst (flush_channel c ?m) = Ok ()"
    unfolding flush_channel_def get by (simp_all add: Let_def ch2_def bt_insert_twice) (simp add: tables_def)
  then show ?thesis
    using lm_inv_update [OF assms(1,2) ok]
      lm_inv_tables [of "snd (flush_channel c ?m)" "m\<lparr>lm_channels := bt_insert c ch2 (lm_channels m)\<rparr>"]
    unfolding lm_call_ok_def by simp
qed

lemma on_channel_flush:
  assumes "lm_inv m" "\<And>ch. le_channel_inv ch \<Longrightarrow> le_call_ok ch (f ch)"
  shows "lm_call_ok (and_then (on_channel msg c f) (\<lambda>_. flush_channel c) m)"
proof (cases "bt_get (lm_channels m) c")
  case None
  then show ?thesis using assms(1) by (simp add: on_channel_def and_then_def lm_call_ok_def)
next
  case (Some ch)
  have ch: "channel_ok c ch" using assms(1) Some by (simp add: lm_inv_def)
  obtain r ch' where f: "f ch = (r, ch')" by fastforce
  have ok: "le_call_ok ch (r, ch')" using assms(2) [of ch] ch f by (simp add: channel_ok_def)
  show ?thesis
  proof (cases r)
    case (Ok x)
    then show ?thesis
      using flush_after [OF assms(1) Some, of ch'] ok ch f Some
      by (simp add: on_channel_def and_then_def le_call_ok_def channel_ok_def)
  next
    case (Err e)
    then have "channel_ok c ch'" using ok ch by (simp add: le_call_ok_def channel_ok_def)
    then show ?thesis
      using lm_inv_update [OF assms(1) Some, of ch'] f Some Err
      by (simp add: on_channel_def and_then_def lm_call_ok_def)
  qed (use ok in \<open>simp add: le_call_ok_def\<close>)
qed

lemma lm_send_ok: "lm_inv m \<Longrightarrow> lm_call_ok (lm_send c data m)"
  unfolding lm_send_def by (rule on_channel_flush) (simp_all add: le_write_ok)

lemma lm_set_reading_paused_ok: "lm_inv m \<Longrightarrow> lm_call_ok (lm_set_reading_paused c b m)"
  unfolding lm_set_reading_paused_def by (rule on_channel_flush) (simp_all add: le_pause_ok le_resume_ok)

lemma on_flow_control_credit_ok: "lm_inv m \<Longrightarrow> lm_call_ok (on_flow_control_credit c g m)"
  unfolding on_flow_control_credit_def
  by (auto split: option.split intro!: on_channel_flush simp: le_add_credits_ok lm_call_ok_def [of "(Err _, _)"])

lemma lm_disconnect_ok: "lm_inv m \<Longrightarrow> lm_call_ok (lm_disconnect c m)"
proof (cases "bt_get (lm_channels m) c")
  case None
  then show "lm_inv m \<Longrightarrow> ?thesis" by (simp add: lm_disconnect_def on_channel_def and_then_def lm_call_ok_def)
next
  case (Some ch)
  assume inv: "lm_inv m"
  then have ch: "channel_ok c ch" using Some by (simp add: lm_inv_def)
  then have ch': "channel_ok c (le_begin_disconnect ch)"
    using le_begin_disconnect_inv [of ch]
    by (simp add: channel_ok_def) (simp add: le_begin_disconnect_def le_flush_def le_reset_input_def)
  show ?thesis
    using lm_inv_update [OF inv Some ch] lm_inv_update [OF inv Some ch'] Some
    by (auto simp: lm_disconnect_def on_channel_def and_then_def le_ensure_connected_def lm_call_ok_def split_beta
        Let_def)
qed

lemma lm_abort_inv: "lm_inv m \<Longrightarrow> lm_inv (snd (lm_abort c m))"
proof (cases "bt_get (lm_channels m) c")
  case (Some ch)
  assume inv: "lm_inv m"
  then have wf: "bt_wf (lm_channels m)" "channel_ok c ch" using Some by (auto simp: lm_inv_def)
  show ?thesis
    using Some lm_inv_remove [OF inv] lm_inv_update [OF inv Some wf(2)] wf(1)
    by (auto simp: lm_abort_def Let_def bt_reinsert)
qed (simp add: lm_abort_def)

lemma on_disconnection_ok:
  assumes "lm_inv m"
  shows "lm_call_ok (on_disconnection_request i d s m)" "lm_call_ok (on_disconnection_response d s m)"
proof -
  have upd: "lm_inv (m\<lparr>lm_channels := bt_insert c ch (bt_remove c (lm_channels m))\<rparr>)"
    if "bt_get (lm_channels m) c = Some ch" for c ch
  proof -
    have "channel_ok c ch" "bt_wf (lm_channels m)" using assms that by (auto simp: lm_inv_def)
    then show ?thesis using lm_inv_update [OF assms that] by (simp add: bt_reinsert)
  qed
  show "lm_call_ok (on_disconnection_request i d s m)" "lm_call_ok (on_disconnection_response d s m)"
    using assms upd lm_inv_remove [OF assms]
    by (auto simp: on_disconnection_request_def on_disconnection_response_def lm_call_ok_def split: option.split)
qed

lemma reconfigure_peers_ok:
  assumes "lm_inv m" "\<And>c. c \<in> set cs \<Longrightarrow> bt_get (lm_channels m) c \<noteq> None"
  shows "lm_call_ok (reconfigure_peers mtu mps cs m)"
  using assms
proof (induction cs arbitrary: m)
  case (Cons c cs)
  from Cons.prems(2) obtain ch where ch: "bt_get (lm_channels m) c = Some ch" by fastforce
  then have ok: "channel_ok c ch" and wf: "bt_wf (lm_channels m)" using Cons.prems(1) by (auto simp: lm_inv_def)
  let ?c = "ch\<lparr>ch_peer_mtu := mtu, ch_peer_mps := mps, ch_att_mtu := min (ch_mtu ch) mtu\<rparr>"
  have "le_settled ?c" using ok by (simp add: channel_ok_def le_channel_inv_def le_settled_def)
  then have "le_reconfigure_peer mtu mps ch = ?c"
    by (simp add: le_reconfigure_peer_def le_process_output_settled)
  then have "channel_ok c (le_reconfigure_peer mtu mps ch)"
    using ok by (simp add: channel_ok_def le_channel_inv_def le_settled_def)
  note inv = lm_inv_update [OF Cons.prems(1) ch this]
  show ?case
    using Cons.IH [OF inv] Cons.prems(2) ch wf by (auto simp: bt_simps)
qed (simp add: lm_call_ok_def)

lemma reconfigure_locals_ok: "lm_inv m \<Longrightarrow> lm_call_ok (reconfigure_locals mtu mps cs m)"
proof (induction cs arbitrary: m)
  case (Cons c cs)
  show ?case
  proof (cases "bt_get (lm_channels m) c")
    case (Some ch)
    then have "channel_ok c (le_reconfigure_local mtu mps ch)"
      using Cons.prems
      by (auto simp: lm_inv_def channel_ok_def le_reconfigure_local_def le_channel_inv_def le_settled_def)
    then show ?thesis using Cons.IH [OF lm_inv_update [OF Cons.prems Some]] Some by simp
  qed (use Cons.prems in \<open>simp add: lm_call_ok_def\<close>)
qed (simp add: lm_call_ok_def)

lemma on_reconfigure_request_ok: "lm_inv m \<Longrightarrow> lm_call_ok (on_reconfigure_request i mtu mps cs m)"
proof -
  assume inv: "lm_inv m"
  have "bt_get (lm_channels m) c \<noteq> None"
    if "reconfigure_verdict mtu mps cs m = RECONFIGURATION_SUCCESSFUL" "c \<in> set cs" for c
  proof
    assume "bt_get (lm_channels m) c = None"
    then have "list_ex (\<lambda>c. case bt_get (lm_channels m) c of
        None \<Rightarrow> True | Some ch \<Rightarrow> ch_state ch \<noteq> Connected) cs"
      using that(2) by (auto simp: list_ex_iff intro!: bexI [of _ c])
    with that(1) show False
      by (simp add: reconfigure_verdict_def RECONFIGURATION_SUCCESSFUL_def RECONFIGURATION_INVALID_CIDS_def
          split: if_splits)
  qed
  then have "lm_call_ok ((if reconfigure_verdict mtu mps cs m = RECONFIGURATION_SUCCESSFUL
      then reconfigure_peers mtu mps cs else Pair (Ok ())) m)"
    using inv reconfigure_peers_ok by (auto simp: lm_call_ok_def)
  then show ?thesis
    unfolding on_reconfigure_request_def Let_def
    by (rule lm_call_ok_and_then) (simp add: lm_call_ok_def)
qed

lemma on_reconfigure_response_ok: "lm_inv m \<Longrightarrow> lm_call_ok (on_reconfigure_response i r m)"
proof -
  assume inv: "lm_inv m"
  have "lm_inv (m\<lparr>lm_pending_reconfigurations := a, lm_reconfiguration_results := b\<rparr>)" for a b
    using inv by (simp add: lm_inv_def reserved_def)
  then show ?thesis
    using inv
    by (auto simp: on_reconfigure_response_def Let_def lm_call_ok_def [of "(_, _)"] split: option.split
        intro!: reconfigure_locals_ok)
qed

section \<open>Connections\<close>

lemma le_connected_no_panic: "\<not> is_panic (le_connected psm s d spec mtu mps cr)"
  by (auto simp: le_connected_def le_spec_validate_def)

lemma le_connected_channel_ok: "le_connected psm c d spec mtu mps cr = Ok ch \<Longrightarrow> channel_ok c ch"
  using le_connected_inv by (simp add: channel_ok_def)

lemma validate_no_panic: "\<not> is_panic (le_spec_validate spec)" "\<not> is_panic (validate_mtu_mps mtu mps)"
  by (auto simp: le_spec_validate_def validate_mtu_mps_def)

lemma on_connection_request_ok:
  assumes "lm_inv m" shows "lm_call_ok (on_connection_request i psm rc mtu mps cr m)"
proof -
  have add: "lm_inv (m\<lparr>lm_channels := bt_insert c ch (lm_channels m), lm_accepted_channels := l\<rparr>)"
    if "allocate_cid m = Ok c" "le_connected psm c rc spec mtu mps cr = Ok ch" for c ch spec l
  proof -
    have "cids_ok (add_mset c (reserved m))"
      using cids_ok_add [of "reserved m" "[c]"] allocate_cid_fresh [OF that(1)] assms by (simp add: lm_inv_def)
    from lm_inv_add [OF assms le_connected_channel_ok [OF that(2)] this]
    show ?thesis by (simp add: lm_inv_def reserved_def)
  qed
  show ?thesis
    using assms add allocate_no_panic(1) [of m] le_connected_no_panic
    unfolding on_connection_request_def
    by (auto simp: lm_call_ok_def split: option.split rresult.split) (metis is_panic.simps(1))+
qed

lemma lm_inv_settle_pending:
  assumes "lm_inv m" "bt_get (lm_pending m) i = Some p"
  shows "lm_inv (m\<lparr>lm_pending := bt_remove i (lm_pending m), lm_connection_results := r\<rparr>)"
    "cids_ok (add_mset (pc_source_cid p) (reserved (m\<lparr>lm_pending := bt_remove i (lm_pending m), lm_connection_results := r\<rparr>)))"
proof -
  let ?m = "m\<lparr>lm_pending := bt_remove i (lm_pending m), lm_connection_results := r\<rparr>"
  have "mset (bt_values (lm_pending m)) = add_mset p (mset (bt_values (bt_remove i (lm_pending m))))"
    using bt_values_remove [OF _ assms(2)] assms(1) by (simp add: lm_inv_def)
  then have r: "reserved m = add_mset (pc_source_cid p) (reserved ?m)" by (simp add: reserved_def)
  then show "cids_ok (add_mset (pc_source_cid p) (reserved ?m))" using assms(1) by (simp add: lm_inv_def)
  then have "cids_ok (reserved ?m)" by (rule cids_ok_mono) simp
  then show "lm_inv ?m" using assms(1) by (simp add: lm_inv_def bt_simps)
qed

lemma on_connection_response_ok:
  assumes "lm_inv m" shows "lm_call_ok (on_connection_response i d mtu mps cr r m)"
proof (cases "bt_get (lm_pending m) i")
  case None
  then show ?thesis using assms by (simp add: on_connection_response_def lm_call_ok_def)
next
  case (Some p)
  define m1 where "m1 = m\<lparr>lm_pending := bt_remove i (lm_pending m),
    lm_connection_results := bt_insert (pc_source_cid p) r (lm_connection_results m)\<rparr>"
  have m1: "lm_inv m1" "cids_ok (add_mset (pc_source_cid p) (reserved m1))"
    using lm_inv_settle_pending [OF assms Some] by (simp_all add: m1_def)
  have "lm_inv (m1\<lparr>lm_channels := bt_insert (pc_source_cid p) ch (lm_channels m1)\<rparr>)"
    if "le_connected (pc_psm p) (pc_source_cid p) d (pc_spec p) mtu mps cr = Ok ch" for ch
    using lm_inv_add [OF m1(1) le_connected_channel_ok [OF that] m1(2)] .
  then show ?thesis
    using m1(1) le_connected_no_panic [of "pc_psm p" "pc_source_cid p" d "pc_spec p" mtu mps cr]
    unfolding on_connection_response_def Some option.case Let_def m1_def [symmetric]
    by (auto simp: lm_call_ok_def split: rresult.split)
qed

text \<open>Several channels at once.\<close>

lemma connect_all_ok:
  assumes "connect_all psm spec mtu mps cr ps = Ok chs"
  shows "map fst chs = map fst ps \<and> (\<forall>(c, ch) \<in> set chs. channel_ok c ch)"
  using assms
proof (induction ps arbitrary: chs)
  case (Cons q ps)
  then show ?case by (cases q) (auto dest: le_connected_channel_ok)
qed simp

lemma connect_all_no_panic: "\<not> is_panic (connect_all psm spec mtu mps cr ps)"
proof (induction ps)
  case (Cons q ps)
  obtain c d where q: "q = (c, d)" by fastforce
  show ?case
    using Cons le_connected_no_panic [of psm c d spec mtu mps cr] unfolding q
    by (cases "le_connected psm c d spec mtu mps cr"; cases "connect_all psm spec mtu mps cr ps") auto
qed simp

lemma insert_channels_inv:
  assumes "lm_inv m" "cids_ok (reserved m + mset (map fst chs))" "\<forall>(c, ch) \<in> set chs. channel_ok c ch"
  shows "lm_inv (insert_channels chs m)"
  using assms
proof (induction chs arbitrary: m)
  case Nil
  then show ?case by (simp add: insert_channels_def)
next
  case (Cons q chs)
  obtain c ch where q: "q = (c, ch)" by fastforce
  let ?m = "m\<lparr>lm_channels := bt_insert c ch (lm_channels m)\<rparr>"
  have sub: "reserved ?m \<subseteq># add_mset c (reserved m)"
    using bt_keys_insert [of "lm_channels m" c ch] Cons.prems(1) unfolding reserved_def lm_inv_def
    by (auto simp: subset_mset.add_mono simp flip: union_mset_add_mset_left)
  have "cids_ok (add_mset c (reserved m))"
    by (rule cids_ok_mono [OF Cons.prems(2)]) (simp add: q)
  then have inv: "lm_inv ?m" using lm_inv_add [OF Cons.prems(1)] Cons.prems(3) q by auto
  have "cids_ok (reserved ?m + mset (map fst chs))"
    by (rule cids_ok_mono [OF Cons.prems(2)]) (use sub in \<open>auto simp: q subset_mset.add_right_mono\<close>)
  from Cons.IH [OF inv this] Cons.prems(3) show ?case by (simp add: insert_channels_def q)
qed

lemma on_enhanced_connection_request_ok:
  assumes "lm_inv m" shows "lm_call_ok (on_enhanced_connection_request i psm mtu mps cr rcs m)"
proof -
  have add: "lm_inv ((insert_channels chs m)\<lparr>lm_accepted_channels := l\<rparr>)"
    if "allocate_cids (length rcs) m = Ok cs" "connect_all psm spec mtu mps cr (zip cs rcs) = Ok chs" for cs chs spec l
  proof -
    note cs = allocate_cids_fresh [OF that(1)] and chs = connect_all_ok [OF that(2)]
    have "cids_ok (reserved m + mset (map fst chs))"
      using chs cs assms by (auto simp: lm_inv_def intro!: cids_ok_add)
    from insert_channels_inv [OF assms this conjunct2 [OF chs]] show ?thesis
      by (simp add: lm_inv_def reserved_def)
  qed
  show ?thesis
    using assms add allocate_no_panic(2) [of "length rcs" m] connect_all_no_panic
    unfolding on_enhanced_connection_request_def Let_def
    by (auto simp: lm_call_ok_def split: option.split rresult.split) (metis is_panic.simps(1))+
qed

lemma lm_inv_settle_enhanced:
  assumes "lm_inv m" "bt_get (lm_pending_enhanced m) i = Some p"
  shows "lm_inv (m\<lparr>lm_pending_enhanced := bt_remove i (lm_pending_enhanced m), lm_connection_results := r\<rparr>)"
    "cids_ok (reserved (m\<lparr>lm_pending_enhanced := bt_remove i (lm_pending_enhanced m), lm_connection_results := r\<rparr>) +
       mset (pe_source_cids p))"
proof -
  let ?m = "m\<lparr>lm_pending_enhanced := bt_remove i (lm_pending_enhanced m), lm_connection_results := r\<rparr>"
  have "mset (bt_values (lm_pending_enhanced m)) = add_mset p (mset (bt_values (bt_remove i (lm_pending_enhanced m))))"
    using bt_values_remove [OF _ assms(2)] assms(1) by (simp add: lm_inv_def)
  then have r: "reserved m = reserved ?m + mset (pe_source_cids p)" by (simp add: reserved_def)
  then show "cids_ok (reserved ?m + mset (pe_source_cids p))" using assms(1) by (simp add: lm_inv_def)
  then have "cids_ok (reserved ?m)" by (rule cids_ok_mono) simp
  then show "lm_inv ?m" using assms(1) by (simp add: lm_inv_def bt_simps)
qed

lemma on_enhanced_connection_response_ok:
  assumes "lm_inv m" shows "lm_call_ok (on_enhanced_connection_response i mtu mps cr r ds m)"
proof (cases "bt_get (lm_pending_enhanced m) i")
  case None
  then show ?thesis using assms by (simp add: on_enhanced_connection_response_def lm_call_ok_def)
next
  case (Some p)
  define m1 where "m1 = m\<lparr>lm_pending_enhanced := bt_remove i (lm_pending_enhanced m),
    lm_connection_results := fold (\<lambda>c. bt_insert c r) (pe_source_cids p) (lm_connection_results m)\<rparr>"
  have m1: "lm_inv m1" "cids_ok (reserved m1 + mset (pe_source_cids p))"
    using lm_inv_settle_enhanced [OF assms Some] by (simp_all add: m1_def)
  have add: "lm_inv (insert_channels chs m1)"
    if "length ds = length (pe_source_cids p)"
      "connect_all (pe_psm p) (pe_spec p) mtu mps cr (zip (pe_source_cids p) ds) = Ok chs" for chs
    using connect_all_ok [OF that(2)] m1 that(1) by (intro insert_channels_inv) auto
  have "lm_call_ok (if has_duplicates ds \<or> list_ex (\<lambda>c. \<not> in_cid_range c \<or> destination_in_use m1 c) ds then
                 (invalid ''enhanced response contains invalid destination CIDs'', m1)
               else case connect_all (pe_psm p) (pe_spec p) mtu mps cr (zip (pe_source_cids p) ds) of
                 Ok chs \<Rightarrow> (Ok (), insert_channels chs m1) | Err e \<Rightarrow> (Err e, m1) | Panic x \<Rightarrow> (Panic x, m1))"
    if "length ds = length (pe_source_cids p)"
    using m1(1) add [OF that] connect_all_no_panic [of "pe_psm p" "pe_spec p" mtu mps cr "zip (pe_source_cids p) ds"]
    by (auto simp: lm_call_ok_def split: rresult.split)
  then show ?thesis
    using m1(1) validate_no_panic(2) [of mtu mps]
    unfolding on_enhanced_connection_response_def Some option.case Let_def m1_def [symmetric]
    by (cases "validate_mtu_mps mtu mps") (auto simp: lm_call_ok_def and_then_def lift_result_def)
qed

lemma lm_call_ok_pair [simp]: "lm_call_ok (r, m) \<longleftrightarrow> lm_inv m \<and> \<not> is_panic r"
  by (simp add: lm_call_ok_def)

lemma lm_inv_silent [simp]:
  "lm_inv (m\<lparr>lm_information_responses := x1\<rparr>) = lm_inv m"
  "lm_inv (m\<lparr>lm_accepted_channels := x2\<rparr>) = lm_inv m"
  "lm_inv (m\<lparr>lm_outbound := x3\<rparr>) = lm_inv m"
  "lm_inv (m\<lparr>lm_connection_results := x4\<rparr>) = lm_inv m"
  "lm_inv (m\<lparr>lm_pending_reconfigurations := x5\<rparr>) = lm_inv m"
  by (simp_all add: lm_inv_def reserved_def)

lemma process_control_ok: "lm_inv m \<Longrightarrow> lm_call_ok (process_control f m)"
  by (cases f)
    (simp_all add: on_connection_request_ok on_connection_response_ok on_enhanced_connection_request_ok
      on_enhanced_connection_response_ok on_reconfigure_request_ok on_reconfigure_response_ok
      on_flow_control_credit_ok on_disconnection_ok)

lemma process_pdu_ok:
  assumes "lm_inv m"
  shows "lm_inv (snd (process_pdu p m))"
    "is_panic (fst (process_pdu p m)) \<longleftrightarrow>
       cid p = L2CAP_LE_SIGNALING_CID \<and> is_panic (control_from_bytes (pdu_payload p))"
proof -
  have data: "lm_call_ok (and_then (on_channel unknown_cid (cid p) (le_receive_pdu (pdu_payload p)))
      (\<lambda>_. flush_channel (cid p)) m)"
    using assms by (intro on_channel_flush) (simp_all add: le_receive_pdu_ok)
  show "lm_inv (snd (process_pdu p m))"
    "is_panic (fst (process_pdu p m)) \<longleftrightarrow>
       cid p = L2CAP_LE_SIGNALING_CID \<and> is_panic (control_from_bytes (pdu_payload p))"
    using data process_control_ok [OF assms] assms
    by (cases "control_from_bytes (pdu_payload p)";
        simp add: process_pdu_def and_then_simps lift_result_def lm_call_ok_def and_then_def)+
qed

section \<open>Requests\<close>

lemma register_server_ok:
  assumes "lm_inv m" shows "lm_call_ok (register_server spec m)"
proof (cases "le_spec_validate spec")
  case (Ok s)
  then have "le_spec_validate (spec\<lparr>spec_psm := x\<rparr>) = Ok (spec\<lparr>spec_psm := x\<rparr>)" for x
    by (auto simp: le_spec_validate_def split: if_splits)
  then have "lm_inv (m\<lparr>lm_servers := bt_insert psm (spec\<lparr>spec_psm := x\<rparr>) (lm_servers m)\<rparr>)" for psm x
    using assms by (auto simp: lm_inv_def bt_simps reserved_def)
  then show ?thesis
    using Ok assms
    by (auto simp: register_server_def and_then_def lift_result_def lm_call_ok_def split: option.split)
qed (use assms validate_no_panic(1) [of spec] in
    \<open>auto simp: register_server_def and_then_def lift_result_def lm_call_ok_def\<close>)

lemma unregister_server_inv: "lm_inv m \<Longrightarrow> lm_inv (snd (unregister_server psm m))"
  by (auto simp: unregister_server_def lm_inv_def bt_simps reserved_def split: if_splits)

lemma next_identifier_fields:
  "lm_pending (snd (next_identifier m)) = lm_pending m"
  "lm_pending_enhanced (snd (next_identifier m)) = lm_pending_enhanced m"
  "reserved (snd (next_identifier m)) = reserved m"
  by (simp_all add: next_identifier_def Let_def reserved_def)

lemma lm_inv_pending:
  assumes "lm_inv m" "in_cid_range c" "c \<notin># reserved m" "pc_source_cid p = c"
  shows "lm_inv (m\<lparr>lm_pending := bt_insert i p (lm_pending m)\<rparr>)"
proof -
  let ?m = "m\<lparr>lm_pending := bt_insert i p (lm_pending m)\<rparr>"
  have "image_mset pc_source_cid (mset (bt_values (bt_insert i p (lm_pending m)))) \<subseteq>#
      add_mset c (image_mset pc_source_cid (mset (bt_values (lm_pending m))))"
    using image_mset_subseteq_mono [OF bt_values_insert] assms(1,4) by (force simp: lm_inv_def)
  then have "reserved ?m \<subseteq># add_mset c (reserved m)"
    unfolding reserved_def by (simp add: subset_mset.add_mono flip: union_mset_add_mset_left union_mset_add_mset_right) simp
  moreover have "cids_ok (add_mset c (reserved m))"
    using cids_ok_add [of "reserved m" "[c]"] assms by (simp add: lm_inv_def)
  ultimately have "cids_ok (reserved ?m)" using cids_ok_mono by blast
  then show ?thesis using assms(1) by (simp add: lm_inv_def bt_simps)
qed

lemma sum_mset_mono_subseteq: "A \<subseteq># B \<Longrightarrow> (\<Sum>x\<in>#A. f x) \<subseteq># (\<Sum>x\<in>#B. f x)" for f :: "'a \<Rightarrow> 'b multiset"
  by (auto simp: mset_subset_eq_exists_conv)

lemma lm_inv_pending_enhanced:
  assumes "lm_inv m" "distinct (pe_source_cids p)" "set (pe_source_cids p) \<inter> set_mset (reserved m) = {}"
    "\<And>c. c \<in> set (pe_source_cids p) \<Longrightarrow> in_cid_range c"
  shows "lm_inv (m\<lparr>lm_pending_enhanced := bt_insert i p (lm_pending_enhanced m)\<rparr>)"
proof -
  let ?m = "m\<lparr>lm_pending_enhanced := bt_insert i p (lm_pending_enhanced m)\<rparr>"
  have "(\<Sum>p\<in>#mset (bt_values (bt_insert i p (lm_pending_enhanced m))). mset (pe_source_cids p)) \<subseteq>#
      (\<Sum>p\<in>#mset (bt_values (lm_pending_enhanced m)). mset (pe_source_cids p)) + mset (pe_source_cids p)"
    using sum_mset_mono_subseteq [OF bt_values_insert, of "lm_pending_enhanced m" "\<lambda>p. mset (pe_source_cids p)" i p]
      assms(1) by (simp add: lm_inv_def add.commute)
  then have "reserved ?m \<subseteq># reserved m + mset (pe_source_cids p)"
    unfolding reserved_def by (simp add: add.assoc)
  moreover have "cids_ok (reserved m + mset (pe_source_cids p))"
    using assms by (intro cids_ok_add) (auto simp: lm_inv_def)
  ultimately have "cids_ok (reserved ?m)" using cids_ok_mono by blast
  then show ?thesis using assms(1) by (simp add: lm_inv_def bt_simps)
qed

lemma le_connect_ok:
  assumes "lm_inv m" shows "lm_call_ok (le_connect psm spec m)"
proof -
  have "lm_inv ((snd (next_identifier m'))\<lparr>lm_pending := bt_insert i p (lm_pending (snd (next_identifier m')))\<rparr>)"
    if "allocate_cid m = Ok c" "pc_source_cid p = c" "m' = m\<lparr>lm_connection_results := r\<rparr>" for c p i r m'
  proof (rule lm_inv_pending [where c = c])
    have "reserved m' = reserved m" using that(3) by (simp add: reserved_def)
    then show "lm_inv (snd (next_identifier m'))" "in_cid_range c" "c \<notin># reserved (snd (next_identifier m'))"
      using assms that allocate_cid_fresh [OF that(1)] by (simp_all add: next_identifier_fields)
  qed (fact that(2))
  then show ?thesis
    using assms allocate_no_panic(1) [of m] validate_no_panic(1) [of spec]
    by (cases "le_spec_validate spec"; cases "allocate_cid m")
      (auto simp: le_connect_def and_then_def lift_result_def split_beta Let_def)
qed

lemma connect_enhanced_ok:
  assumes "lm_inv m" shows "lm_call_ok (connect_enhanced psm spec n m)"
proof -
  have "lm_inv ((snd (next_identifier m'))
      \<lparr>lm_pending_enhanced := bt_insert i p (lm_pending_enhanced (snd (next_identifier m')))\<rparr>)"
    if "allocate_cids n m = Ok cs" "pe_source_cids p = cs" "m' = m\<lparr>lm_connection_results := r\<rparr>" for cs p i r m'
  proof (rule lm_inv_pending_enhanced)
    have "reserved m' = reserved m" using that(3) by (simp add: reserved_def)
    then show "lm_inv (snd (next_identifier m'))" "distinct (pe_source_cids p)"
      "set (pe_source_cids p) \<inter> set_mset (reserved (snd (next_identifier m'))) = {}"
      "\<And>c. c \<in> set (pe_source_cids p) \<Longrightarrow> in_cid_range c"
      using assms that allocate_cids_fresh [OF that(1)] by (simp_all add: next_identifier_fields)
  qed
  then show ?thesis
    using assms allocate_no_panic(2) [of n m] validate_no_panic(1) [of spec]
    by (cases "le_spec_validate spec"; cases "allocate_cids n m")
      (auto simp: connect_enhanced_def and_then_def lift_result_def split_beta Let_def)
qed

lemma reconfigure_targets_no_panic: "\<not> is_panic (reconfigure_targets n mtu mps cs m)"
proof (induction cs)
  case (Cons c cs)
  then show ?case
    by (cases "reconfigure_targets n mtu mps cs m")
      (auto simp: le_ensure_connected_def split: option.split)
qed simp

lemma lm_reconfigure_ok:
  assumes "lm_inv m" shows "lm_call_ok (lm_reconfigure cs mtu mps m)"
  using assms validate_no_panic(2) [of mtu mps] reconfigure_targets_no_panic [of "length cs" mtu mps cs m]
  by (cases "validate_mtu_mps mtu mps"; cases "reconfigure_targets (length cs) mtu mps cs m")
    (auto simp: lm_reconfigure_def and_then_def lift_result_def split_beta Let_def)

section \<open>Properties\<close>

text \<open>The calls on a manager; \<open>LmPop\<close> is \<open>channel_mut(cid)\<close> followed by \<open>pop_received\<close>.\<close>

datatype lm_event =
    LmRegister le_spec | LmUnregister u16 | LmConnect u16 le_spec | LmConnectEnhanced u16 le_spec nat
  | LmReconfigure "u16 list" u16 u16 | LmPdu l2cap_pdu | LmSend u16 bytes | LmPause u16 bool
  | LmDisconnect u16 | LmAbort u16 | LmPop u16 | LmPollAccepted | LmPollOutbound | LmDrainOutbound
  | LmRequestInformation u16 | LmPollInformation | LmDrainInformation

definition discard :: "('a, rust_error) rresult \<times> le_manager \<Rightarrow> unit result \<times> le_manager" where
  "discard o' = (bind_result (fst o') (\<lambda>_. Ok ()), snd o')"

fun lm_step :: "le_manager \<Rightarrow> lm_event \<Rightarrow> unit result \<times> le_manager" where
  "lm_step m (LmRegister spec) = discard (register_server spec m)"
| "lm_step m (LmUnregister psm) = (Ok (), snd (unregister_server psm m))"
| "lm_step m (LmConnect psm spec) = discard (le_connect psm spec m)"
| "lm_step m (LmConnectEnhanced psm spec n) = discard (connect_enhanced psm spec n m)"
| "lm_step m (LmReconfigure cs mtu mps) = discard (lm_reconfigure cs mtu mps m)"
| "lm_step m (LmPdu p) = process_pdu p m"
| "lm_step m (LmSend c data) = lm_send c data m"
| "lm_step m (LmPause c paused) = lm_set_reading_paused c paused m"
| "lm_step m (LmDisconnect c) = lm_disconnect c m"
| "lm_step m (LmAbort c) = (Ok (), snd (lm_abort c m))"
| "lm_step m (LmPop c) = discard (on_channel unknown_cid c (\<lambda>ch. (Ok (), snd (le_pop_received ch))) m)"
| "lm_step m LmPollAccepted = (Ok (), snd (lm_poll_accepted_channel m))"
| "lm_step m LmPollOutbound = (Ok (), snd (lm_poll_outbound m))"
| "lm_step m LmDrainOutbound = (Ok (), snd (lm_drain_outbound m))"
| "lm_step m (LmRequestInformation t) = (Ok (), snd (lm_request_information t m))"
| "lm_step m LmPollInformation = (Ok (), snd (lm_poll_information_response m))"
| "lm_step m LmDrainInformation = (Ok (), snd (lm_drain_information_responses m))"

lemma discard_ok: "lm_call_ok o' \<Longrightarrow> lm_call_ok (discard o')"
  by (cases o'; cases "fst o'") (auto simp: lm_call_ok_def discard_def)

lemma lm_pop_ok:
  assumes "lm_inv m" shows "lm_call_ok (on_channel msg c (\<lambda>ch. (Ok (), snd (le_pop_received ch))) m)"
proof (cases "bt_get (lm_channels m) c")
  case (Some ch)
  then have "channel_ok c (snd (le_pop_received ch))"
    using assms by (auto simp: lm_inv_def channel_ok_def le_pop_received_def le_channel_inv_def le_settled_def
        split: list.split)
  then show ?thesis using lm_inv_update [OF assms Some] Some by (simp add: on_channel_def)
qed (use assms in \<open>simp add: on_channel_def\<close>)

lemma lm_poll_ok:
  "lm_inv m \<Longrightarrow> lm_inv (snd (lm_poll_accepted_channel m))" "lm_inv m \<Longrightarrow> lm_inv (snd (lm_poll_outbound m))"
  "lm_inv m \<Longrightarrow> lm_inv (snd (lm_drain_outbound m))" "lm_inv m \<Longrightarrow> lm_inv (snd (lm_request_information t m))"
  "lm_inv m \<Longrightarrow> lm_inv (snd (lm_poll_information_response m))"
  "lm_inv m \<Longrightarrow> lm_inv (snd (lm_drain_information_responses m))"
  by (simp_all add: lm_poll_accepted_channel_def lm_poll_outbound_def lm_drain_outbound_def split_beta
      lm_request_information_def lm_poll_information_response_def lm_drain_information_responses_def split: list.split)

definition parser_panics :: "lm_event \<Rightarrow> bool" where
  "parser_panics ev = (case ev of
     LmPdu p \<Rightarrow> cid p = L2CAP_LE_SIGNALING_CID \<and> is_panic (control_from_bytes (pdu_payload p)) | _ \<Rightarrow> False)"

lemma lm_step_ok:
  assumes "lm_inv m"
  shows "lm_inv (snd (lm_step m ev))" "is_panic (fst (lm_step m ev)) \<longleftrightarrow> parser_panics ev"
proof -
  have "lm_call_ok (lm_step m ev)" if "\<forall>p. ev \<noteq> LmPdu p"
    using that assms
    by (cases ev) (simp_all add: discard_ok register_server_ok unregister_server_inv le_connect_ok connect_enhanced_ok
        lm_reconfigure_ok lm_send_ok lm_set_reading_paused_ok lm_disconnect_ok lm_abort_inv lm_pop_ok lm_poll_ok)
  then show "lm_inv (snd (lm_step m ev))" "is_panic (fst (lm_step m ev)) \<longleftrightarrow> parser_panics ev"
    using process_pdu_ok [OF assms]
    by (cases "\<exists>p. ev = LmPdu p"; cases ev; auto simp: lm_call_ok_def parser_panics_def)+
qed

interpretation lm: machine lm_step lm_inv "\<lambda>_. True"
  using lm_step_ok(1) by unfold_locales auto

lemma lm_new_inv: "lm_inv lm_new"
  by (simp add: lm_inv_def lm_new_def reserved_def cids_ok_def bt_keys_def bt_values_def)

lemma lm_run_panics:
  "lm_inv m \<Longrightarrow> run_machine lm_step m evs = (rs, m') \<Longrightarrow> map is_panic rs = map parser_panics evs"
proof (induction evs arbitrary: m rs)
  case (Cons ev evs)
  obtain r m1 where 1: "lm_step m ev = (r, m1)" by fastforce
  obtain rs' where rs: "rs = r # rs'" "run_machine lm_step m1 evs = (rs', m')"
    using Cons.prems(2) 1 by (auto split: prod.splits)
  have "lm_inv m1" "is_panic r = parser_panics ev" using lm_step_ok [OF Cons.prems(1), of ev] 1 by auto
  with Cons.IH rs show ?case by auto
qed simp

text \<open>The CIDs in use, as a list.\<close>

definition reserved_cids :: "le_manager \<Rightarrow> u16 list" where
  "reserved_cids m = bt_keys (lm_channels m) @ map pc_source_cid (bt_values (lm_pending m)) @
     concat (map pe_source_cids (bt_values (lm_pending_enhanced m)))"

lemma mset_reserved_cids: "mset (reserved_cids m) = reserved m"
  by (simp add: reserved_cids_def reserved_def mset_concat o_def sum_mset_sum_list [symmetric])

lemma cids_ok_distinct:
  assumes "cids_ok (mset cs)" shows "distinct cs \<and> (\<forall>c \<in> set cs. in_cid_range c)"
proof -
  have "count (mset cs) a = (if a \<in> set cs then 1 else 0)" for a
  proof (cases "a \<in> set cs")
    case True
    then have "0 < count (mset cs) a" by simp
    moreover have "count (mset cs) a \<le> 1" using assms by (simp add: cids_ok_def)
    ultimately have "count (mset cs) a = 1" by linarith
    then show ?thesis using True by simp
  next
    case False
    then show ?thesis by (simp add: count_mset_0_iff)
  qed
  then show ?thesis using assms by (simp add: distinct_count_atmost_1 cids_ok_def)
qed

text \<open>
  Property C8: whatever PDUs a peer sends and whatever the application calls, a manager
  panics only on a signaling payload on which the control frame parser itself panics. At all
  times the CIDs of its channels and of its connection attempts are pairwise different
  and in the dynamic range, every channel is filed under its own CID, the credits granted to
  the peer stay within the maximum, and no channel holds back a PDU it has credit for.
\<close>

theorem le_manager_safe:
  assumes "run_machine lm_step lm_new evs = (rs, m)"
  shows "map is_panic rs = map parser_panics evs \<and> distinct (reserved_cids m) \<and>
    (\<forall>c \<in> set (reserved_cids m). in_cid_range c) \<and>
    (\<forall>c ch. bt_get (lm_channels m) c = Some ch \<longrightarrow>
       ch_source_cid ch = c \<and> ch_peer_credits ch \<le> ch_peer_max_credits ch \<and> ch_outbound_pdus ch = [] \<and>
       (ch_credits ch = 0 \<or> ch_output_sdu ch = [] \<and> ch_output_stream ch = []))"
proof -
  have inv: "lm_inv m" using lm.run_inv [OF lm_new_inv, of evs] assms by simp
  then have "cids_ok (mset (reserved_cids m))" by (simp add: lm_inv_def mset_reserved_cids)
  then show ?thesis
    using lm_run_panics [OF lm_new_inv assms] inv
    by (auto dest!: cids_ok_distinct simp: lm_inv_def channel_ok_def le_channel_inv_def le_settled_def)
qed

theorem le_manager_safe_witness:
  "\<exists>rs m. run_machine lm_step lm_new
       [LmRegister le_spec_default, LmConnect 128 le_spec_default, LmPdu \<lparr>cid = 5, pdu_payload = [1]\<rparr>] = (rs, m) \<and>
     distinct (reserved_cids m)"
  using le_manager_safe by (metis surj_pair)

text \<open>
  Property C26: the LE credit-based connection handshake. A connection request that one manager
  emits, handled by a manager with a server on that PSM, a free CID and no other channel to the same
  remote CID, leaves matching channels at both sides: each knows the other's CID, MTU, MPS and
  initial credits.
\<close>

theorem le_handshake:
  assumes "lm_inv ma" and "lm_inv mb"
    and "le_connect psm spec ma = (Ok ca, ma1)"
    and "bt_get (lm_servers mb) psm = Some server"
    and "allocate_cid mb = Ok cb" and "\<not> destination_in_use mb ca"
  shows "\<exists>mb1 ma2 a b. process_pdu (last (lm_outbound ma1)) mb = (Ok (), mb1) \<and>
    process_pdu (last (lm_outbound mb1)) ma1 = (Ok (), ma2) \<and>
    bt_get (lm_channels ma2) ca = Some a \<and> bt_get (lm_channels mb1) cb = Some b \<and>
    le_connected psm ca cb (spec\<lparr>spec_psm := Some psm\<rparr>) (spec_mtu server) (spec_mps server)
      (spec_max_credits server) = Ok a \<and>
    le_connected psm cb ca server (spec_mtu spec) (spec_mps spec) (spec_max_credits spec) = Ok b"
proof -
  define spec' where "spec' = spec\<lparr>spec_psm := Some psm\<rparr>"
  define i where "i = fst (next_identifier (ma\<lparr>lm_connection_results := bt_remove ca (lm_connection_results ma)\<rparr>))"
  define req where "req = LeCreditBasedConnectionRequest i psm ca (spec_mtu spec) (spec_mps spec) (spec_max_credits spec)"
  have psm: "psm \<noteq> 0" and valid: "le_spec_validate spec = Ok spec" and alloc: "allocate_cid ma = Ok ca"
    and ma1: "last (lm_outbound ma1) = l2cap_pdu_new L2CAP_LE_SIGNALING_CID (control_to_bytes req)"
      "bt_get (lm_pending ma1) i = Some \<lparr>pc_psm = psm, pc_source_cid = ca, pc_spec = spec'\<rparr>"
    using assms(1,3)
    by (auto simp: le_connect_def and_then_def lift_result_def split_beta Let_def queue_control_def i_def req_def
        spec'_def le_spec_validate_def next_identifier_def lm_inv_def bt_simps split: if_splits rresult.splits)
  have inv1: "lm_inv ma1" using le_connect_ok [OF assms(1), of psm spec] assms(3) by simp
  have server: "le_spec_validate server = Ok server" using assms(2,4) by (simp add: lm_inv_def)
  have cb: "in_cid_range cb" using allocate_cid_fresh [OF assms(5)] by simp
  then have "cb \<noteq> 0" by (auto simp: in_cid_range_def LE_CID_START_def)
  obtain b where b: "le_connected psm cb ca server (spec_mtu spec) (spec_mps spec) (spec_max_credits spec) = Ok b"
    using server valid by (auto simp: le_connected_def le_spec_validate_def split: if_splits)
  obtain a where a: "le_connected psm ca cb spec' (spec_mtu server) (spec_mps server) (spec_max_credits server) = Ok a"
    using server valid by (auto simp: le_connected_def le_spec_validate_def spec'_def split: if_splits)
  define rsp where "rsp = LeCreditBasedConnectionResponse i cb (spec_mtu server) (spec_mps server)
    (spec_max_credits server) LE_CONNECTION_SUCCESSFUL"
  have dec: "control_from_bytes (control_to_bytes req) = Ok req" "control_from_bytes (control_to_bytes rsp) = Ok rsp"
    by (rule control.dec_enc, simp add: req_def rsp_def)+
  define mb1 where "mb1 = snd (process_pdu (last (lm_outbound ma1)) mb)"
  have acc: "\<not> spec_mtu spec < LE_MIN_MTU" "LE_MIN_MPS \<le> spec_mps spec" "spec_mps spec \<le> LE_MAX_MPS"
    using valid by (auto simp: le_spec_validate_def split: if_splits)
  have B: "process_pdu (last (lm_outbound ma1)) mb = (Ok (), mb1)" "bt_get (lm_channels mb1) cb = Some b"
      "last (lm_outbound mb1) = l2cap_pdu_new L2CAP_LE_SIGNALING_CID (control_to_bytes rsp)"
    using assms(2,4,5,6) b acc dec(1) unfolding mb1_def ma1(1)
    by (auto simp: process_pdu_def l2cap_pdu_new_def lift_result_def and_then_def req_def on_connection_request_def
        queue_connection_response_def queue_control_def rsp_def lm_inv_def bt_simps)
  define ma2 where "ma2 = snd (process_pdu (last (lm_outbound mb1)) ma1)"
  have "process_pdu (last (lm_outbound mb1)) ma1 = (Ok (), ma2)" "bt_get (lm_channels ma2) ca = Some a"
    using inv1 ma1(2) a \<open>cb \<noteq> 0\<close> dec(2) unfolding ma2_def B(3)
    by (auto simp: process_pdu_def l2cap_pdu_new_def lift_result_def and_then_def rsp_def on_connection_response_def
        lm_inv_def bt_simps)
  then show ?thesis using B a b unfolding spec'_def by blast
qed

theorem le_handshake_witness:
  "\<exists>mb ma1 mb1 ca cb a b. register_server (le_spec_default\<lparr>spec_psm := Some 128\<rparr>) lm_new = (Ok 128, mb) \<and>
     le_connect 128 le_spec_default lm_new = (Ok ca, ma1) \<and>
     process_pdu (last (lm_outbound ma1)) mb = (Ok (), mb1) \<and>
     le_connected 128 ca cb (le_spec_default\<lparr>spec_psm := Some 128\<rparr>) 2048 2048 256 = Ok a \<and>
     le_connected 128 cb ca (le_spec_default\<lparr>spec_psm := Some 128\<rparr>) 2048 2048 256 = Ok b"
proof -
  let ?server = "le_spec_default\<lparr>spec_psm := Some 128\<rparr>"
  define mb where "mb = lm_new\<lparr>lm_servers := [(128, ?server)]\<rparr>"
  have mb: "register_server ?server lm_new = (Ok 128, mb)"
    by (simp add: register_server_def le_spec_validate_def le_spec_default_def LE_MIN_MTU_def LE_MIN_MPS_def
        LE_MAX_MPS_def and_then_def lift_result_def mb_def lm_new_def bt_contains_key_def)
  have invb: "lm_inv mb" using register_server_ok [OF lm_new_inv, of ?server] mb by simp
  have free: "cid_is_reserved m c = False" if "lm_channels m = []" "lm_pending m = []" "lm_pending_enhanced m = []" for m c
    using that by (simp add: cid_is_reserved_def bt_contains_key_def bt_values_def)
  obtain c where c: "allocate_cid lm_new = Ok c" "allocate_cid mb = Ok c"
    by (auto simp: allocate_cid_def free lm_new_def mb_def cid_range_def LE_CID_START_def LE_CID_END_def upt_conv_Cons)
  obtain ma1 where ma1: "le_connect 128 le_spec_default lm_new = (Ok c, ma1)"
    using c(1) by (simp add: le_connect_def le_spec_validate_def le_spec_default_def LE_MIN_MTU_def LE_MIN_MPS_def
        LE_MAX_MPS_def and_then_def lift_result_def split_beta Let_def)
  have get: "bt_get (lm_servers mb) 128 = Some ?server" by (simp add: mb_def bt_get_def)
  have "\<not> destination_in_use mb c" by (simp add: destination_in_use_def mb_def lm_new_def bt_values_def)
  from le_handshake [OF lm_new_inv invb ma1 get c(2) this] mb ma1 show ?thesis
    by (simp add: le_spec_default_def) blast
qed

text \<open>
  Property C36: the response handler of the basic connection procedure accepts a destination CID
  that another channel already uses, after which two channels have the same remote CID. (The
  request handlers and the enhanced response handler refuse such a CID.)
\<close>

theorem duplicate_destination:
  assumes "lm_inv m" and "bt_get (lm_pending m) i = Some p" and "bt_get (lm_channels m) c = Some ch"
    and "le_spec_validate (pc_spec p) = Ok (pc_spec p)" and "validate_mtu_mps mtu mps = Ok ()"
    and "ch_destination_cid ch \<noteq> 0"
  shows "\<exists>m' ch'. on_connection_response i (ch_destination_cid ch) mtu mps credits LE_CONNECTION_SUCCESSFUL m = (Ok (), m') \<and>
    pc_source_cid p \<noteq> c \<and> bt_get (lm_channels m') c = Some ch \<and>
    bt_get (lm_channels m') (pc_source_cid p) = Some ch' \<and> ch_destination_cid ch' = ch_destination_cid ch"
proof -
  obtain ch' where ch': "le_connected (pc_psm p) (pc_source_cid p) (ch_destination_cid ch) (pc_spec p) mtu mps credits = Ok ch'"
    using assms(4,5) by (auto simp: le_connected_def validate_mtu_mps_def split: if_splits)
  have wf: "bt_wf (lm_channels m)" "bt_wf (lm_pending m)" "cids_ok (reserved m)" using assms(1) by (auto simp: lm_inv_def)
  have "pc_source_cid p \<noteq> c"
  proof
    assume eq: "pc_source_cid p = c"
    have "c \<in># mset (bt_keys (lm_channels m))" using assms(3) by (simp add: bt_keys_get)
    moreover have "c \<in># image_mset pc_source_cid (mset (bt_values (lm_pending m)))"
      using assms(2) wf(2) eq by (auto simp: bt_values_get image_iff intro!: bexI [of _ p])
    ultimately have "2 \<le> count (reserved m) c"
      unfolding reserved_def by (simp only: count_union) (metis Suc_1 add_mono count_greater_eq_one_iff one_add_one trans_le_add1)
    then show False using wf(3) by (auto simp: cids_ok_def) (metis One_nat_def Suc_1 not_less_eq_eq)
  qed
  then show ?thesis
    using assms(2,3,6) ch' le_connected_inv(3) [OF ch'] wf(1)
    by (auto simp: on_connection_response_def LE_CONNECTION_SUCCESSFUL_def Let_def bt_simps)
qed

theorem duplicate_destination_witness:
  "\<exists>m m' ch ch'. on_connection_response 1 70 2048 2048 1 LE_CONNECTION_SUCCESSFUL m = (Ok (), m') \<and>
     bt_get (lm_channels m') 65 = Some ch \<and> bt_get (lm_channels m') 64 = Some ch' \<and>
     ch_destination_cid ch = 70 \<and> ch_destination_cid ch' = 70"
proof -
  let ?spec = le_spec_default
  have v: "le_spec_validate ?spec = Ok ?spec" "validate_mtu_mps 2048 2048 = Ok ()"
    by (simp_all add: le_spec_validate_def validate_mtu_mps_def le_spec_default_def LE_MIN_MTU_def LE_MIN_MPS_def LE_MAX_MPS_def)
  obtain ch where ch: "le_connected 128 65 70 ?spec 2048 2048 1 = Ok ch"
    using v by (auto simp: le_connected_def validate_mtu_mps_def split: if_splits)
  define p where "p = \<lparr>pc_psm = 128, pc_source_cid = 64, pc_spec = ?spec\<rparr>"
  define m where "m = lm_new\<lparr>lm_channels := [(65, ch)], lm_pending := [(1, p)]\<rparr>"
  have inv: "lm_inv m"
    using le_connected_channel_ok [OF ch]
    by (auto simp: lm_inv_def m_def lm_new_def reserved_def bt_keys_def bt_values_def bt_wf_def bt_get_def p_def
        cids_ok_def in_cid_range_def LE_CID_START_def LE_CID_END_def split: if_splits)
  have get: "bt_get (lm_pending m) 1 = Some p" "bt_get (lm_channels m) 65 = Some ch"
    by (simp_all add: m_def bt_get_def)
  have "ch_destination_cid ch = 70" using le_connected_inv [OF ch] by simp
  with duplicate_destination [OF inv get _ v(2), of 1] v(1) show ?thesis
    by (auto simp: p_def)
qed

end
