(* ===== verification/Classic.thy ===== *)
theory Classic
  imports Ertm_Engine Ordered_Map L2cap_Signaling
begin

text \<open>
  The BR/EDR channel manager of \<open>bumble-l2cap/src/classic.rs\<close>: the channel specifications, the
  channel record, \<open>ChannelManager\<close> as a record and one definition per method and signaling handler.
  A channel in Enhanced Retransmission Mode owns an engine of \<open>Ertm\<close>. A mutation through
  \<open>get_mut\<close> is an insertion of the changed channel under the same CID.
\<close>

section \<open>Constants\<close>

definition L2CAP_SIGNALING_CID :: u16 where "L2CAP_SIGNALING_CID = 1"
definition L2CAP_MIN_BR_EDR_MTU :: u16 where "L2CAP_MIN_BR_EDR_MTU = 48"
definition L2CAP_DEFAULT_MTU :: u16 where "L2CAP_DEFAULT_MTU = 2048"
definition L2CAP_DEFAULT_MPS :: u16 where "L2CAP_DEFAULT_MPS = 1010"
definition ACL_U_CID_START :: nat where "ACL_U_CID_START = 0x40"
definition ACL_U_CID_END :: nat where "ACL_U_CID_END = 0xFFFF"
definition PSM_DYNAMIC_START :: nat where "PSM_DYNAMIC_START = 0x1001"
definition PSM_DYNAMIC_END :: nat where "PSM_DYNAMIC_END = 0xFFFF"
definition RETRANSMISSION_MODE_ENHANCED :: u8 where "RETRANSMISSION_MODE_ENHANCED = 3"

definition CONNECTION_SUCCESSFUL :: u16 where "CONNECTION_SUCCESSFUL = 0"
definition CONNECTION_REFUSED_PSM :: u16 where "CONNECTION_REFUSED_PSM = 2"
definition CONNECTION_REFUSED_RESOURCES :: u16 where "CONNECTION_REFUSED_RESOURCES = 4"

definition CONFIGURATION_SUCCESS :: u16 where "CONFIGURATION_SUCCESS = 0"
definition CONFIGURATION_UNACCEPTABLE :: u16 where "CONFIGURATION_UNACCEPTABLE = 1"
definition CONFIGURATION_UNKNOWN :: u16 where "CONFIGURATION_UNKNOWN = 3"

definition OPTION_MTU :: u8 where "OPTION_MTU = 1"
definition OPTION_RFC :: u8 where "OPTION_RFC = 4"
definition OPTION_FCS :: u8 where "OPTION_FCS = 5"

lemmas config_results = CONFIGURATION_SUCCESS_def CONFIGURATION_UNACCEPTABLE_def CONFIGURATION_UNKNOWN_def

lemmas config_options = OPTION_MTU_def OPTION_RFC_def OPTION_FCS_def

section \<open>Channel specifications\<close>

record classic_spec =
  cs_mtu :: u16

definition classic_spec_default :: classic_spec where
  "classic_spec_default = \<lparr>cs_mtu = L2CAP_DEFAULT_MTU\<rparr>"

record ertm_spec =
  es_mtu :: u16
  es_mps :: u16
  es_tx_window_size :: u8
  es_max_retransmissions :: u8
  es_retransmission_timeout_ms :: u16
  es_monitor_timeout_ms :: u16
  es_fcs_enabled :: bool

definition ertm_spec_default :: ertm_spec where
  "ertm_spec_default = \<lparr>es_mtu = L2CAP_DEFAULT_MTU, es_mps = L2CAP_DEFAULT_MPS, es_tx_window_size = 63,
     es_max_retransmissions = 1, es_retransmission_timeout_ms = 2000, es_monitor_timeout_ms = 12000,
     es_fcs_enabled = False\<rparr>"

datatype channel_mode = Basic | EnhancedRetransmission

datatype channel_spec = BasicSpec classic_spec | ErtmSpec ertm_spec

fun channel_spec_mtu :: "channel_spec \<Rightarrow> u16" where
  "channel_spec_mtu (BasicSpec spec) = cs_mtu spec"
| "channel_spec_mtu (ErtmSpec spec) = es_mtu spec"

fun channel_spec_mode :: "channel_spec \<Rightarrow> channel_mode" where
  "channel_spec_mode (BasicSpec spec) = Basic"
| "channel_spec_mode (ErtmSpec spec) = EnhancedRetransmission"

fun channel_spec_ertm :: "channel_spec \<Rightarrow> ertm_spec option" where
  "channel_spec_ertm (BasicSpec spec) = None"
| "channel_spec_ertm (ErtmSpec spec) = Some spec"

definition validate_spec :: "classic_spec \<Rightarrow> unit result" where
  "validate_spec spec =
     (if cs_mtu spec < L2CAP_MIN_BR_EDR_MTU then
        invalid_fmt ''Classic MTU must be at least {L2CAP_MIN_BR_EDR_MTU}'' [unat L2CAP_MIN_BR_EDR_MTU]
      else Ok ())"

definition validate_ertm_spec :: "ertm_spec \<Rightarrow> unit result" where
  "validate_ertm_spec spec =
     bind_result (validate_spec \<lparr>cs_mtu = es_mtu spec\<rparr>) (\<lambda>_.
       if es_mps spec = 0 then invalid ''ERTM MPS cannot be zero''
       else if \<not> (1 \<le> es_tx_window_size spec \<and> es_tx_window_size spec < 64) then
         invalid ''ERTM transmit window must be between 1 and 63''
       else if es_retransmission_timeout_ms spec = 0 \<or> es_monitor_timeout_ms spec = 0 then
         invalid ''ERTM timeout cannot be zero''
       else Ok ())"

section \<open>The retransmission and flow control option\<close>

record ertm_option =
  eo_mode :: u8
  eo_tx_window_size :: u8
  eo_max_retransmissions :: u8
  eo_mps :: u16

definition encode_ertm_option :: "ertm_spec \<Rightarrow> bytes" where
  "encode_ertm_option spec =
     [RETRANSMISSION_MODE_ENHANCED, es_tx_window_size spec, es_max_retransmissions spec] @
     u16_to_le_bytes (es_retransmission_timeout_ms spec) @ u16_to_le_bytes (es_monitor_timeout_ms spec) @
     u16_to_le_bytes (es_mps spec)"

definition decode_ertm_option :: "bytes \<Rightarrow> ertm_option option" where
  "decode_ertm_option v =
     (if length v = 9 then
        Some \<lparr>eo_mode = v ! 0, eo_tx_window_size = v ! 1, eo_max_retransmissions = v ! 2,
              eo_mps = u16_from_le_bytes (v ! 7) (v ! 8)\<rparr>
      else None)"

section \<open>Channels\<close>

datatype classic_state = CClosed | CWaitConnectResponse | CConfiguring | COpen | CWaitDisconnect

record classic_channel =
  cc_psm :: u32
  cc_source_cid :: u16
  cc_destination_cid :: u16
  cc_mtu :: u16
  cc_peer_mtu :: u16
  cc_peer_mps :: u16
  cc_mode :: channel_mode
  cc_fcs_enabled :: bool
  cc_state :: classic_state
  cc_connection_result :: "u16 option"
  cc_incoming :: bool
  cc_peer_configuration_received :: bool
  cc_configuration_response_received :: bool
  cc_open_announced :: bool
  cc_spec :: channel_spec
  cc_ertm :: "ertm_engine option"
  cc_received :: "bytes list"

definition classic_outgoing :: "u32 \<Rightarrow> u16 \<Rightarrow> channel_spec \<Rightarrow> classic_channel" where
  "classic_outgoing psm source spec =
     \<lparr>cc_psm = psm, cc_source_cid = source, cc_destination_cid = 0, cc_mtu = channel_spec_mtu spec,
      cc_peer_mtu = L2CAP_MIN_BR_EDR_MTU, cc_peer_mps = L2CAP_DEFAULT_MPS, cc_mode = channel_spec_mode spec,
      cc_fcs_enabled = False, cc_state = CWaitConnectResponse, cc_connection_result = None,
      cc_incoming = False, cc_peer_configuration_received = False,
      cc_configuration_response_received = False, cc_open_announced = False, cc_spec = spec,
      cc_ertm = None, cc_received = []\<rparr>"

definition classic_incoming :: "u32 \<Rightarrow> u16 \<Rightarrow> u16 \<Rightarrow> channel_spec \<Rightarrow> classic_channel" where
  "classic_incoming psm source destination spec =
     \<lparr>cc_psm = psm, cc_source_cid = source, cc_destination_cid = destination, cc_mtu = channel_spec_mtu spec,
      cc_peer_mtu = L2CAP_MIN_BR_EDR_MTU, cc_peer_mps = L2CAP_DEFAULT_MPS, cc_mode = channel_spec_mode spec,
      cc_fcs_enabled = False, cc_state = CConfiguring, cc_connection_result = Some CONNECTION_SUCCESSFUL,
      cc_incoming = True, cc_peer_configuration_received = False,
      cc_configuration_response_received = False, cc_open_announced = False, cc_spec = spec,
      cc_ertm = None, cc_received = []\<rparr>"

definition classic_is_open :: "classic_channel \<Rightarrow> bool" where
  "classic_is_open ch \<longleftrightarrow> cc_state ch = COpen"

definition classic_pop_received :: "classic_channel \<Rightarrow> bytes option \<times> classic_channel" where
  "classic_pop_received ch =
     (case cc_received ch of [] \<Rightarrow> (None, ch) | s # ss \<Rightarrow> (Some s, ch\<lparr>cc_received := ss\<rparr>))"

section \<open>The manager\<close>

record channel_manager =
  cm_servers :: "(u32, channel_spec) btree_map"
  cm_channels :: "(u16, classic_channel) btree_map"
  cm_accepted_channels :: "u16 list"
  cm_outbound :: "l2cap_pdu list"
  cm_information :: information_capabilities
  cm_information_responses :: "information_reply list"
  cm_identifier :: u8

type_synonym 'a cm_op = "(channel_manager, 'a, rust_error) op"

definition cm_new :: channel_manager where
  "cm_new = \<lparr>cm_servers = [], cm_channels = [], cm_accepted_channels = [], cm_outbound = [],
     cm_information = information_default, cm_information_responses = [], cm_identifier = 0\<rparr>"

definition cm_with_information_capabilities :: "information_capabilities \<Rightarrow> channel_manager" where
  "cm_with_information_capabilities info = cm_new\<lparr>cm_information := info\<rparr>"

definition cm_queue_control :: "control_frame \<Rightarrow> channel_manager \<Rightarrow> channel_manager" where
  "cm_queue_control frame m =
     m\<lparr>cm_outbound := cm_outbound m @ [l2cap_pdu_new L2CAP_SIGNALING_CID (control_to_bytes frame)]\<rparr>"

definition cm_next_identifier :: "channel_manager \<Rightarrow> u8 \<times> channel_manager" where
  "cm_next_identifier m =
     (let i = cm_identifier m + 1; i = (if i = 0 then 1 else i) in (i, m\<lparr>cm_identifier := i\<rparr>))"

definition acl_u_cids :: "u16 list" where
  "acl_u_cids = map of_nat [ACL_U_CID_START..<Suc ACL_U_CID_END]"

definition cm_allocate_cid :: "channel_manager \<Rightarrow> u16 result" where
  "cm_allocate_cid m =
     (case find (\<lambda>c. \<not> bt_contains_key (cm_channels m) c) acl_u_cids of
        Some c \<Rightarrow> Ok c | None \<Rightarrow> invalid ''no free Classic CID'')"

definition put_channel :: "u16 \<Rightarrow> classic_channel \<Rightarrow> channel_manager \<Rightarrow> channel_manager" where
  "put_channel c ch m = m\<lparr>cm_channels := bt_insert c ch (cm_channels m)\<rparr>"

abbreviation channel_not_found :: "u16 \<Rightarrow> 'a result" where
  "channel_not_found c \<equiv> invalid_fmt ''channel not found for CID {source_cid:#06x}'' [unat c]"

subsection \<open>Opening, configuration and the ERTM engine\<close>

definition cm_maybe_open :: "u16 \<Rightarrow> channel_manager \<Rightarrow> channel_manager" where
  "cm_maybe_open c m =
     (case bt_get (cm_channels m) c of
        None \<Rightarrow> m
      | Some ch \<Rightarrow>
          if cc_peer_configuration_received ch \<and> cc_configuration_response_received ch \<and>
             cc_state ch = CConfiguring then
            let ch1 = ch\<lparr>cc_state := COpen\<rparr>
            in if cc_incoming ch1 \<and> \<not> cc_open_announced ch1 then
                 (put_channel c (ch1\<lparr>cc_open_announced := True\<rparr>) m)
                   \<lparr>cm_accepted_channels := cm_accepted_channels m @ [c]\<rparr>
               else put_channel c ch1 m
          else m)"

definition configure_request_options :: "channel_spec \<Rightarrow> configuration_option list" where
  "configure_request_options spec =
     configuration_option_new OPTION_MTU (u16_to_le_bytes (channel_spec_mtu spec)) #
     (case channel_spec_ertm spec of
        None \<Rightarrow> []
      | Some ertm \<Rightarrow> configuration_option_new OPTION_RFC (encode_ertm_option ertm) #
          (if es_fcs_enabled ertm then [configuration_option_new OPTION_FCS [1]] else []))"

definition cm_queue_configure_request :: "u16 \<Rightarrow> unit cm_op" where
  "cm_queue_configure_request c m =
     (case bt_get (cm_channels m) c of
        None \<Rightarrow> (channel_not_found c, m)
      | Some ch \<Rightarrow>
          let (i, m1) = cm_next_identifier m
          in and_then (lift_result (encode_configuration_options (configure_request_options (cc_spec ch))))
               (\<lambda>options m. (Ok (), cm_queue_control (ConfigureRequest i (cc_destination_cid ch) 0 options) m)) m1)"

text \<open>The last loop of \<open>flush_ertm\<close>: a frame too large for its FCS ends it with an error.\<close>

fun cm_queue_frames :: "u16 \<Rightarrow> bool \<Rightarrow> bytes list \<Rightarrow> unit cm_op" where
  "cm_queue_frames destination fcs [] m = (Ok (), m)"
| "cm_queue_frames destination fcs (frame # frames) m =
     and_then (lift_result (if fcs then append_fcs destination frame else Ok frame)) (\<lambda>payload m.
       cm_queue_frames destination fcs frames
         (m\<lparr>cm_outbound := cm_outbound m @ [l2cap_pdu_new destination payload]\<rparr>)) m"

text \<open>The loop over \<open>pop_received\<close> takes all SDUs of the engine, in order.\<close>

definition cm_flush_ertm :: "u16 \<Rightarrow> unit cm_op" where
  "cm_flush_ertm c m =
     (case bt_get (cm_channels m) c of
        None \<Rightarrow> (channel_not_found c, m)
      | Some ch \<Rightarrow>
          (case cc_ertm ch of
             None \<Rightarrow> (invalid ''channel is not using ERTM'', m)
           | Some e \<Rightarrow>
               cm_queue_frames (cc_destination_cid ch) (cc_fcs_enabled ch) (outbound e)
                 (put_channel c (ch\<lparr>cc_ertm := Some (e\<lparr>outbound := [], received := []\<rparr>),
                                   cc_received := cc_received ch @ received e\<rparr>) m)))"

text \<open>A call on the engine of a channel already looked up.\<close>

definition cm_engine_call ::
  "u16 \<Rightarrow> classic_channel \<Rightarrow> ertm_engine \<Rightarrow> unit ertm_op \<Rightarrow> unit cm_op" where
  "cm_engine_call c ch e f m =
     (let (r, e') = f e in (r, put_channel c (ch\<lparr>cc_ertm := Some e'\<rparr>) m))"

section \<open>The application interface\<close>

definition cm_request_information :: "u16 \<Rightarrow> channel_manager \<Rightarrow> u8 \<times> channel_manager" where
  "cm_request_information info_type m =
     (let (i, m1) = cm_next_identifier m in (i, cm_queue_control (InformationRequest i info_type) m1))"

definition cm_poll_information_response :: "channel_manager \<Rightarrow> information_reply option \<times> channel_manager" where
  "cm_poll_information_response m =
     (case cm_information_responses m of
        [] \<Rightarrow> (None, m) | r # rs \<Rightarrow> (Some r, m\<lparr>cm_information_responses := rs\<rparr>))"

definition cm_drain_information_responses :: "channel_manager \<Rightarrow> information_reply list \<times> channel_manager" where
  "cm_drain_information_responses m = (cm_information_responses m, m\<lparr>cm_information_responses := []\<rparr>)"

definition dynamic_psms :: "u32 list" where
  "dynamic_psms = map (\<lambda>i. of_nat (PSM_DYNAMIC_START + 2 * i)) [0..<Suc ((PSM_DYNAMIC_END - PSM_DYNAMIC_START) div 2)]"

definition cm_register_server_with_spec :: "u32 option \<Rightarrow> channel_spec \<Rightarrow> u32 cm_op" where
  "cm_register_server_with_spec psm spec m =
     and_then (lift_result
       (case psm of
          Some psm \<Rightarrow> bind_result (validate_psm psm) (\<lambda>_. Ok psm)
        | None \<Rightarrow>
            (case find (\<lambda>p. is_ok (validate_psm p) \<and> \<not> bt_contains_key (cm_servers m) p) dynamic_psms of
               Some psm \<Rightarrow> Ok psm | None \<Rightarrow> invalid ''no free Classic PSM''))) (\<lambda>psm m.
     if bt_contains_key (cm_servers m) psm then
       (invalid_fmt ''PSM {psm:#x} is already in use'' [unat psm], m)
     else (Ok psm, m\<lparr>cm_servers := bt_insert psm spec (cm_servers m)\<rparr>)) m"

definition cm_register_server :: "u32 option \<Rightarrow> classic_spec \<Rightarrow> u32 cm_op" where
  "cm_register_server psm spec =
     and_then (lift_result (validate_spec spec)) (\<lambda>_. cm_register_server_with_spec psm (BasicSpec spec))"

definition cm_register_ertm_server :: "u32 option \<Rightarrow> ertm_spec \<Rightarrow> u32 cm_op" where
  "cm_register_ertm_server psm spec =
     and_then (lift_result (validate_ertm_spec spec)) (\<lambda>_. cm_register_server_with_spec psm (ErtmSpec spec))"

definition cm_unregister_server :: "u32 \<Rightarrow> channel_manager \<Rightarrow> bool \<times> channel_manager" where
  "cm_unregister_server psm m =
     (bt_contains_key (cm_servers m) psm, m\<lparr>cm_servers := bt_remove psm (cm_servers m)\<rparr>)"

definition cm_connect_with_spec :: "u32 \<Rightarrow> channel_spec \<Rightarrow> u16 cm_op" where
  "cm_connect_with_spec psm spec m =
     and_then (lift_result (cm_allocate_cid m)) (\<lambda>source m.
       let (i, m1) = cm_next_identifier m
       in (Ok source, cm_queue_control (ConnectionRequest i psm source)
             (put_channel source (classic_outgoing psm source spec) m1))) m"

definition cm_connect :: "u32 \<Rightarrow> classic_spec \<Rightarrow> u16 cm_op" where
  "cm_connect psm spec =
     and_then (lift_result (validate_psm psm)) (\<lambda>_.
     and_then (lift_result (validate_spec spec)) (\<lambda>_. cm_connect_with_spec psm (BasicSpec spec)))"

definition cm_connect_ertm :: "u32 \<Rightarrow> ertm_spec \<Rightarrow> u16 cm_op" where
  "cm_connect_ertm psm spec =
     and_then (lift_result (validate_psm psm)) (\<lambda>_.
     and_then (lift_result (validate_ertm_spec spec)) (\<lambda>_. cm_connect_with_spec psm (ErtmSpec spec)))"

definition cm_poll_accepted_channel :: "channel_manager \<Rightarrow> u16 option \<times> channel_manager" where
  "cm_poll_accepted_channel m =
     (case cm_accepted_channels m of [] \<Rightarrow> (None, m) | c # cs \<Rightarrow> (Some c, m\<lparr>cm_accepted_channels := cs\<rparr>))"

definition cm_poll_outbound :: "channel_manager \<Rightarrow> l2cap_pdu option \<times> channel_manager" where
  "cm_poll_outbound m =
     (case cm_outbound m of [] \<Rightarrow> (None, m) | p # ps \<Rightarrow> (Some p, m\<lparr>cm_outbound := ps\<rparr>))"

definition cm_drain_outbound :: "channel_manager \<Rightarrow> l2cap_pdu list \<times> channel_manager" where
  "cm_drain_outbound m = (cm_outbound m, m\<lparr>cm_outbound := []\<rparr>)"

text \<open>The loop of \<open>tick\<close> over the CIDs collected first; the two \<open>expect\<close>s are panics.\<close>

fun cm_tick_all :: "u32 \<Rightarrow> u16 list \<Rightarrow> unit cm_op" where
  "cm_tick_all ticks [] m = (Ok (), m)"
| "cm_tick_all ticks (c # cs) m =
     (case bt_get (cm_channels m) c of
        None \<Rightarrow> (Panic ''channel was just enumerated'', m)
      | Some ch \<Rightarrow>
          (case cc_ertm ch of
             None \<Rightarrow> (Panic ''ERTM engine was just checked'', m)
           | Some e \<Rightarrow>
               and_then (cm_engine_call c ch e (ertm_tick ticks)) (\<lambda>_.
               and_then (cm_flush_ertm c) (\<lambda>_. cm_tick_all ticks cs)) m))"

definition cm_ertm_cids :: "channel_manager \<Rightarrow> u16 list" where
  "cm_ertm_cids m = map fst (filter (\<lambda>(c, ch). cc_ertm ch \<noteq> None) (cm_channels m))"

definition cm_tick :: "u32 \<Rightarrow> unit cm_op" where
  "cm_tick ticks m = cm_tick_all ticks (cm_ertm_cids m) m"

definition cm_set_receiver_busy :: "u16 \<Rightarrow> bool \<Rightarrow> unit cm_op" where
  "cm_set_receiver_busy c busy m =
     (case bt_get (cm_channels m) c of
        None \<Rightarrow> (channel_not_found c, m)
      | Some ch \<Rightarrow>
          (case cc_ertm ch of
             None \<Rightarrow> (invalid ''channel is not using ERTM'', m)
           | Some e \<Rightarrow> and_then (cm_engine_call c ch e (set_receiver_busy busy)) (\<lambda>_. cm_flush_ertm c) m))"

definition cm_ertm_pending_frames :: "channel_manager \<Rightarrow> u16 \<Rightarrow> nat option" where
  "cm_ertm_pending_frames m c =
     (case bt_get (cm_channels m) c of None \<Rightarrow> None | Some ch \<Rightarrow> map_option pending_frames (cc_ertm ch))"

definition cm_send :: "u16 \<Rightarrow> bytes \<Rightarrow> unit cm_op" where
  "cm_send c sdu m =
     (case bt_get (cm_channels m) c of
        None \<Rightarrow> (channel_not_found c, m)
      | Some ch \<Rightarrow>
          if cc_state ch \<noteq> COpen then (invalid ''channel not open'', m)
          else case cc_ertm ch of
            Some e \<Rightarrow> and_then (cm_engine_call c ch e (send_sdu sdu)) (\<lambda>_. cm_flush_ertm c) m
          | None \<Rightarrow>
              if length sdu > unat (cc_peer_mtu ch) then
                (invalid_fmt ''SDU exceeds peer MTU {}'' [unat (cc_peer_mtu ch)], m)
              else (Ok (), m\<lparr>cm_outbound := cm_outbound m @ [l2cap_pdu_new (cc_destination_cid ch) sdu]\<rparr>))"

definition cm_disconnect :: "u16 \<Rightarrow> unit cm_op" where
  "cm_disconnect c m =
     (case bt_get (cm_channels m) c of
        None \<Rightarrow> (channel_not_found c, m)
      | Some ch \<Rightarrow>
          if cc_state ch \<noteq> COpen then (invalid ''channel not open'', m)
          else let (i, m1) = cm_next_identifier (put_channel c (ch\<lparr>cc_state := CWaitDisconnect\<rparr>) m)
               in (Ok (), cm_queue_control (DisconnectionRequest i (cc_destination_cid ch) c) m1))"

section \<open>Signaling\<close>

definition cm_on_connection_request :: "u8 \<Rightarrow> u32 \<Rightarrow> u16 \<Rightarrow> unit cm_op" where
  "cm_on_connection_request i psm remote m =
     (case bt_get (cm_servers m) psm of
        None \<Rightarrow> (Ok (), cm_queue_control (ConnectionResponse i 0 remote CONNECTION_REFUSED_PSM 0) m)
      | Some spec \<Rightarrow>
          (case cm_allocate_cid m of
             Ok c \<Rightarrow>
               cm_queue_configure_request c
                 (cm_queue_control (ConnectionResponse i c remote CONNECTION_SUCCESSFUL 0)
                   (put_channel c (classic_incoming psm c remote spec) m))
           | Err e \<Rightarrow> (Ok (), cm_queue_control (ConnectionResponse i 0 remote CONNECTION_REFUSED_RESOURCES 0) m)
           | Panic p \<Rightarrow> (Panic p, m)))"

definition cm_on_connection_response :: "u16 \<Rightarrow> u16 \<Rightarrow> u16 \<Rightarrow> unit cm_op" where
  "cm_on_connection_response destination source result m =
     (case bt_get (cm_channels m) source of
        None \<Rightarrow> (invalid_fmt ''connection response for unknown CID {source_cid:#06x}'' [unat source], m)
      | Some ch \<Rightarrow>
          if cc_state ch \<noteq> CWaitConnectResponse then (invalid ''connection response in invalid state'', m)
          else let ch1 = ch\<lparr>cc_connection_result := Some result\<rparr>
               in if result \<noteq> CONNECTION_SUCCESSFUL then
                    (Ok (), put_channel source (ch1\<lparr>cc_state := CClosed\<rparr>) m)
                  else cm_queue_configure_request source
                    (put_channel source (ch1\<lparr>cc_destination_cid := destination, cc_state := CConfiguring\<rparr>) m))"

text \<open>
  The option loop of \<open>on_configure_request\<close>: what it has gathered so far, and one iteration; a
  \<open>break\<close> drops the options not yet looked at.
\<close>

record option_scan =
  sc_channel :: classic_channel
  sc_result :: u16
  sc_response :: "configuration_option list"
  sc_ertm :: "ertm_option option"
  sc_fcs :: "bool option"

definition mtu_option_verdict :: "configuration_option \<Rightarrow> option_scan \<Rightarrow> option_scan \<times> bool" where
  "mtu_option_verdict opt s =
     (if length (option_value opt) \<noteq> 2 then
        (s\<lparr>sc_result := CONFIGURATION_UNACCEPTABLE, sc_response := [opt]\<rparr>, True)
      else let mtu = u16_from_le_bytes (option_value opt ! 0) (option_value opt ! 1)
           in if mtu < L2CAP_MIN_BR_EDR_MTU then
                (s\<lparr>sc_result := CONFIGURATION_UNACCEPTABLE,
                   sc_response := [configuration_option_new OPTION_MTU (u16_to_le_bytes L2CAP_MIN_BR_EDR_MTU)]\<rparr>, True)
              else (s\<lparr>sc_channel := (sc_channel s)\<lparr>cc_peer_mtu := mtu\<rparr>, sc_response := sc_response s @ [opt]\<rparr>, False))"

definition expected_mode :: "channel_mode \<Rightarrow> u8" where
  "expected_mode mode = (case mode of Basic \<Rightarrow> 0 | EnhancedRetransmission \<Rightarrow> RETRANSMISSION_MODE_ENHANCED)"

definition rfc_option_verdict :: "configuration_option \<Rightarrow> option_scan \<Rightarrow> option_scan \<times> bool" where
  "rfc_option_verdict opt s =
     (case decode_ertm_option (option_value opt) of
        None \<Rightarrow> (s\<lparr>sc_result := CONFIGURATION_UNACCEPTABLE, sc_response := [opt]\<rparr>, True)
      | Some p \<Rightarrow>
          if eo_mode p \<noteq> expected_mode (cc_mode (sc_channel s)) \<or>
             (eo_mode p = RETRANSMISSION_MODE_ENHANCED \<and>
              (eo_tx_window_size p = 0 \<or> eo_tx_window_size p \<ge> 64 \<or> eo_mps p = 0)) then
            (s\<lparr>sc_result := CONFIGURATION_UNACCEPTABLE, sc_response := [opt]\<rparr>, True)
          else (s\<lparr>sc_ertm := Some p, sc_response := sc_response s @ [opt]\<rparr>, False))"

definition fcs_option_verdict :: "configuration_option \<Rightarrow> option_scan \<Rightarrow> option_scan \<times> bool" where
  "fcs_option_verdict opt s =
     (if length (option_value opt) \<noteq> 1 \<or> option_value opt ! 0 > 1 then
        (s\<lparr>sc_result := CONFIGURATION_UNACCEPTABLE, sc_response := [opt]\<rparr>, True)
      else (s\<lparr>sc_fcs := Some (option_value opt ! 0 \<noteq> 0), sc_response := sc_response s @ [opt]\<rparr>, False))"

definition scan_option :: "configuration_option \<Rightarrow> option_scan \<Rightarrow> option_scan \<times> bool" where
  "scan_option opt s =
     (if option_type opt = OPTION_MTU then mtu_option_verdict opt s
      else if option_type opt = OPTION_RFC then rfc_option_verdict opt s
      else if option_type opt = OPTION_FCS then fcs_option_verdict opt s
      else if \<not> hint opt then (s\<lparr>sc_result := CONFIGURATION_UNKNOWN, sc_response := [opt]\<rparr>, True)
      else (s, False))"

fun scan_options :: "configuration_option list \<Rightarrow> option_scan \<Rightarrow> option_scan" where
  "scan_options [] s = s"
| "scan_options (opt # opts) s =
     (let (s1, stop) = scan_option opt s in if stop then s1 else scan_options opts s1)"

text \<open>
  The decision after the loop, for a request with no continuation flag. An error of
  \<open>ErtmEngine::new\<close> leaves the handler at once, with the MPS and the FCS flag already set.
\<close>

definition new_engine_config :: "ertm_spec \<Rightarrow> ertm_option \<Rightarrow> ertm_config" where
  "new_engine_config spec p =
     \<lparr>local_mtu = 65535, peer_mtu = 65535, local_mps = es_mps spec, peer_mps = eo_mps p,
      tx_window_size = eo_tx_window_size p, max_retransmissions = eo_max_retransmissions p,
      retransmission_timeout_ticks = ucast (es_retransmission_timeout_ms spec)\<rparr>"

definition negotiate :: "(option_scan, unit, rust_error) op" where
  "negotiate s =
     (case channel_spec_ertm (cc_spec (sc_channel s)) of
        Some spec \<Rightarrow>
          (case sc_ertm s of
             Some p \<Rightarrow>
               if (case sc_fcs s of None \<Rightarrow> False | Some b \<Rightarrow> b) \<noteq> es_fcs_enabled spec then
                 (Ok (), s\<lparr>sc_result := CONFIGURATION_UNACCEPTABLE,
                           sc_response := [configuration_option_new OPTION_FCS
                             [if es_fcs_enabled spec then 1 else 0]]\<rparr>)
               else let ch = (sc_channel s)\<lparr>cc_peer_mps := eo_mps p, cc_fcs_enabled := es_fcs_enabled spec\<rparr>
                    in (case ertm_new (new_engine_config spec p) of
                          Ok e \<Rightarrow> (Ok (), s\<lparr>sc_channel := ch\<lparr>cc_ertm := Some e\<rparr>\<rparr>)
                        | Err x \<Rightarrow> (Err x, s\<lparr>sc_channel := ch\<rparr>)
                        | Panic x \<Rightarrow> (Panic x, s\<lparr>sc_channel := ch\<rparr>))
           | None \<Rightarrow>
               (Ok (), s\<lparr>sc_result := CONFIGURATION_UNACCEPTABLE,
                         sc_response := [configuration_option_new OPTION_RFC (encode_ertm_option spec)]\<rparr>))
      | None \<Rightarrow>
          if sc_ertm s \<noteq> None \<or> sc_fcs s = Some True then (Ok (), s\<lparr>sc_result := CONFIGURATION_UNACCEPTABLE\<rparr>)
          else (Ok (), s))"

definition conclude :: "option_scan \<Rightarrow> option_scan" where
  "conclude s =
     (if sc_result s = CONFIGURATION_SUCCESS then
        s\<lparr>sc_channel := (sc_channel s)\<lparr>cc_peer_configuration_received := True\<rparr>\<rparr>
      else s\<lparr>sc_channel := (sc_channel s)\<lparr>cc_state := CClosed, cc_connection_result := Some (sc_result s)\<rparr>\<rparr>)"

definition configure_channel :: "u16 \<Rightarrow> configuration_option list \<Rightarrow> classic_channel \<Rightarrow> unit result \<times> option_scan" where
  "configure_channel flags options ch =
     (let s = scan_options options \<lparr>sc_channel = ch, sc_result = CONFIGURATION_SUCCESS, sc_response = [],
                sc_ertm = None, sc_fcs = None\<rparr>
      in if sc_result s = CONFIGURATION_SUCCESS \<and> flags AND 1 = 0 then
           and_then negotiate (\<lambda>_ s. (Ok (), conclude s)) s
         else (Ok (), s))"

definition cm_on_configure_request :: "u8 \<Rightarrow> u16 \<Rightarrow> u16 \<Rightarrow> bytes \<Rightarrow> unit cm_op" where
  "cm_on_configure_request i c flags encoded =
     and_then (lift_result (decode_configuration_options encoded)) (\<lambda>options m.
       case bt_get (cm_channels m) c of
         None \<Rightarrow> (invalid_fmt ''configuration request for unknown CID {local_cid:#06x}'' [unat c], m)
       | Some ch \<Rightarrow>
           let (r, s) = configure_channel flags options ch; m1 = put_channel c (sc_channel s) m
           in and_then (lift_result r) (\<lambda>_.
              and_then (lift_result (encode_configuration_options (sc_response s))) (\<lambda>response m.
                (Ok (), cm_maybe_open c
                   (cm_queue_control (ConfigureResponse i (cc_destination_cid ch) 0 (sc_result s) response) m)))) m1)"

definition cm_on_configure_response :: "u16 \<Rightarrow> u16 \<Rightarrow> unit cm_op" where
  "cm_on_configure_response c result m =
     (case bt_get (cm_channels m) c of
        None \<Rightarrow> (invalid_fmt ''configuration response for unknown CID {local_cid:#06x}'' [unat c], m)
      | Some ch \<Rightarrow>
          (Ok (), cm_maybe_open c (put_channel c
             (if result = CONFIGURATION_SUCCESS then ch\<lparr>cc_configuration_response_received := True\<rparr>
              else ch\<lparr>cc_connection_result := Some result, cc_state := CClosed\<rparr>) m)))"

definition cm_on_disconnection_request :: "u8 \<Rightarrow> u16 \<Rightarrow> u16 \<Rightarrow> unit cm_op" where
  "cm_on_disconnection_request i c remote m =
     (case bt_get (cm_channels m) c of
        None \<Rightarrow> (invalid_fmt ''disconnection request for unknown CID {local_cid:#06x}'' [unat c], m)
      | Some ch \<Rightarrow>
          if cc_destination_cid ch \<noteq> remote then (invalid ''disconnection CID mismatch'', m)
          else (Ok (), cm_queue_control (DisconnectionResponse i c remote)
                  (put_channel c (ch\<lparr>cc_state := CClosed\<rparr>) m)))"

definition cm_on_disconnection_response :: "u16 \<Rightarrow> u16 \<Rightarrow> unit cm_op" where
  "cm_on_disconnection_response destination source m =
     (case bt_get (cm_channels m) source of
        None \<Rightarrow> (invalid_fmt ''disconnection response for unknown CID {source_cid:#06x}'' [unat source], m)
      | Some ch \<Rightarrow>
          if cc_destination_cid ch \<noteq> destination then (invalid ''disconnection CID mismatch'', m)
          else (Ok (), put_channel source (ch\<lparr>cc_state := CClosed\<rparr>) m))"

fun cm_process_control :: "control_frame \<Rightarrow> unit cm_op" where
  "cm_process_control (ConnectionRequest i psm source) m = cm_on_connection_request i psm source m"
| "cm_process_control (ConnectionResponse i destination source result status) m =
     cm_on_connection_response destination source result m"
| "cm_process_control (ConfigureRequest i destination flags options) m =
     cm_on_configure_request i destination flags options m"
| "cm_process_control (ConfigureResponse i source flags result options) m = cm_on_configure_response source result m"
| "cm_process_control (DisconnectionRequest i destination source) m =
     cm_on_disconnection_request i destination source m"
| "cm_process_control (DisconnectionResponse i destination source) m =
     cm_on_disconnection_response destination source m"
| "cm_process_control (EchoRequest i data) m = (Ok (), cm_queue_control (EchoResponse i data) m)"
| "cm_process_control (InformationRequest i info_type) m =
     (Ok (), cm_queue_control (information_response (cm_information m) i info_type) m)"
| "cm_process_control (InformationResponse i info_type result data) m =
     (Ok (), m\<lparr>cm_information_responses := cm_information_responses m @
        [\<lparr>ir_identifier = i, ir_info_type = info_type, ir_result = result, ir_data = data\<rparr>]\<rparr>)"
| "cm_process_control frame m = (Ok (), m)"

definition cm_process_pdu :: "l2cap_pdu \<Rightarrow> unit cm_op" where
  "cm_process_pdu pdu m =
     (if cid pdu = L2CAP_SIGNALING_CID then
        and_then (lift_result (control_from_bytes (pdu_payload pdu))) cm_process_control m
      else case bt_get (cm_channels m) (cid pdu) of
        None \<Rightarrow> (channel_not_found (cid pdu), m)
      | Some ch \<Rightarrow>
          if cc_state ch \<noteq> COpen then (invalid_fmt ''channel {local_cid:#06x} is not open'' [unat (cid pdu)], m)
          else case cc_ertm ch of
            Some e \<Rightarrow>
              and_then (lift_result (if cc_fcs_enabled ch then verify_and_strip_fcs (cid pdu) (pdu_payload pdu)
                                     else Ok (pdu_payload pdu))) (\<lambda>payload.
              and_then (cm_engine_call (cid pdu) ch e (receive_frame payload)) (\<lambda>_. cm_flush_ertm (cid pdu))) m
          | None \<Rightarrow>
              if length (pdu_payload pdu) > unat (cc_mtu ch) then
                (invalid_fmt ''incoming SDU exceeds channel MTU {}'' [unat (cc_mtu ch)], m)
              else (Ok (), put_channel (cid pdu) (ch\<lparr>cc_received := cc_received ch @ [pdu_payload pdu]\<rparr>) m))"

definition cm_process_bytes :: "bytes \<Rightarrow> unit cm_op" where
  "cm_process_bytes data = and_then (lift_result (pdu_from_bytes data)) cm_process_pdu"

end
