(* ===== verification/Classic_Safety.thy ===== *)
theory Classic_Safety
  imports Classic
begin

text \<open>
  The BR/EDR channel manager under an arbitrary application and an arbitrary peer: the invariant of
  its tables, that every call keeps it, and which calls can panic.
\<close>

section \<open>The invariant\<close>

fun spec_ok :: "channel_spec \<Rightarrow> bool" where
  "spec_ok (BasicSpec spec) = (validate_spec spec = Ok ())"
| "spec_ok (ErtmSpec spec) = (validate_ertm_spec spec = Ok ())"

text \<open>
  A channel negotiates an engine exactly when its specification asks for one, and is open only
  after both directions are configured.
\<close>

definition engine_ok :: "ertm_engine \<Rightarrow> bool" where
  "engine_ok e \<longleftrightarrow> ertm_inv e \<and> local_mtu (config e) = 65535 \<and> peer_mtu (config e) = 65535"

definition chan_ok :: "u16 \<Rightarrow> classic_channel \<Rightarrow> bool" where
  "chan_ok c ch \<longleftrightarrow>
     cc_source_cid ch = c \<and> ACL_U_CID_START \<le> unat c \<and> spec_ok (cc_spec ch) \<and>
     cc_mtu ch = channel_spec_mtu (cc_spec ch) \<and> cc_mode ch = channel_spec_mode (cc_spec ch) \<and>
     L2CAP_MIN_BR_EDR_MTU \<le> cc_peer_mtu ch \<and>
     (cc_state ch = COpen \<or> cc_state ch = CWaitDisconnect \<longrightarrow>
        cc_peer_configuration_received ch \<and> cc_configuration_response_received ch) \<and>
     (cc_peer_configuration_received ch \<and> cc_mode ch = EnhancedRetransmission \<longrightarrow> cc_ertm ch \<noteq> None) \<and>
     (cc_mode ch = Basic \<longrightarrow> cc_ertm ch = None) \<and>
     (\<forall>e. cc_ertm ch = Some e \<longrightarrow> engine_ok e) \<and>
     (cc_open_announced ch \<longrightarrow> cc_incoming ch)"

definition announced :: "channel_manager \<Rightarrow> u16 \<Rightarrow> bool" where
  "announced m c \<longleftrightarrow> (case bt_get (cm_channels m) c of None \<Rightarrow> False | Some ch \<Rightarrow> cc_open_announced ch)"

definition cm_inv :: "channel_manager \<Rightarrow> bool" where
  "cm_inv m \<longleftrightarrow>
     bt_wf (cm_servers m) \<and> bt_wf (cm_channels m) \<and>
     (\<forall>psm spec. bt_get (cm_servers m) psm = Some spec \<longrightarrow> spec_ok spec \<and> validate_psm psm = Ok ()) \<and>
     (\<forall>c ch. bt_get (cm_channels m) c = Some ch \<longrightarrow> chan_ok c ch) \<and>
     distinct (cm_accepted_channels m) \<and> (\<forall>c \<in> set (cm_accepted_channels m). announced m c)"

text \<open>Every engine has a retransmission limit.\<close>

definition limited :: "channel_manager \<Rightarrow> bool" where
  "limited m \<longleftrightarrow> (\<forall>c ch e. bt_get (cm_channels m) c = Some ch \<longrightarrow> cc_ertm ch = Some e \<longrightarrow>
     max_retransmissions (config e) \<noteq> 0)"

definition cm_call_ok :: "channel_manager \<Rightarrow> ('a, rust_error) rresult \<times> channel_manager \<Rightarrow> bool" where
  "cm_call_ok m o' \<longleftrightarrow> cm_inv (snd o') \<and> (limited m \<longrightarrow> \<not> is_panic (fst o'))"

lemma cm_silent [simp]:
  "cm_inv (m\<lparr>cm_outbound := ps\<rparr>) = cm_inv m" "cm_inv (m\<lparr>cm_identifier := i\<rparr>) = cm_inv m"
  "cm_inv (m\<lparr>cm_information_responses := rs\<rparr>) = cm_inv m"
  "cm_inv (cm_queue_control f m) = cm_inv m" "cm_inv (snd (cm_next_identifier m)) = cm_inv m"
  "limited (m\<lparr>cm_outbound := ps\<rparr>) = limited m" "limited (m\<lparr>cm_identifier := i\<rparr>) = limited m"
  by (simp_all add: cm_inv_def announced_def limited_def cm_queue_control_def cm_next_identifier_def Let_def)

lemma cm_tables [simp]:
  "cm_channels (cm_queue_control f m) = cm_channels m" "cm_servers (cm_queue_control f m) = cm_servers m"
  "cm_channels (snd (cm_next_identifier m)) = cm_channels m"
  "cm_servers (snd (cm_next_identifier m)) = cm_servers m"
  "cm_channels (put_channel c ch m) = bt_insert c ch (cm_channels m)"
  by (simp_all add: cm_queue_control_def cm_next_identifier_def put_channel_def Let_def)

lemma cm_inv_channel: "cm_inv m \<Longrightarrow> bt_get (cm_channels m) c = Some ch \<Longrightarrow> chan_ok c ch"
  by (simp add: cm_inv_def)

lemma cm_inv_wf: "cm_inv m \<Longrightarrow> bt_wf (cm_channels m)" "cm_inv m \<Longrightarrow> bt_wf (cm_servers m)"
  by (simp_all add: cm_inv_def)

lemma put_channel_inv:
  assumes "cm_inv m" "chan_ok c ch" "announced m c \<Longrightarrow> cc_open_announced ch"
  shows "cm_inv (put_channel c ch m)"
  using assms by (auto simp: cm_inv_def put_channel_def announced_def bt_simps)

lemma put_channel_limited:
  assumes "cm_inv m" "limited m" "\<And>e. cc_ertm ch = Some e \<Longrightarrow> max_retransmissions (config e) \<noteq> 0"
  shows "limited (put_channel c ch m)"
  using assms by (auto simp: cm_inv_def put_channel_def limited_def bt_simps split: if_splits)

lemma put_update:
  assumes "cm_inv m" "bt_get (cm_channels m) c = Some ch" "chan_ok c ch'"
    "cc_open_announced ch' = cc_open_announced ch"
  shows "cm_inv (put_channel c ch' m)"
  using assms by (intro put_channel_inv) (auto simp: announced_def)

section \<open>Engine calls\<close>

lemma cm_queue_frames_ok:
  "(\<exists>ps. snd (cm_queue_frames d fcs frames m) = m\<lparr>cm_outbound := cm_outbound m @ ps\<rparr>) \<and>
   \<not> is_panic (fst (cm_queue_frames d fcs frames m))"
proof (induction frames arbitrary: m)
  case (Cons f fs)
  define r where "r = (if fcs then append_fcs d f else Ok f)"
  have "\<not> is_panic r" by (simp add: r_def append_fcs_def Let_def)
  then consider p where "r = Ok p" | x where "r = Err x" by (cases r) auto
  then show ?case
  proof cases
    case 1
    with Cons [of "m\<lparr>cm_outbound := cm_outbound m @ [l2cap_pdu_new d p]\<rparr>"] show ?thesis
      by (auto simp: and_then_def lift_result_def r_def [symmetric])
  qed (auto simp: and_then_def lift_result_def r_def [symmetric] intro: exI [of _ "[]"])
qed (auto intro: exI [of _ "[]"])

definition engine_call_ok :: "channel_manager \<Rightarrow> ('a, rust_error) rresult \<times> channel_manager \<Rightarrow> bool" where
  "engine_call_ok m o' \<longleftrightarrow> cm_call_ok m o' \<and> (limited m \<longrightarrow> limited (snd o')) \<and>
     (\<forall>c. map_option (\<lambda>ch. cc_ertm ch \<noteq> None) (bt_get (cm_channels (snd o')) c) =
          map_option (\<lambda>ch. cc_ertm ch \<noteq> None) (bt_get (cm_channels m) c))"

lemma engine_ok_drained: "engine_ok e \<Longrightarrow> engine_ok (e\<lparr>outbound := [], received := []\<rparr>)"
  by (auto simp: engine_ok_def ertm_inv_def rx_ok_def retries_ok_def sender_view_def)

lemma cm_flush_ertm_ok:
  assumes "cm_inv m" shows "engine_call_ok m (cm_flush_ertm c m)"
proof (cases "\<exists>ch e. bt_get (cm_channels m) c = Some ch \<and> cc_ertm ch = Some e")
  case True
  then obtain ch e where ch: "bt_get (cm_channels m) c = Some ch" "cc_ertm ch = Some e" by blast
  define ch' where "ch' = ch\<lparr>cc_ertm := Some (e\<lparr>outbound := [], received := []\<rparr>),
    cc_received := cc_received ch @ received e\<rparr>"
  obtain ps where ps: "snd (cm_flush_ertm c m) = (put_channel c ch' m)\<lparr>cm_outbound := ps\<rparr>"
    and np: "\<not> is_panic (fst (cm_flush_ertm c m))"
    using ch cm_queue_frames_ok unfolding cm_flush_ertm_def ch'_def by (simp, blast)
  have ok: "chan_ok c ch'"
    using cm_inv_channel [OF assms ch(1)] ch(2) engine_ok_drained [of e] by (auto simp: chan_ok_def ch'_def)
  have "limited m \<Longrightarrow> limited (put_channel c ch' m)"
    using ch by (intro put_channel_limited [OF assms]) (auto simp: ch'_def limited_def)
  moreover have "cm_inv (put_channel c ch' m)"
    using put_update [OF assms ch(1) ok] by (simp add: ch'_def)
  ultimately show ?thesis
    using ps np ch cm_inv_wf [OF assms] by (auto simp: engine_call_ok_def cm_call_ok_def bt_simps ch'_def)
next
  case False
  then show ?thesis
    using assms by (auto simp: cm_flush_ertm_def engine_call_ok_def cm_call_ok_def split: option.splits)
qed

lemma cm_inv_engine:
  "cm_inv m \<Longrightarrow> bt_get (cm_channels m) c = Some ch \<Longrightarrow> cc_ertm ch = Some e \<Longrightarrow> ertm_inv e"
  using cm_inv_channel by (auto simp: chan_ok_def engine_ok_def)

lemma cm_engine_call_ok:
  assumes "cm_inv m" "bt_get (cm_channels m) c = Some ch" "cc_ertm ch = Some e"
    "\<And>e. ertm_inv e \<Longrightarrow> step_ok e (f e)"
  shows "engine_call_ok m (cm_engine_call c ch e f m)"
proof -
  obtain r e' where f: "f e = (r, e')" by fastforce
  have e': "ertm_inv e'" "config e' = config e" "max_retransmissions (config e) \<noteq> 0 \<longrightarrow> \<not> is_panic r"
    using assms(4) [OF cm_inv_engine [OF assms(1-3)]] f by (auto simp: step_ok_def)
  have ok: "chan_ok c (ch\<lparr>cc_ertm := Some e'\<rparr>)"
    using cm_inv_channel [OF assms(1,2)] assms(3) e' by (auto simp: chan_ok_def engine_ok_def)
  have "limited m \<Longrightarrow> limited (put_channel c (ch\<lparr>cc_ertm := Some e'\<rparr>) m)"
    using assms(2,3) e'(2) by (intro put_channel_limited [OF assms(1)]) (auto simp: limited_def)
  moreover have "cm_inv (put_channel c (ch\<lparr>cc_ertm := Some e'\<rparr>) m)"
    using put_update [OF assms(1,2) ok] by simp
  ultimately show ?thesis
    using f e' assms(2,3) cm_inv_wf [OF assms(1)]
    by (auto simp: cm_engine_call_def engine_call_ok_def cm_call_ok_def bt_simps) (auto simp: limited_def)
qed

lemma engine_call_then:
  assumes "engine_call_ok m (f m)" "\<And>x s. f m = (Ok x, s) \<Longrightarrow> cm_inv s \<Longrightarrow> engine_call_ok s (k x s)"
  shows "engine_call_ok m (and_then f k m)"
proof (cases "f m")
  case (Pair r s)
  show ?thesis
  proof (cases r)
    case (Ok x)
    have "engine_call_ok s (k x s)"
      using assms(1) Pair Ok by (intro assms(2)) (auto simp: engine_call_ok_def cm_call_ok_def)
    with assms(1) Pair Ok show ?thesis
      by (auto simp: engine_call_ok_def cm_call_ok_def and_then_def)
  qed (use assms(1) Pair in \<open>auto simp: engine_call_ok_def cm_call_ok_def and_then_def\<close>)
qed

lemma call_and_flush_ok:
  assumes "cm_inv m" "bt_get (cm_channels m) c = Some ch" "cc_ertm ch = Some e"
    "\<And>e. ertm_inv e \<Longrightarrow> step_ok e (f e)"
  shows "engine_call_ok m (and_then (cm_engine_call c ch e f) (\<lambda>_. cm_flush_ertm c) m)"
proof (rule engine_call_then)
  show "engine_call_ok m (cm_engine_call c ch e f m)" by (rule cm_engine_call_ok) (fact assms)+
qed (rule cm_flush_ertm_ok)

lemma engine_call_okD: "engine_call_ok m o' \<Longrightarrow> cm_call_ok m o'"
  by (simp add: engine_call_ok_def)

lemma cm_call_ok_error: "cm_inv m \<Longrightarrow> cm_call_ok m' (Err x, m)"
  by (simp add: cm_call_ok_def)

lemma cm_call_ok_Ok: "cm_inv m \<Longrightarrow> cm_call_ok m' (Ok x, m)"
  by (simp add: cm_call_ok_def)

lemma cm_set_receiver_busy_ok: assumes "cm_inv m" shows "cm_call_ok m (cm_set_receiver_busy c b m)"
  using engine_call_okD [OF call_and_flush_ok [OF assms _ _ set_receiver_busy_ok]] assms
  by (auto simp: cm_set_receiver_busy_def cm_call_ok_error split: option.split)

lemma cm_send_ok: assumes "cm_inv m" shows "cm_call_ok m (cm_send c sdu m)"
  using engine_call_okD [OF call_and_flush_ok [OF assms _ _ send_sdu_ok]] assms
  by (auto simp: cm_send_def cm_call_ok_error cm_call_ok_Ok split: option.split)

lemma cm_tick_all_ok:
  assumes "cm_inv m" "\<forall>c \<in> set cs. \<exists>ch. bt_get (cm_channels m) c = Some ch \<and> cc_ertm ch \<noteq> None"
  shows "engine_call_ok m (cm_tick_all ticks cs m)"
  using assms
proof (induction cs arbitrary: m)
  case Nil
  then show ?case by (simp add: engine_call_ok_def cm_call_ok_def)
next
  case (Cons c cs)
  then obtain ch e where ch: "bt_get (cm_channels m) c = Some ch" "cc_ertm ch = Some e" by auto
  have call: "engine_call_ok m (cm_engine_call c ch e (ertm_tick ticks) m)"
    by (rule cm_engine_call_ok [OF Cons.prems(1) ch tick_ok])
  have kept: "\<forall>c \<in> set cs. \<exists>ch. bt_get (cm_channels s) c = Some ch \<and> cc_ertm ch \<noteq> None"
    if "engine_call_ok m1 (r, s)" "\<forall>c \<in> set cs. \<exists>ch. bt_get (cm_channels m1) c = Some ch \<and> cc_ertm ch \<noteq> None"
    for m1 s and r :: "unit result"
  proof
    fix d assume "d \<in> set cs"
    with that(2) have "map_option (\<lambda>ch. cc_ertm ch \<noteq> None) (bt_get (cm_channels m1) d) = Some True" by auto
    with that(1) have "map_option (\<lambda>ch. cc_ertm ch \<noteq> None) (bt_get (cm_channels s) d) = Some True"
      unfolding engine_call_ok_def by (metis snd_conv)
    then show "\<exists>ch. bt_get (cm_channels s) d = Some ch \<and> cc_ertm ch \<noteq> None" by blast
  qed
  have "engine_call_ok m (and_then (cm_engine_call c ch e (ertm_tick ticks)) (\<lambda>_.
      and_then (cm_flush_ertm c) (\<lambda>_. cm_tick_all ticks cs)) m)"
  proof (rule engine_call_then)
    show "engine_call_ok m (cm_engine_call c ch e (ertm_tick ticks) m)" by (rule call)
    fix x s assume 1: "cm_engine_call c ch e (ertm_tick ticks) m = (Ok x, s)" "cm_inv s"
    show "engine_call_ok s (and_then (cm_flush_ertm c) (\<lambda>_. cm_tick_all ticks cs) s)"
    proof (rule engine_call_then)
      show "engine_call_ok s (cm_flush_ertm c s)" by (rule cm_flush_ertm_ok [OF 1(2)])
      fix y t assume 2: "cm_flush_ertm c s = (Ok y, t)" "cm_inv t"
      show "engine_call_ok t (cm_tick_all ticks cs t)"
        using kept [OF cm_flush_ertm_ok [OF 1(2), of c, unfolded 2(1)] kept [OF call [unfolded 1(1)]]]
          Cons.prems(2) by (intro Cons.IH [OF 2(2)]) simp
    qed
  qed
  with ch show ?case by simp
qed

lemma cm_tick_ok: assumes "cm_inv m" shows "cm_call_ok m (cm_tick ticks m)"
proof -
  have "\<exists>ch. bt_get (cm_channels m) c = Some ch \<and> cc_ertm ch \<noteq> None" if "c \<in> set (cm_ertm_cids m)" for c
    using that assms bt_get_entries [of "cm_channels m"] by (auto simp: cm_ertm_cids_def cm_inv_def)
  then show ?thesis
    using engine_call_okD [OF cm_tick_all_ok [OF assms, of "cm_ertm_cids m"]] by (simp add: cm_tick_def)
qed

section \<open>Opening and configuring channels\<close>

lemma cm_call_ok_lift:
  assumes "cm_inv m" "\<not> is_panic r" "\<And>x. r = Ok x \<Longrightarrow> cm_call_ok m' (k x m)"
  shows "cm_call_ok m' (and_then (lift_result r) k m)"
  using assms by (cases r) (auto simp: cm_call_ok_def and_then_def lift_result_def)

lemma allocate_cid_free:
  assumes "cm_allocate_cid m = Ok c"
  shows "bt_get (cm_channels m) c = None" "ACL_U_CID_START \<le> unat c"
proof -
  have f: "find (\<lambda>c. \<not> bt_contains_key (cm_channels m) c) acl_u_cids = Some c"
    using assms by (auto simp: cm_allocate_cid_def split: option.splits)
  then show "bt_get (cm_channels m) c = None" by (auto simp: find_Some_iff bt_contains_key_def)
  from f have "c \<in> set acl_u_cids" by (auto simp: find_Some_iff)
  then obtain n where "ACL_U_CID_START \<le> n" "n \<le> ACL_U_CID_END" "c = of_nat n" by (auto simp: acl_u_cids_def)
  then show "ACL_U_CID_START \<le> unat c" by (simp add: ACL_U_CID_END_def unat_of_nat_u16)
qed

lemma classic_no_panic:
  "\<not> is_panic (cm_allocate_cid m)" "\<not> is_panic (validate_spec spec)" "\<not> is_panic (validate_ertm_spec es)"
  "\<not> is_panic (validate_psm psm)" "\<not> is_panic (ertm_new cfg)" "\<not> is_panic (encode_configuration_options opts)"
proof -
  show "\<not> is_panic (cm_allocate_cid m)" "\<not> is_panic (validate_spec spec)" "\<not> is_panic (validate_psm psm)"
    by (auto simp: cm_allocate_cid_def validate_spec_def validate_psm_def split: option.split)
  show "\<not> is_panic (validate_ertm_spec es)" by (auto simp: validate_ertm_spec_def validate_spec_def)
  show "\<not> is_panic (ertm_new cfg)" by (auto simp: ertm_new_def ertm_validate_def)
  show "\<not> is_panic (encode_configuration_options opts)"
  proof (induction opts)
    case (Cons opt opts)
    then show ?case by (cases "encode_configuration_options opts") auto
  qed simp
qed

lemma decode_options_no_panic: "\<not> is_panic (decode_configuration_options data)"
proof (induction data rule: decode_configuration_options.induct)
  case (1 data)
  show ?case
  proof (cases "length data < 2 \<or> length data < 2 + unat (data ! 1)")
    case True
    then show ?thesis by (subst decode_configuration_options.simps) (auto simp: Let_def)
  next
    case False
    then have "data \<noteq> []" by auto
    with False 1 have "\<not> is_panic (decode_configuration_options (drop (2 + unat (data ! 1)) data))" by simp
    then show ?thesis
      by (subst decode_configuration_options.simps, cases "decode_configuration_options (drop (2 + unat (data ! 1)) data)")
        (auto simp: Let_def)
  qed
qed

lemma fresh_channel_ok:
  assumes "spec_ok spec" "ACL_U_CID_START \<le> unat c"
  shows "chan_ok c (classic_outgoing psm c spec)" "chan_ok c (classic_incoming psm c remote spec)"
  using assms by (simp_all add: chan_ok_def classic_outgoing_def classic_incoming_def)

lemma put_fresh:
  assumes "cm_inv m" "cm_allocate_cid m = Ok c" "chan_ok c ch"
  shows "cm_inv (put_channel c ch m)"
  using assms allocate_cid_free [OF assms(2)] by (intro put_channel_inv) (auto simp: announced_def)

lemma cm_register_server_with_spec_ok:
  assumes "cm_inv m" "spec_ok spec"
  shows "cm_call_ok m (cm_register_server_with_spec psm spec m)"
proof -
  define r where "r = (case psm of
      Some psm \<Rightarrow> bind_result (validate_psm psm) (\<lambda>_. Ok psm)
    | None \<Rightarrow> (case find (\<lambda>p. is_ok (validate_psm p) \<and> \<not> bt_contains_key (cm_servers m) p) dynamic_psms of
                 Some psm \<Rightarrow> Ok psm | None \<Rightarrow> invalid ''no free Classic PSM''))"
  have ok: "is_ok (validate_psm p) \<Longrightarrow> validate_psm p = Ok ()" for p by (cases "validate_psm p") auto
  have "\<not> is_panic r"
    using classic_no_panic(4) [of "the psm"]
    by (cases psm; cases "validate_psm (the psm)") (auto simp: r_def split: option.split)
  moreover have "validate_psm p = Ok ()" if "r = Ok p" for p
    using that ok by (cases psm) (auto simp: r_def find_Some_iff split: option.splits)
  moreover have "cm_inv (m\<lparr>cm_servers := bt_insert p spec (cm_servers m)\<rparr>)" if "validate_psm p = Ok ()" for p
    using assms that by (auto simp: cm_inv_def announced_def bt_simps)
  ultimately show ?thesis
    unfolding cm_register_server_with_spec_def r_def [symmetric]
    by (intro cm_call_ok_lift assms(1)) (auto simp: assms cm_call_ok_error cm_call_ok_Ok)
qed

lemma cm_register_server_ok: "cm_inv m \<Longrightarrow> cm_call_ok m (cm_register_server psm spec m)"
  unfolding cm_register_server_def
  by (intro cm_call_ok_lift) (auto simp: classic_no_panic cm_register_server_with_spec_ok)

lemma cm_register_ertm_server_ok: "cm_inv m \<Longrightarrow> cm_call_ok m (cm_register_ertm_server psm spec m)"
  unfolding cm_register_ertm_server_def
  by (intro cm_call_ok_lift) (auto simp: classic_no_panic cm_register_server_with_spec_ok)

lemma cm_unregister_server_inv: "cm_inv m \<Longrightarrow> cm_inv (snd (cm_unregister_server psm m))"
  by (auto simp: cm_inv_def cm_unregister_server_def announced_def bt_simps split: if_splits)

lemma put_channel_next_identifier:
  "put_channel c ch (snd (cm_next_identifier m)) = snd (cm_next_identifier (put_channel c ch m))"
  by (simp add: put_channel_def cm_next_identifier_def Let_def)

lemma cm_connect_with_spec_ok:
  assumes "cm_inv m" "spec_ok spec" shows "cm_call_ok m (cm_connect_with_spec psm spec m)"
proof -
  have "cm_inv (put_channel c (classic_outgoing psm c spec) m)" if "cm_allocate_cid m = Ok c" for c
    using put_fresh [OF assms(1) that fresh_channel_ok(1) [OF assms(2) allocate_cid_free(2) [OF that]]] .
  then show ?thesis
    unfolding cm_connect_with_spec_def
    by (intro cm_call_ok_lift)
      (auto simp: classic_no_panic assms(1) split_beta cm_call_ok_def put_channel_next_identifier)
qed

lemma cm_connect_ok: "cm_inv m \<Longrightarrow> cm_call_ok m (cm_connect psm spec m)"
  unfolding cm_connect_def
  by (intro cm_call_ok_lift) (auto simp: classic_no_panic cm_connect_with_spec_ok)

lemma cm_connect_ertm_ok: "cm_inv m \<Longrightarrow> cm_call_ok m (cm_connect_ertm psm spec m)"
  unfolding cm_connect_ertm_def
  by (intro cm_call_ok_lift) (auto simp: classic_no_panic cm_connect_with_spec_ok)

lemma cm_maybe_open_inv:
  assumes "cm_inv m" shows "cm_inv (cm_maybe_open c m)"
proof (cases "bt_get (cm_channels m) c")
  case None
  with assms show ?thesis by (simp add: cm_maybe_open_def)
next
  case (Some ch)
  note ok = cm_inv_channel [OF assms Some]
  define ch1 where "ch1 = ch\<lparr>cc_state := COpen\<rparr>"
  have "cm_inv (put_channel c ch1 m)"
    if "cc_peer_configuration_received ch" "cc_configuration_response_received ch"
    using ok that by (intro put_update [OF assms Some]) (auto simp: chan_ok_def ch1_def)
  moreover have "cm_inv ((put_channel c (ch1\<lparr>cc_open_announced := True\<rparr>) m)
      \<lparr>cm_accepted_channels := cm_accepted_channels m @ [c]\<rparr>)"
    if "cc_peer_configuration_received ch" "cc_configuration_response_received ch" "cc_incoming ch"
      "\<not> cc_open_announced ch"
  proof -
    have "chan_ok c (ch1\<lparr>cc_open_announced := True\<rparr>)" using ok that by (auto simp: chan_ok_def ch1_def)
    moreover have "c \<notin> set (cm_accepted_channels m)"
      using assms Some that by (auto simp: cm_inv_def announced_def)
    ultimately show ?thesis
      using assms by (auto simp: cm_inv_def put_channel_def announced_def bt_simps split: option.splits)
  qed
  ultimately show ?thesis
    using Some assms by (auto simp: cm_maybe_open_def Let_def ch1_def)
qed

lemma cm_queue_configure_request_ok: "cm_inv m \<Longrightarrow> cm_call_ok m' (cm_queue_configure_request c m)"
  using classic_no_panic(6)
  by (auto simp: cm_queue_configure_request_def cm_call_ok_def split_beta and_then_def lift_result_def Let_def
      split: option.splits rresult.splits) (metis is_panic.simps(1))

lemma cm_on_connection_request_ok:
  assumes "cm_inv m" shows "cm_call_ok m (cm_on_connection_request i psm remote m)"
proof (cases "bt_get (cm_servers m) psm")
  case None
  with assms show ?thesis by (simp add: cm_on_connection_request_def cm_call_ok_Ok)
next
  case (Some spec)
  then have "spec_ok spec" using assms by (simp add: cm_inv_def)
  then have "cm_inv (put_channel c (classic_incoming psm c remote spec) m)" if "cm_allocate_cid m = Ok c" for c
    using put_fresh [OF assms that fresh_channel_ok(2) [OF _ allocate_cid_free(2) [OF that]]] by simp
  with Some assms classic_no_panic(1) [of m] show ?thesis
    by (cases "cm_allocate_cid m")
      (auto simp: cm_on_connection_request_def cm_call_ok_Ok cm_queue_configure_request_ok)
qed

lemma cm_on_connection_response_ok:
  assumes "cm_inv m" shows "cm_call_ok m (cm_on_connection_response d c result m)"
proof (cases "bt_get (cm_channels m) c")
  case (Some ch)
  note ok = cm_inv_channel [OF assms Some]
  have "cm_inv (put_channel c (ch\<lparr>cc_connection_result := r, cc_state := CClosed\<rparr>) m)"
    "cm_inv (put_channel c (ch\<lparr>cc_connection_result := r, cc_destination_cid := d, cc_state := CConfiguring\<rparr>) m)" for r
    using ok by (intro put_update [OF assms Some]; auto simp: chan_ok_def)+
  with Some assms show ?thesis
    by (auto simp: cm_on_connection_response_def Let_def cm_call_ok_Ok cm_call_ok_error cm_queue_configure_request_ok)
qed (use assms in \<open>simp add: cm_on_connection_response_def cm_call_ok_error\<close>)

text \<open>The option loop changes nothing of the channel but the MTU of the peer.\<close>

definition retuned :: "classic_channel \<Rightarrow> classic_channel \<Rightarrow> bool" where
  "retuned ch ch' \<longleftrightarrow> (\<exists>mtu. L2CAP_MIN_BR_EDR_MTU \<le> mtu \<and> ch' = ch\<lparr>cc_peer_mtu := mtu\<rparr>)"

lemma retuned_trans: "retuned a b \<Longrightarrow> retuned b c \<Longrightarrow> retuned a c"
  by (auto simp: retuned_def)

lemma retuned_same: "L2CAP_MIN_BR_EDR_MTU \<le> cc_peer_mtu ch \<Longrightarrow> retuned ch ch"
  unfolding retuned_def by (rule exI [of _ "cc_peer_mtu ch"]) simp

lemma scan_option_retuned:
  "L2CAP_MIN_BR_EDR_MTU \<le> cc_peer_mtu (sc_channel s) \<Longrightarrow>
     retuned (sc_channel s) (sc_channel (fst (scan_option opt s)))"
  by (auto simp: scan_option_def mtu_option_verdict_def rfc_option_verdict_def fcs_option_verdict_def Let_def
      retuned_same retuned_def not_less split: option.splits)

lemma scan_options_retuned:
  "L2CAP_MIN_BR_EDR_MTU \<le> cc_peer_mtu (sc_channel s) \<Longrightarrow>
     retuned (sc_channel s) (sc_channel (scan_options opts s))"
proof (induction opts arbitrary: s)
  case (Cons opt opts)
  obtain s1 stop where s1: "scan_option opt s = (s1, stop)" by fastforce
  have r: "retuned (sc_channel s) (sc_channel s1)" using scan_option_retuned [OF Cons.prems, of opt] s1 by simp
  then have "L2CAP_MIN_BR_EDR_MTU \<le> cc_peer_mtu (sc_channel s1)" by (auto simp: retuned_def)
  from Cons.IH [OF this] r s1 show ?case using retuned_trans by auto
qed (simp add: retuned_same)

lemma retuned_chan_ok: "chan_ok c ch \<Longrightarrow> retuned ch ch' \<Longrightarrow> chan_ok c ch' \<and> cc_open_announced ch' = cc_open_announced ch"
  by (auto simp: retuned_def chan_ok_def)

lemma new_engine_ok: "ertm_new (new_engine_config spec p) = Ok e \<Longrightarrow> engine_ok e"
  using ertm_new_inv(1,2) [of "new_engine_config spec p" e]
  by (auto simp: engine_ok_def new_engine_config_def)

lemma negotiate_ok:
  assumes "chan_ok c (sc_channel s)" "negotiate s = (r, s')"
  shows "\<not> is_panic r \<and> chan_ok c (sc_channel s') \<and>
    cc_open_announced (sc_channel s') = cc_open_announced (sc_channel s) \<and>
    (r = Ok () \<longrightarrow> sc_result s' = CONFIGURATION_SUCCESS \<longrightarrow>
       cc_mode (sc_channel s') = EnhancedRetransmission \<longrightarrow> cc_ertm (sc_channel s') \<noteq> None)"
proof (cases "cc_spec (sc_channel s)")
  case (BasicSpec spec)
  with assms show ?thesis by (auto simp: negotiate_def chan_ok_def classic_no_panic split: if_splits)
next
  case (ErtmSpec spec)
  show ?thesis
  proof (cases "sc_ertm s")
    case None
    with ErtmSpec assms show ?thesis by (auto simp: negotiate_def config_results)
  next
    case (Some p)
    consider e where "ertm_new (new_engine_config spec p) = Ok e" "engine_ok e"
      | x where "ertm_new (new_engine_config spec p) = Err x"
      using classic_no_panic(5) [of "new_engine_config spec p"] new_engine_ok
      by (cases "ertm_new (new_engine_config spec p)") auto
    then show ?thesis
    proof cases
      case 1
      with ErtmSpec Some assms(1) have "chan_ok c ((sc_channel s)\<lparr>cc_peer_mps := q, cc_fcs_enabled := b, cc_ertm := Some e\<rparr>)"
        for q b by (auto simp: chan_ok_def)
      with 1 ErtmSpec Some assms show ?thesis
        by (cases "(case sc_fcs s of None \<Rightarrow> False | Some b \<Rightarrow> b) \<noteq> es_fcs_enabled spec")
          (simp_all add: negotiate_def Let_def config_results, auto simp: config_results)
    next
      case 2
      from assms(1) have "chan_ok c ((sc_channel s)\<lparr>cc_peer_mps := q, cc_fcs_enabled := b\<rparr>)" for q b
        by (simp add: chan_ok_def)
      with 2 ErtmSpec Some assms show ?thesis
        by (cases "(case sc_fcs s of None \<Rightarrow> False | Some b \<Rightarrow> b) \<noteq> es_fcs_enabled spec")
          (simp_all add: negotiate_def Let_def config_results, auto simp: config_results)
    qed
  qed
qed

lemma conclude_ok:
  assumes "chan_ok c (sc_channel s)"
    and "sc_result s = CONFIGURATION_SUCCESS \<Longrightarrow> cc_mode (sc_channel s) = EnhancedRetransmission \<Longrightarrow>
      cc_ertm (sc_channel s) \<noteq> None"
  shows "chan_ok c (sc_channel (conclude s)) \<and>
    cc_open_announced (sc_channel (conclude s)) = cc_open_announced (sc_channel s)"
  using assms by (auto simp: conclude_def chan_ok_def)

lemma configure_channel_ok:
  assumes "chan_ok c ch" "configure_channel flags opts ch = (r, s)"
  shows "\<not> is_panic r" "chan_ok c (sc_channel s)" "cc_open_announced (sc_channel s) = cc_open_announced ch"
proof -
  define s0 where "s0 = scan_options opts \<lparr>sc_channel = ch, sc_result = CONFIGURATION_SUCCESS, sc_response = [],
    sc_ertm = None, sc_fcs = None\<rparr>"
  have s0: "chan_ok c (sc_channel s0)" "cc_open_announced (sc_channel s0) = cc_open_announced ch"
    using scan_options_retuned [of "\<lparr>sc_channel = ch, sc_result = CONFIGURATION_SUCCESS, sc_response = [],
        sc_ertm = None, sc_fcs = None\<rparr>" opts] assms(1) retuned_chan_ok [OF assms(1), of "sc_channel s0"]
    by (simp_all add: s0_def chan_ok_def)
  obtain r1 s1 where n: "negotiate s0 = (r1, s1)" by fastforce
  note n1 = negotiate_ok [OF s0(1) n]
  have "\<not> is_panic r \<and> chan_ok c (sc_channel s) \<and> cc_open_announced (sc_channel s) = cc_open_announced ch"
    using assms(2) s0 n n1 conclude_ok [of c s1]
    by (cases r1) (auto simp: configure_channel_def s0_def [symmetric] Let_def and_then_def split: if_splits)
  then show "\<not> is_panic r" "chan_ok c (sc_channel s)" "cc_open_announced (sc_channel s) = cc_open_announced ch"
    by auto
qed

lemma cm_on_configure_request_ok:
  assumes "cm_inv m" shows "cm_call_ok m (cm_on_configure_request i c flags encoded m)"
proof -
  have "cm_call_ok m (let (r, s) = configure_channel flags opts ch; m1 = put_channel c (sc_channel s) m
      in and_then (lift_result r) (\<lambda>_.
         and_then (lift_result (encode_configuration_options (sc_response s))) (\<lambda>response m.
           (Ok (), cm_maybe_open c
              (cm_queue_control (ConfigureResponse i (cc_destination_cid ch) 0 (sc_result s) response) m)))) m1)"
    if "bt_get (cm_channels m) c = Some ch" for ch opts
  proof -
    obtain r s where s: "configure_channel flags opts ch = (r, s)" by fastforce
    note ok = configure_channel_ok [OF cm_inv_channel [OF assms that] s]
    have "cm_inv (put_channel c (sc_channel s) m)" by (rule put_update [OF assms that ok(2,3)])
    then show ?thesis
      unfolding s Let_def prod.case
      by (intro cm_call_ok_lift ok(1) classic_no_panic) (auto simp: cm_call_ok_Ok cm_maybe_open_inv)
  qed
  then show ?thesis
    unfolding cm_on_configure_request_def
    by (intro cm_call_ok_lift assms decode_options_no_panic) (auto simp: cm_call_ok_error assms split: option.split)
qed

lemma cm_on_configure_response_ok:
  assumes "cm_inv m" shows "cm_call_ok m (cm_on_configure_response c result m)"
proof (cases "bt_get (cm_channels m) c")
  case (Some ch)
  have "cm_inv (put_channel c (ch\<lparr>cc_configuration_response_received := True\<rparr>) m)"
    "cm_inv (put_channel c (ch\<lparr>cc_connection_result := Some result, cc_state := CClosed\<rparr>) m)"
    using cm_inv_channel [OF assms Some] by (intro put_update [OF assms Some]; auto simp: chan_ok_def)+
  with Some show ?thesis by (simp add: cm_on_configure_response_def cm_call_ok_Ok cm_maybe_open_inv)
qed (use assms in \<open>simp add: cm_on_configure_response_def cm_call_ok_error\<close>)

section \<open>Disconnecting, receiving, and the calls together\<close>

lemma put_state_inv:
  assumes "cm_inv m" "bt_get (cm_channels m) c = Some ch"
    "st = CClosed \<or> st = CWaitDisconnect \<and> cc_state ch = COpen"
  shows "cm_inv (put_channel c (ch\<lparr>cc_state := st\<rparr>) m)"
  using cm_inv_channel [OF assms(1,2)] assms(3) by (intro put_update [OF assms(1,2)]) (auto simp: chan_ok_def)

lemma cm_disconnect_ok: "cm_inv m \<Longrightarrow> cm_call_ok m (cm_disconnect c m)"
  using put_state_inv [of m c] by (auto simp: cm_disconnect_def cm_call_ok_def split_beta split: option.split)

lemma cm_on_disconnection_ok:
  "cm_inv m \<Longrightarrow> cm_call_ok m (cm_on_disconnection_request i c remote m)"
  "cm_inv m \<Longrightarrow> cm_call_ok m (cm_on_disconnection_response remote c m)"
  using put_state_inv [of m c]
  by (auto simp: cm_on_disconnection_request_def cm_on_disconnection_response_def cm_call_ok_def split: option.split)

lemma cm_process_control_ok: "cm_inv m \<Longrightarrow> cm_call_ok m (cm_process_control frame m)"
  by (cases frame) (simp_all add: cm_on_connection_request_ok cm_on_connection_response_ok cm_call_ok_Ok
      cm_on_configure_request_ok cm_on_configure_response_ok cm_on_disconnection_ok)

definition cm_parser_panics :: "l2cap_pdu \<Rightarrow> bool" where
  "cm_parser_panics pdu \<longleftrightarrow> cid pdu = L2CAP_SIGNALING_CID \<and> is_panic (control_from_bytes (pdu_payload pdu))"

lemma verify_no_panic: "\<not> is_panic (verify_and_strip_fcs c data)"
  by (simp add: verify_and_strip_fcs_def Let_def)

lemma cm_process_pdu_ok:
  assumes "cm_inv m"
  shows "cm_inv (snd (cm_process_pdu pdu m)) \<and>
    (is_panic (fst (cm_process_pdu pdu m)) \<longrightarrow> cm_parser_panics pdu \<or> \<not> limited m)"
proof (cases "cid pdu = L2CAP_SIGNALING_CID")
  case True
  with assms cm_process_control_ok [OF assms] show ?thesis
    by (cases "control_from_bytes (pdu_payload pdu)")
      (auto simp: cm_process_pdu_def and_then_def lift_result_def cm_parser_panics_def cm_call_ok_def)
next
  case False
  have "cm_call_ok m (cm_process_pdu pdu m)"
  proof (cases "bt_get (cm_channels m) (cid pdu)")
    case None
    with False assms show ?thesis by (simp add: cm_process_pdu_def cm_call_ok_error)
  next
    case (Some ch)
    have "cm_inv (put_channel (cid pdu) (ch\<lparr>cc_received := rs\<rparr>) m)" for rs
      using cm_inv_channel [OF assms Some] by (intro put_update [OF assms Some]) (auto simp: chan_ok_def)
    moreover have "cm_call_ok m (and_then (lift_result (if cc_fcs_enabled ch then
          verify_and_strip_fcs (cid pdu) (pdu_payload pdu) else Ok (pdu_payload pdu))) (\<lambda>payload.
        and_then (cm_engine_call (cid pdu) ch e (receive_frame payload)) (\<lambda>_. cm_flush_ertm (cid pdu))) m)"
      if "cc_ertm ch = Some e" for e
      using engine_call_okD [OF call_and_flush_ok [OF assms Some that receive_frame_ok]]
      by (intro cm_call_ok_lift assms) (auto simp: verify_no_panic)
    ultimately show ?thesis
      using False Some assms by (auto simp: cm_process_pdu_def cm_call_ok_error cm_call_ok_Ok split: option.split)
  qed
  then show ?thesis by (auto simp: cm_call_ok_def)
qed

datatype cm_event =
    CmRegister "u32 option" classic_spec | CmRegisterErtm "u32 option" ertm_spec | CmUnregister u32
  | CmConnect u32 classic_spec | CmConnectErtm u32 ertm_spec | CmPdu l2cap_pdu | CmSend u16 bytes
  | CmTick u32 | CmBusy u16 bool | CmDisconnect u16 | CmPop u16 | CmPollAccepted | CmPollOutbound
  | CmDrainOutbound | CmRequestInformation u16 | CmPollInformation | CmDrainInformation

definition cm_discard :: "('a, rust_error) rresult \<times> channel_manager \<Rightarrow> unit result \<times> channel_manager" where
  "cm_discard o' = (bind_result (fst o') (\<lambda>_. Ok ()), snd o')"

definition cm_pop :: "u16 \<Rightarrow> channel_manager \<Rightarrow> channel_manager" where
  "cm_pop c m = (case bt_get (cm_channels m) c of
     None \<Rightarrow> m | Some ch \<Rightarrow> put_channel c (snd (classic_pop_received ch)) m)"

fun cm_step :: "channel_manager \<Rightarrow> cm_event \<Rightarrow> unit result \<times> channel_manager" where
  "cm_step m (CmRegister psm spec) = cm_discard (cm_register_server psm spec m)"
| "cm_step m (CmRegisterErtm psm spec) = cm_discard (cm_register_ertm_server psm spec m)"
| "cm_step m (CmUnregister psm) = (Ok (), snd (cm_unregister_server psm m))"
| "cm_step m (CmConnect psm spec) = cm_discard (cm_connect psm spec m)"
| "cm_step m (CmConnectErtm psm spec) = cm_discard (cm_connect_ertm psm spec m)"
| "cm_step m (CmPdu pdu) = cm_process_pdu pdu m"
| "cm_step m (CmSend c sdu) = cm_send c sdu m"
| "cm_step m (CmTick ticks) = cm_tick ticks m"
| "cm_step m (CmBusy c busy) = cm_set_receiver_busy c busy m"
| "cm_step m (CmDisconnect c) = cm_disconnect c m"
| "cm_step m (CmPop c) = (Ok (), cm_pop c m)"
| "cm_step m CmPollAccepted = (Ok (), snd (cm_poll_accepted_channel m))"
| "cm_step m CmPollOutbound = (Ok (), snd (cm_poll_outbound m))"
| "cm_step m CmDrainOutbound = (Ok (), snd (cm_drain_outbound m))"
| "cm_step m (CmRequestInformation t) = (Ok (), snd (cm_request_information t m))"
| "cm_step m CmPollInformation = (Ok (), snd (cm_poll_information_response m))"
| "cm_step m CmDrainInformation = (Ok (), snd (cm_drain_information_responses m))"

lemma cm_discard_ok: "cm_call_ok m o' \<Longrightarrow> cm_call_ok m (cm_discard o')"
  by (cases o'; cases "fst o'") (auto simp: cm_call_ok_def cm_discard_def)

lemma cm_pop_inv: assumes "cm_inv m" shows "cm_inv (cm_pop c m)"
proof (cases "bt_get (cm_channels m) c")
  case (Some ch)
  have "chan_ok c (snd (classic_pop_received ch)) \<and>
      cc_open_announced (snd (classic_pop_received ch)) = cc_open_announced ch"
    using cm_inv_channel [OF assms Some] by (auto simp: classic_pop_received_def chan_ok_def split: list.split)
  with put_update [OF assms Some] Some show ?thesis by (simp add: cm_pop_def)
qed (use assms in \<open>simp add: cm_pop_def\<close>)

lemma cm_poll_inv:
  "cm_inv m \<Longrightarrow> cm_inv (snd (cm_poll_accepted_channel m))" "cm_inv m \<Longrightarrow> cm_inv (snd (cm_poll_outbound m))"
  "cm_inv m \<Longrightarrow> cm_inv (snd (cm_drain_outbound m))" "cm_inv m \<Longrightarrow> cm_inv (snd (cm_request_information t m))"
  "cm_inv m \<Longrightarrow> cm_inv (snd (cm_poll_information_response m))"
  "cm_inv m \<Longrightarrow> cm_inv (snd (cm_drain_information_responses m))"
  by (auto simp: cm_poll_accepted_channel_def cm_poll_outbound_def cm_drain_outbound_def split_beta
      cm_request_information_def cm_poll_information_response_def cm_drain_information_responses_def split: list.split)
    (auto simp: cm_inv_def announced_def)

lemma cm_step_ok:
  assumes "cm_inv m"
  shows "cm_inv (snd (cm_step m ev))"
    "is_panic (fst (cm_step m ev)) \<Longrightarrow> limited m \<Longrightarrow> \<exists>pdu. ev = CmPdu pdu \<and> cm_parser_panics pdu"
proof -
  have "cm_call_ok m (cm_step m ev)" if "\<forall>pdu. ev \<noteq> CmPdu pdu"
    using that assms
    by (cases ev) (simp_all add: cm_discard_ok cm_register_server_ok cm_register_ertm_server_ok cm_call_ok_Ok
        cm_unregister_server_inv cm_connect_ok cm_connect_ertm_ok cm_send_ok cm_tick_ok cm_set_receiver_busy_ok
        cm_disconnect_ok cm_pop_inv cm_poll_inv)
  then show "cm_inv (snd (cm_step m ev))"
    "is_panic (fst (cm_step m ev)) \<Longrightarrow> limited m \<Longrightarrow> \<exists>pdu. ev = CmPdu pdu \<and> cm_parser_panics pdu"
    using cm_process_pdu_ok [OF assms]
    by (cases "\<exists>pdu. ev = CmPdu pdu"; auto simp: cm_call_ok_def)+
qed

interpretation cm: machine cm_step cm_inv "\<lambda>_. True"
  using cm_step_ok(1) by unfold_locales auto

lemma cm_new_inv: "cm_inv cm_new"
  by (simp add: cm_inv_def cm_new_def)

section \<open>Properties\<close>

text \<open>
  Property C7: whatever PDUs a peer sends and whatever the application calls, a BR/EDR channel
  manager keeps every channel under its own CID in the dynamic range; a channel is open only after
  both sides have been configured, and it then runs an ERTM engine exactly when its specification
  asks for one; the channels waiting to be accepted are pairwise different incoming channels. The
  next call panics only on a signaling payload on which the parser of control frames panics, or
  when some engine has been configured (by the peer) without a retransmission limit.
\<close>

theorem classic_manager_safe:
  assumes "run_machine cm_step cm_new evs = (rs, m)"
  shows "(\<forall>c ch. bt_get (cm_channels m) c = Some ch \<longrightarrow>
        cc_source_cid ch = c \<and> 64 \<le> unat c \<and> 48 \<le> cc_peer_mtu ch \<and>
        (cc_state ch = COpen \<longrightarrow> cc_peer_configuration_received ch \<and> cc_configuration_response_received ch \<and>
          (cc_ertm ch \<noteq> None \<longleftrightarrow> channel_spec_mode (cc_spec ch) = EnhancedRetransmission)) \<and>
        (\<forall>e. cc_ertm ch = Some e \<longrightarrow> consecutive e \<and> unacked_frames e \<le> unat (tx_window_size (config e)))) \<and>
    distinct (cm_accepted_channels m) \<and>
    (\<forall>c \<in> set (cm_accepted_channels m). \<exists>ch. bt_get (cm_channels m) c = Some ch \<and> cc_incoming ch) \<and>
    (\<forall>ev. is_panic (fst (cm_step m ev)) \<longrightarrow> (\<exists>pdu. ev = CmPdu pdu \<and> cm_parser_panics pdu) \<or>
       (\<exists>c ch e. bt_get (cm_channels m) c = Some ch \<and> cc_ertm ch = Some e \<and> max_retransmissions (config e) = 0))"
proof -
  have inv: "cm_inv m" using cm.run_inv [OF cm_new_inv, of evs] assms by simp
  have engine: "consecutive e \<and> unacked_frames e \<le> unat (tx_window_size (config e))" if "engine_ok e" for e
    using that sender_view_consecutive
    by (auto simp: engine_ok_def ertm_inv_def sender_view_def unacked_frames_def)
  have mode: "cc_mode ch \<noteq> Basic \<longleftrightarrow> cc_mode ch = EnhancedRetransmission" for ch by (cases "cc_mode ch") auto
  have chan: "cc_source_cid ch = c \<and> 64 \<le> unat c \<and> 48 \<le> cc_peer_mtu ch \<and>
      (cc_state ch = COpen \<longrightarrow> cc_peer_configuration_received ch \<and> cc_configuration_response_received ch \<and>
        (cc_ertm ch \<noteq> None \<longleftrightarrow> channel_spec_mode (cc_spec ch) = EnhancedRetransmission)) \<and>
      (\<forall>e. cc_ertm ch = Some e \<longrightarrow> consecutive e \<and> unacked_frames e \<le> unat (tx_window_size (config e)))"
    if "bt_get (cm_channels m) c = Some ch" for c ch
    using cm_inv_channel [OF inv that] engine mode [of ch]
    by (auto simp: chan_ok_def ACL_U_CID_START_def L2CAP_MIN_BR_EDR_MTU_def)
  have "\<exists>ch. bt_get (cm_channels m) c = Some ch \<and> cc_incoming ch" if "c \<in> set (cm_accepted_channels m)" for c
    using inv that cm_inv_channel [OF inv, of c]
    by (fastforce simp: cm_inv_def announced_def chan_ok_def split: option.splits)
  moreover have "distinct (cm_accepted_channels m)" using inv by (simp add: cm_inv_def)
  ultimately show ?thesis
    using chan cm_step_ok(2) [OF inv] unfolding limited_def by blast
qed

theorem classic_manager_safe_witness:
  "\<exists>rs m. run_machine cm_step cm_new
       [CmRegister None classic_spec_default, CmConnectErtm 0x1001 ertm_spec_default,
        CmPdu \<lparr>cid = 1, pdu_payload = [2, 1, 4, 0, 1, 16, 64, 0]\<rparr>, CmTick 5] = (rs, m) \<and>
     distinct (cm_accepted_channels m)"
proof -
  obtain rs m where run: "run_machine cm_step cm_new
       [CmRegister None classic_spec_default, CmConnectErtm 0x1001 ertm_spec_default,
        CmPdu \<lparr>cid = 1, pdu_payload = [2, 1, 4, 0, 1, 16, 64, 0]\<rparr>, CmTick 5] = (rs, m)" by (metis surj_pair)
  have "distinct (cm_accepted_channels m)" using classic_manager_safe [OF run] by (elim conjE)
  with run show ?thesis by blast
qed

end
