(* ===== verification/Hci_Packet.thy ===== *)
theory Hci_Packet
  imports Prelude
begin

text \<open>
  HCI data packets of \<open>bumble-hci/src/packet.rs\<close> over the byte cursor \<open>Reader\<close> of
  \<open>bumble-hci/src/lib.rs\<close>: the ACL, synchronous and isochronous packet codecs,
  the fragmentation of an L2CAP PDU into ACL packets, and its reassembly.
\<close>

section \<open>Reader\<close>

record reader =
  rd_data :: bytes
  rd_pos :: nat

definition reader_new :: "bytes \<Rightarrow> nat \<Rightarrow> reader" where
  "reader_new data pos = \<lparr>rd_data = data, rd_pos = pos\<rparr>"

definition reader_need :: "reader \<Rightarrow> nat \<Rightarrow> unit result" where
  "reader_need r n =
     (if rd_pos r + n > length (rd_data r) then
        invalid_fmt ''unexpected end of data: need {n} at offset {}, have {}''
          [n, rd_pos r, length (rd_data r)]
      else Ok ())"

definition reader_u8 :: "reader \<Rightarrow> (u8 \<times> reader) result" where
  "reader_u8 r = bind_result (reader_need r 1) (\<lambda>_.
     Ok (rd_data r ! rd_pos r, r\<lparr>rd_pos := rd_pos r + 1\<rparr>))"

definition reader_u16_le :: "reader \<Rightarrow> (u16 \<times> reader) result" where
  "reader_u16_le r = bind_result (reader_need r 2) (\<lambda>_.
     Ok (u16_from_le_bytes (rd_data r ! rd_pos r) (rd_data r ! (rd_pos r + 1)),
         r\<lparr>rd_pos := rd_pos r + 2\<rparr>))"

definition reader_u32_le :: "reader \<Rightarrow> (u32 \<times> reader) result" where
  "reader_u32_le r = bind_result (reader_need r 4) (\<lambda>_.
     Ok (u32_from_le_bytes (rd_data r ! rd_pos r) (rd_data r ! (rd_pos r + 1))
           (rd_data r ! (rd_pos r + 2)) (rd_data r ! (rd_pos r + 3)),
         r\<lparr>rd_pos := rd_pos r + 4\<rparr>))"

text \<open>\<open>&self.data[self.pos..]\<close> panics when the position is past the end.\<close>

definition reader_rest :: "reader \<Rightarrow> (bytes \<times> reader) result" where
  "reader_rest r =
     (if rd_pos r > length (rd_data r) then Panic ''range start index out of range''
      else Ok (drop (rd_pos r) (rd_data r), r\<lparr>rd_pos := length (rd_data r)\<rparr>))"

lemmas reader_defs = reader_new_def reader_need_def reader_u8_def reader_u16_le_def
  reader_u32_le_def reader_rest_def

section \<open>ACL data packets\<close>

definition HCI_ACL_DATA_PACKET :: u8 where "HCI_ACL_DATA_PACKET = 0x02"
definition HCI_SYNCHRONOUS_DATA_PACKET :: u8 where "HCI_SYNCHRONOUS_DATA_PACKET = 0x03"
definition HCI_ISO_DATA_PACKET :: u8 where "HCI_ISO_DATA_PACKET = 0x05"

definition HCI_ACL_PB_FIRST_NON_FLUSHABLE :: u8 where "HCI_ACL_PB_FIRST_NON_FLUSHABLE = 0"
definition HCI_ACL_PB_CONTINUATION :: u8 where "HCI_ACL_PB_CONTINUATION = 1"
definition HCI_ACL_PB_FIRST_FLUSHABLE :: u8 where "HCI_ACL_PB_FIRST_FLUSHABLE = 2"

lemmas hci_consts = HCI_ACL_DATA_PACKET_def HCI_SYNCHRONOUS_DATA_PACKET_def HCI_ISO_DATA_PACKET_def
  HCI_ACL_PB_FIRST_NON_FLUSHABLE_def HCI_ACL_PB_CONTINUATION_def HCI_ACL_PB_FIRST_FLUSHABLE_def

record acl_data_packet =
  connection_handle :: u16
  pb_flag :: u8
  bc_flag :: u8
  data_total_length :: u16
  acl_data :: bytes

definition acl_to_bytes :: "acl_data_packet \<Rightarrow> bytes" where
  "acl_to_bytes p =
     (let h = push_bit 12 (ucast (pb_flag p)) OR push_bit 14 (ucast (bc_flag p)) OR connection_handle p
      in HCI_ACL_DATA_PACKET # u16_to_le_bytes h @ u16_to_le_bytes (data_total_length p) @ acl_data p)"

definition acl_from_bytes :: "bytes \<Rightarrow> acl_data_packet result" where
  "acl_from_bytes packet =
     bind_result (reader_u16_le (reader_new packet 1)) (\<lambda>(h, r).
     bind_result (reader_u16_le r) (\<lambda>(total, r).
     bind_result (reader_rest r) (\<lambda>(data, r).
       if length data \<noteq> unat total then
         invalid_fmt ''invalid packet length {} != {}'' [length data, unat total]
       else Ok \<lparr>connection_handle = h AND 0x0FFF,
                pb_flag = ucast (drop_bit 12 h AND 3),
                bc_flag = ucast (drop_bit 14 h AND 3),
                data_total_length = total, acl_data = data\<rparr>)))"

definition acl_wf :: "acl_data_packet \<Rightarrow> bool" where
  "acl_wf p \<longleftrightarrow> unat (connection_handle p) < 4096 \<and> unat (pb_flag p) < 4 \<and> unat (bc_flag p) < 4 \<and>
     unat (data_total_length p) = length (acl_data p)"

section \<open>Fragmentation and reassembly\<close>

definition fragment_l2cap_pdu ::
  "u16 \<Rightarrow> u8 \<Rightarrow> nat \<Rightarrow> bytes \<Rightarrow> bool \<Rightarrow> acl_data_packet list result" where
  "fragment_l2cap_pdu handle bc max_fragment_size pdu flushable =
     (if max_fragment_size = 0 \<or> max_fragment_size > 65535 then
        invalid ''ACL fragment size must be between 1 and 65535''
      else if length pdu < 4 then invalid ''truncated L2CAP PDU''
      else let declared = unat (u16_from_le_bytes (pdu ! 0) (pdu ! 1)) + 4
      in if declared \<noteq> length pdu then
           invalid_fmt ''L2CAP PDU length {} != {}'' [length pdu, declared]
         else Ok (map (\<lambda>(index, data).
           \<lparr>connection_handle = handle,
            pb_flag = (if index = 0 then
                         (if flushable then HCI_ACL_PB_FIRST_FLUSHABLE
                          else HCI_ACL_PB_FIRST_NON_FLUSHABLE)
                       else HCI_ACL_PB_CONTINUATION),
            bc_flag = bc,
            data_total_length = of_nat (length data),
            acl_data = data\<rparr>) (enumerate 0 (chunks max_fragment_size pdu))))"

record assembler =
  asm_handle :: "u16 option"
  current_data :: bytes
  expected_length :: "nat option"

definition assembler_new :: assembler where
  "assembler_new = \<lparr>asm_handle = None, current_data = [], expected_length = None\<rparr>"

definition assembler_reset :: "assembler \<Rightarrow> assembler" where
  "assembler_reset a = a\<lparr>asm_handle := None, current_data := [], expected_length := None\<rparr>"

definition is_assembling :: "assembler \<Rightarrow> bool" where
  "is_assembling a = (expected_length a \<noteq> None)"

text \<open>The part of \<open>feed\<close> after the boundary flag has been handled.\<close>

definition feed_finish :: "(assembler, bytes option, rust_error) op" where
  "feed_finish a =
     (case expected_length a of
        None \<Rightarrow> (Panic ''set by start or continuation'', a)
      | Some expected \<Rightarrow>
          if length (current_data a) < expected then (Ok None, a)
          else if length (current_data a) > expected then
            (invalid ''ACL data exceeds declared L2CAP PDU length'', assembler_reset a)
          else (Ok (Some (current_data a)),
                a\<lparr>asm_handle := None, current_data := [], expected_length := None\<rparr>))"

definition feed :: "acl_data_packet \<Rightarrow> (assembler, bytes option, rust_error) op" where
  "feed packet a =
     (if unat (data_total_length packet) \<noteq> length (acl_data packet) then
        (invalid ''ACL packet data_total_length mismatch'', a)
      else if pb_flag packet = HCI_ACL_PB_FIRST_NON_FLUSHABLE \<or>
              pb_flag packet = HCI_ACL_PB_FIRST_FLUSHABLE then
        if length (acl_data packet) < 2 then
          (invalid ''first ACL fragment lacks L2CAP length'', assembler_reset a)
        else feed_finish (a\<lparr>asm_handle := Some (connection_handle packet),
               expected_length :=
                 Some (unat (u16_from_le_bytes (acl_data packet ! 0) (acl_data packet ! 1)) + 4),
               current_data := acl_data packet\<rparr>)
      else if pb_flag packet = HCI_ACL_PB_CONTINUATION then
        if expected_length a = None then (invalid ''ACL continuation without a start'', a)
        else if asm_handle a \<noteq> Some (connection_handle packet) then
          (invalid ''ACL continuation changed connection handle'', assembler_reset a)
        else feed_finish (a\<lparr>current_data := current_data a @ acl_data packet\<rparr>)
      else (invalid_fmt ''invalid ACL packet boundary flag {other}'' [unat (pb_flag packet)],
            assembler_reset a))"

section \<open>Synchronous and isochronous data packets\<close>

record sco_data_packet =
  sco_handle :: u16
  sco_packet_status :: u8
  sco_total_length :: u8
  sco_data :: bytes

definition sco_to_bytes :: "sco_data_packet \<Rightarrow> bytes" where
  "sco_to_bytes p =
     (let h = push_bit 12 (ucast (sco_packet_status p)) OR sco_handle p
      in HCI_SYNCHRONOUS_DATA_PACKET # u16_to_le_bytes h @ [sco_total_length p] @ sco_data p)"

definition sco_from_bytes :: "bytes \<Rightarrow> sco_data_packet result" where
  "sco_from_bytes packet =
     bind_result (reader_u16_le (reader_new packet 1)) (\<lambda>(h, r).
     bind_result (reader_u8 r) (\<lambda>(total, r).
     bind_result (reader_rest r) (\<lambda>(data, r).
       if length data \<noteq> unat total then
         invalid_fmt ''invalid packet length {} != {}'' [length data, unat total]
       else Ok \<lparr>sco_handle = h AND 0x0FFF, sco_packet_status = ucast (drop_bit 12 h AND 3),
                sco_total_length = total, sco_data = data\<rparr>)))"

definition sco_wf :: "sco_data_packet \<Rightarrow> bool" where
  "sco_wf p \<longleftrightarrow> unat (sco_handle p) < 4096 \<and> unat (sco_packet_status p) < 4 \<and>
     unat (sco_total_length p) = length (sco_data p)"

record iso_data_packet =
  iso_handle :: u16
  iso_pb_flag :: u8
  ts_flag :: u8
  iso_total_length :: u16
  time_stamp :: "u32 option"
  packet_sequence_number :: "u16 option"
  iso_sdu_length :: "u16 option"
  packet_status_flag :: "u8 option"
  iso_sdu_fragment :: bytes

definition iso_to_bytes :: "iso_data_packet \<Rightarrow> bytes" where
  "iso_to_bytes p =
     (let pdu_info = push_bit 14 (ucast (ts_flag p)) OR push_bit 12 (ucast (iso_pb_flag p)) OR iso_handle p
      in HCI_ISO_DATA_PACKET # u16_to_le_bytes pdu_info @ u16_to_le_bytes (iso_total_length p) @
         (case time_stamp p of Some ts \<Rightarrow> u32_to_le_bytes ts | None \<Rightarrow> []) @
         (case (packet_sequence_number p, iso_sdu_length p, packet_status_flag p) of
            (Some psn, Some sdu_len, Some status) \<Rightarrow>
              u16_to_le_bytes psn @ u16_to_le_bytes (sdu_len OR push_bit 15 (ucast status))
          | _ \<Rightarrow> []) @
         iso_sdu_fragment p)"

definition iso_from_bytes :: "bytes \<Rightarrow> iso_data_packet result" where
  "iso_from_bytes packet =
     bind_result (reader_u16_le (reader_new packet 1)) (\<lambda>(pdu_info, r).
     bind_result (reader_u16_le r) (\<lambda>(total, r).
     let pb = (ucast (drop_bit 12 pdu_info AND 3) :: u8);
         ts_fl = (ucast (drop_bit 14 pdu_info AND 1) :: u8);
         should_include_sdu_info = (pb AND 1 = 0)
     in bind_result
          (if ts_fl \<noteq> 0 then bind_result (reader_u32_le r) (\<lambda>(ts, r). Ok (Some ts, r))
           else Ok (None, r)) (\<lambda>(ts, r).
        bind_result
          (if should_include_sdu_info then
             bind_result (reader_u16_le r) (\<lambda>(psn, r).
             bind_result (reader_u16_le r) (\<lambda>(sdu_info, r).
               Ok ((Some psn, Some (sdu_info AND 0x0FFF),
                    Some (ucast (drop_bit 15 sdu_info AND 1) :: u8)), r)))
           else Ok ((None, None, None), r)) (\<lambda>((psn, sdu_len, status), r).
        bind_result (reader_rest r) (\<lambda>(fragment, r).
        let metadata_length = (if ts_fl \<noteq> 0 then 4 else 0) + (if should_include_sdu_info then 4 else 0)
        in if unat total \<noteq> metadata_length + length fragment then
             invalid_fmt ''invalid ISO packet length {} != {}''
               [metadata_length + length fragment, unat total]
           else Ok \<lparr>iso_handle = pdu_info AND 0x0FFF, iso_pb_flag = pb, ts_flag = ts_fl,
                    iso_total_length = total, time_stamp = ts, packet_sequence_number = psn,
                    iso_sdu_length = sdu_len, packet_status_flag = status,
                    iso_sdu_fragment = fragment\<rparr>)))))"

text \<open>The optional blocks must be present exactly when the flags announce them.\<close>

definition iso_wf :: "iso_data_packet \<Rightarrow> bool" where
  "iso_wf p \<longleftrightarrow> unat (iso_handle p) < 4096 \<and> unat (iso_pb_flag p) < 4 \<and> unat (ts_flag p) < 2 \<and>
     (time_stamp p \<noteq> None \<longleftrightarrow> ts_flag p \<noteq> 0) \<and>
     (packet_sequence_number p \<noteq> None \<longleftrightarrow> even (unat (iso_pb_flag p))) \<and>
     (iso_sdu_length p \<noteq> None \<longleftrightarrow> even (unat (iso_pb_flag p))) \<and>
     (packet_status_flag p \<noteq> None \<longleftrightarrow> even (unat (iso_pb_flag p))) \<and>
     (\<forall>n. iso_sdu_length p = Some n \<longrightarrow> unat n < 4096) \<and>
     (\<forall>s. packet_status_flag p = Some s \<longrightarrow> unat s < 2) \<and>
     unat (iso_total_length p) =
       (if ts_flag p \<noteq> 0 then 4 else 0) + (if even (unat (iso_pb_flag p)) then 4 else 0) +
       length (iso_sdu_fragment p)"


section \<open>Codec laws\<close>

text \<open>The bit fields of the header word read back what was packed into them.\<close>

lemma header_fields:
  fixes h :: u16 and pb bc :: u8
  assumes "unat h < 4096" and "unat pb < 4" and "unat bc < 4"
  shows "take_bit 12 (push_bit 12 (ucast pb) OR push_bit 14 (ucast bc) OR h) = h"
    and "ucast (take_bit 2 (drop_bit 12 (push_bit 12 (ucast pb) OR push_bit 14 (ucast bc) OR h))) = pb"
    and "ucast (take_bit 2 (drop_bit 14 (push_bit 12 (ucast pb) OR push_bit 14 (ucast bc) OR h))) = bc"
  using assms
  by (auto intro!: bit_word_eqI simp: bit_simps field_high_bits simp flip: bit_0
      dest: field_bits_below)

text \<open>Reading the fields back, for any header word.\<close>

lemma acl_from_bytes_parts:
  "unat len = length data \<Longrightarrow>
   acl_from_bytes (t # u16_to_le_bytes h @ u16_to_le_bytes len @ data) =
     Ok \<lparr>connection_handle = take_bit 12 h, pb_flag = ucast (take_bit 2 (drop_bit 12 h)),
         bc_flag = ucast (take_bit 2 (drop_bit 14 h)), data_total_length = len, acl_data = data\<rparr>"
  by (simp add: acl_from_bytes_def reader_defs u16_to_le_bytes_def mask_simps)

lemma sco_from_bytes_parts:
  "unat len = length data \<Longrightarrow>
   sco_from_bytes (t # u16_to_le_bytes h @ len # data) =
     Ok \<lparr>sco_handle = take_bit 12 h, sco_packet_status = ucast (take_bit 2 (drop_bit 12 h)),
         sco_total_length = len, sco_data = data\<rparr>"
  by (simp add: sco_from_bytes_def reader_defs u16_to_le_bytes_def mask_simps)

lemma acl_dec_enc: "acl_wf p \<Longrightarrow> acl_from_bytes (acl_to_bytes p) = Ok p"
  by (cases p) (simp only: acl_to_bytes_def Let_def acl_data_packet.simps acl_wf_def
      acl_from_bytes_parts header_fields)

lemma sco_dec_enc: "sco_wf p \<Longrightarrow> sco_from_bytes (sco_to_bytes p) = Ok p"
  using header_fields [of "sco_handle p" "sco_packet_status p" 0]
  by (cases p) (simp add: sco_to_bytes_def Let_def sco_wf_def
      sco_from_bytes_parts del: drop_bit_or take_bit_or)

text \<open>The same for the isochronous format, one lemma per layout.\<close>

lemma iso_header_fields:
  fixes h :: u16 and pb ts :: u8
  assumes "unat h < 4096" and "unat pb < 4" and "unat ts < 2"
  shows "take_bit 12 (push_bit 14 (ucast ts) OR push_bit 12 (ucast pb) OR h) = h"
    and "ucast (take_bit 2 (drop_bit 12 (push_bit 14 (ucast ts) OR push_bit 12 (ucast pb) OR h))) = pb"
    and "ucast (take_bit 1 (drop_bit 14 (push_bit 14 (ucast ts) OR push_bit 12 (ucast pb) OR h))) = ts"
  using assms
  by (auto intro!: bit_word_eqI simp: bit_simps field_high_bits simp flip: bit_0
      dest: field_bits_below)

lemma sdu_info_fields:
  fixes n :: u16 and s :: u8
  assumes "unat n < 4096" and "unat s < 2"
  shows "take_bit 12 (n OR push_bit 15 (ucast s)) = n"
    and "ucast (take_bit 1 (drop_bit 15 (n OR push_bit 15 (ucast s)))) = s"
  using assms
  by (auto intro!: bit_word_eqI simp: bit_simps field_high_bits simp flip: bit_0
      dest: field_bits_below)

lemma iso_from_bytes_parts:
  fixes pb ts_fl :: u8
  assumes "pb = ucast (take_bit 2 (drop_bit 12 info))" and "ts_fl = ucast (take_bit 1 (drop_bit 14 info))"
    and "unat tot = (if ts_fl \<noteq> 0 then 4 else 0) + (if take_bit 1 pb = 0 then 4 else 0) + length fragment"
  shows "iso_from_bytes (t # u16_to_le_bytes info @ u16_to_le_bytes tot @
      (if ts_fl \<noteq> 0 then u32_to_le_bytes ts else []) @
      (if take_bit 1 pb = 0 then u16_to_le_bytes psn @ u16_to_le_bytes sdu else []) @ fragment) =
    Ok \<lparr>iso_handle = take_bit 12 info, iso_pb_flag = pb, ts_flag = ts_fl, iso_total_length = tot,
        time_stamp = (if ts_fl \<noteq> 0 then Some ts else None),
        packet_sequence_number = (if take_bit 1 pb = 0 then Some psn else None),
        iso_sdu_length = (if take_bit 1 pb = 0 then Some (take_bit 12 sdu) else None),
        packet_status_flag = (if take_bit 1 pb = 0 then Some (ucast (take_bit 1 (drop_bit 15 sdu))) else None),
        iso_sdu_fragment = fragment\<rparr>"
  using assms
  by (cases "ts_fl = 0"; cases "take_bit 1 pb = 0")
    (simp_all add: iso_from_bytes_def reader_defs u16_to_le_bytes_def u32_to_le_bytes_def mask_simps Let_def)

lemma take_bit_1_even: "take_bit 1 (b :: u8) = 0 \<longleftrightarrow> even (unat b)"
proof -
  have "take_bit 1 b = 0 \<longleftrightarrow> \<not> bit b 0"
    by (simp add: bit_0 take_bit_Suc even_iff_mod_2_eq_zero)
  also have "\<dots> \<longleftrightarrow> \<not> bit (unat b) 0" by (simp add: bit_unsigned_iff)
  finally show ?thesis by (simp add: bit_0)
qed

lemma iso_dec_enc:
  assumes "iso_wf p"
  shows "iso_from_bytes (iso_to_bytes p) = Ok p"
proof -
  obtain h pb tsf tot ts psn sdu st frag where
    p: "p = \<lparr>iso_handle = h, iso_pb_flag = pb, ts_flag = tsf, iso_total_length = tot, time_stamp = ts,
             packet_sequence_number = psn, iso_sdu_length = sdu, packet_status_flag = st,
             iso_sdu_fragment = frag\<rparr>"
    by (cases p)
  define info :: u16 where "info = push_bit 14 (ucast tsf) OR push_bit 12 (ucast pb) OR h"
  have fields: "take_bit 12 info = h" "pb = ucast (take_bit 2 (drop_bit 12 info))"
      "tsf = ucast (take_bit 1 (drop_bit 14 info))"
    using iso_header_fields [of h pb tsf] assms by (simp_all only: info_def iso_wf_def p iso_data_packet.simps)
  define sdu_info :: u16 where "sdu_info = the sdu OR push_bit 15 (ucast (the st))"
  have enc: "iso_to_bytes p = HCI_ISO_DATA_PACKET # u16_to_le_bytes info @ u16_to_le_bytes tot @
      (if tsf \<noteq> 0 then u32_to_le_bytes (the ts) else []) @
      (if take_bit 1 pb = 0 then u16_to_le_bytes (the psn) @ u16_to_le_bytes sdu_info else []) @ frag"
    using assms unfolding take_bit_1_even
    by (auto simp: iso_to_bytes_def p iso_wf_def info_def sdu_info_def)
  have tot: "unat tot = (if tsf \<noteq> 0 then 4 else 0) + (if take_bit 1 pb = 0 then 4 else 0) + length frag"
    using assms unfolding take_bit_1_even by (simp add: iso_wf_def p)
  have "take_bit 12 sdu_info = the sdu" "ucast (take_bit 1 (drop_bit 15 sdu_info)) = the st"
    if "take_bit 1 pb = 0"
    using sdu_info_fields [of "the sdu" "the st"] assms that unfolding take_bit_1_even
    by (auto simp: sdu_info_def iso_wf_def p)
  with assms show ?thesis
    unfolding enc iso_from_bytes_parts [OF fields(2,3) tot] unfolding take_bit_1_even
    by (auto simp: p iso_wf_def fields(1))
qed

interpretation acl: codec acl_to_bytes acl_from_bytes acl_wf
  by unfold_locales (rule acl_dec_enc)

interpretation sco: codec sco_to_bytes sco_from_bytes sco_wf
  by unfold_locales (rule sco_dec_enc)

interpretation iso: codec iso_to_bytes iso_from_bytes iso_wf
  by unfold_locales (rule iso_dec_enc)

section \<open>Reassembly\<close>

text \<open>A complete L2CAP PDU: its length field counts the payload after the 4-byte header.\<close>

definition complete_pdu :: "bytes \<Rightarrow> bool" where
  "complete_pdu pdu \<longleftrightarrow> 4 \<le> length pdu \<and>
     length pdu = unat (u16_from_le_bytes (pdu ! 0) (pdu ! 1)) + 4"

definition assembler_inv :: "assembler \<Rightarrow> bool" where
  "assembler_inv a \<longleftrightarrow>
     (case expected_length a of
        None \<Rightarrow> current_data a = [] \<and> asm_handle a = None
      | Some e \<Rightarrow> 2 \<le> length (current_data a) \<and> length (current_data a) < e \<and> asm_handle a \<noteq> None \<and>
          e = unat (u16_from_le_bytes (current_data a ! 0) (current_data a ! 1)) + 4)"

fun feed_good :: "(bytes option, rust_error) rresult \<Rightarrow> bool" where
  "feed_good (Ok (Some pdu)) = complete_pdu pdu"
| "feed_good (Panic m) = False"
| "feed_good r = True"

lemma assembler_reset_inv [simp]: "assembler_inv (assembler_reset a)"
  by (simp add: assembler_inv_def assembler_reset_def)

lemma feed_finish_good:
  assumes "expected_length a = Some (unat (u16_from_le_bytes (current_data a ! 0) (current_data a ! 1)) + 4)"
    and "2 \<le> length (current_data a)" and "asm_handle a \<noteq> None"
  shows "assembler_inv (snd (feed_finish a)) \<and> feed_good (fst (feed_finish a))"
  using assms by (auto simp: feed_finish_def assembler_inv_def assembler_reset_def complete_pdu_def)

lemma feed_step:
  assumes "assembler_inv a"
  shows "assembler_inv (snd (feed p a)) \<and> feed_good (fst (feed p a))"
proof -
  let ?start = "a\<lparr>asm_handle := Some (connection_handle p),
      expected_length := Some (unat (u16_from_le_bytes (acl_data p ! 0) (acl_data p ! 1)) + 4),
      current_data := acl_data p\<rparr>"
  let ?cont = "a\<lparr>current_data := current_data a @ acl_data p\<rparr>"
  have "assembler_inv (snd (feed_finish ?start)) \<and> feed_good (fst (feed_finish ?start))"
    if "2 \<le> length (acl_data p)"
    using that by (intro feed_finish_good) simp_all
  moreover have "assembler_inv (snd (feed_finish ?cont)) \<and> feed_good (fst (feed_finish ?cont))"
    if "expected_length a \<noteq> None"
    using that assms
    by (intro feed_finish_good) (auto simp: assembler_inv_def nth_append)
  ultimately show ?thesis
    using assms by (auto simp: feed_def)
qed

interpretation asm: machine "\<lambda>a p. feed p a" assembler_inv feed_good
  by unfold_locales (simp_all add: feed_step)

text \<open>Continuation fragments complete the PDU that a first fragment announced.\<close>

definition continuation :: "u16 \<Rightarrow> u8 \<Rightarrow> bytes \<Rightarrow> acl_data_packet" where
  "continuation h bc d = \<lparr>connection_handle = h, pb_flag = HCI_ACL_PB_CONTINUATION, bc_flag = bc,
     data_total_length = of_nat (length d), acl_data = d\<rparr>"

lemma feed_continuation:
  assumes "expected_length a = Some e" and "asm_handle a = Some h" and "length d \<le> 65535"
  shows "feed (continuation h bc d) a = feed_finish (a\<lparr>current_data := current_data a @ d\<rparr>)"
  using assms by (simp add: feed_def continuation_def hci_consts unat_of_nat_u16)

lemma feed_continuations:
  assumes "expected_length a = Some e" and "asm_handle a = Some h"
    and "length (current_data a) + length (concat ds) = e" and "ds \<noteq> []"
    and "\<forall>d \<in> set ds. d \<noteq> [] \<and> length d \<le> 65535"
  shows "run_machine (\<lambda>a p. feed p a) a (map (continuation h bc) ds) =
    (replicate (length ds - 1) (Ok None) @ [Ok (Some (current_data a @ concat ds))], assembler_reset a)"
  using assms
proof (induction ds arbitrary: a)
  case (Cons d ds)
  let ?a = "a\<lparr>current_data := current_data a @ d\<rparr>"
  have feed: "feed (continuation h bc d) a = feed_finish ?a"
    using Cons.prems by (intro feed_continuation) auto
  show ?case
  proof (cases "ds = []")
    case True
    with feed Cons.prems show ?thesis
      by (simp add: feed_finish_def assembler_reset_def)
  next
    case False
    then have "0 < length (concat ds)" using Cons.prems(5) by (cases ds) auto
    moreover have "e = length (current_data a) + length d + length (concat ds)"
      using Cons.prems(3) by simp
    ultimately have "length (current_data a) + length d < e" by linarith
    with Cons.prems(1) have "feed_finish ?a = (Ok None, ?a)"
      by (simp add: feed_finish_def)
    moreover have "run_machine (\<lambda>a p. feed p a) ?a (map (continuation h bc) ds) =
        (replicate (length ds - 1) (Ok None) @ [Ok (Some (current_data ?a @ concat ds))], assembler_reset ?a)"
      using Cons.prems False by (intro Cons.IH) simp_all
    ultimately show ?thesis
      using feed False by (cases ds) (simp_all add: assembler_reset_def)
  qed
qed simp

lemma fragments_shape:
  assumes "fragment_l2cap_pdu h bc n pdu fl = Ok ps"
  shows "complete_pdu pdu" and "1 \<le> n" and "n \<le> 65535"
    and "ps = (continuation h bc (take n pdu))\<lparr>pb_flag := (if fl then HCI_ACL_PB_FIRST_FLUSHABLE
                 else HCI_ACL_PB_FIRST_NON_FLUSHABLE)\<rparr>
              # map (continuation h bc) (chunks n (drop n pdu))"
proof -
  show c: "complete_pdu pdu" and n: "1 \<le> n" "n \<le> 65535"
    using assms by (auto simp: fragment_l2cap_pdu_def complete_pdu_def Let_def split: if_splits)
  have *: "map (\<lambda>(i, d). \<lparr>connection_handle = h, pb_flag = (if i = 0 then x else HCI_ACL_PB_CONTINUATION),
        bc_flag = bc, data_total_length = of_nat (length d), acl_data = d\<rparr>) (enumerate (Suc k) ds)
      = map (continuation h bc) ds" for x k ds
    by (induction ds arbitrary: k) (simp_all add: continuation_def)
  have "pdu \<noteq> []" using c by (auto simp: complete_pdu_def)
  with n assms show "ps = (continuation h bc (take n pdu))\<lparr>pb_flag := (if fl then HCI_ACL_PB_FIRST_FLUSHABLE
                 else HCI_ACL_PB_FIRST_NON_FLUSHABLE)\<rparr>
              # map (continuation h bc) (chunks n (drop n pdu))"
    by (auto simp: fragment_l2cap_pdu_def Let_def chunks_rec * split: if_splits)
      (simp_all add: continuation_def)
qed


lemma feed_first:
  assumes "unat (data_total_length p) = length (acl_data p)" and "2 \<le> length (acl_data p)"
    and "pb_flag p = HCI_ACL_PB_FIRST_NON_FLUSHABLE \<or> pb_flag p = HCI_ACL_PB_FIRST_FLUSHABLE"
  shows "feed p a = feed_finish (a\<lparr>asm_handle := Some (connection_handle p),
      expected_length := Some (unat (u16_from_le_bytes (acl_data p ! 0) (acl_data p ! 1)) + 4),
      current_data := acl_data p\<rparr>)"
  using assms by (auto simp: feed_def)

lemma reassemble_fragments:
  assumes "fragment_l2cap_pdu h bc n pdu fl = Ok ps" and "2 \<le> n"
  shows "run_machine (\<lambda>a p. feed p a) a ps =
    (replicate (length ps - 1) (Ok None) @ [Ok (Some pdu)], assembler_reset a)"
proof -
  note shape = fragments_shape [OF assms(1)]
  let ?d = "take n pdu"
  let ?ds = "chunks n (drop n pdu)"
  let ?p = "(continuation h bc ?d)\<lparr>pb_flag := (if fl then HCI_ACL_PB_FIRST_FLUSHABLE
                 else HCI_ACL_PB_FIRST_NON_FLUSHABLE)\<rparr>"
  define e where "e = length pdu"
  let ?a = "a\<lparr>asm_handle := Some h, expected_length := Some e, current_data := ?d\<rparr>"
  have d: "2 \<le> length ?d" "length ?d \<le> 65535" and e: "e = unat (u16_from_le_bytes (?d ! 0) (?d ! 1)) + 4"
    using shape(1-3) assms(2) by (auto simp: complete_pdu_def e_def)
  have first: "feed ?p a = feed_finish ?a"
    using d e by (subst feed_first) (auto simp: continuation_def unat_of_nat_u16)
  show ?thesis
  proof (cases "?ds = []")
    case True
    then have "?d = pdu" using assms(2) by simp
    then have "feed_finish ?a = (Ok (Some pdu), assembler_reset a)"
      by (simp add: feed_finish_def e_def assembler_reset_def)
    moreover have "ps = [?p]" using shape(4) True by (simp only: list.map)
    ultimately show ?thesis using first by simp
  next
    case False
    then have "length ?d < e" using assms(2) by (simp add: e_def)
    then have finish: "feed_finish ?a = (Ok None, ?a)" by (simp add: feed_finish_def)
    have "\<forall>d \<in> set ?ds. d \<noteq> [] \<and> length d \<le> 65535"
      using chunks_bounds [of _ n "drop n pdu"] shape(3) by (meson order_trans)
    then have "run_machine (\<lambda>a p. feed p a) ?a (map (continuation h bc) ?ds) =
      (replicate (length ?ds - 1) (Ok None) @ [Ok (Some (current_data ?a @ concat ?ds))], assembler_reset ?a)"
      using False assms(2) shape(2) by (intro feed_continuations [where e = e]) (simp_all add: e_def)
    moreover have "current_data ?a @ concat ?ds = pdu" using shape(2) by simp
    moreover have "replicate (length ?ds) r = r # replicate (length ?ds - 1) r"
      for r :: "bytes option result"
      using False by (cases ?ds) (simp_all only: list.size replicate_Suc diff_Suc_1 simp_thms add_Suc_right add_0_right)
    ultimately show ?thesis
      using first finish unfolding shape(4)
      by (simp add: assembler_reset_def)
  qed
qed

lemma fragments_wf:
  assumes "fragment_l2cap_pdu h bc n pdu fl = Ok ps" "unat h < 4096" "unat bc < 4"
  shows "list_all acl_wf ps"
proof -
  note shape = fragments_shape [OF assms(1)]
  have "acl_wf (continuation h bc d)" if "length d \<le> 65535" for d
    using that assms(2,3) by (simp add: acl_wf_def continuation_def hci_consts unat_of_nat_u16)
  moreover have "length d \<le> 65535" if "d \<in> set (chunks n (drop n pdu))" for d
    using chunks_bounds [OF that] shape(3) by simp
  ultimately show ?thesis
    using shape(2-4) assms(2,3)
    by (auto simp: list_all_iff) (auto simp: acl_wf_def continuation_def hci_consts unat_of_nat_u16)
qed

section \<open>Properties\<close>

text \<open>
  Property C32: the three data packet codecs are lossless. An ACL or synchronous packet whose
  handle fits 12 bits, whose flags fit 2 bits and whose length field is right is read back unchanged, and
  so is an isochronous packet in each of its four layouts (time stamp present or not, SDU information
  present or not).
\<close>

theorem data_packet_roundtrip:
  "(acl_wf a \<longrightarrow> acl_from_bytes (acl_to_bytes a) = Ok a) \<and>
   (sco_wf s \<longrightarrow> sco_from_bytes (sco_to_bytes s) = Ok s) \<and>
   (iso_wf i \<longrightarrow> iso_from_bytes (iso_to_bytes i) = Ok i)"
  using acl.dec_enc sco.dec_enc iso.dec_enc by blast

theorem data_packet_roundtrip_witness:
  "acl_from_bytes (acl_to_bytes \<lparr>connection_handle = 0xABC, pb_flag = 2, bc_flag = 1,
     data_total_length = 2, acl_data = [7, 8]\<rparr>) =
   Ok \<lparr>connection_handle = 0xABC, pb_flag = 2, bc_flag = 1, data_total_length = 2, acl_data = [7, 8]\<rparr> \<and>
   sco_from_bytes (sco_to_bytes \<lparr>sco_handle = 0x123, sco_packet_status = 3, sco_total_length = 1, sco_data = [9]\<rparr>) =
   Ok \<lparr>sco_handle = 0x123, sco_packet_status = 3, sco_total_length = 1, sco_data = [9]\<rparr> \<and>
   iso_from_bytes (iso_to_bytes \<lparr>iso_handle = 0x60, iso_pb_flag = 2, ts_flag = 1, iso_total_length = 9,
     time_stamp = Some 0x01020304, packet_sequence_number = Some 5, iso_sdu_length = Some 1,
     packet_status_flag = Some 1, iso_sdu_fragment = [9]\<rparr>) =
   Ok \<lparr>iso_handle = 0x60, iso_pb_flag = 2, ts_flag = 1, iso_total_length = 9,
     time_stamp = Some 0x01020304, packet_sequence_number = Some 5, iso_sdu_length = Some 1,
     packet_status_flag = Some 1, iso_sdu_fragment = [9]\<rparr>"
proof -
  let ?a = "\<lparr>connection_handle = 0xABC, pb_flag = 2, bc_flag = 1, data_total_length = 2, acl_data = [7, 8]\<rparr>"
  let ?s = "\<lparr>sco_handle = 0x123, sco_packet_status = 3, sco_total_length = 1, sco_data = [9]\<rparr>"
  let ?i = "\<lparr>iso_handle = 0x60, iso_pb_flag = 2, ts_flag = 1, iso_total_length = 9, time_stamp = Some 0x01020304,
    packet_sequence_number = Some 5, iso_sdu_length = Some 1, packet_status_flag = Some 1, iso_sdu_fragment = [9]\<rparr>"
  have "acl_wf ?a" "sco_wf ?s" "iso_wf ?i" by (simp_all add: acl_wf_def sco_wf_def iso_wf_def)
  then show ?thesis using data_packet_roundtrip [of ?a ?s ?i] by blast
qed

text \<open>
  Property C10: fragmentation and reassembly are inverse, across the HCI wire. Fragmenting a
  PDU with a controller buffer of at least two bytes, sending every fragment through
  the packet codec and feeding the results to an assembler in any state returns the
  PDU with the last fragment and nothing before it, and leaves the assembler idle.
\<close>

theorem fragment_reassemble:
  assumes "fragment_l2cap_pdu h bc n pdu fl = Ok ps" and "2 \<le> n"
    and "unat h < 4096" and "unat bc < 4"
  shows "map (acl_from_bytes \<circ> acl_to_bytes) ps = map Ok ps \<and>
    run_machine (\<lambda>a p. feed p a) a ps =
      (replicate (length ps - 1) (Ok None) @ [Ok (Some pdu)], assembler_new)"
  using acl.dec_enc_all [OF fragments_wf [OF assms(1,3,4)]] reassemble_fragments [OF assms(1,2)]
  by (simp add: assembler_new_def assembler_reset_def)

theorem fragment_reassemble_witness:
  "\<exists>ps. fragment_l2cap_pdu 64 0 2 [1, 0, 4, 0, 9] False = Ok ps \<and>
     run_machine (\<lambda>a p. feed p a) assembler_new ps =
       (replicate (length ps - 1) (Ok None) @ [Ok (Some [1, 0, 4, 0, 9])], assembler_new)"
proof -
  obtain ps where ps: "fragment_l2cap_pdu 64 0 2 [1, 0, 4, 0, 9] False = Ok ps"
    by (simp add: fragment_l2cap_pdu_def u16_from_le_bytes_def)
  from fragment_reassemble [OF ps, of assembler_new] ps show ?thesis by simp
qed

text \<open>
  Every fragment fits the controller buffer, the fragments carry the PDU's
  bytes in order, exactly the first one starts a PDU, and there are as many as the
  length divided by the buffer size, rounded up.
\<close>

theorem fragment_bounds:
  assumes "fragment_l2cap_pdu h bc n pdu fl = Ok ps"
  shows "concat (map acl_data ps) = pdu \<and> length ps = (length pdu + n - 1) div n \<and>
    list_all (\<lambda>p. acl_data p \<noteq> [] \<and> length (acl_data p) \<le> n \<and>
      unat (data_total_length p) = length (acl_data p) \<and> connection_handle p = h) ps \<and>
    map (\<lambda>p. pb_flag p = HCI_ACL_PB_CONTINUATION) ps = False # replicate (length ps - 1) True"
proof -
  note shape = fragments_shape [OF assms(1)]
  have ne: "pdu \<noteq> []" using shape(1) by (auto simp: complete_pdu_def)
  have data: "map acl_data ps = chunks n pdu"
    using shape(2) ne unfolding shape(4) by (simp add: chunks_rec continuation_def o_def)
  then have len: "length ps = (length pdu + n - 1) div n"
    using shape(2) by (metis length_chunks length_map less_eq_Suc_le One_nat_def)
  have "\<forall>p \<in> set ps. acl_data p \<in> set (chunks n pdu)"
    using data by (metis image_eqI set_map)
  then have "list_all (\<lambda>p. acl_data p \<noteq> [] \<and> length (acl_data p) \<le> n) ps"
    using chunks_bounds by (fastforce simp: list_all_iff)
  moreover have "unat (data_total_length p) = length (acl_data p) \<and> connection_handle p = h"
    if "p \<in> set ps" and "length (acl_data p) \<le> n" for p
    using that shape(3) unfolding shape(4) by (auto simp: continuation_def unat_of_nat_u16)
  moreover have "map (\<lambda>p. pb_flag p = HCI_ACL_PB_CONTINUATION) ps = False # replicate (length ps - 1) True"
    unfolding shape(4) by (auto simp: continuation_def hci_consts o_def map_replicate_const)
  ultimately show ?thesis
    using data len shape(2) by (auto simp: list_all_iff)
qed

theorem fragment_bounds_witness:
  "\<exists>ps. fragment_l2cap_pdu 64 0 2 [1, 0, 4, 0, 9] True = Ok ps \<and>
     concat (map acl_data ps) = [1, 0, 4, 0, 9] \<and> length ps = 3"
proof -
  obtain ps where ps: "fragment_l2cap_pdu 64 0 2 [1, 0, 4, 0, 9] True = Ok ps"
    by (simp add: fragment_l2cap_pdu_def u16_from_le_bytes_def)
  from fragment_bounds [OF ps] ps show ?thesis by simp
qed

text \<open>
  Property C31: whatever packets a peer sends, the assembler never panics, and every PDU it
  returns has exactly the length its header declares.
\<close>

theorem assembler_safe:
  assumes "run_machine (\<lambda>a p. feed p a) assembler_new ps = (rs, a)"
  shows "list_all feed_good rs \<and> assembler_inv a"
proof -
  have "assembler_inv assembler_new" by (simp add: assembler_inv_def assembler_new_def)
  from asm.run_good [OF this, of _ ps] asm.run_inv [OF this, of ps] assms show ?thesis
    by (auto simp: list_all_iff)
qed

theorem assembler_safe_witness:
  "\<exists>rs a. run_machine (\<lambda>a p. feed p a) assembler_new
       [\<lparr>connection_handle = 64, pb_flag = 2, bc_flag = 0, data_total_length = 4, acl_data = [0, 0, 4, 0]\<rparr>,
        \<lparr>connection_handle = 64, pb_flag = 1, bc_flag = 0, data_total_length = 1, acl_data = [9]\<rparr>] = (rs, a) \<and>
     list_all feed_good rs"
  using assembler_safe by (metis surj_pair)

text \<open>
  A one-byte buffer is accepted by the fragmenter but its first fragment is
  always refused by the assembler, which needs both bytes of the length field at once.
\<close>

theorem fragment_size_one_not_reassembled:
  assumes "fragment_l2cap_pdu h bc 1 pdu fl = Ok ps"
  shows "fst (feed (hd ps) a) = invalid ''first ACL fragment lacks L2CAP length'' \<and>
    length ps = length pdu"
proof -
  note shape = fragments_shape [OF assms]
  have "length (take 1 pdu) = 1" using shape(1) by (auto simp: complete_pdu_def)
  then have "fst (feed (hd ps) a) = invalid ''first ACL fragment lacks L2CAP length''"
    unfolding shape(4) by (auto simp: feed_def continuation_def hci_consts)
  moreover have "length ps = length pdu"
    unfolding shape(4) using shape(1) by (simp add: length_chunks complete_pdu_def)
  ultimately show ?thesis by simp
qed

theorem fragment_size_one_not_reassembled_witness:
  "\<exists>ps. fragment_l2cap_pdu 64 0 1 [0, 0, 4, 0] False = Ok ps \<and>
     fst (feed (hd ps) assembler_new) = invalid ''first ACL fragment lacks L2CAP length''"
proof -
  obtain ps where ps: "fragment_l2cap_pdu 64 0 1 [0, 0, 4, 0] False = Ok ps"
    by (simp add: fragment_l2cap_pdu_def u16_from_le_bytes_def)
  from fragment_size_one_not_reassembled [OF ps] ps show ?thesis by blast
qed

end
