(* ===== verification/H4_Framer.thy ===== *)
theory H4_Framer
  imports Hci_Packet Ordered_Map
begin

text \<open>
  The H4 transport: the packet dispatch \<open>HciPacket\<close> of \<open>bumble-hci/src/lib.rs\<close> and the incremental
  parser \<open>PacketFramer\<close> with the blocking reader \<open>H4Transport\<close> of \<open>bumble-transport/src/common.rs\<close>.
  The codecs of HCI commands and events are parameters: every statement holds for any of them. The
  byte stream a transport reads from is the list of results of its \<open>read\<close> calls.
\<close>

section \<open>HCI packets\<close>

definition HCI_COMMAND_PACKET :: u8 where "HCI_COMMAND_PACKET = 0x01"
definition HCI_EVENT_PACKET :: u8 where "HCI_EVENT_PACKET = 0x04"

datatype ('c, 'e) hci_packet =
    Command 'c | Event 'e | AclData acl_data_packet | SyncData sco_data_packet
  | IsoData iso_data_packet | Custom bytes

definition map_result :: "('a \<Rightarrow> 'b) \<Rightarrow> ('a, 'x) rresult \<Rightarrow> ('b, 'x) rresult" where
  "map_result f r = bind_result r (\<lambda>x. Ok (f x))"

definition hci_from_bytes ::
  "(bytes \<Rightarrow> 'c result) \<Rightarrow> (bytes \<Rightarrow> 'e result) \<Rightarrow> bytes \<Rightarrow> ('c, 'e) hci_packet result" where
  "hci_from_bytes command_dec event_dec packet =
     (case packet of
        [] \<Rightarrow> invalid ''empty packet''
      | t # _ \<Rightarrow>
          if t = HCI_COMMAND_PACKET then map_result Command (command_dec packet)
          else if t = HCI_ACL_DATA_PACKET then map_result AclData (acl_from_bytes packet)
          else if t = HCI_SYNCHRONOUS_DATA_PACKET then map_result SyncData (sco_from_bytes packet)
          else if t = HCI_EVENT_PACKET then map_result Event (event_dec packet)
          else if t = HCI_ISO_DATA_PACKET then map_result IsoData (iso_from_bytes packet)
          else Ok (Custom packet))"

fun hci_to_bytes :: "('c \<Rightarrow> bytes) \<Rightarrow> ('e \<Rightarrow> bytes) \<Rightarrow> ('c, 'e) hci_packet \<Rightarrow> bytes" where
  "hci_to_bytes command_enc event_enc (Command c) = command_enc c"
| "hci_to_bytes command_enc event_enc (Event e) = event_enc e"
| "hci_to_bytes command_enc event_enc (AclData p) = acl_to_bytes p"
| "hci_to_bytes command_enc event_enc (SyncData p) = sco_to_bytes p"
| "hci_to_bytes command_enc event_enc (IsoData p) = iso_to_bytes p"
| "hci_to_bytes command_enc event_enc (Custom p) = p"

section \<open>The framer\<close>

definition MAX_HCI_PACKET_SIZE :: nat where "MAX_HCI_PACKET_SIZE = 1 + 4 + 65535"

datatype transport_error =
    Io nat | Hci rust_error | InvalidPacketType u8 | InvalidLayout | PacketTooLarge nat | TruncatedPacket nat

record packet_layout =
  length_size :: u8
  length_offset :: u8

definition header_size :: "packet_layout \<Rightarrow> (nat, transport_error) rresult" where
  "header_size l =
     (if length_size l \<noteq> 1 \<and> length_size l \<noteq> 2 then Err InvalidLayout
      else Ok (1 + unat (length_offset l) + unat (length_size l)))"

definition slice_index :: "bytes \<Rightarrow> nat \<Rightarrow> (u8, transport_error) rresult" where
  "slice_index xs i = (if i < length xs then Ok (xs ! i) else Panic ''index out of bounds'')"

definition body_length :: "packet_layout \<Rightarrow> bytes \<Rightarrow> (nat, transport_error) rresult" where
  "body_length l packet_prefix =
     (let offset = 1 + unat (length_offset l)
      in if length_size l = 1 then bind_result (slice_index packet_prefix offset) (\<lambda>b. Ok (unat b))
         else if length_size l = 2 then
           bind_result (slice_index packet_prefix offset) (\<lambda>a.
           bind_result (slice_index packet_prefix (offset + 1)) (\<lambda>b. Ok (unat (u16_from_le_bytes a b))))
         else Err InvalidLayout)"

definition standard_layout :: "u8 \<Rightarrow> packet_layout option" where
  "standard_layout t =
     (if t = HCI_COMMAND_PACKET then Some \<lparr>length_size = 1, length_offset = 2\<rparr>
      else if t = HCI_ACL_DATA_PACKET then Some \<lparr>length_size = 2, length_offset = 2\<rparr>
      else if t = HCI_SYNCHRONOUS_DATA_PACKET then Some \<lparr>length_size = 1, length_offset = 2\<rparr>
      else if t = HCI_EVENT_PACKET then Some \<lparr>length_size = 1, length_offset = 1\<rparr>
      else if t = HCI_ISO_DATA_PACKET then Some \<lparr>length_size = 2, length_offset = 2\<rparr>
      else None)"

record packet_framer =
  fr_buffer :: bytes
  fr_extended_layouts :: "(u8, packet_layout) btree_map"

definition framer_new :: packet_framer where
  "framer_new = \<lparr>fr_buffer = [], fr_extended_layouts = []\<rparr>"

definition register_layout :: "u8 \<Rightarrow> packet_layout \<Rightarrow> (packet_framer, unit, transport_error) op" where
  "register_layout t l f =
     and_then (lift_result (header_size l)) (\<lambda>_ f.
       if standard_layout t \<noteq> None then (Err InvalidLayout, f)
       else (Ok (), f\<lparr>fr_extended_layouts := bt_insert t l (fr_extended_layouts f)\<rparr>)) f"

definition unregister_layout :: "u8 \<Rightarrow> packet_framer \<Rightarrow> packet_layout option \<times> packet_framer" where
  "unregister_layout t f =
     (bt_get (fr_extended_layouts f) t, f\<lparr>fr_extended_layouts := bt_remove t (fr_extended_layouts f)\<rparr>)"

definition layout_of :: "packet_framer \<Rightarrow> u8 \<Rightarrow> packet_layout option" where
  "layout_of f t =
     (case standard_layout t of Some l \<Rightarrow> Some l | None \<Rightarrow> bt_get (fr_extended_layouts f) t)"

text \<open>
  The checks of the loop of \<open>feed\<close> on a buffer with front byte \<open>t\<close>: the size of the packet at the
  front, or \<open>None\<close> when more bytes are needed. A header size below 260 and a 16-bit length add up
  within \<open>usize\<close>, so the \<open>checked_add\<close> always succeeds.
\<close>

definition front_size :: "packet_framer \<Rightarrow> u8 \<Rightarrow> (nat option, transport_error) rresult" where
  "front_size f t =
     (case layout_of f t of
        None \<Rightarrow> Err (InvalidPacketType t)
      | Some l \<Rightarrow>
          bind_result (header_size l) (\<lambda>h.
            if length (fr_buffer f) < h then Ok None
            else bind_result (body_length l (fr_buffer f)) (\<lambda>n.
              if h + n > MAX_HCI_PACKET_SIZE then Err (PacketTooLarge (h + n))
              else if length (fr_buffer f) < h + n then Ok None
              else Ok (Some (h + n)))))"

text \<open>Two of the errors clear the buffer; an invalid layout returns with \<open>?\<close> and leaves it.\<close>

definition clear_on :: "transport_error \<Rightarrow> packet_framer \<Rightarrow> packet_framer" where
  "clear_on e f = (case e of InvalidLayout \<Rightarrow> f | _ \<Rightarrow> f\<lparr>fr_buffer := []\<rparr>)"

function framer_loop ::
  "(bytes \<Rightarrow> 'p result) \<Rightarrow> 'p list \<Rightarrow> (packet_framer, 'p list, transport_error) op" where
  "framer_loop dec packets f =
     (case fr_buffer f of
        [] \<Rightarrow> (Ok packets, f)
      | t # _ \<Rightarrow>
          (case front_size f t of
             Err e \<Rightarrow> (Err e, clear_on e f)
           | Panic p \<Rightarrow> (Panic p, f)
           | Ok None \<Rightarrow> (Ok packets, f)
           | Ok (Some n) \<Rightarrow>
               let g = f\<lparr>fr_buffer := drop n (fr_buffer f)\<rparr>
               in (case dec (take n (fr_buffer f)) of
                     Ok p \<Rightarrow> framer_loop dec (packets @ [p]) g
                   | Err e \<Rightarrow> (Err (Hci e), g)
                   | Panic p \<Rightarrow> (Panic p, g))))"
  by pat_completeness auto

lemma front_size_pos:
  assumes "front_size f t = Ok (Some n)" shows "0 < n \<and> n \<le> length (fr_buffer f)"
  using assms
  by (auto simp: front_size_def header_size_def Let_def split: option.splits if_splits)

termination framer_loop
  using front_size_pos by (relation "measure (\<lambda>(dec, packets, f). length (fr_buffer f))") force+

declare framer_loop.simps [simp del]

definition framer_feed :: "(bytes \<Rightarrow> 'p result) \<Rightarrow> bytes \<Rightarrow> (packet_framer, 'p list, transport_error) op" where
  "framer_feed dec data f = framer_loop dec [] (f\<lparr>fr_buffer := fr_buffer f @ data\<rparr>)"

definition buffered_len :: "packet_framer \<Rightarrow> nat" where
  "buffered_len f = length (fr_buffer f)"

definition framer_is_empty :: "packet_framer \<Rightarrow> bool" where
  "framer_is_empty f \<longleftrightarrow> fr_buffer f = []"

definition framer_clear :: "packet_framer \<Rightarrow> packet_framer" where
  "framer_clear f = f\<lparr>fr_buffer := []\<rparr>"

section \<open>The blocking transport\<close>

text \<open>
  The stream is what its \<open>read\<close> calls will return: an I/O error, or the bytes read, of which there
  is at least one until the end of the stream (an exhausted list reads nothing).
\<close>

record 'p h4_transport =
  io_reads :: "(bytes, nat) rresult list"
  h4_framer :: packet_framer
  h4_pending :: "'p list"

definition h4_new :: "(bytes, nat) rresult list \<Rightarrow> 'p h4_transport" where
  "h4_new io = \<lparr>io_reads = io, h4_framer = framer_new, h4_pending = []\<rparr>"

fun h4_fill :: "(bytes \<Rightarrow> 'p result) \<Rightarrow> (bytes, nat) rresult list \<Rightarrow> packet_framer \<Rightarrow>
    ('p list option, transport_error) rresult \<times> (bytes, nat) rresult list \<times> packet_framer" where
  "h4_fill dec [] f =
     ((if framer_is_empty f then Ok None else Err (TruncatedPacket (buffered_len f))), [], f)"
| "h4_fill dec (r # io) f =
     (case r of
        Err e \<Rightarrow> (Err (Io e), io, f)
      | Panic p \<Rightarrow> (Panic p, io, f)
      | Ok data \<Rightarrow>
          if data = [] then ((if framer_is_empty f then Ok None else Err (TruncatedPacket (buffered_len f))), io, f)
          else case framer_feed dec data f of
            (Ok [], g) \<Rightarrow> h4_fill dec io g
          | (Ok ps, g) \<Rightarrow> (Ok (Some ps), io, g)
          | (Err e, g) \<Rightarrow> (Err e, io, g)
          | (Panic p, g) \<Rightarrow> (Panic p, io, g))"

definition read_packet :: "(bytes \<Rightarrow> 'p result) \<Rightarrow> ('p h4_transport, 'p option, transport_error) op" where
  "read_packet dec t =
     (case h4_pending t of
        p # ps \<Rightarrow> (Ok (Some p), t\<lparr>h4_pending := ps\<rparr>)
      | [] \<Rightarrow>
          (case h4_fill dec (io_reads t) (h4_framer t) of
             (Ok (Some ps), io, g) \<Rightarrow>
               (Ok (Some (hd ps)), t\<lparr>io_reads := io, h4_framer := g, h4_pending := tl ps\<rparr>)
           | (Ok None, io, g) \<Rightarrow> (Ok None, t\<lparr>io_reads := io, h4_framer := g\<rparr>)
           | (Err e, io, g) \<Rightarrow> (Err e, t\<lparr>io_reads := io, h4_framer := g\<rparr>)
           | (Panic p, io, g) \<Rightarrow> (Panic p, t\<lparr>io_reads := io, h4_framer := g\<rparr>)))"

section \<open>Feeding in pieces\<close>

text \<open>
  The packets of a sequence of \<open>feed\<close> calls when all of them succeed; otherwise the first failure alone. What
  \<open>read_packet\<close> delivers of the calls before a failing one is the subject of \<open>read_packets\<close> below.
\<close>

fun feed_all :: "(bytes \<Rightarrow> 'p result) \<Rightarrow> bytes list \<Rightarrow> (packet_framer, 'p list, transport_error) op" where
  "feed_all dec [] f = (Ok [], f)"
| "feed_all dec (data # pieces) f =
     and_then (framer_feed dec data) (\<lambda>ps. and_then (feed_all dec pieces) (\<lambda>qs f. (Ok (ps @ qs), f))) f"

lemma layout_of_buffer [simp]: "layout_of (f\<lparr>fr_buffer := b\<rparr>) t = layout_of f t"
  by (simp add: layout_of_def split: option.split)

lemma body_length_append:
  assumes "h \<le> length b" "header_size l = Ok h"
  shows "body_length l (b @ d) = body_length l b"
  using assms by (auto simp: body_length_def slice_index_def header_size_def Let_def nth_append split: if_splits)

lemma front_size_append:
  assumes "front_size f t = r" "r \<noteq> Ok None"
  shows "front_size (f\<lparr>fr_buffer := fr_buffer f @ d\<rparr>) t = r"
proof (cases "layout_of f t")
  case None
  with assms show ?thesis by (simp add: front_size_def)
next
  case l: (Some l)
  show ?thesis
  proof (cases "header_size l")
    case (Ok h)
    with l assms have h: "h \<le> length (fr_buffer f)" by (auto simp: front_size_def not_less split: if_splits)
    with l Ok assms body_length_append [OF h Ok, of d] show ?thesis
      by (cases "body_length l (fr_buffer f)") (auto simp: front_size_def split: if_splits)
  qed (use assms l in \<open>auto simp: front_size_def\<close>)
qed

lemma framer_loop_cases:
  "fr_buffer f = [] \<Longrightarrow> framer_loop dec packets f = (Ok packets, f)"
  "fr_buffer f \<noteq> [] \<Longrightarrow> front_size f (hd (fr_buffer f)) = Ok None \<Longrightarrow> framer_loop dec packets f = (Ok packets, f)"
  "fr_buffer f \<noteq> [] \<Longrightarrow> front_size f (hd (fr_buffer f)) = Err e \<Longrightarrow>
     framer_loop dec packets f = (Err e, clear_on e f)"
  "fr_buffer f \<noteq> [] \<Longrightarrow> front_size f (hd (fr_buffer f)) = Panic m \<Longrightarrow> framer_loop dec packets f = (Panic m, f)"
  "fr_buffer f \<noteq> [] \<Longrightarrow> front_size f (hd (fr_buffer f)) = Ok (Some n) \<Longrightarrow> framer_loop dec packets f =
     (case dec (take n (fr_buffer f)) of
        Ok p \<Rightarrow> framer_loop dec (packets @ [p]) (f\<lparr>fr_buffer := drop n (fr_buffer f)\<rparr>)
      | Err e \<Rightarrow> (Err (Hci e), f\<lparr>fr_buffer := drop n (fr_buffer f)\<rparr>)
      | Panic p \<Rightarrow> (Panic p, f\<lparr>fr_buffer := drop n (fr_buffer f)\<rparr>))"
  by (subst framer_loop.simps, cases "fr_buffer f", simp_all add: Let_def split: rresult.split)+

text \<open>
  The loop on a longer buffer: it does what it does on the shorter one, then goes on with the rest;
  an error it meets is met whatever follows.
\<close>

lemma framer_loop_append:
  "(\<forall>ps g. framer_loop dec packets f = (Ok ps, g) \<longrightarrow>
      framer_loop dec packets (f\<lparr>fr_buffer := fr_buffer f @ d\<rparr>) =
      framer_loop dec ps (g\<lparr>fr_buffer := fr_buffer g @ d\<rparr>)) \<and>
   (\<not> is_ok (fst (framer_loop dec packets f)) \<longrightarrow>
      fst (framer_loop dec packets (f\<lparr>fr_buffer := fr_buffer f @ d\<rparr>)) = fst (framer_loop dec packets f))"
proof (induction dec packets f rule: framer_loop.induct)
  case (1 dec packets f)
  let ?fd = "f\<lparr>fr_buffer := fr_buffer f @ d\<rparr>"
  show ?case
  proof (cases "fr_buffer f = [] \<or> front_size f (hd (fr_buffer f)) = Ok None")
    case True
    then have "framer_loop dec packets f = (Ok packets, f)" using framer_loop_cases(1,2) by blast
    then show ?thesis by simp
  next
    case False
    then have fd: "fr_buffer ?fd \<noteq> []" "front_size ?fd (hd (fr_buffer ?fd)) = front_size f (hd (fr_buffer f))"
      using front_size_append [of f "hd (fr_buffer f)" _ d] by auto
    obtain t rest where b: "fr_buffer f = t # rest" using False by (cases "fr_buffer f") auto
    show ?thesis
    proof (cases "front_size f (hd (fr_buffer f))")
      case (Ok n)
      with False obtain k where n: "n = Some k" by auto
      have k: "k \<le> length (fr_buffer f)" using front_size_pos Ok n by blast
      show ?thesis
      proof (cases "dec (take k (fr_buffer f))")
        case dec: (Ok p)
        have IH: "(\<forall>ps g. framer_loop dec (packets @ [p]) (f\<lparr>fr_buffer := drop k (fr_buffer f)\<rparr>) = (Ok ps, g) \<longrightarrow>
            framer_loop dec (packets @ [p]) (f\<lparr>fr_buffer := drop k (fr_buffer f) @ d\<rparr>) =
            framer_loop dec ps (g\<lparr>fr_buffer := fr_buffer g @ d\<rparr>)) \<and>
          (\<not> is_ok (fst (framer_loop dec (packets @ [p]) (f\<lparr>fr_buffer := drop k (fr_buffer f)\<rparr>))) \<longrightarrow>
            fst (framer_loop dec (packets @ [p]) (f\<lparr>fr_buffer := drop k (fr_buffer f) @ d\<rparr>)) =
            fst (framer_loop dec (packets @ [p]) (f\<lparr>fr_buffer := drop k (fr_buffer f)\<rparr>)))"
          using 1 [OF b, of n k _ p] Ok n dec b by simp
        show ?thesis
          using framer_loop_cases(5) [OF fd(1), of k dec packets] framer_loop_cases(5) [of f k dec packets]
            fd(2) Ok n k dec False IH by simp
      qed (use framer_loop_cases(5) [OF fd(1), of k dec packets] framer_loop_cases(5) [of f k dec packets]
            fd(2) Ok n k False in simp_all)
    next
      case (Err e)
      then show ?thesis
        using framer_loop_cases(3) [OF fd(1), of e dec packets] framer_loop_cases(3) [of f e dec packets] fd(2) False
        by simp
    next
      case (Panic m)
      then show ?thesis
        using framer_loop_cases(4) [OF fd(1), of m dec packets] framer_loop_cases(4) [of f m dec packets] fd(2) False
        by simp
    qed
  qed
qed

lemma framer_loop_acc:
  "framer_loop dec (acc @ packets) f = and_then (framer_loop dec packets) (\<lambda>ps g. (Ok (acc @ ps), g)) f"
proof (induction dec packets f rule: framer_loop.induct)
  case (1 dec packets f)
  show ?case
  proof (cases "fr_buffer f = []")
    case True
    then show ?thesis by (simp add: framer_loop_cases(1) and_then_def)
  next
    case False
    then obtain t rest where b: "fr_buffer f = t # rest" by (cases "fr_buffer f") auto
    show ?thesis
    proof (cases "front_size f (hd (fr_buffer f))")
      case (Ok n)
      show ?thesis
      proof (cases n)
        case None
        with Ok False show ?thesis by (simp add: framer_loop_cases(2) and_then_def)
      next
        case (Some k)
        note step = framer_loop_cases(5) [OF False, of k dec] and IH = 1 [OF b, of n k _]
        show ?thesis
          using step [of packets] step [of "acc @ packets"] IH Ok Some b
          by (cases "dec (take k (fr_buffer f))") (simp_all add: and_then_def)
      qed
    qed (use False in \<open>simp_all add: framer_loop_cases(3,4) and_then_def\<close>)
  qed
qed

lemma feed_append_ok:
  assumes "framer_feed dec a f = (Ok ps, g)"
  shows "framer_feed dec (a @ b) f = and_then (framer_feed dec b) (\<lambda>qs g. (Ok (ps @ qs), g)) g"
  using framer_loop_append [of dec "[]" "f\<lparr>fr_buffer := fr_buffer f @ a\<rparr>" b] assms
    framer_loop_acc [of dec ps "[]" "g\<lparr>fr_buffer := fr_buffer g @ b\<rparr>"]
  by (simp add: framer_feed_def and_then_def)

lemma feed_append_error:
  assumes "\<not> is_ok (fst (framer_feed dec a f))"
  shows "fst (framer_feed dec (a @ b) f) = fst (framer_feed dec a f)"
  using framer_loop_append [of dec "[]" "f\<lparr>fr_buffer := fr_buffer f @ a\<rparr>" b] assms
  by (simp add: framer_feed_def)

lemma framer_loop_settles:
  "framer_loop dec packets f = (Ok ps, g) \<Longrightarrow> framer_loop dec qs g = (Ok qs, g)"
proof (induction dec packets f rule: framer_loop.induct)
  case (1 dec packets f)
  show ?case
  proof (cases "fr_buffer f = [] \<or> front_size f (hd (fr_buffer f)) = Ok None")
    case True
    then have "framer_loop dec packets f = (Ok packets, f)" "framer_loop dec qs f = (Ok qs, f)"
      using framer_loop_cases(1,2) by blast+
    with 1 show ?thesis by simp
  next
    case False
    then obtain t rest where b: "fr_buffer f = t # rest" by (cases "fr_buffer f") auto
    have ne: "fr_buffer f \<noteq> []" using False by simp
    show ?thesis
    proof (cases "front_size f (hd (fr_buffer f))")
      case (Ok n)
      with False obtain k where n: "n = Some k" by auto
      note step = framer_loop_cases(5) [OF ne, of k dec packets] and IH = "1.IH" [OF b, of n k _]
      show ?thesis
        using step IH Ok n b "1.prems" by (cases "dec (take k (fr_buffer f))") simp_all
    qed (use "1.prems" ne in \<open>simp_all add: framer_loop_cases(3,4)\<close>)
  qed
qed

lemma feed_settles: "framer_feed dec a f = (Ok ps, g) \<Longrightarrow> framer_feed dec [] g = (Ok [], g)"
  by (simp add: framer_feed_def framer_loop_settles)

lemma feed_all_settled:
  assumes "framer_feed dec [] f = (Ok [], f)"
  shows "fst (feed_all dec pieces f) = fst (framer_feed dec (concat pieces) f) \<and>
    (is_ok (fst (feed_all dec pieces f)) \<longrightarrow> feed_all dec pieces f = framer_feed dec (concat pieces) f)"
  using assms
proof (induction pieces arbitrary: f)
  case (Cons a pieces)
  show ?case
  proof (cases "framer_feed dec a f")
    case (Pair r g)
    show ?thesis
    proof (cases r)
      case (Ok ps)
      with Pair have g: "framer_feed dec a f = (Ok ps, g)" by simp
      note IH = Cons.IH [OF feed_settles [OF g]]
      obtain r1 h1 r2 h2 where rh: "feed_all dec pieces g = (r1, h1)" "framer_feed dec (concat pieces) g = (r2, h2)"
        by fastforce
      have "feed_all dec (a # pieces) f = and_then (feed_all dec pieces) (\<lambda>qs f. (Ok (ps @ qs), f)) g"
        using g by (simp add: and_then_simps)
      moreover have "framer_feed dec (concat (a # pieces)) f =
          and_then (framer_feed dec (concat pieces)) (\<lambda>qs f. (Ok (ps @ qs), f)) g"
        using feed_append_ok [OF g] by simp
      ultimately show ?thesis using IH rh by (cases r1) (auto simp: and_then_def)
    next
      case (Err e)
      then show ?thesis using Pair feed_append_error [of dec a f "concat pieces"] by (simp add: and_then_def)
    next
      case (Panic e)
      then show ?thesis using Pair feed_append_error [of dec a f "concat pieces"] by (simp add: and_then_def)
    qed
  qed
qed simp

section \<open>Reading a stream in pieces\<close>

text \<open>
  \<open>n\<close> calls of \<open>read_packet\<close>, and what they have to return on a stream that delivers the given pieces and
  ends: the packets of one \<open>feed\<close> after the other up to the first that fails, then the failure; at
  the end of the stream \<open>None\<close>, or the truncation error when the framer holds an incomplete packet.
\<close>

definition read_packets :: "(bytes \<Rightarrow> 'p result) \<Rightarrow> nat \<Rightarrow> 'p h4_transport \<Rightarrow>
    ('p option, transport_error) rresult list \<times> 'p h4_transport" where
  "read_packets dec n t = run_machine (\<lambda>t _. read_packet dec t) t (replicate n ())"

definition stream_end :: "packet_framer \<Rightarrow> ('p option, transport_error) rresult" where
  "stream_end f = (if framer_is_empty f then Ok None else Err (TruncatedPacket (buffered_len f)))"

fun stream_results :: "(bytes \<Rightarrow> 'p result) \<Rightarrow> bytes list \<Rightarrow> packet_framer \<Rightarrow>
    'p list \<times> ('p option, transport_error) rresult \<times> bytes list \<times> packet_framer" where
  "stream_results dec [] f = ([], stream_end f, [], f)"
| "stream_results dec (data # pieces) f =
     (case framer_feed dec data f of
        (Ok ps, g) \<Rightarrow> (let (qs, r, rest) = stream_results dec pieces g in (ps @ qs, r, rest))
      | (r, g) \<Rightarrow> ([], map_result (\<lambda>_. None) r, pieces, g))"

lemma read_packets_0 [simp]: "read_packets dec 0 t = ([], t)"
  by (simp add: read_packets_def)

lemma read_packets_Suc [simp]:
  "read_packets dec (Suc n) t = (let (r, t1) = read_packet dec t; (rs, t2) = read_packets dec n t1 in (r # rs, t2))"
  by (simp add: read_packets_def)

lemma read_packets_pending:
  "read_packets dec (length ps + n) \<lparr>io_reads = io, h4_framer = f, h4_pending = ps\<rparr> =
    (let (rs, t) = read_packets dec n \<lparr>io_reads = io, h4_framer = f, h4_pending = []\<rparr> in (map (Ok \<circ> Some) ps @ rs, t))"
  by (induction ps) (simp_all add: read_packet_def split_beta Let_def)

text \<open>A read that completes no packet is passed over; one that completes some makes the rest pending.\<close>

lemma read_packet_piece:
  assumes "framer_feed dec data f = (Ok ps, g)" "data \<noteq> []"
  shows "read_packet dec \<lparr>io_reads = Ok data # io, h4_framer = f, h4_pending = []\<rparr> =
    read_packet dec \<lparr>io_reads = io, h4_framer = g, h4_pending = ps\<rparr>"
  using assms by (cases ps) (simp_all add: read_packet_def split: prod.splits rresult.splits option.splits)

lemma read_packet_failed:
  assumes "framer_feed dec data f = (r, g)" "\<not> is_ok r" "data \<noteq> []"
  shows "read_packet dec \<lparr>io_reads = Ok data # io, h4_framer = f, h4_pending = []\<rparr> =
    (map_result (\<lambda>_. None) r, \<lparr>io_reads = io, h4_framer = g, h4_pending = []\<rparr>)"
  using assms by (cases r) (simp_all add: read_packet_def map_result_def)

lemma read_packets_stream:
  assumes "[] \<notin> set pieces" "stream_results dec pieces f = (ps, r, rest, g)"
  shows "read_packets dec (Suc (length ps)) \<lparr>io_reads = map Ok pieces, h4_framer = f, h4_pending = []\<rparr> =
    (map (Ok \<circ> Some) ps @ [r], \<lparr>io_reads = map Ok rest, h4_framer = g, h4_pending = []\<rparr>)"
  using assms
proof (induction pieces arbitrary: f ps)
  case Nil
  then show ?case by (auto simp: read_packet_def stream_end_def)
next
  case (Cons data pieces)
  obtain fed h where feed: "framer_feed dec data f = (fed, h)" by fastforce
  have "data \<noteq> []" using Cons.prems(1) by auto
  show ?case
  proof (cases "is_ok fed")
    case True
    then obtain qs where qs: "fed = Ok qs" by (auto elim: is_ok.elims)
    with feed Cons.prems(2) obtain ps' where ps': "stream_results dec pieces h = (ps', r, rest, g)" "ps = qs @ ps'"
      by (auto split: prod.splits)
    have "read_packets dec (Suc (length ps)) \<lparr>io_reads = map Ok (data # pieces), h4_framer = f, h4_pending = []\<rparr> =
        read_packets dec (length qs + Suc (length ps')) \<lparr>io_reads = map Ok pieces, h4_framer = h, h4_pending = qs\<rparr>"
      using read_packet_piece [of dec data f qs h "map Ok pieces"] feed qs \<open>data \<noteq> []\<close> ps'(2) by simp
    also have "\<dots> = (map (Ok \<circ> Some) ps @ [r], \<lparr>io_reads = map Ok rest, h4_framer = g, h4_pending = []\<rparr>)"
      unfolding read_packets_pending using Cons.IH [OF _ ps'(1)] Cons.prems(1) ps'(2) by simp
    finally show ?thesis .
  next
    case False
    with feed Cons.prems(2) have "ps = []" "r = map_result (\<lambda>_. None) fed" "rest = pieces" "g = h"
      by (cases fed; simp)+
    with read_packet_failed [OF feed False \<open>data \<noteq> []\<close>] show ?thesis by simp
  qed
qed

text \<open>What the pieces deliver in terms of one \<open>feed\<close> of them all.\<close>

lemma stream_results_ok:
  assumes "framer_feed dec [] f = (Ok [], f)" "framer_feed dec (concat pieces) f = (Ok ps, g)"
  shows "stream_results dec pieces f = (ps, stream_end g, [], g)"
  using assms
proof (induction pieces arbitrary: f ps)
  case (Cons data pieces)
  obtain fed h where feed: "framer_feed dec data f = (fed, h)" by fastforce
  have "is_ok fed" using feed_append_error [of dec data f "concat pieces"] feed Cons.prems(2) by fastforce
  then obtain qs where qs: "fed = Ok qs" by (auto elim: is_ok.elims)
  with feed have ok: "framer_feed dec data f = (Ok qs, h)" by simp
  from feed_append_ok [OF ok, of "concat pieces"] Cons.prems(2)
  obtain ps' where "framer_feed dec (concat pieces) h = (Ok ps', g)" "ps = qs @ ps'"
    by (auto simp: and_then_def split: prod.splits rresult.splits)
  with Cons.IH [OF feed_settles [OF ok]] ok show ?case by simp
qed simp

lemma stream_results_failed:
  assumes "framer_feed dec [] f = (Ok [], f)" "framer_feed dec (concat pieces) f = (r, g)" "\<not> is_ok r"
  obtains k ps h rest g' where "k < length pieces" "framer_feed dec (concat (take k pieces)) f = (Ok ps, h)"
    "fst (framer_feed dec (pieces ! k) h) = r" "stream_results dec pieces f = (ps, map_result (\<lambda>_. None) r, rest, g')"
  using assms
proof (induction pieces arbitrary: f r thesis)
  case (Cons data pieces)
  obtain fed h where feed: "framer_feed dec data f = (fed, h)" by fastforce
  show ?case
  proof (cases "is_ok fed")
    case True
    then obtain qs where "fed = Ok qs" by (auto elim: is_ok.elims)
    with feed have ok: "framer_feed dec data f = (Ok qs, h)" by simp
    from feed_append_ok [OF ok, of "concat pieces"] Cons.prems(3,4)
    have rest: "framer_feed dec (concat pieces) h = (r, g)"
      by (auto simp: and_then_def split: prod.splits rresult.splits)
    show ?thesis
    proof (rule Cons.IH [OF _ feed_settles [OF ok] rest Cons.prems(4)])
      fix k ps h' rest g'
      assume "k < length pieces" "framer_feed dec (concat (take k pieces)) h = (Ok ps, h')"
        "fst (framer_feed dec (pieces ! k) h') = r" "stream_results dec pieces h = (ps, map_result (\<lambda>_. None) r, rest, g')"
      then show thesis
        using Cons.prems(1) [of "Suc k" "qs @ ps" h' rest g'] ok feed_append_ok [OF ok, of "concat (take k pieces)"]
        by (simp add: and_then_def)
    qed
  next
    case False
    then have "fed = r" using feed_append_error [of dec data f "concat pieces"] feed Cons.prems(3) by simp
    moreover from this False feed have "stream_results dec (data # pieces) f = ([], map_result (\<lambda>_. None) r, pieces, h)"
      by (cases r) simp_all
    ultimately show ?thesis using Cons.prems(1) [of 0 "[]" f pieces h] Cons.prems(2) feed by simp
  qed
qed (auto)

section \<open>Streams of packets\<close>

text \<open>
  A packet the stream can carry: data packets with consistent fields; of a command or event, that
  its codec inverts and that its parameter length byte counts the rest. A custom packet has no
  standard layout.
\<close>

fun packet_wf ::
  "(bytes \<Rightarrow> 'c result) \<Rightarrow> ('c \<Rightarrow> bytes) \<Rightarrow> (bytes \<Rightarrow> 'e result) \<Rightarrow> ('e \<Rightarrow> bytes) \<Rightarrow> ('c, 'e) hci_packet \<Rightarrow> bool" where
  "packet_wf cd ce ed ee (Command c) \<longleftrightarrow>
     cd (ce c) = Ok c \<and> (\<exists>a b n rest. ce c = HCI_COMMAND_PACKET # a # b # n # rest \<and> length rest = unat n)"
| "packet_wf cd ce ed ee (Event e) \<longleftrightarrow>
     ed (ee e) = Ok e \<and> (\<exists>a n rest. ee e = HCI_EVENT_PACKET # a # n # rest \<and> length rest = unat n)"
| "packet_wf cd ce ed ee (AclData p) \<longleftrightarrow> acl_wf p"
| "packet_wf cd ce ed ee (SyncData p) \<longleftrightarrow> sco_wf p"
| "packet_wf cd ce ed ee (IsoData p) \<longleftrightarrow> iso_wf p"
| "packet_wf cd ce ed ee (Custom b) \<longleftrightarrow> False"

lemmas packet_types = HCI_COMMAND_PACKET_def HCI_EVENT_PACKET_def hci_consts

lemma front_size_byte:
  assumes "standard_layout t = Some \<lparr>length_size = 1, length_offset = o'\<rparr>" "fr_buffer f = b @ d"
    "length b = 2 + unat o' + unat (b ! (1 + unat o'))" "unat o' \<le> 2"
  shows "front_size f t = Ok (Some (length b))"
proof -
  have "unat (b ! (1 + unat o')) < 256" by (rule unat_u8_less)
  with assms show ?thesis
    by (simp add: front_size_def layout_of_def header_size_def body_length_def slice_index_def
        MAX_HCI_PACKET_SIZE_def nth_append)
qed

lemma front_size_word:
  assumes "standard_layout t = Some \<lparr>length_size = 2, length_offset = 2\<rparr>"
    "fr_buffer f = b @ d" "length b = 5 + unat (u16_from_le_bytes (b ! 3) (b ! 4))"
  shows "front_size f t = Ok (Some (length b))"
proof -
  let ?l = "\<lparr>length_size = 2, length_offset = 2\<rparr> :: packet_layout"
  have "body_length ?l (b @ d) = Ok (unat (u16_from_le_bytes (b ! 3) (b ! 4)))"
    using assms(3) by (simp add: body_length_def slice_index_def nth_append) (simp add: eval_nat_numeral)
  moreover have "unat (u16_from_le_bytes (b ! 3) (b ! 4)) < 65536" by (rule unat_u16_less)
  ultimately show ?thesis
    using assms by (simp add: front_size_def layout_of_def header_size_def MAX_HCI_PACKET_SIZE_def)
qed

lemma wire_front:
  assumes "packet_wf cd ce ed ee p" "fr_buffer f = hci_to_bytes ce ee p @ d"
  shows "front_size f (hd (fr_buffer f)) = Ok (Some (length (hci_to_bytes ce ee p))) \<and>
    hci_from_bytes cd ed (hci_to_bytes ce ee p) = Ok p \<and> hci_to_bytes ce ee p \<noteq> []"
proof (cases p)
  case (Command c)
  then obtain a b n rest where c: "cd (ce c) = Ok c" "ce c = HCI_COMMAND_PACKET # a # b # n # rest"
      "length rest = unat n" using assms(1) by auto
  with Command assms(2) front_size_byte [of HCI_COMMAND_PACKET 2 f "ce c" d] show ?thesis
    by (simp add: standard_layout_def hci_from_bytes_def map_result_def)
next
  case (Event e)
  then obtain a n rest where e: "ed (ee e) = Ok e" "ee e = HCI_EVENT_PACKET # a # n # rest"
      "length rest = unat n" using assms(1) by auto
  with Event assms(2) front_size_byte [of HCI_EVENT_PACKET 1 f "ee e" d] show ?thesis
    by (simp add: standard_layout_def hci_from_bytes_def map_result_def packet_types)
next
  case (AclData q)
  then have wf: "acl_wf q" using assms(1) by simp
  from acl_dec_enc [OF wf] AclData assms(2) wf
    front_size_word [of HCI_ACL_DATA_PACKET f "acl_to_bytes q" d] show ?thesis
    by (auto simp: standard_layout_def hci_from_bytes_def map_result_def packet_types acl_to_bytes_def Let_def
        u16_to_le_bytes_def acl_wf_def)
next
  case (SyncData q)
  then have wf: "sco_wf q" using assms(1) by simp
  from sco_dec_enc [OF wf] SyncData assms(2) wf
    front_size_byte [of HCI_SYNCHRONOUS_DATA_PACKET 2 f "sco_to_bytes q" d] show ?thesis
    by (auto simp: standard_layout_def hci_from_bytes_def map_result_def packet_types sco_to_bytes_def Let_def
        u16_to_le_bytes_def sco_wf_def)
next
  case (IsoData q)
  then have wf: "iso_wf q" using assms(1) by simp
  have len: "length (iso_to_bytes q) = 5 + unat (iso_total_length q)"
    using wf by (auto simp: iso_to_bytes_def iso_wf_def Let_def split: option.splits)
  have nth: "iso_to_bytes q ! 0 = HCI_ISO_DATA_PACKET"
      "u16_from_le_bytes (iso_to_bytes q ! 3) (iso_to_bytes q ! 4) = iso_total_length q"
    by (simp_all add: iso_to_bytes_def Let_def u16_to_le_bytes_def)
  have hd: "iso_to_bytes q \<noteq> []" "hd (iso_to_bytes q) = HCI_ISO_DATA_PACKET"
    by (simp_all add: iso_to_bytes_def Let_def)
  have "front_size f HCI_ISO_DATA_PACKET = Ok (Some (length (iso_to_bytes q)))"
    using IsoData assms(2) len nth by (intro front_size_word) (simp_all add: standard_layout_def packet_types)
  moreover have "hci_from_bytes cd ed (iso_to_bytes q) = Ok (IsoData q)"
    using iso_dec_enc [OF wf] hd
    by (cases "iso_to_bytes q") (auto simp: hci_from_bytes_def map_result_def packet_types)
  ultimately show ?thesis using IsoData assms(2) hd by simp
qed (use assms in simp)

lemma framer_loop_stream:
  assumes "\<forall>p \<in> set ps. packet_wf cd ce ed ee p"
    and "fr_buffer f = concat (map (hci_to_bytes ce ee) ps) @ d"
  shows "framer_loop (hci_from_bytes cd ed) acc f = framer_loop (hci_from_bytes cd ed) (acc @ ps) (f\<lparr>fr_buffer := d\<rparr>)"
  using assms
proof (induction ps arbitrary: acc f)
  case (Cons p ps)
  let ?b = "hci_to_bytes ce ee p" and ?rest = "concat (map (hci_to_bytes ce ee) ps) @ d"
  have buf: "fr_buffer f = ?b @ ?rest" using Cons.prems by simp
  have wf: "packet_wf cd ce ed ee p" using Cons.prems by simp
  note w = wire_front [OF wf buf]
  have "framer_loop (hci_from_bytes cd ed) acc f =
      framer_loop (hci_from_bytes cd ed) (acc @ [p]) (f\<lparr>fr_buffer := ?rest\<rparr>)"
    using framer_loop_cases(5) [of f "length ?b" "hci_from_bytes cd ed" acc] w buf
    by (simp only: append_is_Nil_conv take_append drop_append) simp
  then show ?case using Cons.IH [of "f\<lparr>fr_buffer := ?rest\<rparr>" "acc @ [p]"] Cons.prems by simp
next
  case Nil
  then have "f\<lparr>fr_buffer := d\<rparr> = f" by (cases f) simp
  then show ?case by simp
qed

section \<open>Properties\<close>

text \<open>
  Property C11: how the reads of the transport cut the byte stream decides neither whether it is framed nor with which error,
  and without an error not what is delivered: when one \<open>feed\<close> of the whole stream returns the packets \<open>ps\<close>, the calls of
  \<open>read_packet\<close> over the pieces return exactly these in order, then the end of the stream (a truncation error if
  bytes of an incomplete packet are left), and leave the same framer. When the one \<open>feed\<close> fails, some read
  is the first whose \<open>feed\<close> fails, with the same error, and the calls return the packets of the reads before it and
  then this error. These packets do depend on the cut: the packets completed within the failing read itself are lost, with a
  single read all of them.
\<close>

theorem framer_chunking:
  assumes "fr_buffer f = []" and "[] \<notin> set pieces"
  shows "(\<forall>ps g. framer_feed dec (concat pieces) f = (Ok ps, g) \<longrightarrow>
      read_packets dec (Suc (length ps)) \<lparr>io_reads = map Ok pieces, h4_framer = f, h4_pending = []\<rparr> =
        (map (Ok \<circ> Some) ps @ [if framer_is_empty g then Ok None else Err (TruncatedPacket (buffered_len g))],
         \<lparr>io_reads = [], h4_framer = g, h4_pending = []\<rparr>)) \<and>
    (\<forall>r g. framer_feed dec (concat pieces) f = (r, g) \<and> \<not> is_ok r \<longrightarrow>
      (\<exists>k ps h. k < length pieces \<and> framer_feed dec (concat (take k pieces)) f = (Ok ps, h) \<and>
        fst (framer_feed dec (pieces ! k) h) = r \<and>
        fst (read_packets dec (Suc (length ps)) \<lparr>io_reads = map Ok pieces, h4_framer = f, h4_pending = []\<rparr>) =
          map (Ok \<circ> Some) ps @ [map_result (\<lambda>_. None) r]))"
proof -
  obtain l where "f = \<lparr>fr_buffer = [], fr_extended_layouts = l\<rparr>" using assms by (cases f) simp
  then have settled: "framer_feed dec [] f = (Ok [], f)" by (simp add: framer_feed_def framer_loop_cases(1))
  have "\<exists>k ps h. k < length pieces \<and> framer_feed dec (concat (take k pieces)) f = (Ok ps, h) \<and>
      fst (framer_feed dec (pieces ! k) h) = r \<and>
      fst (read_packets dec (Suc (length ps)) \<lparr>io_reads = map Ok pieces, h4_framer = f, h4_pending = []\<rparr>) =
        map (Ok \<circ> Some) ps @ [map_result (\<lambda>_. None) r]"
    if "framer_feed dec (concat pieces) f = (r, g)" "\<not> is_ok r" for r g
    using stream_results_failed [OF settled that] read_packets_stream [OF assms(2)] by (metis fst_conv)
  moreover note read_packets_stream [OF assms(2) stream_results_ok [OF settled], unfolded stream_end_def list.map]
  ultimately show ?thesis by blast
qed

theorem framer_chunking_witness:
  "fst (framer_feed Ok [4, 14, 0, 9, 2] framer_new) = Err (InvalidPacketType 9) \<and>
    fst (read_packets Ok 2 \<lparr>io_reads = map Ok [[4, 14], [0], [9, 2]], h4_framer = framer_new, h4_pending = []\<rparr>) =
      [Ok (Some [4, 14, 0]), Err (InvalidPacketType 9)]"
proof -
  note eval = framer_feed_def framer_new_def framer_loop.simps front_size_def layout_of_def standard_layout_def
    header_size_def body_length_def slice_index_def MAX_HCI_PACKET_SIZE_def clear_on_def HCI_COMMAND_PACKET_def HCI_EVENT_PACKET_def hci_consts
  have whole: "framer_feed Ok [4, 14, 0, 9, 2] framer_new = (Err (InvalidPacketType 9), framer_new)" by (simp add: eval)
  then obtain k ps h where k: "k < length [[4, 14], [0], [9, 2 :: u8]]" "framer_feed Ok (concat (take k [[4, 14], [0], [9, 2]])) framer_new = (Ok ps, h)"
      "fst (framer_feed Ok ([[4, 14], [0], [9, 2]] ! k) h) = Err (InvalidPacketType 9)"
      "fst (read_packets Ok (Suc (length ps)) \<lparr>io_reads = map Ok [[4, 14], [0], [9, 2]], h4_framer = framer_new, h4_pending = []\<rparr>) =
        map (Ok \<circ> Some) ps @ [Err (InvalidPacketType 9)]"
    using framer_chunking [of framer_new "[[4, 14], [0], [9, 2]]" Ok] by (auto simp: framer_new_def map_result_def)
  from k(1) consider "k = 0" | "k = 1" | "k = 2" by fastforce
  then have "ps = [[4, 14, 0]]" using k(2,3) by cases (auto simp: eval)
  with k(4) whole show ?thesis by (simp add: numeral_2_eq_2)
qed

text \<open>
  Property C12: whatever reads deliver them, the bytes of a sequence of HCI packets are framed and
  decoded back into exactly these packets, in order, and nothing stays in the buffer; so the calls of \<open>read_packet\<close>
  return them one by one and then the end of the stream. The packets are data packets with consistent fields, and commands
  and events whose codec inverts and whose length byte is right; custom packets are excluded.
\<close>

theorem h4_stream_roundtrip:
  assumes "\<forall>p \<in> set ps. packet_wf cd ce ed ee p"
    and "concat pieces = concat (map (hci_to_bytes ce ee) ps)"
  shows "feed_all (hci_from_bytes cd ed) pieces framer_new = (Ok ps, framer_new) \<and>
    ([] \<notin> set pieces \<longrightarrow> fst (read_packets (hci_from_bytes cd ed) (Suc (length ps)) (h4_new (map Ok pieces))) =
      map (Ok \<circ> Some) ps @ [Ok None])"
proof -
  have whole: "framer_feed (hci_from_bytes cd ed) (concat pieces) framer_new = (Ok ps, framer_new)"
    using framer_loop_stream [OF assms(1), of "framer_new\<lparr>fr_buffer := concat pieces\<rparr>" "[]" "[]"] assms(2)
    by (simp add: framer_feed_def framer_new_def framer_loop_cases(1))
  have settled: "framer_feed (hci_from_bytes cd ed) [] framer_new = (Ok [], framer_new)"
    by (simp add: framer_feed_def framer_new_def framer_loop_cases(1))
  have "stream_end framer_new = Ok None" by (simp add: stream_end_def framer_is_empty_def framer_new_def)
  with read_packets_stream [OF _ stream_results_ok [OF settled whole]]
  have "[] \<notin> set pieces \<longrightarrow> fst (read_packets (hci_from_bytes cd ed) (Suc (length ps)) (h4_new (map Ok pieces))) =
      map (Ok \<circ> Some) ps @ [Ok None]"
    unfolding h4_new_def by (metis fst_conv)
  then show ?thesis using whole feed_all_settled [OF settled, of pieces] by simp
qed

theorem h4_stream_roundtrip_witness:
  "feed_all (hci_from_bytes (\<lambda>b. Ok ()) (\<lambda>b. Ok b)) [[2], [1, 0, 2, 0, 7], [8, 4, 14, 0]] framer_new =
     (Ok [AclData \<lparr>connection_handle = 1, pb_flag = 0, bc_flag = 0, data_total_length = 2, acl_data = [7, 8]\<rparr>,
          Event [4, 14, 0]], framer_new) \<and>
   fst (read_packets (hci_from_bytes (\<lambda>b. Ok ()) (\<lambda>b. Ok b)) 3 (h4_new (map Ok [[2], [1, 0, 2, 0, 7], [8, 4, 14, 0]]))) =
     [Ok (Some (AclData \<lparr>connection_handle = 1, pb_flag = 0, bc_flag = 0, data_total_length = 2, acl_data = [7, 8]\<rparr>)),
      Ok (Some (Event [4, 14, 0])), Ok None]"
proof -
  let ?ps = "[AclData \<lparr>connection_handle = 1, pb_flag = 0, bc_flag = 0, data_total_length = 2, acl_data = [7, 8]\<rparr>, Event [4, 14, 0]]"
  have wf: "\<forall>p \<in> set ?ps. packet_wf (\<lambda>b. Ok ()) (\<lambda>_. []) (\<lambda>b. Ok b) (\<lambda>b. b) p"
    and bytes: "concat [[2], [1, 0, 2, 0, 7], [8, 4, 14, 0]] = concat (map (hci_to_bytes (\<lambda>_. []) (\<lambda>b. b)) ?ps)"
    by (auto simp: packet_types acl_wf_def acl_to_bytes_def u16_to_le_bytes_def)
  from h4_stream_roundtrip [OF wf bytes] show ?thesis by (simp add: numeral_3_eq_3 del: read_packets_Suc)
qed

text \<open>
  A byte that starts no known packet makes \<open>feed\<close> return an error, clear the buffer and
  drop the complete packets it had already decoded in the same call. The same packets are
  returned when the offending byte arrives in a later call.
\<close>

theorem framer_drops_packets:
  assumes "\<forall>p \<in> set ps. packet_wf cd ce ed ee p" and "standard_layout t = None"
  shows "framer_feed (hci_from_bytes cd ed) (concat (map (hci_to_bytes ce ee) ps) @ t # rest) framer_new =
      (Err (InvalidPacketType t), framer_new) \<and>
    framer_feed (hci_from_bytes cd ed) (concat (map (hci_to_bytes ce ee) ps)) framer_new = (Ok ps, framer_new)"
proof -
  let ?dec = "hci_from_bytes cd ed" and ?bytes = "concat (map (hci_to_bytes ce ee) ps)"
  have "front_size (framer_new\<lparr>fr_buffer := t # rest\<rparr>) t = Err (InvalidPacketType t)"
    using assms(2) by (simp add: front_size_def layout_of_def framer_new_def)
  then have bad: "framer_loop ?dec ps (framer_new\<lparr>fr_buffer := t # rest\<rparr>) = (Err (InvalidPacketType t), framer_new)"
    by (subst framer_loop_cases(3) [where e = "InvalidPacketType t"]) (simp_all add: clear_on_def framer_new_def)
  have "framer_feed ?dec (?bytes @ d) framer_new = framer_loop ?dec ps (framer_new\<lparr>fr_buffer := d\<rparr>)" for d
    using framer_loop_stream [OF assms(1), of "framer_new\<lparr>fr_buffer := ?bytes @ d\<rparr>" d "[]"]
    by (simp add: framer_feed_def framer_new_def)
  from this [of "t # rest"] this [of "[]"] bad show ?thesis
    by (simp add: framer_loop_cases(1) framer_new_def)
qed

theorem framer_drops_packets_witness:
  "framer_feed (hci_from_bytes (\<lambda>b. Ok ()) (\<lambda>b. Ok b)) [4, 14, 0, 0xFF, 1] framer_new =
     (Err (InvalidPacketType 0xFF), framer_new)"
  using framer_drops_packets [where ps = "[Event [4, 14, 0]]" and cd = "\<lambda>b. Ok ()" and ce = "\<lambda>_. []" and
      ed = "\<lambda>b. Ok b" and ee = "\<lambda>b. b" and t = "0xFF" and rest = "[1]"]
  by (simp add: packet_types standard_layout_def)

end
