(* ===== verification/Data_Queue.thy ===== *)
theory Data_Queue
  imports Ordered_Map "HOL-Library.Sublist"
begin

text \<open>
  The host-to-controller flow-control queue of \<open>bumble-host/src/data_queue.rs\<close>:
  \<open>DataPacketQueue\<close> as a record, one definition per method, the accounting
  invariant, and the order in which packets leave the queue.
\<close>

section \<open>Model\<close>

datatype data_packet_queue_error =
    ZeroCapacity
  | UnknownConnection u16
  | CompletionOverflow u16 nat nat

record 'a data_packet_queue =
  max_in_flight :: nat
  in_flight :: nat
  per_connection_in_flight :: "(u16, nat) btree_map"
  packets :: "('a \<times> u16) list"
  queued :: nat
  completed :: nat

definition dpq_new :: "nat \<Rightarrow> ('a data_packet_queue, data_packet_queue_error) rresult" where
  "dpq_new n =
     (if n = 0 then Err ZeroCapacity
      else Ok \<lparr>max_in_flight = n, in_flight = 0, per_connection_in_flight = [],
               packets = [], queued = 0, completed = 0\<rparr>)"

definition enqueue :: "'a \<Rightarrow> u16 \<Rightarrow> 'a data_packet_queue \<Rightarrow> 'a data_packet_queue" where
  "enqueue packet handle q =
     q\<lparr>packets := packets q @ [(packet, handle)], queued := queued q + 1\<rparr>"

definition connection_in_flight :: "'a data_packet_queue \<Rightarrow> u16 \<Rightarrow> nat" where
  "connection_in_flight q handle =
     (case bt_get (per_connection_in_flight q) handle of None \<Rightarrow> 0 | Some n \<Rightarrow> n)"

definition poll_ready :: "'a data_packet_queue \<Rightarrow> 'a option \<times> 'a data_packet_queue" where
  "poll_ready q =
     (if in_flight q \<ge> max_in_flight q then (None, q)
      else case packets q of
        [] \<Rightarrow> (None, q)
      | (packet, handle) # rest \<Rightarrow>
          (Some packet,
           q\<lparr>packets := rest, in_flight := in_flight q + 1,
             per_connection_in_flight :=
               bt_insert handle (connection_in_flight q handle + 1)
                 (per_connection_in_flight q)\<rparr>))"

text \<open>\<open>usize\<close> subtraction panics on underflow.\<close>

definition on_packets_completed ::
  "nat \<Rightarrow> u16 \<Rightarrow> ('a data_packet_queue, unit, data_packet_queue_error) op" where
  "on_packets_completed n handle q =
     (case bt_get (per_connection_in_flight q) handle of
        None \<Rightarrow> (Err (UnknownConnection handle), q)
      | Some c \<Rightarrow>
          if n > c then
            if in_flight q < c then (Panic ''attempt to subtract with overflow'', q)
            else (Err (CompletionOverflow handle n c),
                  q\<lparr>in_flight := in_flight q - c, completed := completed q + c,
                    per_connection_in_flight :=
                      bt_insert handle 0 (per_connection_in_flight q)\<rparr>)
          else if in_flight q < n then (Panic ''attempt to subtract with overflow'', q)
          else (Ok (),
                q\<lparr>in_flight := in_flight q - n, completed := completed q + n,
                  per_connection_in_flight :=
                    bt_insert handle (c - n) (per_connection_in_flight q)\<rparr>))"

definition dpq_flush :: "u16 \<Rightarrow> ('a data_packet_queue, nat, data_packet_queue_error) op" where
  "dpq_flush handle q =
     (let kept = filter (\<lambda>p. snd p \<noteq> handle) (packets q);
          dropped = length (packets q) - length kept;
          c = connection_in_flight q handle
      in if in_flight q < c then (Panic ''attempt to subtract with overflow'', q)
         else (Ok (dropped + c),
               q\<lparr>packets := kept,
                 per_connection_in_flight := bt_remove handle (per_connection_in_flight q),
                 in_flight := in_flight q - c,
                 completed := completed q + (dropped + c)\<rparr>))"

definition flush_all :: "'a data_packet_queue \<Rightarrow> nat \<times> 'a data_packet_queue" where
  "flush_all q =
     (let pending = length (packets q) + in_flight q
      in (pending, q\<lparr>packets := [], per_connection_in_flight := [], in_flight := 0,
                     completed := completed q + pending\<rparr>))"

definition dpq_pending :: "'a data_packet_queue \<Rightarrow> (nat, data_packet_queue_error) rresult" where
  "dpq_pending q =
     (if queued q < completed q then Panic ''attempt to subtract with overflow''
      else Ok (queued q - completed q))"

definition waiting :: "'a data_packet_queue \<Rightarrow> nat" where
  "waiting q = length (packets q)"

definition connection_waiting :: "'a data_packet_queue \<Rightarrow> u16 \<Rightarrow> nat" where
  "connection_waiting q handle = length (filter (\<lambda>p. snd p = handle) (packets q))"

definition is_flushed :: "'a data_packet_queue \<Rightarrow> u16 \<Rightarrow> bool" where
  "is_flushed q handle = (connection_waiting q handle = 0)"

definition dpq_is_drained :: "'a data_packet_queue \<Rightarrow> u16 \<Rightarrow> bool" where
  "dpq_is_drained q handle = (connection_in_flight q handle = 0 \<and> is_flushed q handle)"

text \<open>The calls a client makes, as one machine.\<close>

datatype 'a queue_call =
    Enqueue 'a u16
  | PollReady
  | PacketsCompleted nat u16
  | Flush u16
  | FlushAll

datatype 'a queue_output =
    Enqueued
  | Polled "'a option"
  | CompletedResult "(unit, data_packet_queue_error) rresult"
  | Flushed "(nat, data_packet_queue_error) rresult"

fun queue_step :: "'a data_packet_queue \<Rightarrow> 'a queue_call \<Rightarrow> 'a queue_output \<times> 'a data_packet_queue"
where
  "queue_step q (Enqueue p h) = (Enqueued, enqueue p h q)"
| "queue_step q PollReady = map_prod Polled id (poll_ready q)"
| "queue_step q (PacketsCompleted n h) = map_prod CompletedResult id (on_packets_completed n h q)"
| "queue_step q (Flush h) = map_prod Flushed id (dpq_flush h q)"
| "queue_step q FlushAll = map_prod (\<lambda>n. Flushed (Ok n)) id (flush_all q)"

section \<open>The accounting invariant\<close>

definition queue_inv :: "'a data_packet_queue \<Rightarrow> bool" where
  "queue_inv q \<longleftrightarrow>
     bt_wf (per_connection_in_flight q) \<and> 0 < max_in_flight q \<and>
     in_flight q \<le> max_in_flight q \<and>
     in_flight q = sum_list (bt_values (per_connection_in_flight q)) \<and>
     queued q = completed q + length (packets q) + in_flight q"

fun no_panic :: "'a queue_output \<Rightarrow> bool" where
  "no_panic (CompletedResult r) = (\<not> is_panic r)"
| "no_panic (Flushed r) = (\<not> is_panic r)"
| "no_panic r = True"

lemma per_connection_le_total:
  fixes m :: "(u16, nat) btree_map"
  assumes "bt_wf m"
  shows "(case bt_get m h of None \<Rightarrow> 0 | Some n \<Rightarrow> n) \<le> sum_list (bt_values m)"
  using bt.sum_values_remove [OF assms, where k = h and f = "\<lambda>n. n"]
  by (simp add: bt_values_def)

lemma total_insert:
  fixes m :: "(u16, nat) btree_map"
  assumes "bt_wf m"
  shows "sum_list (bt_values (bt_insert h x m)) + (case bt_get m h of None \<Rightarrow> 0 | Some n \<Rightarrow> n)
    = sum_list (bt_values m) + x"
  using bt.sum_values_insert [OF assms, where k = h and x = x and f = "\<lambda>n. n"] by (simp add: bt_values_def)

lemma total_remove:
  fixes m :: "(u16, nat) btree_map"
  assumes "bt_wf m"
  shows "sum_list (bt_values (bt_remove h m)) + (case bt_get m h of None \<Rightarrow> 0 | Some n \<Rightarrow> n)
    = sum_list (bt_values m)"
  using bt.sum_values_remove [OF assms, where k = h and f = "\<lambda>n. n"] by (simp add: bt_values_def)

lemma connection_in_flight_le: "queue_inv q \<Longrightarrow> connection_in_flight q h \<le> in_flight q"
  using per_connection_le_total [of "per_connection_in_flight q" h]
  by (simp add: queue_inv_def connection_in_flight_def)

lemma new_inv: "dpq_new n = Ok q \<Longrightarrow> queue_inv q"
  by (auto simp: dpq_new_def queue_inv_def bt_values_def split: if_splits)

lemma enqueue_inv: "queue_inv q \<Longrightarrow> queue_inv (enqueue p h q)"
  by (simp add: queue_inv_def enqueue_def)

lemma poll_ready_inv: "queue_inv q \<Longrightarrow> queue_inv (snd (poll_ready q))"
  using total_insert [of "per_connection_in_flight q" h "connection_in_flight q h + 1" for h]
  by (auto simp: queue_inv_def poll_ready_def connection_in_flight_def bt_wf_insert
      split: list.splits prod.splits)

lemma completed_inv: "queue_inv q \<Longrightarrow> queue_inv (snd (on_packets_completed n h q))"
  using total_insert [of "per_connection_in_flight q" h 0]
    total_insert [of "per_connection_in_flight q" h "connection_in_flight q h - n"]
  by (auto simp: queue_inv_def on_packets_completed_def connection_in_flight_def bt_wf_insert
      split: option.splits)

lemma completed_no_panic: "queue_inv q \<Longrightarrow> \<not> is_panic (fst (on_packets_completed n h q))"
  using connection_in_flight_le [of q h]
  by (auto simp: on_packets_completed_def connection_in_flight_def split: option.splits)

lemma flush_eq:
  assumes "queue_inv q"
  shows "dpq_flush h q =
    (Ok (connection_waiting q h + connection_in_flight q h),
     q\<lparr>packets := filter (\<lambda>p. snd p \<noteq> h) (packets q),
       per_connection_in_flight := bt_remove h (per_connection_in_flight q),
       in_flight := in_flight q - connection_in_flight q h,
       completed := completed q + (connection_waiting q h + connection_in_flight q h)\<rparr>)"
  using connection_in_flight_le [OF assms, of h] sum_length_filter_compl [of "\<lambda>p. snd p = h" "packets q"]
  by (simp add: dpq_flush_def connection_waiting_def Let_def)

lemma flush_inv:
  assumes "queue_inv q"
  shows "queue_inv (snd (dpq_flush h q))"
  using assms total_remove [of "per_connection_in_flight q" h] connection_in_flight_le [OF assms, of h]
    sum_length_filter_compl [of "\<lambda>p. snd p = h" "packets q"]
  by (auto simp: flush_eq queue_inv_def connection_in_flight_def connection_waiting_def bt_wf_remove
      split: option.splits)

lemma flush_all_inv: "queue_inv q \<Longrightarrow> queue_inv (snd (flush_all q))"
  by (simp add: queue_inv_def flush_all_def Let_def bt_values_def)

interpretation dq: machine queue_step queue_inv no_panic
proof
  fix q :: "'a data_packet_queue" and c :: "'a queue_call"
  assume inv: "queue_inv q"
  show "queue_inv (snd (queue_step q c))"
    using inv by (cases c)
      (simp_all add: enqueue_inv poll_ready_inv completed_inv flush_inv flush_all_inv)
  show "no_panic (fst (queue_step q c))"
    using inv completed_no_panic by (cases c) (simp_all add: flush_eq)
qed

lemma pending_eq: "queue_inv q \<Longrightarrow> dpq_pending q = Ok (waiting q + in_flight q)"
  by (simp add: queue_inv_def dpq_pending_def waiting_def)


section \<open>Order of delivery\<close>

fun enqueued_packets :: "'a queue_call list \<Rightarrow> 'a list" where
  "enqueued_packets [] = []"
| "enqueued_packets (Enqueue p h # cs) = p # enqueued_packets cs"
| "enqueued_packets (c # cs) = enqueued_packets cs"

fun polled_packets :: "'a queue_output list \<Rightarrow> 'a list" where
  "polled_packets [] = []"
| "polled_packets (Polled (Some p) # rs) = p # polled_packets rs"
| "polled_packets (r # rs) = polled_packets rs"

fun is_flush :: "'a queue_call \<Rightarrow> bool" where
  "is_flush (Flush h) = True"
| "is_flush FlushAll = True"
| "is_flush c = False"

text \<open>One call, seen as a change of the line of packets still to be delivered.\<close>

lemma queue_step_line:
  assumes "queue_step q c = (r, q')" and "\<not> is_flush c"
  shows "polled_packets [r] @ map fst (packets q') = map fst (packets q) @ enqueued_packets [c]"
  using assms
  by (cases c) (auto simp: enqueue_def poll_ready_def on_packets_completed_def
      split: list.splits option.splits if_splits)

lemma queue_step_line_subseq:
  assumes "queue_step q c = (r, q')"
  shows "subseq (polled_packets [r] @ map fst (packets q')) (map fst (packets q) @ enqueued_packets [c])"
proof (cases "is_flush c")
  case False
  with queue_step_line [OF assms] show ?thesis by simp
next
  case True
  with assms show ?thesis
    by (cases c) (auto simp: dpq_flush_def flush_all_def Let_def subseq_filter_left
        intro!: subseq_map split: if_splits)
qed

lemma enqueued_packets_Cons: "enqueued_packets (c # cs) = enqueued_packets [c] @ enqueued_packets cs"
  by (cases c) simp_all

lemma polled_packets_Cons: "polled_packets (r # rs) = polled_packets [r] @ polled_packets rs"
proof (cases r)
  case (Polled p)
  then show ?thesis by (cases p) simp_all
qed simp_all

lemma run_line:
  assumes "run_machine queue_step q cs = (rs, q')" and "list_all (\<lambda>c. \<not> is_flush c) cs"
  shows "polled_packets rs @ map fst (packets q') = map fst (packets q) @ enqueued_packets cs"
  using assms
proof (induction cs arbitrary: q rs)
  case (Cons c cs)
  obtain r q1 where step: "queue_step q c = (r, q1)" by (cases "queue_step q c")
  with Cons.prems obtain rs' where run: "run_machine queue_step q1 cs = (rs', q')" and rs: "rs = r # rs'"
    by (auto simp: split_beta Let_def prod_eq_iff)
  from queue_step_line [OF step] Cons.prems(2)
  have "polled_packets [r] @ map fst (packets q1) = map fst (packets q) @ enqueued_packets [c]" by simp
  moreover from Cons.IH [OF run] Cons.prems(2)
  have "polled_packets rs' @ map fst (packets q') = map fst (packets q1) @ enqueued_packets cs" by simp
  ultimately show ?case
    by (metis append.assoc rs enqueued_packets_Cons polled_packets_Cons)
qed simp

lemma run_line_subseq:
  assumes "run_machine queue_step q cs = (rs, q')"
  shows "subseq (polled_packets rs @ map fst (packets q')) (map fst (packets q) @ enqueued_packets cs)"
  using assms
proof (induction cs arbitrary: q rs)
  case (Cons c cs)
  obtain r q1 where step: "queue_step q c = (r, q1)" by (cases "queue_step q c")
  with Cons.prems obtain rs' where run: "run_machine queue_step q1 cs = (rs', q')" and rs: "rs = r # rs'"
    by (auto simp: split_beta Let_def prod_eq_iff)
  have "subseq (polled_packets [r] @ polled_packets rs' @ map fst (packets q'))
      (polled_packets [r] @ map fst (packets q1) @ enqueued_packets cs)"
    using Cons.IH [OF run] by (simp only: subseq_append')
  also have "subseq (polled_packets [r] @ map fst (packets q1) @ enqueued_packets cs)
      (map fst (packets q) @ enqueued_packets [c] @ enqueued_packets cs)"
    using list_emb_append_mono [OF queue_step_line_subseq [OF step], of "enqueued_packets cs" "enqueued_packets cs"]
    by simp
  finally show ?case
    by (metis append.assoc rs enqueued_packets_Cons polled_packets_Cons)
qed simp

section \<open>Properties\<close>

text \<open>
  Property C22: from a fresh queue, no sequence of calls makes a \<open>usize\<close> subtraction
  underflow; the controller window is never exceeded; the in-flight counter is
  the sum of the per-connection counters; and \<open>pending()\<close> is exactly the packets
  waiting plus the packets in flight.
\<close>

theorem data_queue_accounting:
  assumes "dpq_new n = Ok q0" and "run_machine queue_step q0 calls = (outs, q)"
  shows "in_flight q \<le> max_in_flight q \<and>
    in_flight q = sum_list (bt_values (per_connection_in_flight q)) \<and>
    dpq_pending q = Ok (waiting q + in_flight q) \<and> list_all no_panic outs"
proof -
  have inv0: "queue_inv q0" using assms(1) by (rule new_inv)
  have inv: "queue_inv q" using dq.run_inv [OF inv0, of calls] assms(2) by simp
  have "list_all no_panic outs"
    using dq.run_good [OF inv0, of _ calls] assms(2) by (auto simp: list_all_iff)
  with inv show ?thesis by (simp add: pending_eq) (simp add: queue_inv_def)
qed

theorem data_queue_accounting_witness:
  "\<exists>q0 outs q. dpq_new 1 = Ok (q0 :: nat data_packet_queue) \<and>
     run_machine queue_step q0 [Enqueue 7 64, Enqueue 8 64, PollReady, PollReady, PacketsCompleted 9 64] = (outs, q) \<and>
     in_flight q \<le> max_in_flight q \<and> dpq_pending q = Ok (waiting q + in_flight q) \<and> list_all no_panic outs"
proof -
  let ?q0 = "\<lparr>max_in_flight = 1, in_flight = 0, per_connection_in_flight = [],
               packets = [], queued = 0, completed = 0\<rparr> :: nat data_packet_queue"
  have new: "dpq_new 1 = Ok ?q0" by (simp add: dpq_new_def)
  obtain outs q where run: "run_machine queue_step ?q0
      [Enqueue 7 64, Enqueue 8 64, PollReady, PollReady, PacketsCompleted 9 64] = (outs, q)"
    by fastforce
  show ?thesis using data_queue_accounting [OF new run] new run by blast
qed

text \<open>
  Property C23: packets leave the queue in the order they were enqueued. Without a
  flush nothing is lost or duplicated: what was polled, followed by what is still
  waiting, is what was enqueued. With flushes the polled packets are still a
  subsequence of the enqueued ones.
\<close>

theorem data_queue_fifo:
  assumes "dpq_new n = Ok q0" and "run_machine queue_step q0 calls = (outs, q)"
  shows "subseq (polled_packets outs @ map fst (packets q)) (enqueued_packets calls) \<and>
    (list_all (\<lambda>c. \<not> is_flush c) calls \<longrightarrow>
      polled_packets outs @ map fst (packets q) = enqueued_packets calls)"
proof -
  have "packets q0 = []" using assms(1) by (auto simp: dpq_new_def split: if_splits)
  then show ?thesis using run_line [OF assms(2)] run_line_subseq [OF assms(2)] by simp
qed

theorem data_queue_fifo_witness:
  "\<exists>q0 outs q. dpq_new 1 = Ok (q0 :: nat data_packet_queue) \<and>
     run_machine queue_step q0 [Enqueue 7 64, Enqueue 8 65, PollReady, Flush 64] = (outs, q) \<and>
     subseq (polled_packets outs @ map fst (packets q)) [7, 8]"
proof -
  let ?q0 = "\<lparr>max_in_flight = 1, in_flight = 0, per_connection_in_flight = [],
               packets = [], queued = 0, completed = 0\<rparr> :: nat data_packet_queue"
  have new: "dpq_new 1 = Ok ?q0" by (simp add: dpq_new_def)
  obtain outs q where run: "run_machine queue_step ?q0
      [Enqueue 7 64, Enqueue 8 65, PollReady, Flush 64] = (outs, q)"
    by fastforce
  show ?thesis using data_queue_fifo [OF new run] new run by auto
qed

text \<open>
  Property C29: a completion event for a connection with \<open>c\<close> packets in flight frees
  exactly \<open>min n c\<close> window slots, is an error exactly when it reports more than
  \<open>c\<close>, and leaves every other connection and the waiting packets alone.
\<close>

theorem data_queue_completion:
  assumes "queue_inv q" and "bt_get (per_connection_in_flight q) h = Some c"
    and "on_packets_completed n h q = (r, q')"
  shows "connection_in_flight q' h = c - n \<and> in_flight q' = in_flight q - min n c \<and>
    completed q' = completed q + min n c \<and> packets q' = packets q \<and>
    (\<forall>k. k \<noteq> h \<longrightarrow> connection_in_flight q' k = connection_in_flight q k) \<and>
    r = (if n \<le> c then Ok () else Err (CompletionOverflow h n c))"
proof -
  have "bt_wf (per_connection_in_flight q)" using assms(1) by (simp add: queue_inv_def)
  moreover have "c \<le> in_flight q"
    using connection_in_flight_le [OF assms(1), of h] assms(2) by (simp add: connection_in_flight_def)
  ultimately show ?thesis
    using assms(2,3)
    by (auto simp: on_packets_completed_def connection_in_flight_def bt_get_insert min_def
        split: if_splits)
qed

theorem data_queue_completion_witness:
  "\<exists>(q :: nat data_packet_queue) r q'. queue_inv q \<and> on_packets_completed 5 64 q = (r, q') \<and>
     connection_in_flight q' 64 = 0 \<and> r = Err (CompletionOverflow 64 5 1)"
proof -
  let ?q = "\<lparr>max_in_flight = 1, in_flight = 1, per_connection_in_flight = [(64, 1)],
               packets = [], queued = 1, completed = 0\<rparr> :: nat data_packet_queue"
  have inv: "queue_inv ?q" by (simp add: queue_inv_def bt_wf_def bt_values_def)
  have get: "bt_get (per_connection_in_flight ?q) 64 = Some 1" by (simp add: bt_get_def)
  obtain r q' where run: "on_packets_completed 5 64 ?q = (r, q')" by fastforce
  show ?thesis using data_queue_completion [OF inv get run] inv run by auto
qed

text \<open>
  Property C30: the window cannot wedge. If packets wait, either \<open>poll_ready\<close> hands out
  the oldest one now, or some connection has packets in flight and one completion
  event for it makes the next \<open>poll_ready\<close> hand it out.
\<close>

theorem data_queue_progress:
  assumes "queue_inv q" and "packets q = (p, h) # rest"
  shows "fst (poll_ready q) = Some p \<or>
    (\<exists>k. 0 < connection_in_flight q k \<and>
       fst (poll_ready (snd (on_packets_completed 1 k q))) = Some p)"
proof (cases "in_flight q < max_in_flight q")
  case True
  with assms(2) show ?thesis by (simp add: poll_ready_def)
next
  case False
  let ?m = "per_connection_in_flight q"
  from False assms(1) have wf: "bt_wf ?m" and "0 < sum_list (bt_values ?m)"
    by (auto simp: queue_inv_def)
  then obtain c where c: "c \<in> set (map snd ?m)" "0 < c"
    by (metis bt_values_def gr0I not_less_zero sum_list_eq_0_iff)
  then obtain k where k: "bt_get ?m k = Some c"
    using bt.ex_value [OF wf, of "\<lambda>v. v = c"] by auto
  obtain r q' where run: "on_packets_completed 1 k q = (r, q')" by fastforce
  from connection_in_flight_le [OF assms(1), of k] k c(2)
  have "on_packets_completed 1 k q =
      (Ok (), q\<lparr>in_flight := in_flight q - 1, completed := completed q + 1,
        per_connection_in_flight := bt_insert k (c - 1) ?m\<rparr>)"
    by (auto simp: on_packets_completed_def connection_in_flight_def)
  moreover have "in_flight q - 1 < max_in_flight q"
    using assms(1) by (auto simp: queue_inv_def)
  ultimately have "fst (poll_ready (snd (on_packets_completed 1 k q))) = Some p"
    using assms(2) by (simp add: poll_ready_def)
  moreover have "0 < connection_in_flight q k"
    using k c(2) by (simp add: connection_in_flight_def)
  ultimately show ?thesis by blast
qed

theorem data_queue_progress_witness:
  "\<exists>q :: nat data_packet_queue. queue_inv q \<and> packets q = [(7, 64)] \<and>
     (fst (poll_ready q) = Some 7 \<or>
      (\<exists>k. 0 < connection_in_flight q k \<and> fst (poll_ready (snd (on_packets_completed 1 k q))) = Some 7))"
proof -
  let ?q = "\<lparr>max_in_flight = 1, in_flight = 1, per_connection_in_flight = [(65, 1)],
               packets = [(7, 64)], queued = 2, completed = 0\<rparr> :: nat data_packet_queue"
  have inv: "queue_inv ?q" by (simp add: queue_inv_def bt_wf_def bt_values_def)
  show ?thesis using data_queue_progress [OF inv, of 7 64 "[]"] inv by (intro exI [of _ ?q]) simp
qed

text \<open>
  Flushing a disconnected handle removes all its packets, releases its
  window slots, and keeps the order and the accounting of every other connection.
\<close>

theorem data_queue_flush:
  assumes "queue_inv q" and "dpq_flush h q = (r, q')"
  shows "r = Ok (connection_waiting q h + connection_in_flight q h) \<and>
    dpq_is_drained q' h \<and> queue_inv q' \<and>
    (\<forall>k. k \<noteq> h \<longrightarrow> connection_in_flight q' k = connection_in_flight q k \<and>
       filter (\<lambda>p. snd p = k) (packets q') = filter (\<lambda>p. snd p = k) (packets q))"
proof -
  have *: "filter (\<lambda>x. snd x \<noteq> h \<and> snd x = k) ps = filter (\<lambda>p. snd p = k) ps"
    if "k \<noteq> h" for k :: u16 and ps :: "('a \<times> u16) list"
    using that by (intro filter_cong) auto
  show ?thesis
    using assms(2) flush_inv [OF assms(1), of h]
    by (auto simp: flush_eq [OF assms(1)] dpq_is_drained_def is_flushed_def connection_waiting_def
        connection_in_flight_def bt_get_remove * filter_empty_conv)
qed

theorem data_queue_flush_witness:
  "\<exists>(q :: nat data_packet_queue) q'. queue_inv q \<and> dpq_flush 64 q = (Ok 2, q') \<and> dpq_is_drained q' 64"
proof -
  let ?q = "\<lparr>max_in_flight = 1, in_flight = 1, per_connection_in_flight = [(64, 1)],
               packets = [(7, 64)], queued = 2, completed = 0\<rparr> :: nat data_packet_queue"
  have inv: "queue_inv ?q" by (simp add: queue_inv_def bt_wf_def bt_values_def)
  obtain r q' where run: "dpq_flush 64 ?q = (r, q')" by fastforce
  have "connection_waiting ?q 64 + connection_in_flight ?q 64 = 2"
    by (simp add: connection_waiting_def connection_in_flight_def bt_get_def)
  then show ?thesis using data_queue_flush [OF inv run] inv run by auto
qed

end
