(* ===== verification/Host_Data.thy ===== *)
theory Host_Data
  imports Data_Queue Hci_Packet Classic
begin

text \<open>
  The data paths of the host \<open>Device\<close> of \<open>bumble-host/src/lib.rs\<close>: L2CAP PDUs fragmented into ACL
  packets and SDUs into isochronous packets, the flow-controlled queues in front of the controller, and
  the way back through the assemblers to the BR/EDR channel managers. The record holds the fields
  of \<open>Device\<close> these methods use, gathered from all over the struct; of the connections and
  CIS links, maps whose values the methods do not read, it has the handles.
\<close>

section \<open>State\<close>

record iso_sdu =
  sdu_handle :: u16
  sdu_sequence_number :: u16
  sdu_status_flag :: u8
  sdu_data :: bytes

record iso_sdu_assembler =
  ia_pending :: "iso_sdu option"
  ia_expected_length :: nat

record host_data =
  acl_packet_queue :: "acl_data_packet data_packet_queue"
  le_acl_packet_queue :: "acl_data_packet data_packet_queue option"
  iso_packet_queue :: "iso_data_packet data_packet_queue option"
  acl_data_packet_length :: nat
  le_acl_data_packet_length :: "nat option"
  iso_data_packet_length :: "nat option"
  le_connections :: "u16 list"
  cis_links :: "u16 list"
  bis_directions :: "(u16, u8) btree_map"
  iso_sequence_numbers :: "(u16, u16) btree_map"
  iso_assemblers :: "(u16, iso_sdu_assembler) btree_map"
  iso_inbox :: "iso_sdu list"
  acl_assemblers :: "(u16, assembler) btree_map"
  classic_channel_managers :: "(u16, channel_manager) btree_map"
  classic_channel_errors :: "(u16 \<times> rust_error) list"

text \<open>
  The \<open>HostTransport\<close> under the host is a parameter: for a packet and the state of the transport,
  whether the packet was accepted, and the new state. A method of the host acts on the host and the transport.
\<close>

type_synonym ('p, 'l) transport = "'p \<Rightarrow> 'l \<Rightarrow> bool \<times> 'l"
type_synonym ('l, 'a) host_op = "(host_data \<times> 'l, 'a, rust_error) op"

section \<open>Flushing the queues\<close>

text \<open>
  \<open>let _ = queue.on_packets_completed(1, handle)\<close> ignores an error; a panic of the call is kept.
\<close>

definition ignore_error :: "('a, 'e) rresult \<Rightarrow> (unit, 'f) rresult" where
  "ignore_error r = (case r of Panic p \<Rightarrow> Panic p | _ \<Rightarrow> Ok ())"

function flush_queue ::
  "('p \<Rightarrow> u16) \<Rightarrow> ('p, 'l) transport \<Rightarrow> bool \<Rightarrow> ('p data_packet_queue \<times> 'l, bool, rust_error) op" where
  "flush_queue hdl send success s =
     (case poll_ready (fst s) of
        (None, q) \<Rightarrow> (Ok success, (q, snd s))
      | (Some packet, q) \<Rightarrow>
          let (accepted, link) = send packet (snd s)
          in if accepted then flush_queue hdl send success (q, link)
             else let (r, q') = on_packets_completed 1 (hdl packet) q
                  in case ignore_error r of
                       Ok _ \<Rightarrow> flush_queue hdl send False (q', link)
                     | Err e \<Rightarrow> (Err e, (q', link))
                     | Panic p \<Rightarrow> (Panic p, (q', link)))"
  by pat_completeness auto

lemma poll_ready_shorter: "poll_ready q = (Some p, q') \<Longrightarrow> length (packets q') < length (packets q)"
  by (auto simp: poll_ready_def split: if_splits list.splits)

lemma completed_packets: "packets (snd (on_packets_completed n h q)) = packets q"
  by (simp add: on_packets_completed_def split: option.splits)

termination flush_queue
proof (relation "measure (\<lambda>(hdl, send, success, s). length (packets (fst s)))", goal_cases)
  case 1
  show ?case by simp
next
  case (2 hdl send success s o' q p r accepted link)
  then show ?case using poll_ready_shorter [of "fst s" p q] by simp
next
  case (3 hdl send success s o' q p r accepted link c q')
  then show ?case using poll_ready_shorter [of "fst s" p q] completed_packets [of 1 "hdl p" q]
    by (metis (no_types, lifting) case_prod_conv fst_conv in_measure snd_conv)
qed

declare flush_queue.simps [simp del]

definition flush_acl_queue :: "(acl_data_packet, 'l) transport \<Rightarrow> ('l, bool) host_op" where
  "flush_acl_queue send = (\<lambda>(d, link).
     case flush_queue connection_handle send True (acl_packet_queue d, link) of
       (Ok success, (q, link)) \<Rightarrow>
         (let d = d\<lparr>acl_packet_queue := q\<rparr>
          in case le_acl_packet_queue d of
               None \<Rightarrow> (Ok success, (d, link))
             | Some lq \<Rightarrow>
                 let (r, lq', link) = flush_queue connection_handle send success (lq, link)
                 in (r, (d\<lparr>le_acl_packet_queue := Some lq'\<rparr>, link)))
     | (Err e, (q, link)) \<Rightarrow> (Err e, (d\<lparr>acl_packet_queue := q\<rparr>, link))
     | (Panic p, (q, link)) \<Rightarrow> (Panic p, (d\<lparr>acl_packet_queue := q\<rparr>, link)))"

definition flush_iso_queue :: "(iso_data_packet, 'l) transport \<Rightarrow> ('l, bool) host_op" where
  "flush_iso_queue send = (\<lambda>(d, link).
     case iso_packet_queue d of
       None \<Rightarrow> (Ok True, (d, link))
     | Some q \<Rightarrow>
         let (r, q', link) = flush_queue iso_handle send True (q, link)
         in (r, (d\<lparr>iso_packet_queue := Some q'\<rparr>, link)))"

section \<open>Sending L2CAP PDUs\<close>

fun enqueue_all :: "'p list \<Rightarrow> u16 \<Rightarrow> 'p data_packet_queue \<Rightarrow> 'p data_packet_queue" where
  "enqueue_all [] h q = q"
| "enqueue_all (p # ps) h q = enqueue_all ps h (enqueue p h q)"

definition send_l2cap_on_handle :: "(acl_data_packet, 'l) transport \<Rightarrow> u16 \<Rightarrow> u16 \<Rightarrow> bytes \<Rightarrow> ('l, bool) host_op" where
  "send_l2cap_on_handle send handle c data = (\<lambda>(d, link).
     let frame = pdu_to_bytes False (l2cap_pdu_new c data);
         separate = (handle \<in> set (le_connections d) \<and> le_acl_packet_queue d \<noteq> None)
     in case (if separate then le_acl_data_packet_length d else Some (acl_data_packet_length d)) of
          None \<Rightarrow> (Panic ''separate LE ACL queue has a packet length'', (d, link))
        | Some packet_length \<Rightarrow>
            (case fragment_l2cap_pdu handle 0 packet_length frame False of
               Ok fragments \<Rightarrow>
                 flush_acl_queue send
                   (if separate then
                      d\<lparr>le_acl_packet_queue := map_option (enqueue_all fragments handle) (le_acl_packet_queue d)\<rparr>
                    else d\<lparr>acl_packet_queue := enqueue_all fragments handle (acl_packet_queue d)\<rparr>, link)
             | _ \<Rightarrow> (Ok False, (d, link))))"

fun send_pdus :: "(acl_data_packet, 'l) transport \<Rightarrow> u16 \<Rightarrow> l2cap_pdu list \<Rightarrow> ('l, unit) host_op" where
  "send_pdus send handle [] s = (Ok (), s)"
| "send_pdus send handle (pdu # pdus) s =
     and_then (send_l2cap_on_handle send handle (cid pdu) (pdu_payload pdu)) (\<lambda>sent.
       if sent then send_pdus send handle pdus
       else (\<lambda>s. (invalid_fmt ''failed to send Classic channel PDU on handle {connection_handle:#06x}'' [unat handle], s))) s"

definition flush_classic_channel_manager :: "(acl_data_packet, 'l) transport \<Rightarrow> u16 \<Rightarrow> ('l, unit) host_op" where
  "flush_classic_channel_manager send handle = (\<lambda>(d, link).
     case bt_get (classic_channel_managers d) handle of
       None \<Rightarrow> (invalid_fmt ''unknown Classic connection handle {connection_handle:#06x}'' [unat handle], (d, link))
     | Some cm \<Rightarrow>
         let (outbound, cm') = cm_drain_outbound cm
         in send_pdus send handle outbound
              (d\<lparr>classic_channel_managers := bt_insert handle cm' (classic_channel_managers d)\<rparr>, link))"

section \<open>Receiving ACL packets\<close>

definition or_default :: "'v \<Rightarrow> 'v option \<Rightarrow> 'v" where
  "or_default v x = (case x of None \<Rightarrow> v | Some y \<Rightarrow> y)"

text \<open>The prefix of \<open>on_acl\<close>: assembly and parsing. The rest gets the PDU, if there is one.\<close>

definition assemble_acl :: "acl_data_packet \<Rightarrow> (host_data, l2cap_pdu option, rust_error) op" where
  "assemble_acl acl d =
     (let handle = connection_handle acl;
          (r, a) = feed acl (or_default assembler_new (bt_get (acl_assemblers d) handle));
          d' = d\<lparr>acl_assemblers := bt_insert handle a (acl_assemblers d)\<rparr>
      in case r of
           Ok (Some data) \<Rightarrow> (case pdu_from_bytes data of Ok pdu \<Rightarrow> (Ok (Some pdu), d') | Err e \<Rightarrow> (Ok None, d') | Panic p \<Rightarrow> (Panic p, d'))
         | Panic p \<Rightarrow> (Panic p, d')
         | _ \<Rightarrow> (Ok None, d'))"

definition managed_classic_pdu :: "l2cap_pdu \<Rightarrow> channel_manager \<Rightarrow> bool" where
  "managed_classic_pdu pdu cm \<longleftrightarrow> cid pdu = L2CAP_SIGNALING_CID \<or> bt_get (cm_channels cm) (cid pdu) \<noteq> None"

text \<open>
  The second part of \<open>on_acl\<close>: a PDU of a BR/EDR channel. The errors of the manager and of
  flushing it are recorded. A PDU that belongs to no such channel is returned, for the LE
  channel managers and the fixed channels that \<open>on_acl\<close> tries next.
\<close>

definition record_error :: "u16 \<Rightarrow> ('l, unit) host_op \<Rightarrow> ('l, unit) host_op" where
  "record_error handle f s =
     (let (r, (d, link)) = f s
      in case r of
           Err e \<Rightarrow> (Ok (), (d\<lparr>classic_channel_errors := classic_channel_errors d @ [(handle, e)]\<rparr>, link))
         | _ \<Rightarrow> (r, (d, link)))"

definition on_classic_pdu :: "(acl_data_packet, 'l) transport \<Rightarrow> u16 \<Rightarrow> l2cap_pdu \<Rightarrow> channel_manager \<Rightarrow> ('l, unit) host_op" where
  "on_classic_pdu send handle pdu cm = record_error handle (\<lambda>(d, link).
     let (r, cm') = cm_process_pdu pdu cm;
         d' = d\<lparr>classic_channel_managers := bt_insert handle cm' (classic_channel_managers d)\<rparr>
     in case r of
          Ok _ \<Rightarrow> flush_classic_channel_manager send handle (d', link)
        | Err e \<Rightarrow> (Err e, (d', link))
        | Panic p \<Rightarrow> (Panic p, (d', link)))"

definition on_acl :: "(acl_data_packet, 'l) transport \<Rightarrow> acl_data_packet \<Rightarrow> ('l, l2cap_pdu option) host_op" where
  "on_acl send acl = (\<lambda>(d, link).
     let (r, d) = assemble_acl acl d; handle = connection_handle acl
     in case r of
          Ok (Some pdu) \<Rightarrow>
            (case bt_get (classic_channel_managers d) handle of
               Some cm \<Rightarrow>
                 if managed_classic_pdu pdu cm then
                   and_then (on_classic_pdu send handle pdu cm) (\<lambda>_ s. (Ok None, s)) (d, link)
                 else (Ok (Some pdu), (d, link))
             | None \<Rightarrow> (Ok (Some pdu), (d, link)))
        | Ok None \<Rightarrow> (Ok None, (d, link))
        | Err e \<Rightarrow> (Err e, (d, link))
        | Panic p \<Rightarrow> (Panic p, (d, link)))"

section \<open>Isochronous data\<close>

definition DEFAULT_ISO_PACKET_LENGTH :: nat where "DEFAULT_ISO_PACKET_LENGTH = 960"
definition SDU_INFO_LENGTH :: nat where "SDU_INFO_LENGTH = 4"

text \<open>One turn of the loop of \<open>send_iso_sdu\<close>: the packet, and whether it is the last.\<close>

definition iso_packet :: "u16 \<Rightarrow> u16 \<Rightarrow> nat \<Rightarrow> bytes \<Rightarrow> nat \<Rightarrow> iso_data_packet \<times> nat \<times> bool" where
  "iso_packet handle sequence packet_length sdu offset =
     (let first = (offset = 0);
          capacity = packet_length - (if first then SDU_INFO_LENGTH else 0);
          end_pos = min (offset + capacity) (length sdu);
          last_one = (end_pos = length sdu);
          fragment = take (end_pos - offset) (drop offset sdu)
      in (\<lparr>iso_handle = handle,
           iso_pb_flag = (if first then (if last_one then 2 else 0) else (if last_one then 3 else 1)),
           ts_flag = 0,
           iso_total_length = of_nat (length fragment + (if first then SDU_INFO_LENGTH else 0)),
           time_stamp = None,
           packet_sequence_number = (if first then Some sequence else None),
           iso_sdu_length = (if first then Some (of_nat (length sdu)) else None),
           packet_status_flag = (if first then Some 0 else None),
           iso_sdu_fragment = fragment\<rparr>, end_pos, last_one))"

text \<open>
  The loop puts every packet in the queue or on the transport. \<open>send_iso_sdu\<close> enters it with a packet
  length above \<open>SDU_INFO_LENGTH\<close>, so every turn advances; the test of the packet length in the model
  is never true there and makes the recursion total.
\<close>

definition emit_iso :: "(iso_data_packet, 'l) transport \<Rightarrow> iso_data_packet \<Rightarrow> u16 \<Rightarrow> host_data \<times> 'l \<Rightarrow> bool \<times> host_data \<times> 'l" where
  "emit_iso send packet handle = (\<lambda>(d, link).
     case iso_packet_queue d of
       Some q \<Rightarrow> (True, (d\<lparr>iso_packet_queue := Some (enqueue packet handle q)\<rparr>, link))
     | None \<Rightarrow> (let (sent, link') = send packet link in (sent, (d, link'))))"

function iso_loop ::
  "(iso_data_packet, 'l) transport \<Rightarrow> u16 \<Rightarrow> u16 \<Rightarrow> nat \<Rightarrow> bytes \<Rightarrow> nat \<Rightarrow> host_data \<times> 'l \<Rightarrow> bool \<times> host_data \<times> 'l" where
  "iso_loop send handle sequence packet_length sdu offset s =
     (let (packet, end_pos, last_one) = iso_packet handle sequence packet_length sdu offset;
          (sent, s') = emit_iso send packet handle s
      in if \<not> sent then (False, s')
         else if last_one \<or> packet_length \<le> SDU_INFO_LENGTH then (True, s')
         else iso_loop send handle sequence packet_length sdu end_pos s')"
  by pat_completeness auto
termination
  by (relation "measure (\<lambda>(send, handle, sequence, packet_length, sdu, offset, s). length sdu - offset)")
    (auto simp: iso_packet_def SDU_INFO_LENGTH_def Let_def split: if_splits)

declare iso_loop.simps [simp del]

definition send_iso_sdu :: "(iso_data_packet, 'l) transport \<Rightarrow> u16 \<Rightarrow> bytes \<Rightarrow> ('l, bool) host_op" where
  "send_iso_sdu send handle sdu = (\<lambda>(d, link).
     let can_send = (handle \<in> set (cis_links d) \<or> bt_get (bis_directions d) handle = Some 0);
         packet_length = or_default DEFAULT_ISO_PACKET_LENGTH (iso_data_packet_length d)
     in if \<not> can_send \<or> length sdu > 0x0FFF then (Ok False, (d, link))
        else if packet_length \<le> SDU_INFO_LENGTH then (Ok False, (d, link))
        else
          let sequence = or_default 0 (bt_get (iso_sequence_numbers d) handle);
              (sent, (d, link)) = iso_loop send handle sequence packet_length sdu 0
                (d\<lparr>iso_sequence_numbers := bt_insert handle sequence (iso_sequence_numbers d)\<rparr>, link)
          in if \<not> sent then (Ok False, (d, link))
             else flush_iso_queue send
                    (d\<lparr>iso_sequence_numbers := bt_insert handle (sequence + 1) (iso_sequence_numbers d)\<rparr>, link))"

definition iso_push :: "iso_data_packet \<Rightarrow> iso_sdu_assembler \<Rightarrow> iso_sdu option \<times> iso_sdu_assembler" where
  "iso_push packet a =
     (if iso_pb_flag packet = 0 \<or> iso_pb_flag packet = 2 then
        (case (packet_sequence_number packet, iso_sdu_length packet, packet_status_flag packet) of
           (Some sequence, Some len, Some status) \<Rightarrow>
             let sdu = \<lparr>sdu_handle = iso_handle packet, sdu_sequence_number = sequence, sdu_status_flag = status,
                        sdu_data = iso_sdu_fragment packet\<rparr>
             in if iso_pb_flag packet = 2 then
                  (if length (sdu_data sdu) = unat len then Some sdu else None, a\<lparr>ia_pending := None\<rparr>)
                else (None, a\<lparr>ia_expected_length := unat len, ia_pending := Some sdu\<rparr>)
         | _ \<Rightarrow> (None, a\<lparr>ia_pending := None\<rparr>))
      else if iso_pb_flag packet = 1 \<or> iso_pb_flag packet = 3 then
        (case ia_pending a of
           None \<Rightarrow> (None, a)
         | Some p \<Rightarrow>
             let p' = p\<lparr>sdu_data := sdu_data p @ iso_sdu_fragment packet\<rparr>
             in if length (sdu_data p') > ia_expected_length a then (None, a\<lparr>ia_pending := None\<rparr>)
                else if iso_pb_flag packet = 3 then
                  (if length (sdu_data p') = ia_expected_length a then Some p' else None, a\<lparr>ia_pending := None\<rparr>)
                else (None, a\<lparr>ia_pending := Some p'\<rparr>))
      else (None, a))"

definition iso_assembler_new :: iso_sdu_assembler where
  "iso_assembler_new = \<lparr>ia_pending = None, ia_expected_length = 0\<rparr>"

definition on_iso :: "iso_data_packet \<Rightarrow> host_data \<Rightarrow> host_data" where
  "on_iso packet d =
     (let handle = iso_handle packet;
          (r, a) = iso_push packet (or_default iso_assembler_new (bt_get (iso_assemblers d) handle));
          d' = d\<lparr>iso_assemblers := bt_insert handle a (iso_assemblers d)\<rparr>
      in case r of Some sdu \<Rightarrow> d'\<lparr>iso_inbox := iso_inbox d' @ [sdu]\<rparr> | None \<Rightarrow> d')"

definition take_iso_sdus :: "u16 \<Rightarrow> host_data \<Rightarrow> iso_sdu list \<times> host_data" where
  "take_iso_sdus handle d =
     (filter (\<lambda>s. sdu_handle s = handle) (iso_inbox d),
      d\<lparr>iso_inbox := filter (\<lambda>s. sdu_handle s \<noteq> handle) (iso_inbox d)\<rparr>)"

section \<open>Flow control\<close>

definition complete_one :: "u16 \<Rightarrow> nat \<Rightarrow> (host_data, unit, rust_error) op" where
  "complete_one handle n d =
     (if handle \<in> set (cis_links d) \<or> bt_get (bis_directions d) handle \<noteq> None then
        (case iso_packet_queue d of
           Some q \<Rightarrow> let (r, q') = on_packets_completed n handle q in (ignore_error r, d\<lparr>iso_packet_queue := Some q'\<rparr>)
         | None \<Rightarrow> (Ok (), d))
      else case (if handle \<in> set (le_connections d) then le_acl_packet_queue d else None) of
        Some q \<Rightarrow> (let (r, q') = on_packets_completed n handle q in (ignore_error r, d\<lparr>le_acl_packet_queue := Some q'\<rparr>))
      | None \<Rightarrow> (let (r, q') = on_packets_completed n handle (acl_packet_queue d)
                 in (ignore_error r, d\<lparr>acl_packet_queue := q'\<rparr>)))"

fun complete_all :: "(u16 \<times> u16) list \<Rightarrow> (host_data, unit, rust_error) op" where
  "complete_all [] d = (Ok (), d)"
| "complete_all (e # es) d = and_then (complete_one (fst e) (unat (snd e))) (\<lambda>_. complete_all es) d"

definition on_number_of_completed_packets ::
  "(acl_data_packet, 'l) transport \<Rightarrow> (iso_data_packet, 'l) transport \<Rightarrow> u16 list \<Rightarrow> u16 list \<Rightarrow> ('l, unit) host_op" where
  "on_number_of_completed_packets send_acl send_iso handles counts = (\<lambda>(d, link).
     let (r, d) = complete_all (zip handles counts) d
     in and_then (lift_result r) (\<lambda>_. and_then (flush_acl_queue send_acl) (\<lambda>_.
          and_then (flush_iso_queue send_iso) (\<lambda>_ s. (Ok (), s)))) (d, link))"

definition set_acl_data_packet_length :: "nat \<Rightarrow> host_data \<Rightarrow> bool \<times> host_data" where
  "set_acl_data_packet_length n d =
     (if n = 0 \<or> n > 65535 then (False, d) else (True, d\<lparr>acl_data_packet_length := n\<rparr>))"

definition set_acl_max_in_flight :: "nat \<Rightarrow> (host_data, bool, data_packet_queue_error) op" where
  "set_acl_max_in_flight n d =
     (case dpq_pending (acl_packet_queue d) of
        Ok p \<Rightarrow>
          if p \<noteq> 0 then (Ok False, d)
          else (case dpq_new n of Ok q \<Rightarrow> (Ok True, d\<lparr>acl_packet_queue := q\<rparr>) | _ \<Rightarrow> (Ok False, d))
      | Err e \<Rightarrow> (Err e, d)
      | Panic p \<Rightarrow> (Panic p, d))"

definition le_acl_data_packet_length_of :: "host_data \<Rightarrow> nat" where
  "le_acl_data_packet_length_of d = or_default (acl_data_packet_length d) (le_acl_data_packet_length d)"

definition le_acl_max_in_flight :: "host_data \<Rightarrow> nat" where
  "le_acl_max_in_flight d =
     (case le_acl_packet_queue d of Some q \<Rightarrow> max_in_flight q | None \<Rightarrow> max_in_flight (acl_packet_queue d))"

definition acl_packets_pending :: "host_data \<Rightarrow> (nat, data_packet_queue_error) rresult" where
  "acl_packets_pending d =
     bind_result (dpq_pending (acl_packet_queue d)) (\<lambda>n.
     bind_result (case le_acl_packet_queue d of Some q \<Rightarrow> dpq_pending q | None \<Rightarrow> Ok 0) (\<lambda>k. Ok (n + k)))"

section \<open>A transport that accepts and records every packet\<close>

definition log_send :: "('p, 'p list) transport" where
  "log_send p ps = (True, ps @ [p])"

lemma flush_queue_accepted:
  assumes "\<And>p l. fst (send p l)" "q' = fst (snd (flush_queue hdl send ok (q, link)))"
  shows "\<exists>ps. flush_queue hdl send ok (q, link) = (Ok ok, (q', foldl (\<lambda>l p. snd (send p l)) link (map fst ps))) \<and>
     packets q = ps @ packets q' \<and> max_in_flight q' = max_in_flight q \<and> (queue_inv q \<longrightarrow> queue_inv q') \<and>
     (packets q' = [] \<or> max_in_flight q' \<le> in_flight q')"
  using assms(2)
proof (induction "length (packets q)" arbitrary: q q' link rule: less_induct)
  case less
  show ?case
  proof (cases "poll_ready q")
    case (Pair o' q1)
    show ?thesis
    proof (cases o')
      case None
      then have "q1 = q" "packets q = [] \<or> max_in_flight q \<le> in_flight q"
        using Pair by (auto simp: poll_ready_def split: if_splits list.splits)
      moreover have "flush_queue hdl send ok (q, link) = (Ok ok, (q1, link))"
        using Pair None by (subst flush_queue.simps) simp
      ultimately show ?thesis using less.prems by simp
    next
      case (Some p)
      have step: "flush_queue hdl send ok (q, link) = flush_queue hdl send ok (q1, snd (send p link))"
        using Pair Some assms(1) [of p link] by (subst flush_queue.simps) (cases "send p link", simp)
      from Pair Some obtain h where q1: "packets q = (p, h) # packets q1" "max_in_flight q1 = max_in_flight q"
        by (auto simp: poll_ready_def split: if_splits list.splits)
      have "queue_inv q \<longrightarrow> queue_inv q1" using poll_ready_inv [of q] Pair by simp
      moreover obtain ps where "flush_queue hdl send ok (q1, snd (send p link)) =
            (Ok ok, (q', foldl (\<lambda>l p. snd (send p l)) (snd (send p link)) (map fst ps)))"
          "packets q1 = ps @ packets q'" "max_in_flight q' = max_in_flight q1" "queue_inv q1 \<longrightarrow> queue_inv q'"
          "packets q' = [] \<or> max_in_flight q' \<le> in_flight q'"
        using less.hyps [OF _ less.prems [unfolded step]] q1 by auto
      ultimately show ?thesis using q1 step by (intro exI [of _ "(p, h) # ps"]) simp
    qed
  qed
qed

lemma accepts_log: "fst (log_send p l)"
  by (simp add: log_send_def)

lemma foldl_log: "foldl (\<lambda>l p. snd (log_send p l)) log ps = log @ ps"
  by (induction ps arbitrary: log) (simp_all add: log_send_def)

lemma flush_queue_logE:
  obtains q' ps where "flush_queue hdl log_send ok (q, log) = (Ok ok, (q', log @ map fst ps))"
    "packets q = ps @ packets q'" "max_in_flight q' = max_in_flight q" "queue_inv q \<Longrightarrow> queue_inv q'"
    "packets q' = [] \<or> max_in_flight q' \<le> in_flight q'"
  using flush_queue_accepted [of log_send, OF accepts_log refl, of hdl ok q log]
  unfolding foldl_log by blast

section \<open>Order on the transport\<close>

text \<open>The LE connections use a separate pool of controller buffers if the controller reports one.\<close>

definition in_le_pool :: "host_data \<Rightarrow> u16 \<Rightarrow> bool" where
  "in_le_pool d h \<longleftrightarrow> h \<in> set (le_connections d) \<and> le_acl_packet_queue d \<noteq> None"

definition pool_waiting :: "bool \<Rightarrow> host_data \<Rightarrow> (acl_data_packet \<times> u16) list" where
  "pool_waiting le d =
     (if le then case le_acl_packet_queue d of Some q \<Rightarrow> packets q | None \<Rightarrow> [] else packets (acl_packet_queue d))"

definition of_pool :: "bool \<Rightarrow> host_data \<Rightarrow> acl_data_packet list \<Rightarrow> acl_data_packet list" where
  "of_pool le d ps = filter (\<lambda>p. in_le_pool d (connection_handle p) = le) ps"

definition pool_length :: "bool \<Rightarrow> host_data \<Rightarrow> nat option" where
  "pool_length le d = (if le then le_acl_data_packet_length d else Some (acl_data_packet_length d))"

definition pool_ok :: "bool \<Rightarrow> host_data \<Rightarrow> bool" where
  "pool_ok le d \<longleftrightarrow> list_all (\<lambda>e. connection_handle (fst e) = snd e \<and> in_le_pool d (snd e) = le) (pool_waiting le d)"

definition host_inv :: "host_data \<Rightarrow> bool" where
  "host_inv d \<longleftrightarrow> queue_inv (acl_packet_queue d) \<and>
     (\<forall>q. le_acl_packet_queue d = Some q \<longrightarrow> queue_inv q \<and> le_acl_data_packet_length d \<noteq> None) \<and>
     (\<forall>q. iso_packet_queue d = Some q \<longrightarrow> queue_inv q) \<and>
     pool_ok True d \<and> pool_ok False d"

text \<open>What the calls of this section do not change.\<close>

definition same_config :: "host_data \<Rightarrow> host_data \<Rightarrow> bool" where
  "same_config d d' \<longleftrightarrow> le_connections d' = le_connections d \<and>
     (le_acl_packet_queue d' = None \<longleftrightarrow> le_acl_packet_queue d = None) \<and>
     max_in_flight (acl_packet_queue d') = max_in_flight (acl_packet_queue d) \<and>
     map_option max_in_flight (le_acl_packet_queue d') = map_option max_in_flight (le_acl_packet_queue d) \<and>
     acl_data_packet_length d' = acl_data_packet_length d \<and>
     le_acl_data_packet_length d' = le_acl_data_packet_length d"

lemma same_config_refl [simp]: "same_config d d"
  by (simp add: same_config_def)

lemma same_config_trans: "same_config d e \<Longrightarrow> same_config e f \<Longrightarrow> same_config d f"
  by (auto simp: same_config_def)

lemma same_config_pools:
  "same_config d d' \<Longrightarrow> in_le_pool d' = in_le_pool d \<and> of_pool le d' = of_pool le d \<and> pool_length le d' = pool_length le d"
  by (auto simp: same_config_def in_le_pool_def of_pool_def pool_length_def fun_eq_iff)

lemma of_pool_append [simp]: "of_pool le d (ps @ qs) = of_pool le d ps @ of_pool le d qs"
  by (simp add: of_pool_def)

lemma of_pool_waiting:
  assumes "list_all (\<lambda>e. connection_handle (fst e) = snd e \<and> in_le_pool d (snd e) = le) ws"
  shows "of_pool le' d (map fst ws) = (if le' = le then map fst ws else [])"
  using assms by (induction ws) (auto simp: of_pool_def)

lemma pool_waiting_simps [simp]:
  "pool_waiting False d = packets (acl_packet_queue d)"
  "le_acl_packet_queue d = None \<Longrightarrow> pool_waiting True d = []"
  "le_acl_packet_queue d = Some q \<Longrightarrow> pool_waiting True d = packets q"
  by (simp_all add: pool_waiting_def)

lemma both_pools: "(\<forall>le :: bool. P le) \<longleftrightarrow> P True \<and> P False"
  by (metis (full_types))

lemma flush_acl_log:
  assumes "host_inv d"
  shows "\<exists>d' ps. flush_acl_queue log_send (d, log) = (Ok True, (d', log @ ps)) \<and> host_inv d' \<and> same_config d d' \<and>
    (\<forall>le. of_pool le d ps @ map fst (pool_waiting le d') = map fst (pool_waiting le d))"
proof -
  have inv: "queue_inv (acl_packet_queue d)" "\<And>q. le_acl_packet_queue d = Some q \<Longrightarrow> queue_inv q"
    "pool_ok le d" for le
    using assms by (cases le; simp add: host_inv_def)+
  obtain q' ps where q': "flush_queue connection_handle log_send True (acl_packet_queue d, log) = (Ok True, (q', log @ map fst ps))"
      "packets (acl_packet_queue d) = ps @ packets q'" "queue_inv q'" "max_in_flight q' = max_in_flight (acl_packet_queue d)"
    using flush_queue_logE [of connection_handle True "acl_packet_queue d" log] inv(1) by metis
  have ps: "of_pool le d (map fst ps) = (if le then [] else map fst ps)" for le
    using inv(3) [of False] q'(2) by (subst of_pool_waiting [where le = False]) (auto simp: pool_ok_def)
  show ?thesis
  proof (cases "le_acl_packet_queue d")
    case None
    let ?d = "d\<lparr>acl_packet_queue := q'\<rparr>"
    have pool: "in_le_pool ?d = in_le_pool d" by (simp add: in_le_pool_def fun_eq_iff)
    have "flush_acl_queue log_send (d, log) = (Ok True, (?d, log @ map fst ps))"
      using q'(1) None by (simp add: flush_acl_queue_def)
    moreover have "host_inv ?d"
      using assms q' None by (simp add: host_inv_def pool_ok_def pool)
    moreover have "same_config d ?d" using q'(4) by (simp add: same_config_def)
    ultimately show ?thesis
      using ps q'(2) None by (intro exI [of _ ?d] exI [of _ "map fst ps"]) (simp add: both_pools)
  next
    case (Some lq)
    obtain lq' rs where lq': "flush_queue connection_handle log_send True (lq, log @ map fst ps) =
        (Ok True, (lq', (log @ map fst ps) @ map fst rs))" "packets lq = rs @ packets lq'" "queue_inv lq'" "max_in_flight lq' = max_in_flight lq"
      using flush_queue_logE [of connection_handle True lq "log @ map fst ps"] inv(2) [OF Some] by metis
    have rs: "of_pool le d (map fst rs) = (if le then map fst rs else [])" for le
      using inv(3) [of True] lq'(2) Some by (subst of_pool_waiting [where le = True]) (auto simp: pool_ok_def)
    let ?d = "d\<lparr>acl_packet_queue := q', le_acl_packet_queue := Some lq'\<rparr>"
    have pool: "in_le_pool ?d = in_le_pool d" using Some by (simp add: in_le_pool_def fun_eq_iff)
    have "flush_acl_queue log_send (d, log) = (Ok True, (?d, log @ map fst ps @ map fst rs))"
      using q'(1) lq'(1) Some by (simp add: flush_acl_queue_def)
    moreover have "host_inv ?d"
      using assms q'(2,3) lq'(2,3) Some by (simp add: host_inv_def pool_ok_def pool)
    moreover have "same_config d ?d" using Some q'(4) lq'(4) by (simp add: same_config_def)
    ultimately show ?thesis
      using ps rs q'(2) lq'(2) Some
      by (intro exI [of _ ?d] exI [of _ "map fst ps @ map fst rs"]) (simp add: both_pools)
  qed
qed

text \<open>The packets a send adds to its pool.\<close>

definition pdu_fragments :: "host_data \<Rightarrow> u16 \<Rightarrow> u16 \<Rightarrow> bytes \<Rightarrow> acl_data_packet list" where
  "pdu_fragments d h c data =
     (case pool_length (in_le_pool d h) d of
        None \<Rightarrow> []
      | Some n \<Rightarrow> (case fragment_l2cap_pdu h 0 n (pdu_to_bytes False (l2cap_pdu_new c data)) False of Ok fs \<Rightarrow> fs | _ \<Rightarrow> []))"

lemma enqueue_all_packets [simp]:
  "packets (enqueue_all ps h q) = packets q @ map (\<lambda>p. (p, h)) ps"
  "queue_inv q \<Longrightarrow> queue_inv (enqueue_all ps h q)"
  "max_in_flight (enqueue_all ps h q) = max_in_flight q"
  by (induction ps arbitrary: q) (simp_all add: enqueue_inv, simp_all add: enqueue_def)

lemma fragments_facts:
  assumes "fragment_l2cap_pdu h bc n pdu fl = Ok ps"
  shows "ps \<noteq> []" "\<forall>p \<in> set ps. connection_handle p = h"
  using fragments_shape(4) [OF assms] by (auto simp: continuation_def)

lemma pdu_fragments_handle:
  assumes "p \<in> set (pdu_fragments d h c data)" shows "connection_handle p = h"
proof -
  from assms obtain n fs where "fragment_l2cap_pdu h 0 n (pdu_to_bytes False (l2cap_pdu_new c data)) False = Ok fs" "p \<in> set fs"
    unfolding pdu_fragments_def by (metis (no_types, lifting) empty_iff list.set(1) option.case_eq_if rresult.exhaust rresult.simps(10,11,12))
  then show ?thesis using fragments_facts(2) by blast
qed

lemma fragment_no_panic: "fragment_l2cap_pdu h bc n pdu fl \<noteq> Panic m"
  by (simp add: fragment_l2cap_pdu_def Let_def)

lemma send_l2cap_log:
  assumes "host_inv d"
  shows "\<exists>d' ps. send_l2cap_on_handle log_send h c data (d, log) = (Ok (pdu_fragments d h c data \<noteq> []), (d', log @ ps)) \<and>
    host_inv d' \<and> same_config d d' \<and>
    (\<forall>le. of_pool le d ps @ map fst (pool_waiting le d') = map fst (pool_waiting le d) @ of_pool le d (pdu_fragments d h c data))"
proof -
  let ?le = "in_le_pool d h" and ?pdu = "pdu_to_bytes False (l2cap_pdu_new c data)"
  have "\<exists>n. pool_length ?le d = Some n"
    using assms by (cases "le_acl_packet_queue d") (auto simp: pool_length_def host_inv_def in_le_pool_def)
  then obtain n where n: "pool_length ?le d = Some n" by blast
  have len: "(if h \<in> set (le_connections d) \<and> le_acl_packet_queue d \<noteq> None then le_acl_data_packet_length d
      else Some (acl_data_packet_length d)) = Some n"
    using n by (simp add: pool_length_def in_le_pool_def)
  show ?thesis
  proof (cases "fragment_l2cap_pdu h 0 n ?pdu False")
    case (Ok fs)
    define e where "e = (if ?le then d\<lparr>le_acl_packet_queue := map_option (enqueue_all fs h) (le_acl_packet_queue d)\<rparr>
        else d\<lparr>acl_packet_queue := enqueue_all fs h (acl_packet_queue d)\<rparr>)"
    have frags: "pdu_fragments d h c data = fs" "fs \<noteq> []" "\<forall>p \<in> set fs. connection_handle p = h"
      using n Ok fragments_facts [OF Ok] by (simp_all add: pdu_fragments_def)
    have conf: "same_config d e" by (simp add: e_def same_config_def option.map_comp o_def)
    note pools = same_config_pools [OF conf]
    have "of_pool le d fs = (if le = ?le then fs else [])" for le
      using frags(3) by (auto simp: of_pool_def filter_id_conv filter_empty_conv)
    then have wait: "map fst (pool_waiting le e) = map fst (pool_waiting le d) @ of_pool le d fs" for le
      by (cases le; cases ?le) (auto simp: e_def in_le_pool_def pool_waiting_def o_def)
    have tagged: "list_all (\<lambda>x. connection_handle (fst x) = snd x \<and> in_le_pool d (snd x) = ?le) (map (\<lambda>p. (p, h)) fs)"
      using frags(3) by (simp add: list_all_iff)
    have "host_inv e"
    proof (cases ?le)
      case True
      then obtain lq where lq: "le_acl_packet_queue d = Some lq" by (auto simp: in_le_pool_def)
      with True have e: "e = d\<lparr>le_acl_packet_queue := Some (enqueue_all fs h lq)\<rparr>" by (simp add: e_def)
      show ?thesis
        using assms tagged True lq pools [of True] unfolding host_inv_def pool_ok_def by (simp add: e)
    next
      case False
      then have e: "e = d\<lparr>acl_packet_queue := enqueue_all fs h (acl_packet_queue d)\<rparr>" by (simp add: e_def)
      have "pool_waiting True e = pool_waiting True d" by (simp add: e pool_waiting_def)
      with assms tagged False pools [of False] show ?thesis unfolding host_inv_def pool_ok_def by (simp add: e)
    qed
    then obtain d' ps where d': "flush_acl_queue log_send (e, log) = (Ok True, (d', log @ ps))" "host_inv d'" "same_config e d'"
        "\<forall>le. of_pool le e ps @ map fst (pool_waiting le d') = map fst (pool_waiting le e)"
      using flush_acl_log by blast
    have "send_l2cap_on_handle log_send h c data (d, log) = flush_acl_queue log_send (e, log)"
      using Ok len by (simp add: send_l2cap_on_handle_def e_def in_le_pool_def Let_def)
    with d' frags conf pools wait same_config_trans [OF conf d'(3)] show ?thesis by auto
  next
    case (Err x)
    then have "send_l2cap_on_handle log_send h c data (d, log) = (Ok False, (d, log))" "pdu_fragments d h c data = []"
      using len n by (simp_all add: send_l2cap_on_handle_def Let_def pdu_fragments_def)
    then show ?thesis using assms by (intro exI [of _ d] exI [of _ "[]"]) (simp add: of_pool_def)
  qed (use fragment_no_panic in blast)
qed

lemma completed_window: "max_in_flight (snd (on_packets_completed n h q)) = max_in_flight q"
  by (simp add: on_packets_completed_def Let_def split: option.splits)

lemma completed_ignored:
  assumes "queue_inv q"
  shows "\<exists>q'. on_packets_completed n h q = (fst (on_packets_completed n h q), q') \<and>
    ignore_error (fst (on_packets_completed n h q)) = Ok () \<and> queue_inv q' \<and> packets q' = packets q \<and> max_in_flight q' = max_in_flight q"
proof -
  have "\<not> is_panic (fst (on_packets_completed n h q))" using assms by (rule completed_no_panic)
  then have "ignore_error (fst (on_packets_completed n h q)) = Ok ()"
    by (cases "fst (on_packets_completed n h q)") (simp_all add: ignore_error_def)
  then show ?thesis
    using completed_inv [OF assms, of n h] completed_packets [of n h q] completed_window [of n h q] by (metis surjective_pairing)
qed

lemma complete_one_ok:
  assumes "host_inv d"
  shows "\<exists>d'. complete_one h n d = (Ok (), d') \<and> host_inv d' \<and> same_config d d' \<and>
    pool_waiting True d' = pool_waiting True d \<and> pool_waiting False d' = pool_waiting False d"
proof -
  have inv: "queue_inv (acl_packet_queue d)" "\<And>q. le_acl_packet_queue d = Some q \<Longrightarrow> queue_inv q"
    "\<And>q. iso_packet_queue d = Some q \<Longrightarrow> queue_inv q"
    using assms by (simp_all add: host_inv_def)
  let ?iso = "h \<in> set (cis_links d) \<or> bt_get (bis_directions d) h \<noteq> None"
    and ?le = "if h \<in> set (le_connections d) then le_acl_packet_queue d else None"
  note defs = complete_one_def host_inv_def same_config_def pool_ok_def pool_waiting_def in_le_pool_def
  show ?thesis
  proof (cases ?iso)
    case True
    show ?thesis
    proof (cases "iso_packet_queue d")
      case None
      then show ?thesis using True assms by (intro exI [of _ d]) (auto simp: complete_one_def)
    next
      case (Some q)
      obtain r q' where "on_packets_completed n h q = (r, q')" "ignore_error r = (Ok () :: (unit, rust_error) rresult)" "queue_inv q'"
        using completed_ignored [OF inv(3) [OF Some]] by blast
      then have "complete_one h n d = (Ok (), d\<lparr>iso_packet_queue := Some q'\<rparr>)" "host_inv (d\<lparr>iso_packet_queue := Some q'\<rparr>)"
        using True Some assms by (auto simp: defs)
      then show ?thesis by (auto simp: same_config_def pool_waiting_def)
    qed
  next
    case False
    show ?thesis
    proof (cases ?le)
      case None
      obtain r q' where "on_packets_completed n h (acl_packet_queue d) = (r, q')" "ignore_error r = (Ok () :: (unit, rust_error) rresult)" "queue_inv q'"
          "packets q' = packets (acl_packet_queue d)" "max_in_flight q' = max_in_flight (acl_packet_queue d)"
        using completed_ignored [OF inv(1)] by blast
      then have "complete_one h n d = (Ok (), d\<lparr>acl_packet_queue := q'\<rparr>)" "host_inv (d\<lparr>acl_packet_queue := q'\<rparr>)"
          "packets q' = packets (acl_packet_queue d)" "max_in_flight q' = max_in_flight (acl_packet_queue d)"
        using False None assms by (simp_all add: defs)
      then show ?thesis by (auto simp: same_config_def pool_waiting_def)
    next
      case (Some q)
      then have le: "h \<in> set (le_connections d)" "le_acl_packet_queue d = Some q" by (auto split: if_splits)
      obtain r q' where "on_packets_completed n h q = (r, q')" "ignore_error r = (Ok () :: (unit, rust_error) rresult)" "queue_inv q'"
          "packets q' = packets q" "max_in_flight q' = max_in_flight q"
        using completed_ignored [OF inv(2) [OF le(2)]] by blast
      then have "complete_one h n d = (Ok (), d\<lparr>le_acl_packet_queue := Some q'\<rparr>)" "host_inv (d\<lparr>le_acl_packet_queue := Some q'\<rparr>)"
          "packets q' = packets q" "max_in_flight q' = max_in_flight q"
        using False le assms by (simp_all add: defs)
      then show ?thesis using le by (auto simp: same_config_def pool_waiting_def)
    qed
  qed
qed

lemma complete_all_ok:
  assumes "host_inv d"
  shows "\<exists>d'. complete_all es d = (Ok (), d') \<and> host_inv d' \<and> same_config d d' \<and>
    pool_waiting True d' = pool_waiting True d \<and> pool_waiting False d' = pool_waiting False d"
  using assms
proof (induction es arbitrary: d)
  case (Cons e es)
  obtain d1 where d1: "complete_one (fst e) (unat (snd e)) d = (Ok (), d1)" "host_inv d1" "same_config d d1"
      "pool_waiting True d1 = pool_waiting True d" "pool_waiting False d1 = pool_waiting False d"
    using complete_one_ok [OF Cons.prems] by blast
  from Cons.IH [OF d1(2)] d1 show ?case by (auto simp: and_then_def dest: same_config_trans)
qed simp

subsection \<open>The calls as a machine\<close>

datatype acl_call = SendL2cap u16 u16 bytes | NumberOfCompletedPackets "u16 list" "u16 list"

definition iso_sink :: "(iso_data_packet, 'l) transport" where
  "iso_sink p link = (True, link)"

fun host_step :: "host_data \<times> acl_data_packet list \<Rightarrow> acl_call \<Rightarrow> (bool, rust_error) rresult \<times> (host_data \<times> acl_data_packet list)" where
  "host_step s (SendL2cap h c data) = send_l2cap_on_handle log_send h c data s"
| "host_step s (NumberOfCompletedPackets hs ns) =
     and_then (on_number_of_completed_packets log_send iso_sink hs ns) (\<lambda>_ s. (Ok True, s)) s"

fun call_fragments :: "host_data \<Rightarrow> acl_call \<Rightarrow> acl_data_packet list" where
  "call_fragments d (SendL2cap h c data) = pdu_fragments d h c data"
| "call_fragments d (NumberOfCompletedPackets hs ns) = []"

lemma flush_iso_ok:
  assumes "host_inv d"
  shows "\<exists>d'. flush_iso_queue iso_sink (d, link) = (Ok True, (d', link)) \<and> host_inv d' \<and> same_config d d' \<and>
    (\<forall>le. pool_waiting le d' = pool_waiting le d)"
proof (cases "iso_packet_queue d")
  case None
  then show ?thesis using assms by (auto simp: flush_iso_queue_def)
next
  case (Some q)
  have sink: "foldl (\<lambda>l p. snd (iso_sink p l)) link ps = link" for ps
    by (induction ps) (simp_all add: iso_sink_def)
  have accepts: "fst (iso_sink p l)" for p l by (simp add: iso_sink_def)
  have "queue_inv q" using assms Some by (simp add: host_inv_def)
  then obtain q' where q': "flush_queue iso_handle iso_sink True (q, link) = (Ok True, (q', link))" "queue_inv q'"
    using flush_queue_accepted [of iso_sink, OF accepts refl, of iso_handle True q link] unfolding sink by blast
  then have "flush_iso_queue iso_sink (d, link) = (Ok True, (d\<lparr>iso_packet_queue := Some q'\<rparr>, link))"
      "host_inv (d\<lparr>iso_packet_queue := Some q'\<rparr>)"
    using Some assms by (simp_all add: flush_iso_queue_def host_inv_def pool_ok_def pool_waiting_def in_le_pool_def)
  then show ?thesis by (auto simp: same_config_def pool_waiting_def)
qed

lemma completed_log:
  assumes "host_inv d"
  shows "\<exists>d' ps. host_step (d, log) (NumberOfCompletedPackets hs ns) = (Ok True, (d', log @ ps)) \<and> host_inv d' \<and>
    same_config d d' \<and> (\<forall>le. of_pool le d ps @ map fst (pool_waiting le d') = map fst (pool_waiting le d))"
proof -
  obtain d1 where d1: "complete_all (zip hs ns) d = (Ok (), d1)" "host_inv d1" "same_config d d1"
      "pool_waiting True d1 = pool_waiting True d" "pool_waiting False d1 = pool_waiting False d"
    using complete_all_ok [OF assms] by blast
  obtain d2 ps where d2: "flush_acl_queue log_send (d1, log) = (Ok True, (d2, log @ ps))" "host_inv d2" "same_config d1 d2"
      "\<forall>le. of_pool le d1 ps @ map fst (pool_waiting le d2) = map fst (pool_waiting le d1)"
    using flush_acl_log [OF d1(2)] by blast
  obtain d3 where d3: "flush_iso_queue iso_sink (d2, log @ ps) = (Ok True, (d3, log @ ps))" "host_inv d3" "same_config d2 d3"
      "\<forall>le. pool_waiting le d3 = pool_waiting le d2"
    using flush_iso_ok [OF d2(2), of "log @ ps"] by blast
  have "host_step (d, log) (NumberOfCompletedPackets hs ns) = (Ok True, (d3, log @ ps))"
    using d1(1) d2(1) d3(1) by (simp add: on_number_of_completed_packets_def and_then_def lift_result_def)
  moreover have "same_config d d3" using d1(3) d2(3) d3(3) same_config_trans by blast
  moreover have "\<forall>le. of_pool le d ps @ map fst (pool_waiting le d3) = map fst (pool_waiting le d)"
    using d1(4,5) d2(4) d3(4) same_config_pools [OF d1(3)] by (simp add: both_pools)
  ultimately show ?thesis using d3(2) by blast
qed

lemma host_step_log:
  assumes "host_inv d"
  shows "\<exists>r d' ps. host_step (d, log) call = (Ok r, (d', log @ ps)) \<and> host_inv d' \<and> same_config d d' \<and>
    (\<forall>le. of_pool le d ps @ map fst (pool_waiting le d') =
       map fst (pool_waiting le d) @ of_pool le d (call_fragments d call))"
proof (cases call)
  case (SendL2cap h c data)
  then show ?thesis using send_l2cap_log [OF assms, of h c data log] by fastforce
next
  case (NumberOfCompletedPackets hs ns)
  then show ?thesis using completed_log [OF assms, of log hs ns] by (fastforce simp: of_pool_def [of _ _ "[]"])
qed

lemma host_run_log:
  assumes "host_inv d" "run_machine host_step (d, log) calls = (outs, (d', log'))"
  shows "list_all is_ok outs \<and> host_inv d' \<and> same_config d d' \<and>
    (\<exists>ps. log' = log @ ps \<and> (\<forall>le. of_pool le d ps @ map fst (pool_waiting le d') =
       map fst (pool_waiting le d) @ of_pool le d (concat (map (call_fragments d) calls))))"
  using assms
proof (induction calls arbitrary: d log outs)
  case (Cons call calls)
  obtain r d1 ps where d1: "host_step (d, log) call = (Ok r, (d1, log @ ps))" "host_inv d1" "same_config d d1"
      "\<forall>le. of_pool le d ps @ map fst (pool_waiting le d1) = map fst (pool_waiting le d) @ of_pool le d (call_fragments d call)"
    using host_step_log [OF Cons.prems(1)] by blast
  obtain outs1 where run: "run_machine host_step (d1, log @ ps) calls = (outs1, (d', log'))" "outs = Ok r # outs1"
    using Cons.prems(2) d1(1) by (auto simp: Let_def split: prod.splits)
  from Cons.IH [OF d1(2) run(1)] obtain qs where IH: "list_all is_ok outs1" "host_inv d'" "same_config d1 d'"
      "log' = (log @ ps) @ qs" "\<forall>le. of_pool le d1 qs @ map fst (pool_waiting le d') =
         map fst (pool_waiting le d1) @ of_pool le d1 (concat (map (call_fragments d1) calls))" by blast
  have pools: "in_le_pool d1 = in_le_pool d" "of_pool le d1 = of_pool le d" "pool_length le d1 = pool_length le d" for le
    using same_config_pools [OF d1(3)] by auto
  have "call_fragments d1 = call_fragments d"
  proof
    show "call_fragments d1 c = call_fragments d c" for c
      by (cases c) (simp_all add: pdu_fragments_def pools)
  qed
  then have "of_pool le d (ps @ qs) @ map fst (pool_waiting le d') =
      map fst (pool_waiting le d) @ of_pool le d (concat (map (call_fragments d) (call # calls)))" for le
    using IH(5) d1(4) by (simp add: pools)
  then show ?case using IH run(2) same_config_trans [OF d1(3) IH(3)] by auto
qed (auto simp: of_pool_def)

section \<open>Reassembly of isochronous SDUs\<close>

fun push_all :: "iso_data_packet list \<Rightarrow> iso_sdu_assembler \<Rightarrow> iso_sdu list \<times> iso_sdu_assembler" where
  "push_all [] a = ([], a)"
| "push_all (p # ps) a =
     (let (r, a1) = iso_push p a; (rs, a2) = push_all ps a1
      in ((case r of None \<Rightarrow> [] | Some sdu \<Rightarrow> [sdu]) @ rs, a2))"

lemma on_iso_all:
  assumes "\<forall>p \<in> set ps. iso_handle p = h" "ps \<noteq> []"
    "push_all ps (or_default iso_assembler_new (bt_get (iso_assemblers d) h)) = (rs, a)"
  shows "foldl (\<lambda>d p. on_iso p d) d ps =
    d\<lparr>iso_assemblers := bt_insert h a (iso_assemblers d), iso_inbox := iso_inbox d @ rs\<rparr>"
  using assms
proof (induction ps arbitrary: d rs)
  case (Cons p ps)
  obtain r a1 where p: "iso_push p (or_default iso_assembler_new (bt_get (iso_assemblers d) h)) = (r, a1)"
    by (metis surj_pair)
  obtain rs1 where ps: "push_all ps a1 = (rs1, a)" "rs = (case r of None \<Rightarrow> [] | Some sdu \<Rightarrow> [sdu]) @ rs1"
    using Cons.prems(3) p by (auto simp: Let_def split: prod.splits)
  define d1 where "d1 = on_iso p d"
  have d1: "d1 = d\<lparr>iso_assemblers := bt_insert h a1 (iso_assemblers d),
      iso_inbox := iso_inbox d @ (case r of None \<Rightarrow> [] | Some sdu \<Rightarrow> [sdu])\<rparr>"
    using Cons.prems(1) p by (cases r) (simp_all add: d1_def on_iso_def Let_def)
  show ?case
  proof (cases "ps = []")
    case True
    then show ?thesis using ps d1 by (simp add: d1_def)
  next
    case False
    have "push_all ps (or_default iso_assembler_new (bt_get (iso_assemblers d1) h)) = (rs1, a)"
      using ps(1) by (simp add: d1 bt_get_insert_same or_default_def)
    from Cons.IH [OF _ False this] Cons.prems(1) show ?thesis
      by (simp add: d1_def [symmetric]) (simp add: d1 ps(2) bt_insert_twice)
  qed
qed simp

text \<open>The packet at an offset, and what pushing it does.\<close>

definition sent_sdu :: "u16 \<Rightarrow> u16 \<Rightarrow> bytes \<Rightarrow> iso_sdu" where
  "sent_sdu h sn data = \<lparr>sdu_handle = h, sdu_sequence_number = sn, sdu_status_flag = 0, sdu_data = data\<rparr>"

lemma iso_packet_wf:
  assumes "iso_packet h sn n sdu offset = (p, end_pos, final)" "length sdu \<le> 4095" "unat h < 4096" "SDU_INFO_LENGTH < n"
    "offset \<le> length sdu"
  shows "iso_wf p" "iso_handle p = h" "unat (iso_total_length p) \<le> n" "final \<longleftrightarrow> end_pos = length sdu"
    "end_pos = min (offset + n - (if offset = 0 then SDU_INFO_LENGTH else 0)) (length sdu)"
proof -
  let ?info = "if offset = 0 then 4 else 0 :: nat"
  show e: "final \<longleftrightarrow> end_pos = length sdu"
    "end_pos = min (offset + n - (if offset = 0 then SDU_INFO_LENGTH else 0)) (length sdu)"
    using assms(1,4) by (auto simp: iso_packet_def Let_def)
  have p: "p = \<lparr>iso_handle = h, iso_pb_flag = (if offset = 0 then (if final then 2 else 0) else (if final then 3 else 1)),
      ts_flag = 0, iso_total_length = of_nat (length (take (end_pos - offset) (drop offset sdu)) + ?info), time_stamp = None,
      packet_sequence_number = (if offset = 0 then Some sn else None),
      iso_sdu_length = (if offset = 0 then Some (of_nat (length sdu)) else None),
      packet_status_flag = (if offset = 0 then Some 0 else None), iso_sdu_fragment = take (end_pos - offset) (drop offset sdu)\<rparr>"
    using assms(1) by (cases "offset = 0") (auto simp: iso_packet_def Let_def SDU_INFO_LENGTH_def)
  have len: "length (take (end_pos - offset) (drop offset sdu)) = end_pos - offset" "end_pos - offset + ?info \<le> n"
    "end_pos - offset + ?info < 65536"
    using e(2) assms(2,4,5) by (auto simp: SDU_INFO_LENGTH_def min_def)
  then have total: "unat (iso_total_length p) = end_pos - offset + ?info"
    unfolding p len(1) by (simp only: iso_data_packet.simps unat_of_nat_u16)
  then show "unat (iso_total_length p) \<le> n" using len by simp
  show "iso_handle p = h" by (simp add: p)
  have "unat (of_nat (length sdu) :: u16) < 4096" using assms(2) by (simp add: unat_of_nat_u16)
  with total assms(3) len(1) show "iso_wf p"
    unfolding iso_wf_def by (cases "offset = 0"; cases final) (simp_all add: p)
qed

lemma take_more: "take k xs @ take (m - k) (drop k xs) = take m xs" if "k \<le> m"
  using that by (metis append_take_drop_id le_add_diff_inverse take_add)

lemma push_continuation:
  assumes "iso_packet h sn n sdu offset = (p, end_pos, final)" "0 < offset" "offset < length sdu"
  shows "iso_push p \<lparr>ia_pending = Some (sent_sdu h sn (take offset sdu)), ia_expected_length = length sdu\<rparr> =
    (if final then (Some (sent_sdu h sn sdu), \<lparr>ia_pending = None, ia_expected_length = length sdu\<rparr>)
     else (None, \<lparr>ia_pending = Some (sent_sdu h sn (take end_pos sdu)), ia_expected_length = length sdu\<rparr>))"
proof -
  have e: "end_pos = min (offset + n) (length sdu)" "final \<longleftrightarrow> end_pos = length sdu"
    "iso_sdu_fragment p = take (end_pos - offset) (drop offset sdu)" "iso_pb_flag p = (if final then 3 else 1)"
    using assms by (auto simp: iso_packet_def Let_def)
  have "take offset sdu @ iso_sdu_fragment p = take end_pos sdu" using e(1,3) assms(3) take_more [of offset end_pos sdu] by simp
  moreover have "length (take end_pos sdu) = end_pos" "end_pos \<le> length sdu" using e(1) by simp_all
  ultimately show ?thesis using e(2,4) by (auto simp: iso_push_def sent_sdu_def Let_def)
qed

lemma iso_loop_step:
  assumes "iso_packet_queue d = None" "SDU_INFO_LENGTH < n" "iso_packet h sn n sdu offset = (p, end_pos, final)"
  shows "iso_loop log_send h sn n sdu offset (d, log) =
    (if final then (True, (d, log @ [p])) else iso_loop log_send h sn n sdu end_pos (d, log @ [p]))"
  using assms by (subst iso_loop.simps) (simp add: emit_iso_def log_send_def)

lemma iso_loop_continuations:
  assumes "iso_packet_queue d = None" "SDU_INFO_LENGTH < n" "length sdu \<le> 4095" "unat h < 4096"
    "0 < offset" "offset < length sdu"
  shows "\<exists>ps. iso_loop log_send h sn n sdu offset (d, log) = (True, (d, log @ ps)) \<and>
    (\<forall>p \<in> set ps. iso_wf p \<and> iso_handle p = h \<and> unat (iso_total_length p) \<le> n) \<and>
    push_all ps \<lparr>ia_pending = Some (sent_sdu h sn (take offset sdu)), ia_expected_length = length sdu\<rparr> =
      ([sent_sdu h sn sdu], \<lparr>ia_pending = None, ia_expected_length = length sdu\<rparr>)"
  using assms(5,6)
proof (induction "length sdu - offset" arbitrary: offset log rule: less_induct)
  case less
  obtain p end_pos final where p: "iso_packet h sn n sdu offset = (p, end_pos, final)" by (metis prod.exhaust)
  note wf = iso_packet_wf [OF p assms(3,4,2) less_imp_le [OF less.prems(2)]]
  note step = iso_loop_step [OF assms(1,2) p, of log]
  note push = push_continuation [OF p less.prems]
  show ?case
  proof (cases final)
    case True
    then show ?thesis using step wf(1-3) push by (intro exI [of _ "[p]"]) simp
  next
    case False
    then have "offset < end_pos" "end_pos < length sdu"
      using wf(4,5) less.prems assms(2) by (auto simp: min_def split: if_splits)
    moreover from this have "length sdu - end_pos < length sdu - offset" by simp
    ultimately obtain ps where
      "iso_loop log_send h sn n sdu end_pos (d, log @ [p]) = (True, (d, (log @ [p]) @ ps))"
      "\<forall>p \<in> set ps. iso_wf p \<and> iso_handle p = h \<and> unat (iso_total_length p) \<le> n"
      "push_all ps \<lparr>ia_pending = Some (sent_sdu h sn (take end_pos sdu)), ia_expected_length = length sdu\<rparr> =
        ([sent_sdu h sn sdu], \<lparr>ia_pending = None, ia_expected_length = length sdu\<rparr>)"
      using less.hyps [of end_pos "log @ [p]"] less.prems(1) by auto
    with False step wf(1-3) push show ?thesis by (intro exI [of _ "p # ps"]) simp
  qed
qed

lemma iso_loop_all:
  assumes "iso_packet_queue d = None" "SDU_INFO_LENGTH < n" "length sdu \<le> 4095" "unat h < 4096"
  shows "\<exists>ps a'. iso_loop log_send h sn n sdu 0 (d, log) = (True, (d, log @ ps)) \<and> ps \<noteq> [] \<and>
    (\<forall>p \<in> set ps. iso_wf p \<and> iso_handle p = h \<and> unat (iso_total_length p) \<le> n) \<and>
    push_all ps a = ([sent_sdu h sn sdu], a') \<and> ia_pending a' = None"
proof -
  obtain p end_pos final where p: "iso_packet h sn n sdu 0 = (p, end_pos, final)" by (metis prod.exhaust)
  note wf = iso_packet_wf [OF p assms(3,4,2) le0]
  note step = iso_loop_step [OF assms(1,2) p, of log]
  have fields: "packet_sequence_number p = Some sn" "iso_sdu_length p = Some (of_nat (length sdu))"
      "packet_status_flag p = Some 0" "iso_sdu_fragment p = take end_pos sdu" "iso_pb_flag p = (if final then 2 else 0)"
    using p by (auto simp: iso_packet_def Let_def)
  have len: "unat (of_nat (length sdu) :: u16) = length sdu" using assms(3) by (simp add: unat_of_nat_u16)
  show ?thesis
  proof (cases final)
    case True
    then have "iso_push p a = (Some (sent_sdu h sn sdu), a\<lparr>ia_pending := None\<rparr>)"
      using fields wf(2,4) len by (simp add: iso_push_def sent_sdu_def)
    with True step wf(1-3) show ?thesis by (intro exI [of _ "[p]"] exI) auto
  next
    case False
    then have e: "0 < end_pos" "end_pos < length sdu" using wf(4,5) assms(2) by (auto simp: min_def split: if_splits)
    have "iso_push p a = (None, \<lparr>ia_pending = Some (sent_sdu h sn (take end_pos sdu)), ia_expected_length = length sdu\<rparr>)"
      using False fields wf(2) len by (cases a) (simp add: iso_push_def sent_sdu_def)
    with iso_loop_continuations [OF assms e, of sn "log @ [p]"] False step wf(1-3) show ?thesis
      by (elim exE) (rule exI [of _ "p # _"], auto)
  qed
qed

text \<open>With a queue the same packets wait behind those already queued.\<close>

definition iso_waiting :: "host_data \<Rightarrow> iso_data_packet list" where
  "iso_waiting d = (case iso_packet_queue d of None \<Rightarrow> [] | Some q \<Rightarrow> map fst (packets q))"

lemma iso_loop_queue:
  assumes "iso_packet_queue d' = None" "SDU_INFO_LENGTH < n"
    "iso_loop log_send h sn n sdu offset (d', log) = (True, (d', log @ ps))" "iso_packet_queue d = Some q"
  shows "iso_loop send h sn n sdu offset (d, link) = (True, (d\<lparr>iso_packet_queue := Some (enqueue_all ps h q)\<rparr>, link))"
  using assms(3,4)
proof (induction "length sdu - offset" arbitrary: offset log ps d q rule: less_induct)
  case less
  obtain p end_pos final where p: "iso_packet h sn n sdu offset = (p, end_pos, final)" by (metis prod.exhaust)
  note step = iso_loop_step [OF assms(1,2) p, of log]
  let ?d = "d\<lparr>iso_packet_queue := Some (enqueue p h q)\<rparr>"
  have qstep: "iso_loop send h sn n sdu offset (d, link) =
      (if final then (True, (?d, link)) else iso_loop send h sn n sdu end_pos (?d, link))"
    using less.prems(2) assms(2) p by (subst iso_loop.simps) (simp add: emit_iso_def)
  show ?case
  proof (cases final)
    case True
    then show ?thesis using step qstep less.prems(1) by simp
  next
    case False
    have shorter: "length sdu - end_pos < length sdu - offset"
      using False p assms(2) by (auto simp: iso_packet_def Let_def SDU_INFO_LENGTH_def split: if_splits)
    have loop: "iso_loop log_send h sn n sdu end_pos (d', log @ [p]) = (True, (d', log @ ps))"
      using step False less.prems(1) by simp
    obtain qs where qs: "ps = p # qs"
    proof -
      have "\<exists>qs. snd (snd (iso_loop log_send h sn n sdu k (d', l))) = l @ qs" for k l
      proof (induction "length sdu - k" arbitrary: k l rule: less_induct)
        case less
        obtain p' e' f' where p': "iso_packet h sn n sdu k = (p', e', f')" by (metis prod.exhaust)
        have "length sdu - e' < length sdu - k" if "\<not> f'"
          using that p' assms(2) by (auto simp: iso_packet_def Let_def SDU_INFO_LENGTH_def split: if_splits)
        then show ?case using iso_loop_step [OF assms(1,2) p', of l] less.hyps [of e' "l @ [p']"] by (cases f') auto
      qed
      from this [of end_pos "log @ [p]"] loop show thesis using that by auto
    qed
    with less.hyps [OF shorter, of "log @ [p]" qs ?d "enqueue p h q"] loop show ?thesis using qstep False by simp
  qed
qed

section \<open>Properties\<close>

text \<open>
  Property C9: on a transport that accepts every packet, whatever L2CAP PDUs the host is asked to
  send and whatever completion events arrive, no call panics, and in each of the two buffer pools the
  packets on the transport followed by those still waiting are exactly the fragments of the PDUs, in
  order. Each pool, the shared one and the LE one of a controller that reports it, keeps its window,
  and the packets in flight never exceed it.
\<close>

theorem host_acl_order:
  assumes "host_inv d" and "pool_waiting True d = []" and "pool_waiting False d = []"
    and "run_machine host_step (d, []) calls = (outs, (d', log))"
  shows "list_all is_ok outs \<and> in_flight (acl_packet_queue d') \<le> max_in_flight (acl_packet_queue d') \<and>
    max_in_flight (acl_packet_queue d') = max_in_flight (acl_packet_queue d) \<and>
    (\<forall>q. le_acl_packet_queue d = Some q \<longrightarrow> (\<exists>q'. le_acl_packet_queue d' = Some q' \<and>
      in_flight q' \<le> max_in_flight q' \<and> max_in_flight q' = max_in_flight q)) \<and>
    of_pool le d log @ map fst (pool_waiting le d') = of_pool le d (concat (map (call_fragments d) calls))"
proof -
  note run = host_run_log [OF assms(1,4)]
  have "pool_waiting le d = []" using assms(2,3) by (cases le) auto
  moreover have "queue_inv (acl_packet_queue d')" and le: "\<And>q. le_acl_packet_queue d' = Some q \<Longrightarrow> queue_inv q"
    using run by (simp_all add: host_inv_def)
  moreover have conf: "max_in_flight (acl_packet_queue d') = max_in_flight (acl_packet_queue d)"
      "map_option max_in_flight (le_acl_packet_queue d') = map_option max_in_flight (le_acl_packet_queue d)"
    using run by (simp_all add: same_config_def)
  moreover have "\<exists>q'. le_acl_packet_queue d' = Some q' \<and> in_flight q' \<le> max_in_flight q' \<and> max_in_flight q' = max_in_flight q"
    if "le_acl_packet_queue d = Some q" for q
    using that conf(2) le by (cases "le_acl_packet_queue d'") (auto simp: queue_inv_def)
  ultimately show ?thesis using run by (auto simp: queue_inv_def)
qed

text \<open>
  A controller with an LE pool of one buffer of four bytes: of the two fragments of a PDU on the LE connection, in
  order, at most one is in flight.
\<close>

theorem host_acl_order_witness:
  "\<exists>d q outs d' q' log. host_inv d \<and> le_acl_packet_queue d = Some q \<and> max_in_flight q = 1 \<and>
     run_machine host_step (d, []) [SendL2cap 64 0x40 [1, 2, 3], SendL2cap 65 0x41 [4, 5], NumberOfCompletedPackets [64] [1]] = (outs, (d', log)) \<and>
     of_pool False d log @ map fst (pool_waiting False d') = pdu_fragments d 64 0x40 [1, 2, 3] \<and>
     of_pool True d log @ map fst (pool_waiting True d') = pdu_fragments d 65 0x41 [4, 5] \<and>
     length (pdu_fragments d 65 0x41 [4, 5]) = 2 \<and>
     le_acl_packet_queue d' = Some q' \<and> in_flight q' \<le> 1"
proof -
  obtain d q where d: "host_inv d" "pool_waiting True d = []" "pool_waiting False d = []"
      "in_le_pool d = (\<lambda>h. h = 65)" "length (pdu_fragments d 65 0x41 [4, 5]) = 2"
      "le_acl_packet_queue d = Some q" "max_in_flight q = 1"
  proof
    let ?q = "\<lparr>max_in_flight = 1, in_flight = 0, per_connection_in_flight = [], packets = [], queued = 0, completed = 0\<rparr>"
    let ?d = "\<lparr>acl_packet_queue = ?q, le_acl_packet_queue = Some ?q, iso_packet_queue = None, acl_data_packet_length = 4,
      le_acl_data_packet_length = Some 4, iso_data_packet_length = None, le_connections = [65], cis_links = [], bis_directions = [],
      iso_sequence_numbers = [], iso_assemblers = [], iso_inbox = [], acl_assemblers = [], classic_channel_managers = [],
      classic_channel_errors = []\<rparr>"
    show "host_inv ?d" by (simp add: host_inv_def queue_inv_def bt_values_def pool_ok_def)
    show "pool_waiting True ?d = []" "pool_waiting False ?d = []" "le_acl_packet_queue ?d = Some ?q" "max_in_flight ?q = 1" by simp_all
    show "in_le_pool ?d = (\<lambda>h. h = 65)" by (simp add: in_le_pool_def fun_eq_iff)
    show "length (pdu_fragments ?d 65 0x41 [4, 5]) = 2"
      by (simp add: pdu_fragments_def in_le_pool_def pool_length_def fragment_l2cap_pdu_def pdu_to_bytes_def l2cap_pdu_new_def Let_def u16_to_le_bytes_def
          u16_from_le_bytes_def chunks.simps)
  qed
  let ?calls = "[SendL2cap 64 0x40 [1, 2, 3], SendL2cap 65 0x41 [4, 5], NumberOfCompletedPackets [64] [1]]"
  obtain outs d' log where run: "run_machine host_step (d, []) ?calls = (outs, (d', log))" by (metis prod.exhaust)
  note order = host_acl_order [OF d(1-3) run]
  have "of_pool le d (concat (map (call_fragments d) ?calls)) =
      (if le then pdu_fragments d 65 0x41 [4, 5] else pdu_fragments d 64 0x40 [1, 2, 3])" for le
    using pdu_fragments_handle [of _ d 64 "0x40" "[1, 2, 3]"] pdu_fragments_handle [of _ d 65 "0x41" "[4, 5]"]
    by (cases le) (auto simp: of_pool_def d(4) filter_id_conv filter_empty_conv)
  with order [of True] order [of False] d run show ?thesis by fastforce
qed

text \<open>
  Property C21: an isochronous SDU of up to 4095 bytes on an established stream is cut into packets
  that fit the controller buffer, survive the packet codec, and are sent or queued behind what
  already waits. Any host that receives these packets, whatever it has half assembled before, gets
  exactly this SDU with its sequence number, which then advances, wrapping.
\<close>

theorem iso_sdu_transport:
  assumes "handle \<in> set (cis_links d) \<or> bt_get (bis_directions d) handle = Some 0"
    and "length sdu \<le> 4095" and "n = or_default DEFAULT_ISO_PACKET_LENGTH (iso_data_packet_length d)" and "4 < n"
    and "unat handle < 4096" and "host_inv d" and "sn = or_default 0 (bt_get (iso_sequence_numbers d) handle)"
  shows "\<exists>d' sent ps. send_iso_sdu log_send handle sdu (d, []) = (Ok True, (d', sent)) \<and>
    sent @ iso_waiting d' = iso_waiting d @ ps \<and>
    (\<forall>p \<in> set ps. unat (iso_total_length p) \<le> n \<and> iso_from_bytes (iso_to_bytes p) = Ok p) \<and>
    bt_get (iso_sequence_numbers d') handle = Some (sn + 1) \<and>
    (\<forall>e. iso_inbox (foldl (\<lambda>d p. on_iso p d) e ps) = iso_inbox e @ [sent_sdu handle sn sdu])"
proof -
  define d1 where "d1 = d\<lparr>iso_sequence_numbers := bt_insert handle sn (iso_sequence_numbers d)\<rparr>"
  define e0 where "e0 = d1\<lparr>iso_packet_queue := None\<rparr>"
  have n: "SDU_INFO_LENGTH < n" using assms(4) by (simp add: SDU_INFO_LENGTH_def)
  have e0: "iso_packet_queue e0 = None" by (simp add: e0_def)
  obtain ps where ps: "iso_loop log_send handle sn n sdu 0 (e0, []) = (True, (e0, ps))" "ps \<noteq> []"
      "\<forall>p \<in> set ps. iso_wf p \<and> iso_handle p = handle \<and> unat (iso_total_length p) \<le> n"
    using iso_loop_all [OF e0 n assms(2,5), of sn "[]"] by (metis append_Nil)
  have push: "\<exists>a'. push_all ps a = ([sent_sdu handle sn sdu], a')" for a
    using iso_loop_all [OF e0 n assms(2,5), of sn "[]" a] ps(1) by auto
  have inbox: "iso_inbox (foldl (\<lambda>d p. on_iso p d) e ps) = iso_inbox e @ [sent_sdu handle sn sdu]" for e
    using push [of "or_default iso_assembler_new (bt_get (iso_assemblers e) handle)"] ps(2,3) on_iso_all [of ps handle e] by auto
  have codec: "\<forall>p \<in> set ps. unat (iso_total_length p) \<le> n \<and> iso_from_bytes (iso_to_bytes p) = Ok p"
    using ps(3) iso_dec_enc by blast
  have send: "send_iso_sdu log_send handle sdu (d, []) =
      flush_iso_queue log_send (d2\<lparr>iso_sequence_numbers := bt_insert handle (sn + 1) (iso_sequence_numbers d2)\<rparr>, link)"
    if "iso_loop log_send handle sn n sdu 0 (d1, []) = (True, (d2, link))" for d2 link
    using that assms n unfolding d1_def by (auto simp: send_iso_sdu_def Let_def)
  show ?thesis
  proof (cases "iso_packet_queue d")
    case None
    then have "e0 = d1" by (simp add: e0_def d1_def)
    then have "iso_loop log_send handle sn n sdu 0 (d1, []) = (True, (d1, ps))" using ps(1) by simp
    note sent = send [OF this]
    show ?thesis
    proof (rule exI, rule exI, rule exI, intro conjI)
      show "send_iso_sdu log_send handle sdu (d, []) =
          (Ok True, (d1\<lparr>iso_sequence_numbers := bt_insert handle (sn + 1) (iso_sequence_numbers d1)\<rparr>, ps))"
        using sent None by (simp add: flush_iso_queue_def d1_def)
      show "ps @ iso_waiting (d1\<lparr>iso_sequence_numbers := bt_insert handle (sn + 1) (iso_sequence_numbers d1)\<rparr>) = iso_waiting d @ ps"
        using None by (simp add: iso_waiting_def d1_def)
    qed (use codec inbox in \<open>simp_all add: bt_get_insert_same\<close>)
  next
    case (Some q)
    let ?q = "enqueue_all ps handle q"
    obtain q' rs where q': "flush_queue iso_handle log_send True (?q, []) = (Ok True, (q', map fst rs))"
        "packets ?q = rs @ packets q'" using flush_queue_logE [of iso_handle True ?q "[]"] by (metis append_Nil)
    have "map fst (packets ?q) = map fst (packets q) @ ps" by (simp add: o_def)
    then have rs: "map fst rs @ map fst (packets q') = map fst (packets q) @ ps"
      unfolding q'(2) map_append by simp
    have "iso_loop log_send handle sn n sdu 0 (d1, []) = (True, (d1\<lparr>iso_packet_queue := Some ?q\<rparr>, []))"
      using iso_loop_queue [OF e0 n, of handle sn sdu 0 "[]" ps d1 q log_send "[]"] ps(1) Some by (simp add: d1_def)
    note sent = send [OF this]
    show ?thesis
    proof (rule exI, rule exI, rule exI, intro conjI)
      show "send_iso_sdu log_send handle sdu (d, []) = (Ok True, (d1\<lparr>iso_packet_queue := Some q',
        iso_sequence_numbers := bt_insert handle (sn + 1) (iso_sequence_numbers d1)\<rparr>, map fst rs))"
        using sent q'(1) by (simp add: flush_iso_queue_def)
      show "map fst rs @ iso_waiting (d1\<lparr>iso_packet_queue := Some q',
        iso_sequence_numbers := bt_insert handle (sn + 1) (iso_sequence_numbers d1)\<rparr>) = iso_waiting d @ ps"
        using rs Some by (simp add: iso_waiting_def)
    qed (use codec inbox in \<open>simp_all add: bt_get_insert_same\<close>)
  qed
qed

theorem iso_sdu_transport_witness:
  "\<exists>d d' sent ps. send_iso_sdu log_send 96 [1, 2, 3, 4, 5] (d, []) = (Ok True, (d', sent)) \<and>
     sent @ iso_waiting d' = ps \<and> iso_inbox (foldl (\<lambda>d p. on_iso p d) d ps) = [sent_sdu 96 0 [1, 2, 3, 4, 5]]"
proof -
  obtain d where d: "host_inv d" "96 \<in> set (cis_links d)" "iso_data_packet_length d = Some 6" "iso_waiting d = []"
    "iso_inbox d = []" "bt_get (iso_sequence_numbers d) 96 = None"
  proof
    let ?q = "\<lparr>max_in_flight = 1, in_flight = 0, per_connection_in_flight = [], packets = [], queued = 0, completed = 0\<rparr>"
    let ?d = "\<lparr>acl_packet_queue = ?q, le_acl_packet_queue = None, iso_packet_queue = None, acl_data_packet_length = 4,
      le_acl_data_packet_length = None, iso_data_packet_length = Some 6, le_connections = [], cis_links = [96], bis_directions = [],
      iso_sequence_numbers = [], iso_assemblers = [], iso_inbox = [], acl_assemblers = [], classic_channel_managers = [],
      classic_channel_errors = []\<rparr>"
    show "host_inv ?d" by (simp add: host_inv_def queue_inv_def bt_values_def pool_ok_def)
    show "96 \<in> set (cis_links ?d)" "iso_data_packet_length ?d = Some 6" "iso_waiting ?d = []" "iso_inbox ?d = []"
      "bt_get (iso_sequence_numbers ?d) 96 = None" by (simp_all add: iso_waiting_def)
  qed
  from iso_sdu_transport [of 96 d "[1, 2, 3, 4, 5]" 6 0] d obtain d' sent ps where
    "send_iso_sdu log_send 96 [1, 2, 3, 4, 5] (d, []) = (Ok True, (d', sent))" "sent @ iso_waiting d' = ps"
    "iso_inbox (foldl (\<lambda>d p. on_iso p d) d ps) = [sent_sdu 96 0 [1, 2, 3, 4, 5]]"
    by (auto simp: or_default_def)
  then show ?thesis by blast
qed

end
