(* ===== verification/Rfcomm.thy ===== *)
theory Rfcomm
  imports Prelude
begin

text \<open>
  The RFCOMM wire format of \<open>bumble-rfcomm/src/lib.rs\<close>: the frame check sequence with its lookup
  table, frames, and the two multiplexer control messages with their header.
\<close>

section \<open>Errors and the frame check sequence\<close>

datatype rfcomm_error = RfInvalidPacket string "nat list" | RfInvalidArgument string "nat list"

type_synonym 'a rf_result = "('a, rfcomm_error) rresult"

definition truncated :: "string \<Rightarrow> 'a rf_result" where
  "truncated what = Err (RfInvalidPacket (''truncated: expected more bytes for '' @ what) [])"

definition CRC_TABLE :: "u8 list" where
  "CRC_TABLE = [
   0x00, 0x91, 0xE3, 0x72, 0x07, 0x96, 0xE4, 0x75,
   0x0E, 0x9F, 0xED, 0x7C, 0x09, 0x98, 0xEA, 0x7B,
   0x1C, 0x8D, 0xFF, 0x6E, 0x1B, 0x8A, 0xF8, 0x69,
   0x12, 0x83, 0xF1, 0x60, 0x15, 0x84, 0xF6, 0x67,
   0x38, 0xA9, 0xDB, 0x4A, 0x3F, 0xAE, 0xDC, 0x4D,
   0x36, 0xA7, 0xD5, 0x44, 0x31, 0xA0, 0xD2, 0x43,
   0x24, 0xB5, 0xC7, 0x56, 0x23, 0xB2, 0xC0, 0x51,
   0x2A, 0xBB, 0xC9, 0x58, 0x2D, 0xBC, 0xCE, 0x5F,
   0x70, 0xE1, 0x93, 0x02, 0x77, 0xE6, 0x94, 0x05,
   0x7E, 0xEF, 0x9D, 0x0C, 0x79, 0xE8, 0x9A, 0x0B,
   0x6C, 0xFD, 0x8F, 0x1E, 0x6B, 0xFA, 0x88, 0x19,
   0x62, 0xF3, 0x81, 0x10, 0x65, 0xF4, 0x86, 0x17,
   0x48, 0xD9, 0xAB, 0x3A, 0x4F, 0xDE, 0xAC, 0x3D,
   0x46, 0xD7, 0xA5, 0x34, 0x41, 0xD0, 0xA2, 0x33,
   0x54, 0xC5, 0xB7, 0x26, 0x53, 0xC2, 0xB0, 0x21,
   0x5A, 0xCB, 0xB9, 0x28, 0x5D, 0xCC, 0xBE, 0x2F,
   0xE0, 0x71, 0x03, 0x92, 0xE7, 0x76, 0x04, 0x95,
   0xEE, 0x7F, 0x0D, 0x9C, 0xE9, 0x78, 0x0A, 0x9B,
   0xFC, 0x6D, 0x1F, 0x8E, 0xFB, 0x6A, 0x18, 0x89,
   0xF2, 0x63, 0x11, 0x80, 0xF5, 0x64, 0x16, 0x87,
   0xD8, 0x49, 0x3B, 0xAA, 0xDF, 0x4E, 0x3C, 0xAD,
   0xD6, 0x47, 0x35, 0xA4, 0xD1, 0x40, 0x32, 0xA3,
   0xC4, 0x55, 0x27, 0xB6, 0xC3, 0x52, 0x20, 0xB1,
   0xCA, 0x5B, 0x29, 0xB8, 0xCD, 0x5C, 0x2E, 0xBF,
   0x90, 0x01, 0x73, 0xE2, 0x97, 0x06, 0x74, 0xE5,
   0x9E, 0x0F, 0x7D, 0xEC, 0x99, 0x08, 0x7A, 0xEB,
   0x8C, 0x1D, 0x6F, 0xFE, 0x8B, 0x1A, 0x68, 0xF9,
   0x82, 0x13, 0x61, 0xF0, 0x85, 0x14, 0x66, 0xF7,
   0xA8, 0x39, 0x4B, 0xDA, 0xAF, 0x3E, 0x4C, 0xDD,
   0xA6, 0x37, 0x45, 0xD4, 0xA1, 0x30, 0x42, 0xD3,
   0xB4, 0x25, 0x57, 0xC6, 0xB3, 0x22, 0x50, 0xC1,
   0xBA, 0x2B, 0x59, 0xC8, 0xBD, 0x2C, 0x5E, 0xCF]"

definition compute_fcs :: "bytes \<Rightarrow> u8" where
  "compute_fcs buffer = 0xFF - foldl (\<lambda>result byte. CRC_TABLE ! unat (result XOR byte)) 0xFF buffer"

section \<open>Frames\<close>

datatype frame_type = Sabm | Ua | Dm | Disc | Uih | Ui

fun frame_type_value :: "frame_type \<Rightarrow> u8" where
  "frame_type_value Sabm = 0x2F"
| "frame_type_value Ua = 0x63"
| "frame_type_value Dm = 0x0F"
| "frame_type_value Disc = 0x43"
| "frame_type_value Uih = 0xEF"
| "frame_type_value Ui = 0x03"

definition frame_type_from_code :: "u8 \<Rightarrow> frame_type rf_result" where
  "frame_type_from_code c =
     (if c = 0x2F then Ok Sabm else if c = 0x63 then Ok Ua else if c = 0x0F then Ok Dm
      else if c = 0x43 then Ok Disc else if c = 0xEF then Ok Uih else if c = 0x03 then Ok Ui
      else Err (RfInvalidPacket ''unknown RFCOMM frame type 0x{other:02X}'' [unat c]))"

datatype mcc_type = Pn | Msc

fun mcc_type_value :: "mcc_type \<Rightarrow> u8" where
  "mcc_type_value Pn = 0x20"
| "mcc_type_value Msc = 0x38"

record rfcomm_frame =
  rf_type :: frame_type
  rf_c_r :: bool
  rf_dlci :: u8
  rf_p_f :: bool
  rf_information :: bytes
  rf_with_credits :: bool

text \<open>\<open>PartialEq\<close> for frames ignores the credit flag.\<close>

definition rfcomm_frame_eq :: "rfcomm_frame \<Rightarrow> rfcomm_frame \<Rightarrow> bool" where
  "rfcomm_frame_eq f g \<longleftrightarrow> rf_type f = rf_type g \<and> rf_c_r f = rf_c_r g \<and> rf_dlci f = rf_dlci g \<and>
     rf_p_f f = rf_p_f g \<and> rf_information f = rf_information g"

definition rf_control_frame :: "frame_type \<Rightarrow> bool \<Rightarrow> u8 \<Rightarrow> rfcomm_frame" where
  "rf_control_frame t c_r dlci = \<lparr>rf_type = t, rf_c_r = c_r, rf_dlci = dlci, rf_p_f = True,
     rf_information = [], rf_with_credits = False\<rparr>"

definition rf_sabm :: "bool \<Rightarrow> u8 \<Rightarrow> rfcomm_frame" where "rf_sabm = rf_control_frame Sabm"
definition rf_ua :: "bool \<Rightarrow> u8 \<Rightarrow> rfcomm_frame" where "rf_ua = rf_control_frame Ua"
definition rf_dm :: "bool \<Rightarrow> u8 \<Rightarrow> rfcomm_frame" where "rf_dm = rf_control_frame Dm"
definition rf_disc :: "bool \<Rightarrow> u8 \<Rightarrow> rfcomm_frame" where "rf_disc = rf_control_frame Disc"

definition rf_uih :: "bool \<Rightarrow> u8 \<Rightarrow> bytes \<Rightarrow> bool \<Rightarrow> rfcomm_frame" where
  "rf_uih c_r dlci information p_f = \<lparr>rf_type = Uih, rf_c_r = c_r, rf_dlci = dlci, rf_p_f = p_f,
     rf_information = information, rf_with_credits = p_f\<rparr>"

definition rf_address :: "rfcomm_frame \<Rightarrow> u8" where
  "rf_address f = push_bit 2 (rf_dlci f) OR push_bit 1 (of_bool (rf_c_r f)) OR 1"

definition rf_control :: "rfcomm_frame \<Rightarrow> u8" where
  "rf_control f = frame_type_value (rf_type f) OR push_bit 4 (of_bool (rf_p_f f))"

definition length_field :: "rfcomm_frame \<Rightarrow> bytes rf_result" where
  "length_field f =
     bind_result
       (if rf_with_credits f then
          if rf_information f = [] then
            Err (RfInvalidArgument ''credit-bearing frame needs an information octet for the credit count'' [])
          else Ok (length (rf_information f) - 1)
        else Ok (length (rf_information f)))
       (\<lambda>n. Ok (if n > 0x7F then [of_nat (push_bit 1 (take_bit 7 n)), of_nat (take_bit 8 (drop_bit 7 n))]
                else [of_nat (push_bit 1 n OR 1)]))"

definition rf_fcs :: "rfcomm_frame \<Rightarrow> u8 rf_result" where
  "rf_fcs f =
     (if rf_type f \<noteq> Uih then
        bind_result (length_field f) (\<lambda>l. Ok (compute_fcs ([rf_address f, rf_control f] @ l)))
      else Ok (compute_fcs [rf_address f, rf_control f]))"

definition rf_to_bytes :: "rfcomm_frame \<Rightarrow> bytes rf_result" where
  "rf_to_bytes f =
     bind_result (length_field f) (\<lambda>l. bind_result (rf_fcs f) (\<lambda>c.
       Ok ([rf_address f, rf_control f] @ l @ rf_information f @ [c])))"

definition rf_from_bytes :: "bytes \<Rightarrow> rfcomm_frame rf_result" where
  "rf_from_bytes data =
     (if length data < 4 then truncated ''rfcomm frame''
      else let dlci = drop_bit 2 (data ! 0) AND 0x3F; c_r = (drop_bit 1 (data ! 0) AND 1 \<noteq> 0)
      in bind_result (frame_type_from_code (data ! 1 AND 0xEF)) (\<lambda>t.
         let p_f = (drop_bit 4 (data ! 1) AND 1 \<noteq> 0)
         in bind_result
           (if data ! 2 AND 1 \<noteq> 0 then Ok (drop 3 (butlast data))
            else if length data < 5 then truncated ''rfcomm frame 2-byte length''
            else Ok (drop 4 (butlast data))) (\<lambda>information.
         let fcs = last data;
             frame = \<lparr>rf_type = t, rf_c_r = c_r, rf_dlci = dlci, rf_p_f = p_f,
                      rf_information = information, rf_with_credits = False\<rparr>
         in bind_result (rf_fcs frame) (\<lambda>expected.
              if expected \<noteq> fcs then
                Err (RfInvalidPacket ''fcs mismatch: got 0x{fcs:02X}, expected 0x{expected:02X}''
                       [unat fcs, unat expected])
              else Ok frame))))"

section \<open>Multiplexer control messages\<close>

text \<open>\<open>data.len() as u8\<close> truncates.\<close>

definition make_mcc :: "mcc_type \<Rightarrow> bool \<Rightarrow> bytes \<Rightarrow> bytes" where
  "make_mcc t c_r data =
     [push_bit 2 (mcc_type_value t) OR push_bit 1 (of_bool c_r) OR 1,
      push_bit 1 (of_nat (length data) AND 0x7F) OR 1] @ data"

definition parse_mcc :: "bytes \<Rightarrow> (u8 \<times> bool \<times> bytes) rf_result" where
  "parse_mcc data =
     (if length data < 2 then truncated ''mcc header''
      else Ok (drop_bit 2 (data ! 0), drop_bit 1 (data ! 0) AND 1 \<noteq> 0, drop 2 data))"

record rfcomm_pn =
  pn_dlci :: u8
  pn_cl :: u8
  pn_priority :: u8
  pn_ack_timer :: u8
  pn_max_frame_size :: u16
  pn_max_retransmissions :: u8
  pn_initial_credits :: u8

definition pn_to_bytes :: "rfcomm_pn \<Rightarrow> bytes" where
  "pn_to_bytes p =
     [pn_dlci p, pn_cl p, pn_priority p, pn_ack_timer p, ucast (pn_max_frame_size p AND 0xFF),
      ucast (drop_bit 8 (pn_max_frame_size p) AND 0xFF), pn_max_retransmissions p, pn_initial_credits p AND 7]"

definition pn_from_bytes :: "bytes \<Rightarrow> rfcomm_pn rf_result" where
  "pn_from_bytes data =
     (if length data < 8 then truncated ''mcc pn''
      else Ok \<lparr>pn_dlci = data ! 0, pn_cl = data ! 1, pn_priority = data ! 2, pn_ack_timer = data ! 3,
               pn_max_frame_size = ucast (data ! 4) OR push_bit 8 (ucast (data ! 5)),
               pn_max_retransmissions = data ! 6, pn_initial_credits = data ! 7 AND 7\<rparr>)"

record rfcomm_msc =
  msc_dlci :: u8
  msc_fc :: bool
  msc_rtc :: bool
  msc_rtr :: bool
  msc_ic :: bool
  msc_dv :: bool

definition msc_to_bytes :: "rfcomm_msc \<Rightarrow> bytes" where
  "msc_to_bytes s =
     [push_bit 2 (msc_dlci s) OR 3,
      1 OR push_bit 1 (of_bool (msc_fc s)) OR push_bit 2 (of_bool (msc_rtc s)) OR
      push_bit 3 (of_bool (msc_rtr s)) OR push_bit 6 (of_bool (msc_ic s)) OR push_bit 7 (of_bool (msc_dv s))]"

definition msc_from_bytes :: "bytes \<Rightarrow> rfcomm_msc rf_result" where
  "msc_from_bytes data =
     (if length data < 2 then truncated ''mcc msc''
      else Ok \<lparr>msc_dlci = drop_bit 2 (data ! 0), msc_fc = (drop_bit 1 (data ! 1) AND 1 \<noteq> 0),
               msc_rtc = (drop_bit 2 (data ! 1) AND 1 \<noteq> 0), msc_rtr = (drop_bit 3 (data ! 1) AND 1 \<noteq> 0),
               msc_ic = (drop_bit 6 (data ! 1) AND 1 \<noteq> 0), msc_dv = (drop_bit 7 (data ! 1) AND 1 \<noteq> 0)\<rparr>)"

section \<open>The lookup table\<close>

text \<open>One step of the bitwise CRC-8 with the reflected polynomial \<open>x^8 + x^2 + x + 1\<close>.\<close>

definition crc8_step :: "u8 \<Rightarrow> u8" where
  "crc8_step x = (if x AND 1 \<noteq> 0 then drop_bit 1 x XOR 0xE0 else drop_bit 1 x)"

definition crc8_byte :: "u8 \<Rightarrow> u8" where
  "crc8_byte x = (crc8_step ^^ 8) x"

text \<open>The step is linear over \<open>XOR\<close>, and so is the table: each half is the other one shifted by an entry.\<close>

lemma u8_and_1: "(w :: u8) AND 1 = 0 \<longleftrightarrow> \<not> bit w 0"
  by (simp add: mask_simps take_bit_Suc bit_0 even_iff_mod_2_eq_zero)

lemma crc8_step_bit: "crc8_step x = drop_bit 1 x XOR (if bit x 0 then 0xE0 else 0)"
  by (simp only: crc8_step_def u8_and_1) simp

lemma crc8_step_xor: "crc8_step (x XOR y) = crc8_step x XOR crc8_step y"
  unfolding crc8_step_bit bit_xor_iff drop_bit_xor
  by (cases "bit x 0"; cases "bit y 0") (simp_all only: simp_thms if_True if_False xor.left_neutral xor.right_neutral ac_simps
      xor.left_commute xor_self_eq)

lemma crc8_byte_steps:
  "crc8_byte x = crc8_step (crc8_step (crc8_step (crc8_step (crc8_step (crc8_step (crc8_step (crc8_step x)))))))"
  by (simp add: crc8_byte_def eval_nat_numeral)

lemma crc8_byte_xor: "crc8_byte (x XOR y) = crc8_byte x XOR crc8_byte y"
  by (simp add: crc8_byte_steps crc8_step_xor)

lemma crc8_basis:
  "crc8_byte 0 = 0" "crc8_byte 1 = 0x91" "crc8_byte 2 = 0xE3" "crc8_byte 4 = 0x07" "crc8_byte 8 = 0x0E"
  "crc8_byte 16 = 0x1C" "crc8_byte 32 = 0x38" "crc8_byte 64 = 0x70" "crc8_byte 128 = 0xE0"
  by (simp_all add: crc8_byte_steps crc8_step_def)

lemma table_halves:
  "take 1 CRC_TABLE = [0]"
  "take 1 (drop 1 CRC_TABLE) = map (\<lambda>x. 0x91 XOR x) (take 1 CRC_TABLE)"
  "take 2 (drop 2 CRC_TABLE) = map (\<lambda>x. 0xE3 XOR x) (take 2 CRC_TABLE)"
  "take 4 (drop 4 CRC_TABLE) = map (\<lambda>x. 0x07 XOR x) (take 4 CRC_TABLE)"
  "take 8 (drop 8 CRC_TABLE) = map (\<lambda>x. 0x0E XOR x) (take 8 CRC_TABLE)"
  "take 16 (drop 16 CRC_TABLE) = map (\<lambda>x. 0x1C XOR x) (take 16 CRC_TABLE)"
  "take 32 (drop 32 CRC_TABLE) = map (\<lambda>x. 0x38 XOR x) (take 32 CRC_TABLE)"
  "take 64 (drop 64 CRC_TABLE) = map (\<lambda>x. 0x70 XOR x) (take 64 CRC_TABLE)"
  "take 128 (drop 128 CRC_TABLE) = map (\<lambda>x. 0xE0 XOR x) (take 128 CRC_TABLE)"
  by (simp_all add: CRC_TABLE_def)

lemma length_table: "length CRC_TABLE = 256"
  by (simp add: CRC_TABLE_def)

lemma table_step:
  assumes half: "take m (drop m CRC_TABLE) = map (\<lambda>x. c XOR x) (take m CRC_TABLE)"
    and c: "crc8_byte (of_nat m) = c" and m: "m = 2 ^ k" "k < 8"
    and low: "\<And>i. i < m \<Longrightarrow> CRC_TABLE ! i = crc8_byte (of_nat i)"
    and n: "n < 2 * m"
  shows "CRC_TABLE ! n = crc8_byte (of_nat n)"
proof (cases "n < m")
  case False
  define i where "i = n - m"
  have i: "n = m + i" "i < m" using False n by (simp_all add: i_def)
  have lim: "2 * m \<le> 256" using m by (simp add: power_increasing [of "Suc k" 8 "2 :: nat", simplified])
  have "CRC_TABLE ! n = take m (drop m CRC_TABLE) ! i"
    using i lim length_table by simp
  also have "\<dots> = c XOR CRC_TABLE ! i" using half i lim length_table by simp
  also have "\<dots> = crc8_byte (of_nat m XOR of_nat i)" using c low i by (simp add: crc8_byte_xor)
  also have "(of_nat m :: u8) XOR of_nat i = of_nat m + of_nat i"
  proof (rule disjunctive_add_eq_xor [symmetric])
    show "(of_nat m :: u8) AND of_nat i = 0"
    proof (rule bit_word_eqI)
      fix j assume "j < LENGTH(8)"
      have "\<not> (bit m j \<and> bit i j)"
      proof
        assume b: "bit m j \<and> bit i j"
        then have "j = k" using m by (simp add: bit_exp_iff)
        moreover have "\<not> bit i k" using i(2) m(1) by (simp add: bit_iff_odd)
        ultimately show False using b by simp
      qed
      then show "bit ((of_nat m :: u8) AND of_nat i) j = bit (0 :: u8) j" by (auto simp: bit_simps)
    qed
  qed
  finally show ?thesis using i by simp
qed (rule low)

lemma table_bitwise: "CRC_TABLE ! unat x = crc8_byte x"
proof -
  have 0: "CRC_TABLE ! i = crc8_byte (of_nat i)" if "i < 1" for i
    using that arg_cong [OF table_halves(1), of "\<lambda>xs. xs ! 0"] crc8_basis(1) by simp
  have 1: "CRC_TABLE ! i = crc8_byte (of_nat i)" if "i < 2" for i
    by (rule table_step [of 1 "0x91" 0]) (use that 0 table_halves(2) crc8_basis(2) in auto)
  have 2: "CRC_TABLE ! i = crc8_byte (of_nat i)" if "i < 4" for i
    by (rule table_step [of 2 "0xE3" 1]) (use that 1 table_halves(3) crc8_basis(3) in auto)
  have 3: "CRC_TABLE ! i = crc8_byte (of_nat i)" if "i < 8" for i
    by (rule table_step [of 4 "0x07" 2]) (use that 2 table_halves(4) crc8_basis(4) in auto)
  have 4: "CRC_TABLE ! i = crc8_byte (of_nat i)" if "i < 16" for i
    by (rule table_step [of 8 "0x0E" 3]) (use that 3 table_halves(5) crc8_basis(5) in auto)
  have 5: "CRC_TABLE ! i = crc8_byte (of_nat i)" if "i < 32" for i
    by (rule table_step [of 16 "0x1C" 4]) (use that 4 table_halves(6) crc8_basis(6) in auto)
  have 6: "CRC_TABLE ! i = crc8_byte (of_nat i)" if "i < 64" for i
    by (rule table_step [of 32 "0x38" 5]) (use that 5 table_halves(7) crc8_basis(7) in auto)
  have 7: "CRC_TABLE ! i = crc8_byte (of_nat i)" if "i < 128" for i
    by (rule table_step [of 64 "0x70" 6]) (use that 6 table_halves(8) crc8_basis(8) in auto)
  have "CRC_TABLE ! i = crc8_byte (of_nat i)" if "i < 256" for i
    by (rule table_step [of 128 "0xE0" 7]) (use that 7 table_halves(9) crc8_basis(9) in auto)
  from this [of "unat x"] unat_u8_less [of x] show ?thesis by simp
qed

section \<open>Round trips\<close>

lemma frame_type_decode:
  "frame_type_from_code ((frame_type_value t OR push_bit 4 (of_bool p)) AND 0xEF) = Ok t"
  "drop_bit 4 (frame_type_value t OR push_bit 4 (of_bool p)) AND 1 \<noteq> 0 \<longleftrightarrow> p"
  by (cases t; cases p; simp add: frame_type_from_code_def)+

lemma address_decode:
  assumes "unat d < 64"
  shows "drop_bit 2 (push_bit 2 d OR push_bit 1 (of_bool c) OR 1) AND 0x3F = (d :: u8)"
    "drop_bit 1 (push_bit 2 d OR push_bit 1 (of_bool c) OR 1) AND 1 \<noteq> 0 \<longleftrightarrow> c"
proof -
  show "drop_bit 2 (push_bit 2 d OR push_bit 1 (of_bool c) OR 1) AND 0x3F = d"
    unfolding mask_simps using assms
    by (intro bit_word_eqI) (auto simp: bit_simps field_high_bits dest: field_bits_below(4))
  show "drop_bit 1 (push_bit 2 d OR push_bit 1 (of_bool c) OR 1) AND 1 \<noteq> 0 \<longleftrightarrow> c"
    unfolding u8_and_1 by (auto simp: bit_simps)
qed

definition rf_wf :: "rfcomm_frame \<Rightarrow> bool" where
  "rf_wf f \<longleftrightarrow> unat (rf_dlci f) < 64 \<and>
     (rf_with_credits f \<longrightarrow> rf_type f = Uih \<and> rf_information f \<noteq> [])"

text \<open>The length indicator: its first octet tells whether a second one follows.\<close>

lemma length_field_cases:
  assumes "rf_wf f"
  obtains b where "length_field f = Ok [b]" "b AND 1 \<noteq> 0"
    | b c where "length_field f = Ok [b, c]" "b AND 1 = 0"
proof -
  define n where "n = (if rf_with_credits f then length (rf_information f) - 1 else length (rf_information f))"
  have lf: "length_field f = Ok (if n > 0x7F then [of_nat (push_bit 1 (take_bit 7 n)), of_nat (take_bit 8 (drop_bit 7 n))]
                else [of_nat (push_bit 1 n OR 1)])"
    using assms by (auto simp: length_field_def n_def rf_wf_def)
  have "bit (of_nat (push_bit 1 n OR 1) :: u8) 0" "\<not> bit (of_nat (push_bit 1 (take_bit 7 n)) :: u8) 0"
    by (simp_all add: bit_simps bit_0 even_or_iff)
  with lf that show thesis by (cases "n > 0x7F") (auto simp: u8_and_1)
qed

lemma rf_fcs_plain: "rf_wf f \<Longrightarrow> rf_fcs (f\<lparr>rf_with_credits := False\<rparr>) = rf_fcs f"
  by (cases "rf_with_credits f") (auto simp: rf_fcs_def rf_wf_def rf_address_def rf_control_def length_field_def)

lemma rf_from_bytes_parts:
  assumes "(\<exists>b. l = [b] \<and> b AND 1 \<noteq> 0) \<or> (\<exists>b c. l = [b, c] \<and> b AND 1 = 0)"
    and "frame_type_from_code (t AND 0xEF) = Ok ty"
  shows "rf_from_bytes ([a, t] @ l @ info @ [c]) =
     (let frame = \<lparr>rf_type = ty, rf_c_r = (drop_bit 1 a AND 1 \<noteq> 0), rf_dlci = drop_bit 2 a AND 0x3F,
        rf_p_f = (drop_bit 4 t AND 1 \<noteq> 0), rf_information = info, rf_with_credits = False\<rparr>
      in bind_result (rf_fcs frame) (\<lambda>expected.
           if expected \<noteq> c then
             Err (RfInvalidPacket ''fcs mismatch: got 0x{fcs:02X}, expected 0x{expected:02X}'' [unat c, unat expected])
           else Ok frame))"
  using assms by (elim disjE exE conjE) (simp_all add: rf_from_bytes_def Let_def butlast_append)

lemma rf_dec_enc:
  assumes "rf_wf f"
  shows "\<exists>b. rf_to_bytes f = Ok b \<and> rf_from_bytes b = Ok (f\<lparr>rf_with_credits := False\<rparr>)"
proof -
  obtain l where l: "length_field f = Ok l"
      "(\<exists>b. l = [b] \<and> b AND 1 \<noteq> 0) \<or> (\<exists>b c. l = [b, c] \<and> b AND 1 = 0)"
    using length_field_cases [OF assms] by metis
  obtain c where c: "rf_fcs f = Ok c" using l by (cases "rf_type f = Uih") (auto simp: rf_fcs_def)
  have enc: "rf_to_bytes f = Ok ([rf_address f, rf_control f] @ l @ rf_information f @ [c])"
    using l c by (simp add: rf_to_bytes_def)
  let ?d = "[rf_address f, rf_control f] @ l @ rf_information f @ [c]"
  have ft: "frame_type_from_code (rf_control f AND 0xEF) = Ok (rf_type f)"
    by (simp only: rf_control_def frame_type_decode)
  have f: "\<lparr>rf_type = rf_type f, rf_c_r = (drop_bit 1 (rf_address f) AND 1 \<noteq> 0),
      rf_dlci = drop_bit 2 (rf_address f) AND 0x3F, rf_p_f = (drop_bit 4 (rf_control f) AND 1 \<noteq> 0),
      rf_information = rf_information f, rf_with_credits = False\<rparr> = f\<lparr>rf_with_credits := False\<rparr>"
    using assms by (simp only: rf_address_def rf_control_def frame_type_decode address_decode rf_wf_def) simp
  have "rf_from_bytes ?d = Ok (f\<lparr>rf_with_credits := False\<rparr>)"
    unfolding rf_from_bytes_parts [OF l(2) ft] f Let_def using c by (simp add: rf_fcs_plain [OF assms])
  with enc show ?thesis by blast
qed

lemma pn_dec_enc: "pn_from_bytes (pn_to_bytes p @ rest) = Ok (p\<lparr>pn_initial_credits := pn_initial_credits p AND 7\<rparr>)"
proof -
  have m: "(w :: u16) AND 0xFF = take_bit 8 w" for w by (simp add: take_bit_eq_mask mask_eq_exp_minus_1)
  have "ucast (ucast (w AND 0xFF) :: u8) OR push_bit 8 (ucast (ucast (drop_bit 8 w AND 0xFF) :: u8)) = w" for w :: u16
    unfolding m by (auto intro!: bit_word_eqI simp: bit_simps)
  then show ?thesis by (cases p) (simp add: pn_to_bytes_def pn_from_bytes_def)
qed

lemma msc_dec_enc:
  assumes "unat (msc_dlci s) < 64" shows "msc_from_bytes (msc_to_bytes s @ rest) = Ok s"
proof -
  have 3: "(3 :: u8) = mask 2" by (simp add: mask_eq_exp_minus_1)
  have "drop_bit 2 (push_bit 2 d OR 3) = d" if "unat d < 64" for d :: u8
    using that unfolding 3 by (auto intro!: bit_word_eqI simp: bit_simps dest: field_bits_below(4))
  with assms show ?thesis
    by (cases s) (simp add: msc_to_bytes_def msc_from_bytes_def u8_and_1 bit_simps)
qed

lemma mcc_dec_enc: "parse_mcc (make_mcc t c data) = Ok (mcc_type_value t, c, data)"
  by (cases t; cases c; simp add: parse_mcc_def make_mcc_def)

section \<open>Properties\<close>

text \<open>
  Property C38: the frame check sequence computed with the lookup table is the bitwise CRC-8 with
  the reflected polynomial of TS 07.10.
\<close>

theorem fcs_table_is_crc8:
  "compute_fcs buffer = 0xFF - foldl (\<lambda>crc byte. crc8_byte (crc XOR byte)) 0xFF buffer"
  by (simp add: compute_fcs_def table_bitwise)

text \<open>
  Property C37: a frame with a 6-bit DLCI, its credit octet present if announced, is serialized, and
  parsing the bytes gives it back, up to the credit flag that parsing always clears. The parameter
  negotiation and modem status messages come back from their control messages; of the initial
  credits only the low three bits do.
\<close>

theorem rfcomm_frame_roundtrip:
  assumes "unat (rf_dlci f) < 64" and "rf_with_credits f \<longrightarrow> rf_type f = Uih \<and> rf_information f \<noteq> []"
    and "unat (msc_dlci s) < 64"
  shows "(\<exists>b. rf_to_bytes f = Ok b \<and> rf_from_bytes b = Ok (f\<lparr>rf_with_credits := False\<rparr>)) \<and>
    parse_mcc (make_mcc Pn c (pn_to_bytes p)) = Ok (mcc_type_value Pn, c, pn_to_bytes p) \<and>
    pn_from_bytes (pn_to_bytes p) = Ok (p\<lparr>pn_initial_credits := pn_initial_credits p AND 7\<rparr>) \<and>
    parse_mcc (make_mcc Msc c (msc_to_bytes s)) = Ok (mcc_type_value Msc, c, msc_to_bytes s) \<and>
    msc_from_bytes (msc_to_bytes s) = Ok s"
  using rf_dec_enc [of f] pn_dec_enc [of p "[]"] msc_dec_enc [OF assms(3), of "[]"] assms(1,2)
  by (simp add: rf_wf_def mcc_dec_enc)

theorem rfcomm_frame_roundtrip_witness:
  "\<exists>b. rf_to_bytes (rf_uih True 4 [9, 65, 66] True) = Ok b \<and>
     rf_from_bytes b = Ok (rf_uih True 4 [9, 65, 66] True\<lparr>rf_with_credits := False\<rparr>)"
  using rfcomm_frame_roundtrip [of "rf_uih True 4 [9, 65, 66] True"
      "\<lparr>msc_dlci = 1, msc_fc = False, msc_rtc = True, msc_rtr = True, msc_ic = False, msc_dv = True\<rparr>"]
  by (simp add: rf_uih_def)

end
