(* ===== verification/Rfcomm_Mux.thy ===== *)
theory Rfcomm_Mux
  imports Rfcomm Ordered_Map
begin

text \<open>
  The RFCOMM session of \<open>bumble-rfcomm/src/mux.rs\<close>: the data link connection \<open>Dlc\<close> and the
  \<open>Multiplexer\<close> that owns them. A \<open>Dlc\<close> method appends to the outbox it is given, so its state is the
  pair of the connection and the outbox; \<open>u16\<close> and \<open>usize\<close> overflows are panics.
\<close>

section \<open>Constants and state\<close>

definition RFCOMM_DEFAULT_MAX_CREDITS :: u8 where "RFCOMM_DEFAULT_MAX_CREDITS = 32"
definition RFCOMM_DEFAULT_RX_QUEUE_SIZE :: nat where "RFCOMM_DEFAULT_RX_QUEUE_SIZE = 32"
definition RFCOMM_DEFAULT_CREDIT_THRESHOLD :: u16 where "RFCOMM_DEFAULT_CREDIT_THRESHOLD = 16"
definition FRAME_OVERHEAD :: nat where "FRAME_OVERHEAD = 4 + 1"

lemmas rfcomm_consts = RFCOMM_DEFAULT_MAX_CREDITS_def RFCOMM_DEFAULT_RX_QUEUE_SIZE_def
  RFCOMM_DEFAULT_CREDIT_THRESHOLD_def FRAME_OVERHEAD_def

datatype rf_role = Initiator | Responder

datatype mux_state = MInit | MConnecting | MConnected | MOpening | MDisconnecting | MDisconnected

datatype dlc_state = DInit | DConnecting | DConnected | DDisconnecting | DDisconnected

datatype dlc_upcall = UNone | UOpenComplete | UOpened | UDisconnected

record dlc =
  dlc_dlci :: u8
  dlc_c_r :: bool
  dlc_state_of :: dlc_state
  rx_max_credits :: u16
  rx_credits :: u16
  rx_credits_threshold :: u16
  tx_credits :: u16
  tx_buffer :: bytes
  dlc_mtu :: nat
  rx_packets :: "bytes list"
  dlc_reading_paused :: bool

type_synonym outbox = "rfcomm_frame list"
type_synonym 'a dlc_op = "(dlc \<times> outbox, 'a, rfcomm_error) op"

section \<open>The data link connection\<close>

definition dlc_new :: "rf_role \<Rightarrow> u8 \<Rightarrow> u16 \<Rightarrow> u16 \<Rightarrow> u16 \<Rightarrow> u16 \<Rightarrow> dlc" where
  "dlc_new role dlci tx_max_frame_size tx_initial_credits rx_initial_credits peer_mtu =
     \<lparr>dlc_dlci = dlci, dlc_c_r = (role = Initiator), dlc_state_of = DInit,
      rx_max_credits = ucast RFCOMM_DEFAULT_MAX_CREDITS, rx_credits = rx_initial_credits,
      rx_credits_threshold = RFCOMM_DEFAULT_CREDIT_THRESHOLD, tx_credits = tx_initial_credits, tx_buffer = [],
      dlc_mtu = min (unat tx_max_frame_size) (unat peer_mtu - FRAME_OVERHEAD), rx_packets = [],
      dlc_reading_paused = False\<rparr>"

definition dlc_msc :: "dlc \<Rightarrow> rfcomm_msc" where
  "dlc_msc d = \<lparr>msc_dlci = dlc_dlci d, msc_fc = False, msc_rtc = True, msc_rtr = True, msc_ic = False, msc_dv = True\<rparr>"

definition send_msc_command :: "dlc \<Rightarrow> outbox \<Rightarrow> outbox" where
  "send_msc_command d box = box @ [rf_uih (dlc_c_r d) 0 (make_mcc Msc True (msc_to_bytes (dlc_msc d))) False]"

definition dlc_connect :: "dlc \<times> outbox \<Rightarrow> dlc \<times> outbox" where
  "dlc_connect = (\<lambda>(d, box). (d\<lparr>dlc_state_of := DConnecting\<rparr>, box @ [rf_sabm (dlc_c_r d) (dlc_dlci d)]))"

definition dlc_accept :: "u16 \<Rightarrow> u16 \<Rightarrow> dlc \<times> outbox \<Rightarrow> dlc \<times> outbox" where
  "dlc_accept rx_max_frame_size rx_initial_credits = (\<lambda>(d, box).
     let pn = \<lparr>pn_dlci = dlc_dlci d, pn_cl = 0xE0, pn_priority = 7, pn_ack_timer = 0,
               pn_max_frame_size = rx_max_frame_size, pn_max_retransmissions = 0,
               pn_initial_credits = ucast rx_initial_credits\<rparr>
     in (d\<lparr>dlc_state_of := DConnecting\<rparr>,
         box @ [rf_uih (dlc_c_r d) 0 (make_mcc Pn False (pn_to_bytes pn)) False]))"

definition dlc_on_sabm :: "dlc \<times> outbox \<Rightarrow> dlc_upcall \<times> (dlc \<times> outbox)" where
  "dlc_on_sabm = (\<lambda>(d, box).
     if dlc_state_of d \<noteq> DConnecting then (UNone, (d, box))
     else (UOpened, (d\<lparr>dlc_state_of := DConnected\<rparr>,
                     send_msc_command d (box @ [rf_ua (\<not> dlc_c_r d) (dlc_dlci d)]))))"

definition dlc_on_ua :: "dlc \<times> outbox \<Rightarrow> dlc_upcall \<times> (dlc \<times> outbox)" where
  "dlc_on_ua = (\<lambda>(d, box).
     case dlc_state_of d of
       DConnecting \<Rightarrow> (UOpenComplete, (d\<lparr>dlc_state_of := DConnected\<rparr>, send_msc_command d box))
     | DDisconnecting \<Rightarrow> (UDisconnected, (d\<lparr>dlc_state_of := DDisconnected\<rparr>, box))
     | _ \<Rightarrow> (UNone, (d, box)))"

definition dlc_disconnect :: "unit dlc_op" where
  "dlc_disconnect = (\<lambda>(d, box).
     if dlc_state_of d \<noteq> DConnected then (Err (RfInvalidArgument ''DLC not connected'' []), (d, box))
     else (Ok (), (d\<lparr>dlc_state_of := DDisconnecting\<rparr>, box @ [rf_disc (dlc_c_r d) (dlc_dlci d)])))"

definition dlc_on_mcc_msc :: "bool \<Rightarrow> dlc \<Rightarrow> outbox \<Rightarrow> outbox" where
  "dlc_on_mcc_msc command d box =
     (if command then box @ [rf_uih (dlc_c_r d) 0 (make_mcc Msc False (msc_to_bytes (dlc_msc d))) False] else box)"

definition rx_credits_needed :: "dlc \<Rightarrow> (u16, rfcomm_error) rresult" where
  "rx_credits_needed d =
     (if \<not> dlc_reading_paused d \<and> rx_credits d \<le> rx_credits_threshold d then
        if rx_max_credits d < rx_credits d then Panic ''attempt to subtract with overflow''
        else Ok (rx_max_credits d - rx_credits d)
      else Ok 0)"

text \<open>
  The loop of \<open>process_tx\<close>. The sum \<open>rx_credits + rx_credits_needed\<close> is \<open>rx_max_credits\<close>; the grant is
  sent as the octet \<open>rx_credits_needed as u8\<close>.
\<close>

function dlc_tx_loop :: "u16 \<Rightarrow> unit dlc_op" where
  "dlc_tx_loop needed s =
     (let d = fst s; box = snd s; sending = (tx_buffer d \<noteq> [] \<and> 0 < tx_credits d)
      in if sending \<or> 0 < needed then
           if 0 < needed then
             let d1 = d\<lparr>rx_credits := rx_credits d + needed\<rparr>
             in if sending then
                  if dlc_mtu d = 0 then (Panic ''attempt to subtract with overflow'', (d1, box))
                  else let n = min (dlc_mtu d - 1) (length (tx_buffer d))
                       in dlc_tx_loop 0
                            (d1\<lparr>tx_buffer := drop n (tx_buffer d), tx_credits := tx_credits d - 1\<rparr>,
                             box @ [rf_uih (dlc_c_r d) (dlc_dlci d) (ucast needed # take n (tx_buffer d)) True])
                else dlc_tx_loop 0 (d1, box @ [rf_uih (dlc_c_r d) (dlc_dlci d) [ucast needed] True])
           else let n = min (dlc_mtu d) (length (tx_buffer d))
                in dlc_tx_loop 0
                     (d\<lparr>tx_buffer := drop n (tx_buffer d), tx_credits := tx_credits d - 1\<rparr>,
                      box @ [rf_uih (dlc_c_r d) (dlc_dlci d) (take n (tx_buffer d)) False])
         else (Ok (), s))"
  by pat_completeness auto
termination
proof (relation "measure (\<lambda>(needed, s). unat (tx_credits (fst s)) + (if 0 < needed then 1 else 0))", goal_cases)
  case 1
  show ?case by simp
qed (auto simp: Let_def unat_minus_one unat_gt_0 word_less_nat_alt)

declare dlc_tx_loop.simps [simp del]

definition dlc_process_tx :: "unit dlc_op" where
  "dlc_process_tx s = and_then (lift_result (rx_credits_needed (fst s))) dlc_tx_loop s"

definition dlc_write :: "bytes \<Rightarrow> unit dlc_op" where
  "dlc_write data = (\<lambda>(d, box). dlc_process_tx (d\<lparr>tx_buffer := tx_buffer d @ data\<rparr>, box))"

text \<open>The two halves of \<open>on_uih\<close>: the credit octet, and the data with the bounded receive queue.\<close>

definition dlc_take_credits :: "rfcomm_frame \<Rightarrow> bytes dlc_op" where
  "dlc_take_credits frame = (\<lambda>(d, box).
     if rf_p_f frame then
       (case rf_information frame of
          [] \<Rightarrow> (Panic ''index out of bounds'', (d, box))
        | g # data \<Rightarrow>
            if unat (tx_credits d) + unat g > 65535 then (Panic ''attempt to add with overflow'', (d, box))
            else (Ok data, (d\<lparr>tx_credits := tx_credits d + ucast g\<rparr>, box)))
     else (Ok (rf_information frame), (d, box)))"

definition dlc_store :: "bytes \<Rightarrow> dlc \<Rightarrow> dlc" where
  "dlc_store data d =
     (if data = [] then d
      else let q = (if length (rx_packets d) = RFCOMM_DEFAULT_RX_QUEUE_SIZE then tl (rx_packets d) else rx_packets d)
           in d\<lparr>rx_packets := q @ [data], rx_credits := (if 0 < rx_credits d then rx_credits d - 1 else rx_credits d)\<rparr>)"

definition dlc_on_uih :: "rfcomm_frame \<Rightarrow> unit dlc_op" where
  "dlc_on_uih frame =
     and_then (dlc_take_credits frame) (\<lambda>data (d, box). dlc_process_tx (dlc_store data d, box))"

definition dlc_on_frame :: "rfcomm_frame \<Rightarrow> dlc_upcall dlc_op" where
  "dlc_on_frame frame = (\<lambda>(d, box).
     case rf_type frame of
       Sabm \<Rightarrow> (let (u, s) = dlc_on_sabm (d, box) in (Ok u, s))
     | Ua \<Rightarrow> (let (u, s) = dlc_on_ua (d, box) in (Ok u, s))
     | Disc \<Rightarrow> (Ok UNone, (d, box @ [rf_ua (\<not> dlc_c_r d) (dlc_dlci d)]))
     | Uih \<Rightarrow> and_then (dlc_on_uih frame) (\<lambda>_ s. (Ok UNone, s)) (d, box)
     | _ \<Rightarrow> (Ok UNone, (d, box)))"

section \<open>The multiplexer\<close>

record multiplexer =
  mx_role :: rf_role
  mx_state :: mux_state
  mx_dlcs :: "(u8, dlc) btree_map"
  mx_open_pn :: "rfcomm_pn option"
  mx_acceptor :: "(u8, u16 \<times> u16) btree_map"
  mx_peer_mtu :: u16
  mx_outbox :: outbox
  mx_opened :: "u8 list"

type_synonym 'a mx_op = "(multiplexer, 'a, rfcomm_error) op"

definition mx_new :: "rf_role \<Rightarrow> u16 \<Rightarrow> multiplexer" where
  "mx_new role peer_mtu = \<lparr>mx_role = role, mx_state = MInit, mx_dlcs = [], mx_open_pn = None, mx_acceptor = [],
     mx_peer_mtu = peer_mtu, mx_outbox = [], mx_opened = []\<rparr>"

definition mx_listen :: "u8 \<Rightarrow> u16 \<Rightarrow> u16 \<Rightarrow> multiplexer \<Rightarrow> multiplexer" where
  "mx_listen channel rx_max_frame_size rx_initial_credits m =
     m\<lparr>mx_acceptor := bt_insert channel (rx_max_frame_size, rx_initial_credits) (mx_acceptor m)\<rparr>"

definition mx_send :: "rfcomm_frame \<Rightarrow> multiplexer \<Rightarrow> multiplexer" where
  "mx_send f m = m\<lparr>mx_outbox := mx_outbox m @ [f]\<rparr>"

definition mx_connect :: "unit mx_op" where
  "mx_connect m =
     (if mx_state m \<noteq> MInit then (Err (RfInvalidArgument ''multiplexer not in INIT state'' []), m)
      else (Ok (), mx_send (rf_sabm True 0) (m\<lparr>mx_state := MConnecting\<rparr>)))"

definition mx_open_dlc :: "u8 \<Rightarrow> u16 \<Rightarrow> u16 \<Rightarrow> unit mx_op" where
  "mx_open_dlc channel max_frame_size initial_credits m =
     (if mx_state m \<noteq> MConnected then (Err (RfInvalidArgument ''multiplexer not connected'' []), m)
      else let pn = \<lparr>pn_dlci = push_bit 1 channel, pn_cl = 0xF0, pn_priority = 7, pn_ack_timer = 0,
                     pn_max_frame_size = max_frame_size, pn_max_retransmissions = 0,
                     pn_initial_credits = ucast initial_credits\<rparr>
           in (Ok (), mx_send (rf_uih (mx_role m = Initiator) 0 (make_mcc Pn True (pn_to_bytes pn)) False)
                 (m\<lparr>mx_open_pn := Some pn, mx_state := MOpening\<rparr>)))"

definition mx_disconnect :: "unit mx_op" where
  "mx_disconnect m =
     (if mx_state m \<noteq> MConnected then (Err (RfInvalidArgument ''multiplexer not connected'' []), m)
      else (Ok (), mx_send (rf_disc (mx_role m = Initiator) 0) (m\<lparr>mx_state := MDisconnecting\<rparr>)))"

text \<open>A call on \<open>dlcs.get_mut(dlci)\<close> with the outbox of the session.\<close>

definition on_dlc :: "u8 \<Rightarrow> 'a dlc_op \<Rightarrow> 'a mx_op" where
  "on_dlc dlci f m =
     (case bt_get (mx_dlcs m) dlci of
        None \<Rightarrow> (Err (RfInvalidArgument ''no DLC for DLCI {dlci}'' [unat dlci]), m)
      | Some d \<Rightarrow>
          let (r, d', box) = f (d, mx_outbox m)
          in (r, m\<lparr>mx_dlcs := bt_insert dlci d' (mx_dlcs m), mx_outbox := box\<rparr>))"

definition mx_disconnect_dlc :: "u8 \<Rightarrow> unit mx_op" where
  "mx_disconnect_dlc dlci = on_dlc dlci dlc_disconnect"

definition mx_write :: "u8 \<Rightarrow> bytes \<Rightarrow> unit mx_op" where
  "mx_write dlci data = on_dlc dlci (dlc_write data)"

definition mx_set_dlc_receive_credits :: "u8 \<Rightarrow> u16 \<Rightarrow> u16 \<Rightarrow> unit mx_op" where
  "mx_set_dlc_receive_credits dlci max_credits threshold m =
     (if max_credits = 0 \<or> threshold > max_credits then
        (Err (RfInvalidArgument ''RFCOMM receive credits require 0 <= threshold <= max and max > 0'' []), m)
      else on_dlc dlci (\<lambda>(d, box). (Ok (),
        (d\<lparr>rx_max_credits := max_credits, rx_credits_threshold := threshold\<rparr>, box))) m)"

definition mx_set_dlc_reading_paused :: "u8 \<Rightarrow> bool \<Rightarrow> unit mx_op" where
  "mx_set_dlc_reading_paused dlci paused = on_dlc dlci (\<lambda>(d, box).
     let s = (d\<lparr>dlc_reading_paused := paused\<rparr>, box) in if paused then (Ok (), s) else dlc_process_tx s)"

definition mx_take_rx :: "u8 \<Rightarrow> multiplexer \<Rightarrow> bytes list \<times> multiplexer" where
  "mx_take_rx dlci m =
     (case bt_get (mx_dlcs m) dlci of
        None \<Rightarrow> ([], m)
      | Some d \<Rightarrow> (rx_packets d, m\<lparr>mx_dlcs := bt_insert dlci (d\<lparr>rx_packets := []\<rparr>) (mx_dlcs m)\<rparr>))"

definition mx_drain_outgoing :: "multiplexer \<Rightarrow> outbox \<times> multiplexer" where
  "mx_drain_outgoing m = (mx_outbox m, m\<lparr>mx_outbox := []\<rparr>)"

definition mx_take_opened :: "multiplexer \<Rightarrow> u8 list \<times> multiplexer" where
  "mx_take_opened m = (mx_opened m, m\<lparr>mx_opened := []\<rparr>)"

definition mx_dlc_state :: "multiplexer \<Rightarrow> u8 \<Rightarrow> dlc_state option" where
  "mx_dlc_state m dlci = map_option dlc_state_of (bt_get (mx_dlcs m) dlci)"

definition mx_dlc_tx_credits :: "multiplexer \<Rightarrow> u8 \<Rightarrow> u16 option" where
  "mx_dlc_tx_credits m dlci = map_option tx_credits (bt_get (mx_dlcs m) dlci)"

definition mx_dlc_rx_credits :: "multiplexer \<Rightarrow> u8 \<Rightarrow> u16 option" where
  "mx_dlc_rx_credits m dlci = map_option rx_credits (bt_get (mx_dlcs m) dlci)"

definition mx_dlc_pending_tx :: "multiplexer \<Rightarrow> u8 \<Rightarrow> nat option" where
  "mx_dlc_pending_tx m dlci = map_option (\<lambda>d. length (tx_buffer d)) (bt_get (mx_dlcs m) dlci)"

definition mx_dlc_is_reading_paused :: "multiplexer \<Rightarrow> u8 \<Rightarrow> bool option" where
  "mx_dlc_is_reading_paused m dlci = map_option dlc_reading_paused (bt_get (mx_dlcs m) dlci)"

definition mx_on_dm :: "multiplexer \<Rightarrow> multiplexer" where
  "mx_on_dm m = (if mx_state m = MOpening then m\<lparr>mx_state := MConnected, mx_open_pn := None\<rparr> else m)"

definition mx_insert_dlc :: "u8 \<Rightarrow> dlc \<times> outbox \<Rightarrow> multiplexer \<Rightarrow> multiplexer" where
  "mx_insert_dlc dlci s m = m\<lparr>mx_dlcs := bt_insert dlci (fst s) (mx_dlcs m), mx_outbox := snd s\<rparr>"

definition mx_on_mcc_pn :: "bool \<Rightarrow> rfcomm_pn \<Rightarrow> multiplexer \<Rightarrow> multiplexer" where
  "mx_on_mcc_pn command pn m =
     (if command then
        if pn_dlci pn AND 1 \<noteq> 0 then m
        else case bt_get (mx_acceptor m) (drop_bit 1 (pn_dlci pn)) of
          Some (rx_max_frame_size, rx_initial_credits) \<Rightarrow>
            mx_insert_dlc (pn_dlci pn)
              (dlc_accept rx_max_frame_size rx_initial_credits
                 (dlc_new (mx_role m) (pn_dlci pn) (pn_max_frame_size pn) (ucast (pn_initial_credits pn))
                    rx_initial_credits (mx_peer_mtu m), mx_outbox m)) m
        | None \<Rightarrow> mx_send (rf_dm True (pn_dlci pn)) m
      else if mx_state m = MOpening then
        case mx_open_pn m of
          None \<Rightarrow> m
        | Some open_pn \<Rightarrow>
            let m1 = m\<lparr>mx_open_pn := None\<rparr>
            in mx_insert_dlc (pn_dlci pn)
                 (dlc_connect (dlc_new (mx_role m1) (pn_dlci pn) (pn_max_frame_size pn) (ucast (pn_initial_credits pn))
                    (ucast (pn_initial_credits open_pn)) (mx_peer_mtu m1), mx_outbox m1)) m1
      else m)"

definition mx_on_uih_control :: "rfcomm_frame \<Rightarrow> multiplexer \<Rightarrow> multiplexer" where
  "mx_on_uih_control frame m =
     (case parse_mcc (rf_information frame) of
        Ok (t, command, v) \<Rightarrow>
          if t = mcc_type_value Pn then
            (case pn_from_bytes v of Ok pn \<Rightarrow> mx_on_mcc_pn command pn m | _ \<Rightarrow> m)
          else if t = mcc_type_value Msc then
            (case msc_from_bytes v of
               Ok msc \<Rightarrow>
                 (case bt_get (mx_dlcs m) (msc_dlci msc) of
                    Some d \<Rightarrow> m\<lparr>mx_outbox := dlc_on_mcc_msc command d (mx_outbox m)\<rparr>
                  | None \<Rightarrow> m)
             | _ \<Rightarrow> m)
          else m
      | _ \<Rightarrow> m)"

definition mx_on_control_frame :: "rfcomm_frame \<Rightarrow> multiplexer \<Rightarrow> multiplexer" where
  "mx_on_control_frame frame m =
     (case rf_type frame of
        Sabm \<Rightarrow> if mx_state m = MInit then mx_send (rf_ua True 0) (m\<lparr>mx_state := MConnected\<rparr>) else m
      | Ua \<Rightarrow> (case mx_state m of
                MConnecting \<Rightarrow> m\<lparr>mx_state := MConnected\<rparr>
              | MDisconnecting \<Rightarrow> m\<lparr>mx_state := MDisconnected\<rparr>
              | _ \<Rightarrow> m)
      | Disc \<Rightarrow> mx_send (rf_ua (mx_role m \<noteq> Initiator) 0) (m\<lparr>mx_state := MDisconnected\<rparr>)
      | Dm \<Rightarrow> mx_on_dm m
      | Uih \<Rightarrow> mx_on_uih_control frame m
      | Ui \<Rightarrow> m)"

definition mx_apply_upcall :: "u8 \<Rightarrow> dlc_upcall \<Rightarrow> multiplexer \<Rightarrow> multiplexer" where
  "mx_apply_upcall dlci u m =
     (case u of
        UOpenComplete \<Rightarrow> m\<lparr>mx_state := MConnected, mx_opened := mx_opened m @ [dlci]\<rparr>
      | UOpened \<Rightarrow> m\<lparr>mx_opened := mx_opened m @ [dlci]\<rparr>
      | UDisconnected \<Rightarrow> m\<lparr>mx_dlcs := bt_remove dlci (mx_dlcs m)\<rparr>
      | UNone \<Rightarrow> m)"

definition mx_on_pdu :: "rfcomm_frame \<Rightarrow> unit mx_op" where
  "mx_on_pdu frame m =
     (if rf_dlci frame = 0 then (Ok (), mx_on_control_frame frame m)
      else if rf_type frame = Dm then (Ok (), mx_on_dm m)
      else case bt_get (mx_dlcs m) (rf_dlci frame) of
        None \<Rightarrow> (Ok (), m)
      | Some d \<Rightarrow> and_then (on_dlc (rf_dlci frame) (dlc_on_frame frame)) (\<lambda>u m.
          (Ok (), mx_apply_upcall (rf_dlci frame) u m)) m)"

end
