(* ===== verification/Rfcomm_Link.thy ===== *)
theory Rfcomm_Link
  imports Rfcomm_Mux "HOL-Library.Sublist"
begin

text \<open>
  Two open data link connections of \<open>bumble-rfcomm/src/mux.rs\<close> joined by two ordered wires: the
  credit-based flow control conserves credits, never overruns the receiver and never deadlocks,
  and the bytes written at one end arrive at the other in order.
\<close>

section \<open>What the transmit loop emits\<close>

definition frame_grant :: "rfcomm_frame \<Rightarrow> nat" where
  "frame_grant f = (if rf_p_f f then unat (hd (rf_information f)) else 0)"

definition frame_data :: "rfcomm_frame \<Rightarrow> bytes" where
  "frame_data f = (if rf_p_f f then tl (rf_information f) else rf_information f)"

definition frame_ok :: "rfcomm_frame \<Rightarrow> bool" where
  "frame_ok f \<longleftrightarrow> rf_p_f f \<longrightarrow> rf_information f \<noteq> []"

definition grants :: "rfcomm_frame list \<Rightarrow> nat" where
  "grants fs = (\<Sum>f\<leftarrow>fs. frame_grant f)"

definition data_frames :: "rfcomm_frame list \<Rightarrow> nat" where
  "data_frames fs = length (filter (\<lambda>f. frame_data f \<noteq> []) fs)"

definition wire_data :: "rfcomm_frame list \<Rightarrow> bytes" where
  "wire_data fs = concat (map frame_data fs)"

lemma wire_simps [simp]:
  "grants [] = 0" "data_frames [] = 0" "wire_data [] = []"
  "grants (f # fs) = frame_grant f + grants fs" "wire_data (f # fs) = frame_data f @ wire_data fs"
  "data_frames (f # fs) = (if frame_data f = [] then 0 else 1) + data_frames fs"
  "grants (fs @ gs) = grants fs + grants gs" "wire_data (fs @ gs) = wire_data fs @ wire_data gs"
  "data_frames (fs @ gs) = data_frames fs + data_frames gs"
  by (simp_all add: grants_def data_frames_def wire_data_def)

lemma uih_simps [simp]:
  "frame_grant (rf_uih c d (g # data) True) = unat g" "frame_data (rf_uih c d (g # data) True) = data"
  "frame_grant (rf_uih c d data False) = 0" "frame_data (rf_uih c d data False) = data"
  "frame_ok (rf_uih c d (g # data) True)" "frame_ok (rf_uih c d data False)"
  by (simp_all add: frame_grant_def frame_data_def frame_ok_def rf_uih_def)

definition dlc_settled :: "dlc \<Rightarrow> bool" where
  "dlc_settled d \<longleftrightarrow> tx_buffer d = [] \<or> tx_credits d = 0"

definition dlc_rest where
  "dlc_rest d = (dlc_dlci d, dlc_c_r d, dlc_state_of d, rx_max_credits d, rx_credits_threshold d, dlc_mtu d,
     rx_packets d, dlc_reading_paused d)"

text \<open>The frames \<open>fs\<close> take a connection from \<open>d\<close> to \<open>d'\<close>.\<close>

definition emitted :: "dlc \<Rightarrow> rfcomm_frame list \<Rightarrow> dlc \<Rightarrow> bool" where
  "emitted d fs d' \<longleftrightarrow>
     unat (tx_credits d') + data_frames fs = unat (tx_credits d) \<and>
     unat (rx_credits d') = unat (rx_credits d) + grants fs \<and>
     wire_data fs @ tx_buffer d' = tx_buffer d \<and> list_all frame_ok fs \<and>
     dlc_rest d' = dlc_rest d"

lemma emitted_refl: "emitted d [] d"
  by (simp add: emitted_def)

lemma emitted_trans: "emitted d fs e \<Longrightarrow> emitted e gs d' \<Longrightarrow> emitted d (fs @ gs) d'"
  unfolding emitted_def by auto

lemma emitted_send:
  assumes "tx_buffer d \<noteq> []" "0 < tx_credits d" "0 < n" "n \<le> length (tx_buffer d)"
  shows "emitted d [rf_uih c i (take n (tx_buffer d)) False]
    (d\<lparr>tx_buffer := drop n (tx_buffer d), tx_credits := tx_credits d - 1\<rparr>)"
  using assms by (auto simp: emitted_def dlc_rest_def unat_minus_one unat_gt_0 word_less_nat_alt)

lemma emitted_grant:
  assumes "0 < g" "unat g \<le> 255" "unat (rx_credits d) + unat g < 65536"
  shows "emitted d [rf_uih c i [ucast g] True] (d\<lparr>rx_credits := rx_credits d + g\<rparr>)"
    and "tx_buffer d \<noteq> [] \<Longrightarrow> 0 < tx_credits d \<Longrightarrow> 0 < n \<Longrightarrow> n \<le> length (tx_buffer d) \<Longrightarrow>
      emitted d [rf_uih c i (ucast g # take n (tx_buffer d)) True]
        (d\<lparr>rx_credits := rx_credits d + g, tx_buffer := drop n (tx_buffer d), tx_credits := tx_credits d - 1\<rparr>)"
proof -
  have g: "unat (ucast g :: u8) = unat g" using assms(2) by (simp add: unsigned_ucast_eq take_bit_nat_eq_self)
  have rx: "unat (rx_credits d + g) = unat (rx_credits d) + unat g"
    using assms(3) by (simp add: unat_word_ariths)
  show "emitted d [rf_uih c i [ucast g] True] (d\<lparr>rx_credits := rx_credits d + g\<rparr>)"
    using g rx by (simp add: emitted_def dlc_rest_def)
  assume "tx_buffer d \<noteq> []" "0 < tx_credits d" "0 < n" "n \<le> length (tx_buffer d)"
  then show "emitted d [rf_uih c i (ucast g # take n (tx_buffer d)) True]
        (d\<lparr>rx_credits := rx_credits d + g, tx_buffer := drop n (tx_buffer d), tx_credits := tx_credits d - 1\<rparr>)"
    using g rx by (auto simp: emitted_def dlc_rest_def unat_minus_one unat_gt_0 word_less_nat_alt)
qed

definition sending :: "dlc \<Rightarrow> bool" where
  "sending d \<longleftrightarrow> tx_buffer d \<noteq> [] \<and> 0 < tx_credits d"

lemma dlc_tx_loop_idle: "\<not> sending d \<Longrightarrow> dlc_tx_loop 0 (d, box) = (Ok (), (d, box))"
  by (subst dlc_tx_loop.simps) (auto simp: sending_def Let_def)

lemma dlc_tx_loop_send:
  "sending d \<Longrightarrow> n = min (dlc_mtu d) (length (tx_buffer d)) \<Longrightarrow>
   dlc_tx_loop 0 (d, box) = dlc_tx_loop 0
     (d\<lparr>tx_buffer := drop n (tx_buffer d), tx_credits := tx_credits d - 1\<rparr>,
      box @ [rf_uih (dlc_c_r d) (dlc_dlci d) (take n (tx_buffer d)) False])"
  by (subst dlc_tx_loop.simps) (simp add: sending_def Let_def)

lemma dlc_tx_loop_grant:
  "\<not> sending d \<Longrightarrow> 0 < needed \<Longrightarrow> dlc_tx_loop needed (d, box) = dlc_tx_loop 0
     (d\<lparr>rx_credits := rx_credits d + needed\<rparr>, box @ [rf_uih (dlc_c_r d) (dlc_dlci d) [ucast needed] True])"
  by (subst dlc_tx_loop.simps) (auto simp: sending_def Let_def)

lemma dlc_tx_loop_both:
  "sending d \<Longrightarrow> 0 < needed \<Longrightarrow> dlc_mtu d \<noteq> 0 \<Longrightarrow> n = min (dlc_mtu d - 1) (length (tx_buffer d)) \<Longrightarrow>
   dlc_tx_loop needed (d, box) = dlc_tx_loop 0
     (d\<lparr>rx_credits := rx_credits d + needed, tx_buffer := drop n (tx_buffer d), tx_credits := tx_credits d - 1\<rparr>,
      box @ [rf_uih (dlc_c_r d) (dlc_dlci d) (ucast needed # take n (tx_buffer d)) True])"
  by (subst dlc_tx_loop.simps) (simp add: sending_def Let_def)

lemma not_sending_settled: "\<not> sending d \<Longrightarrow> dlc_settled d"
  by (auto simp: sending_def dlc_settled_def word_gt_0)

lemma dlc_tx_loop_emits_0:
  assumes "1 \<le> dlc_mtu d"
  shows "\<exists>d' fs. dlc_tx_loop 0 (d, box) = (Ok (), (d', box @ fs)) \<and> emitted d fs d' \<and> dlc_settled d' \<and> grants fs = 0"
  using assms
proof (induction "unat (tx_credits d)" arbitrary: d box rule: less_induct)
  case less
  show ?case
  proof (cases "sending d")
    case False
    then show ?thesis using dlc_tx_loop_idle not_sending_settled emitted_refl by fastforce
  next
    case True
    define n where "n = min (dlc_mtu d) (length (tx_buffer d))"
    let ?e = "d\<lparr>tx_buffer := drop n (tx_buffer d), tx_credits := tx_credits d - 1\<rparr>"
      and ?f = "rf_uih (dlc_c_r d) (dlc_dlci d) (take n (tx_buffer d)) False"
    have n: "0 < n" "n \<le> length (tx_buffer d)" using True less.prems by (auto simp: n_def sending_def)
    have em: "emitted d [?f] ?e" using True n by (intro emitted_send) (auto simp: sending_def)
    have "unat (tx_credits ?e) < unat (tx_credits d)"
      using True unat_minus_one [of "tx_credits d"] unat_gt_0 [of "tx_credits d"] by (auto simp: sending_def)
    from less.hyps [OF this, of "box @ [?f]"] less.prems obtain d' fs where
      "dlc_tx_loop 0 (?e, box @ [?f]) = (Ok (), (d', (box @ [?f]) @ fs))" "emitted ?e fs d'" "dlc_settled d'"
      "grants fs = 0" by auto
    with emitted_trans [OF em, of fs d'] dlc_tx_loop_send [OF True n_def, of box] show ?thesis
      by (intro exI [of _ d'] exI [of _ "?f # fs"]) simp
  qed
qed

lemma dlc_tx_loop_emits:
  assumes "2 \<le> dlc_mtu d" "unat needed \<le> 255" "unat (rx_credits d) + unat needed < 65536"
  shows "\<exists>d' fs. dlc_tx_loop needed (d, box) = (Ok (), (d', box @ fs)) \<and> emitted d fs d' \<and> dlc_settled d' \<and>
    grants fs = unat needed"
proof (cases "needed = 0")
  case True
  then show ?thesis using dlc_tx_loop_emits_0 assms(1) by simp
next
  case False
  then have pos: "0 < needed" by (simp add: word_gt_0)
  define n where "n = min (dlc_mtu d - 1) (length (tx_buffer d))"
  define e f where "e = (if sending d then d\<lparr>rx_credits := rx_credits d + needed, tx_buffer := drop n (tx_buffer d),
        tx_credits := tx_credits d - 1\<rparr> else d\<lparr>rx_credits := rx_credits d + needed\<rparr>)"
    and "f = (if sending d then rf_uih (dlc_c_r d) (dlc_dlci d) (ucast needed # take n (tx_buffer d)) True
        else rf_uih (dlc_c_r d) (dlc_dlci d) [ucast needed] True)"
  have em: "emitted d [f] e"
    using emitted_grant [OF pos assms(2,3)] assms(1) by (auto simp: e_def f_def n_def sending_def)
  have loop: "dlc_tx_loop needed (d, box) = dlc_tx_loop 0 (e, box @ [f])"
    using dlc_tx_loop_both [OF _ pos _ n_def] dlc_tx_loop_grant [OF _ pos] assms(1) by (simp add: e_def f_def)
  have "frame_grant f = unat needed"
    using assms(2) by (simp add: f_def unsigned_ucast_eq take_bit_nat_eq_self)
  moreover have "1 \<le> dlc_mtu e" using assms(1) by (simp add: e_def)
  then obtain d' fs where "dlc_tx_loop 0 (e, box @ [f]) = (Ok (), (d', (box @ [f]) @ fs))" "emitted e fs d'"
    "dlc_settled d'" "grants fs = 0"
    using dlc_tx_loop_emits_0 by blast
  ultimately show ?thesis
    using emitted_trans [OF em] loop by (intro exI [of _ d'] exI [of _ "f # fs"]) simp
qed

section \<open>The connection invariant\<close>

definition dlc_inv :: "dlc \<Rightarrow> bool" where
  "dlc_inv d \<longleftrightarrow> 2 \<le> dlc_mtu d \<and> 0 < rx_max_credits d \<and> unat (rx_max_credits d) \<le> 255 \<and>
     rx_credits d \<le> rx_max_credits d \<and> rx_credits_threshold d \<le> rx_max_credits d"

lemma dlc_process_tx_emits:
  assumes "dlc_inv d"
  shows "\<exists>d' fs. dlc_process_tx (d, box) = (Ok (), (d', box @ fs)) \<and> emitted d fs d' \<and> dlc_settled d' \<and>
    dlc_inv d' \<and> (dlc_reading_paused d' \<or> 0 < rx_credits d')"
proof -
  define needed where "needed = (if \<not> dlc_reading_paused d \<and> rx_credits d \<le> rx_credits_threshold d
    then rx_max_credits d - rx_credits d else 0)"
  have need: "rx_credits_needed d = Ok needed"
    using assms by (auto simp: rx_credits_needed_def needed_def dlc_inv_def)
  have sum: "unat (rx_credits d) + unat needed \<le> unat (rx_max_credits d)"
    using assms by (auto simp: needed_def dlc_inv_def unat_sub word_le_nat_alt)
  have pos: "dlc_reading_paused d \<or> 0 < unat (rx_credits d) + unat needed"
    using assms by (auto simp: needed_def dlc_inv_def unat_sub word_le_nat_alt word_less_nat_alt)
  have lim: "2 \<le> dlc_mtu d" "unat needed \<le> 255" "unat (rx_credits d) + unat needed < 65536"
    using assms sum by (auto simp: dlc_inv_def)
  from dlc_tx_loop_emits [OF lim, of box] obtain d' fs where
    d': "dlc_tx_loop needed (d, box) = (Ok (), (d', box @ fs))" "emitted d fs d'" "dlc_settled d'" "grants fs = unat needed"
    by blast
  have same: "dlc_mtu d' = dlc_mtu d" "rx_max_credits d' = rx_max_credits d" "dlc_reading_paused d' = dlc_reading_paused d"
    "rx_credits_threshold d' = rx_credits_threshold d" "unat (rx_credits d') = unat (rx_credits d) + unat needed"
    using d'(2,4) by (simp_all add: emitted_def dlc_rest_def)
  then have "dlc_inv d'" "dlc_reading_paused d' \<or> 0 < rx_credits d'"
    using assms sum pos by (auto simp: dlc_inv_def word_le_nat_alt word_less_nat_alt)
  with d' need show ?thesis by (auto simp: dlc_process_tx_def and_then_def lift_result_def)
qed

section \<open>Two connections\<close>

text \<open>
  The two ends are indexed by a \<open>bool\<close>; \<open>wire x\<close> holds the frames end \<open>x\<close> has sent and the other
  end has not yet received. The last four fields record history: what was written at an end, the
  packets it accepted, those its application fetched, and how many fell out of its full queue.
\<close>

record rf_link =
  ends :: "bool \<Rightarrow> dlc"
  wire :: "bool \<Rightarrow> rfcomm_frame list"
  written :: "bool \<Rightarrow> bytes"
  accepted :: "bool \<Rightarrow> bytes list"
  fetched :: "bool \<Rightarrow> bytes list"
  evicted :: "bool \<Rightarrow> nat"

datatype rf_action = RWrite bool bytes | RDeliver bool | RFetch bool | RPause bool bool

definition put_end :: "bool \<Rightarrow> unit rf_result \<times> dlc \<times> outbox \<Rightarrow> rf_link \<Rightarrow> unit rf_result \<times> rf_link" where
  "put_end x o' L = (fst o', L\<lparr>ends := (ends L)(x := fst (snd o')), wire := (wire L)(x := wire L x @ snd (snd o'))\<rparr>)"

fun rf_step :: "rf_link \<Rightarrow> rf_action \<Rightarrow> unit rf_result \<times> rf_link" where
  "rf_step L (RWrite x data) =
     put_end x (dlc_write data (ends L x, [])) (L\<lparr>written := (written L)(x := written L x @ data)\<rparr>)"
| "rf_step L (RDeliver x) =
     (case wire L x of
        [] \<Rightarrow> (Ok (), L)
      | f # fs \<Rightarrow>
          let y = (\<not> x); d = ends L y; data = frame_data f
          in put_end y (dlc_on_uih f (d, []))
               (L\<lparr>wire := (wire L)(x := fs),
                  accepted := (if data = [] then accepted L else (accepted L)(y := accepted L y @ [data])),
                  evicted := (if data = [] \<or> length (rx_packets d) < 32 then evicted L
                              else (evicted L)(y := Suc (evicted L y)))\<rparr>))"
| "rf_step L (RFetch x) =
     (Ok (), L\<lparr>fetched := (fetched L)(x := fetched L x @ rx_packets (ends L x)),
               ends := (ends L)(x := (ends L x)\<lparr>rx_packets := []\<rparr>)\<rparr>)"
| "rf_step L (RPause x paused) =
     put_end x (let s = ((ends L x)\<lparr>dlc_reading_paused := paused\<rparr>, []) in
                if paused then (Ok (), s) else dlc_process_tx s) L"

definition link_flow :: "rf_link \<Rightarrow> bool \<Rightarrow> bool" where
  "link_flow L x \<longleftrightarrow>
     unat (tx_credits (ends L x)) + data_frames (wire L x) + grants (wire L (\<not> x)) =
       unat (rx_credits (ends L (\<not> x))) \<and>
     written L x = concat (accepted L (\<not> x)) @ wire_data (wire L x) @ tx_buffer (ends L x)"

definition link_end :: "rf_link \<Rightarrow> bool \<Rightarrow> bool" where
  "link_end L x \<longleftrightarrow> dlc_inv (ends L x) \<and> list_all frame_ok (wire L x) \<and> length (rx_packets (ends L x)) \<le> 32 \<and>
     subseq (fetched L x @ rx_packets (ends L x)) (accepted L x) \<and>
     (evicted L x = 0 \<longrightarrow> fetched L x @ rx_packets (ends L x) = accepted L x)"

definition end_quiet :: "dlc \<Rightarrow> bool" where
  "end_quiet d \<longleftrightarrow> dlc_settled d \<and> (dlc_reading_paused d \<or> 0 < rx_credits d)"

definition rf_link_inv :: "rf_link \<Rightarrow> bool" where
  "rf_link_inv L \<longleftrightarrow> (\<forall>x. link_flow L x \<and> link_end L x \<and> end_quiet (ends L x))"

text \<open>The invariant while end \<open>x\<close> has still to run its transmit loop.\<close>

definition link_pre :: "bool \<Rightarrow> rf_link \<Rightarrow> bool" where
  "link_pre x L \<longleftrightarrow> (\<forall>y. link_flow L y \<and> link_end L y) \<and> end_quiet (ends L (\<not> x))"

lemma both_ends: "P x \<Longrightarrow> P (\<not> x) \<Longrightarrow> P y"
  by (cases "y = x") auto

lemma rf_link_invD:
  assumes "rf_link_inv L"
  shows "link_flow L x" "link_end L x" "end_quiet (ends L x)"
  using assms by (simp_all add: rf_link_inv_def)

lemma emit_inv:
  assumes "link_pre x L"
  shows "fst (put_end x (dlc_process_tx (ends L x, [])) L) = Ok () \<and>
    rf_link_inv (snd (put_end x (dlc_process_tx (ends L x, [])) L))"
proof -
  have "dlc_inv (ends L x)" using assms by (simp add: link_pre_def link_end_def)
  then obtain d' fs where d': "dlc_process_tx (ends L x, []) = (Ok (), (d', fs))" "emitted (ends L x) fs d'"
      "dlc_settled d'" "dlc_inv d'" "dlc_reading_paused d' \<or> 0 < rx_credits d'"
    using dlc_process_tx_emits [of "ends L x" "[]"] by auto
  define L' where "L' = snd (put_end x (dlc_process_tx (ends L x, [])) L)"
  have L': "ends L' x = d'" "ends L' (\<not> x) = ends L (\<not> x)" "wire L' x = wire L x @ fs" "wire L' (\<not> x) = wire L (\<not> x)"
    "written L' = written L" "accepted L' = accepted L" "fetched L' = fetched L" "evicted L' = evicted L"
    by (simp_all add: L'_def put_end_def d'(1))
  have pre: "link_flow L x" "link_flow L (\<not> x)" "link_end L x" "link_end L (\<not> x)" "end_quiet (ends L (\<not> x))"
    using assms by (simp_all add: link_pre_def)
  have e: "unat (tx_credits d') + data_frames fs = unat (tx_credits (ends L x))"
    "unat (rx_credits d') = unat (rx_credits (ends L x)) + grants fs" "wire_data fs @ tx_buffer d' = tx_buffer (ends L x)"
    "list_all frame_ok fs" "rx_packets d' = rx_packets (ends L x)"
    using d'(2) by (simp_all add: emitted_def dlc_rest_def)
  have "link_flow L' x" "link_flow L' (\<not> x)"
    using pre(1,2) e(1,2) by (simp_all add: link_flow_def L' e(3) [symmetric])
  moreover have "link_end L' x" "link_end L' (\<not> x)"
    using pre(3,4) d'(4) by (simp_all add: link_end_def L' e(4,5))
  moreover have "end_quiet (ends L' x)" "end_quiet (ends L' (\<not> x))"
    using pre(5) d'(3,5) by (simp_all add: end_quiet_def L')
  ultimately have "link_flow L' y \<and> link_end L' y \<and> end_quiet (ends L' y)" for y
    using both_ends [of "\<lambda>y. link_flow L' y \<and> link_end L' y \<and> end_quiet (ends L' y)" x y] by simp
  then show ?thesis unfolding L'_def [symmetric] by (simp add: rf_link_inv_def put_end_def d'(1))
qed

lemma link_preI:
  assumes "link_flow L x" "link_flow L (\<not> x)" "link_end L x" "link_end L (\<not> x)" "end_quiet (ends L (\<not> x))"
  shows "link_pre x L"
  using assms both_ends [of "\<lambda>y. link_flow L y \<and> link_end L y" x] by (simp add: link_pre_def)

definition step_good :: "unit rf_result \<times> rf_link \<Rightarrow> bool" where
  "step_good o' \<longleftrightarrow> fst o' = Ok () \<and> rf_link_inv (snd o')"

lemma step_write: assumes "rf_link_inv L" shows "step_good (rf_step L (RWrite x data))"
proof -
  define L1 where "L1 = L\<lparr>written := (written L)(x := written L x @ data),
    ends := (ends L)(x := (ends L x)\<lparr>tx_buffer := tx_buffer (ends L x) @ data\<rparr>)\<rparr>"
  have "link_pre x L1"
    using rf_link_invD [OF assms, of x] rf_link_invD [OF assms, of "\<not> x"]
    by (intro link_preI) (simp_all add: L1_def link_flow_def link_end_def dlc_inv_def)
  moreover have "rf_step L (RWrite x data) = put_end x (dlc_process_tx (ends L1 x, [])) L1"
    by (simp add: L1_def dlc_write_def put_end_def)
  ultimately show ?thesis using emit_inv by (simp add: step_good_def)
qed

lemma step_pause: assumes "rf_link_inv L" shows "step_good (rf_step L (RPause x paused))"
proof -
  define L1 where "L1 = L\<lparr>ends := (ends L)(x := (ends L x)\<lparr>dlc_reading_paused := paused\<rparr>)\<rparr>"
  note inv = rf_link_invD [OF assms, of x] rf_link_invD [OF assms, of "\<not> x"]
  have pre: "link_pre x L1"
    using inv by (intro link_preI) (simp_all add: L1_def link_flow_def link_end_def dlc_inv_def)
  show ?thesis
  proof (cases paused)
    case True
    then have "end_quiet (ends L1 x)" using inv(3) by (simp add: L1_def end_quiet_def dlc_settled_def)
    then have "rf_link_inv L1"
      using pre both_ends [of "\<lambda>y. end_quiet (ends L1 y)" x] by (simp add: link_pre_def rf_link_inv_def)
    moreover have "rf_step L (RPause x paused) = (Ok (), L1)"
      using True by (simp add: L1_def put_end_def)
    ultimately show ?thesis by (simp add: step_good_def)
  next
    case False
    then have "rf_step L (RPause x paused) = put_end x (dlc_process_tx (ends L1 x, [])) L1"
      by (simp add: L1_def put_end_def)
    then show ?thesis using emit_inv [OF pre] by (simp add: step_good_def)
  qed
qed

lemma step_fetch: assumes "rf_link_inv L" shows "step_good (rf_step L (RFetch x))"
proof -
  define L1 where "L1 = snd (rf_step L (RFetch x))"
  note inv = rf_link_invD [OF assms, of x] rf_link_invD [OF assms, of "\<not> x"]
  have "link_pre x L1"
    using inv by (intro link_preI) (simp_all add: L1_def link_flow_def link_end_def dlc_inv_def)
  moreover have "end_quiet (ends L1 x)" using inv(3) by (simp add: L1_def end_quiet_def dlc_settled_def)
  ultimately have "rf_link_inv L1"
    using both_ends [of "\<lambda>y. end_quiet (ends L1 y)" x] by (simp add: link_pre_def rf_link_inv_def)
  then show ?thesis by (simp add: step_good_def L1_def)
qed

text \<open>Receiving: the credit octet goes to the receiver's transmit credits, the data costs it one credit.\<close>

lemma store_evict:
  assumes "subseq (xs @ rx_packets d) ys" "e = (0 :: nat) \<longrightarrow> xs @ rx_packets d = ys" "data \<noteq> []" "length (rx_packets d) \<le> 32"
  shows "subseq (xs @ rx_packets (dlc_store data d)) (ys @ [data])"
    and "length (rx_packets d) < 32 \<and> e = 0 \<longrightarrow> xs @ rx_packets (dlc_store data d) = ys @ [data]"
    and "length (rx_packets (dlc_store data d)) \<le> 32"
proof -
  have "subseq (xs @ tl (rx_packets d)) (xs @ rx_packets d)"
    by (cases "rx_packets d") (auto intro: list_emb_append_mono list_emb_Cons)
  then have tl: "subseq (xs @ tl (rx_packets d)) ys" using assms(1) subseq_order.trans by blast
  have "subseq ((xs @ rx_packets d) @ [data]) (ys @ [data])" "subseq ((xs @ tl (rx_packets d)) @ [data]) (ys @ [data])"
    using assms(1) tl by (simp_all only: subseq_append)
  then show "subseq (xs @ rx_packets (dlc_store data d)) (ys @ [data])"
    using assms(3) by (simp add: dlc_store_def Let_def)
  show "length (rx_packets d) < 32 \<and> e = 0 \<longrightarrow> xs @ rx_packets (dlc_store data d) = ys @ [data]"
    "length (rx_packets (dlc_store data d)) \<le> 32"
    using assms(2-4) by (auto simp: dlc_store_def Let_def RFCOMM_DEFAULT_RX_QUEUE_SIZE_def)
qed

lemma step_deliver: assumes "rf_link_inv L" shows "step_good (rf_step L (RDeliver x))"
proof (cases "wire L x")
  case Nil
  then show ?thesis using assms by (simp add: step_good_def)
next
  case (Cons f fs)
  note inv = rf_link_invD [OF assms, of x] rf_link_invD [OF assms, of "\<not> x"]
  define y where "y = (\<not> x)"
  have x: "x = (\<not> y)" by (simp add: y_def)
  define d where "d = ends L y"
  define d1 where "d1 = (if rf_p_f f then d\<lparr>tx_credits := tx_credits d + ucast (hd (rf_information f))\<rparr> else d)"
  define d2 where "d2 = dlc_store (frame_data f) d1"
  define L1 where "L1 = L\<lparr>wire := (wire L)(x := fs), ends := (ends L)(y := d2),
     accepted := (if frame_data f = [] then accepted L else (accepted L)(y := accepted L y @ [frame_data f])),
     evicted := (if frame_data f = [] \<or> length (rx_packets d) < 32 then evicted L
                 else (evicted L)(y := Suc (evicted L y)))\<rparr>"
  have ok: "frame_ok f" "list_all frame_ok fs" using inv(2) Cons by (auto simp: link_end_def)
  have flow: "unat (tx_credits (ends L x)) + data_frames (f # fs) + grants (wire L y) = unat (rx_credits d)"
    "unat (tx_credits d) + data_frames (wire L y) + grants (f # fs) = unat (rx_credits (ends L x))"
    using inv(1,4) Cons by (simp_all add: link_flow_def y_def d_def)
  have lim: "unat (rx_credits (ends L x)) \<le> 255" using inv(2) by (auto simp: link_end_def dlc_inv_def word_le_nat_alt)
  have tx: "unat (tx_credits d1) = unat (tx_credits d) + frame_grant f" "unat (tx_credits d) + frame_grant f \<le> 255"
  proof -
    have g: "unat (tx_credits d) + frame_grant f \<le> 255" using flow(2) lim by simp
    have "unat (ucast (hd (rf_information f)) :: u16) = unat (hd (rf_information f))"
      using unat_u8_less [of "hd (rf_information f)"] by (simp add: unsigned_ucast_eq take_bit_nat_eq_self)
    with g show "unat (tx_credits d1) = unat (tx_credits d) + frame_grant f"
      "unat (tx_credits d) + frame_grant f \<le> 255"
      by (auto simp: d1_def frame_grant_def unat_word_ariths split: if_splits)
  qed
  have take: "dlc_take_credits f (d, []) = (Ok (frame_data f), (d1, []))"
    using ok(1) tx(2) by (cases "rf_information f")
      (auto simp: dlc_take_credits_def d1_def frame_ok_def frame_data_def frame_grant_def)
  have "rf_step L (RDeliver x) = put_end y (dlc_process_tx (ends L1 y, [])) L1"
    using Cons take
    by (simp add: L1_def y_def d_def [unfolded y_def] d2_def dlc_on_uih_def and_then_def put_end_def Let_def)
  moreover have "link_pre y L1"
  proof (rule link_preI)
    have rx: "unat (rx_credits d2) + (if frame_data f = [] then 0 else 1) = unat (rx_credits d)"
    proof (cases "frame_data f = []")
      case True
      then show ?thesis by (simp add: d2_def dlc_store_def d1_def)
    next
      case False
      then have "0 < rx_credits d" using flow(1) by (simp add: word_less_nat_alt)
      with False show ?thesis
        by (simp add: d2_def dlc_store_def d1_def Let_def unat_minus_one unat_gt_0 word_less_nat_alt)
    qed
    have same: "tx_credits d2 = tx_credits d1" "tx_buffer d2 = tx_buffer d" "dlc_mtu d2 = dlc_mtu d"
      "rx_max_credits d2 = rx_max_credits d" "rx_credits_threshold d2 = rx_credits_threshold d"
      by (simp_all add: d2_def dlc_store_def d1_def Let_def)
    have other: "(\<not> y) = x" "(\<not> x) = y" by (simp_all add: y_def)
    have L1: "ends L1 y = d2" "ends L1 x = ends L x" "wire L1 x = fs" "wire L1 y = wire L y"
      "accepted L1 x = accepted L x" "concat (accepted L1 y) = concat (accepted L y) @ frame_data f"
      "written L1 = written L" "fetched L1 = fetched L" "evicted L1 x = evicted L x"
      by (auto simp: L1_def x)
    have old: "written L x = concat (accepted L y) @ wire_data (f # fs) @ tx_buffer (ends L x)"
      "written L y = concat (accepted L x) @ wire_data (wire L y) @ tx_buffer d"
      using inv(1,4) Cons by (simp_all add: link_flow_def y_def d_def)
    show "link_flow L1 y" using flow(2) tx(1) old(2) by (simp add: link_flow_def other L1 same)
    show "link_flow L1 (\<not> y)" using flow(1) rx old(1) by (simp add: link_flow_def other L1 same split: if_splits)
    show "link_end L1 (\<not> y)" using inv(2) ok(2) by (simp add: link_end_def other L1)
    show "end_quiet (ends L1 (\<not> y))" using inv(3) by (simp add: other L1)
    have end_y: "dlc_inv d" "list_all frame_ok (wire L y)" "length (rx_packets d) \<le> 32"
      "subseq (fetched L y @ rx_packets d) (accepted L y)" "evicted L y = 0 \<longrightarrow> fetched L y @ rx_packets d = accepted L y"
      using inv(5) by (simp_all add: link_end_def y_def d_def)
    have "dlc_inv d2" using end_y(1) rx by (auto simp: dlc_inv_def same word_le_nat_alt split: if_splits)
    moreover have "rx_packets d1 = rx_packets d" by (simp add: d1_def)
    ultimately show "link_end L1 y"
      using end_y ok(2) store_evict [of "fetched L y" d1 "accepted L y" "evicted L y" "frame_data f"]
      by (cases "frame_data f = []") (auto simp: link_end_def L1_def d2_def dlc_store_def [of "[]"])
  qed
  ultimately show ?thesis using emit_inv by (simp add: step_good_def)
qed

interpretation rf_link: machine rf_step rf_link_inv "\<lambda>r. r = Ok ()"
proof
  fix L a
  assume "rf_link_inv L"
  then have "step_good (rf_step L a)"
    by (cases a) (simp_all only: step_write step_pause step_fetch step_deliver)
  then show "rf_link_inv (snd (rf_step L a))" "fst (rf_step L a) = Ok ()" by (simp_all add: step_good_def)
qed

section \<open>Property\<close>

text \<open>Two freshly opened connections; each end may send as many frames as the other expects.\<close>

definition rf_start :: "(bool \<Rightarrow> dlc) \<Rightarrow> rf_link" where
  "rf_start ds = \<lparr>ends = ds, wire = (\<lambda>_. []), written = (\<lambda>_. []), accepted = (\<lambda>_. []), fetched = (\<lambda>_. []), evicted = (\<lambda>_. 0)\<rparr>"

definition fresh_dlc :: "dlc \<Rightarrow> bool" where
  "fresh_dlc d \<longleftrightarrow> dlc_inv d \<and> tx_buffer d = [] \<and> rx_packets d = [] \<and> 0 < rx_credits d"

lemma rf_start_inv:
  assumes "fresh_dlc (ds True)" "fresh_dlc (ds False)"
    "tx_credits (ds True) = rx_credits (ds False)" "tx_credits (ds False) = rx_credits (ds True)"
  shows "rf_link_inv (rf_start ds)"
proof -
  have "fresh_dlc (ds x) \<and> tx_credits (ds x) = rx_credits (ds (\<not> x))" for x using assms by (cases x) auto
  then show ?thesis
    by (simp add: rf_link_inv_def link_flow_def link_end_def end_quiet_def dlc_settled_def rf_start_def fresh_dlc_def)
qed

text \<open>
  Property C5: two open data link connections with matching initial credits, a frame size of at
  least 2 and a credit maximum of at most 255, driven by any interleaving of writes, deliveries,
  fetches and pauses. No call panics. The credits of a sender, its data frames in flight and the
  grants on their way to it always add up to what the receiver counts. The bytes written at an end are
  those the other end accepted, then those in flight, then those still buffered, in this order; the
  packets handed to the application are the accepted ones in order, all of them unless the receive
  queue of 32 overflowed. When nothing is in flight and the receiver is not paused, everything
  written has arrived.
\<close>

theorem rfcomm_transfer:
  assumes "fresh_dlc (ds True)" and "fresh_dlc (ds False)"
    and "tx_credits (ds True) = rx_credits (ds False)" and "tx_credits (ds False) = rx_credits (ds True)"
    and "run_machine rf_step (rf_start ds) acts = (rs, L)"
  shows "(\<forall>r \<in> set rs. r = Ok ()) \<and>
    (\<forall>x. unat (tx_credits (ends L x)) + data_frames (wire L x) + grants (wire L (\<not> x)) =
           unat (rx_credits (ends L (\<not> x))) \<and>
         rx_credits (ends L x) \<le> rx_max_credits (ends L x) \<and>
         written L x = concat (accepted L (\<not> x)) @ wire_data (wire L x) @ tx_buffer (ends L x) \<and>
         subseq (fetched L x @ rx_packets (ends L x)) (accepted L x) \<and>
         (evicted L x = 0 \<longrightarrow> fetched L x @ rx_packets (ends L x) = accepted L x) \<and>
         (wire L x = [] \<and> wire L (\<not> x) = [] \<and> \<not> dlc_reading_paused (ends L (\<not> x)) \<longrightarrow>
            written L x = concat (accepted L (\<not> x))))"
proof -
  have start: "rf_link_inv (rf_start ds)" by (rule rf_start_inv [OF assms(1-4)])
  have "\<forall>r \<in> set rs. r = Ok ()" using rf_link.run_good [OF start, of _ acts] assms(5) by simp
  moreover have inv: "rf_link_inv L" using rf_link.run_inv [OF start, of acts] assms(5) by simp
  have "written L x = concat (accepted L (\<not> x))"
    if "wire L x = []" "wire L (\<not> x) = []" "\<not> dlc_reading_paused (ends L (\<not> x))" for x
  proof -
    have "0 < rx_credits (ends L (\<not> x))" using rf_link_invD(3) [OF inv, of "\<not> x"] that(3) by (simp add: end_quiet_def)
    then have "tx_credits (ends L x) \<noteq> 0"
      using rf_link_invD(1) [OF inv, of x] that by (auto simp: link_flow_def word_less_nat_alt)
    then have "tx_buffer (ends L x) = []" using rf_link_invD(3) [OF inv, of x] by (simp add: end_quiet_def dlc_settled_def)
    then show ?thesis using rf_link_invD(1) [OF inv, of x] that by (simp add: link_flow_def)
  qed
  ultimately show ?thesis
    using rf_link_invD(1,2) [OF inv] by (simp add: link_flow_def link_end_def dlc_inv_def)
qed

theorem rfcomm_transfer_witness:
  "\<exists>rs L. run_machine rf_step
       (rf_start (\<lambda>x. dlc_new (if x then Initiator else Responder) 4 100 7 7 1000))
       [RWrite True [1, 2, 3], RDeliver True, RWrite False [9], RDeliver False, RFetch False] = (rs, L) \<and>
     (\<forall>r \<in> set rs. r = Ok ()) \<and> written L True = concat (accepted L False) @ wire_data (wire L True) @ tx_buffer (ends L True)"
proof -
  let ?ds = "\<lambda>x. dlc_new (if x then Initiator else Responder) 4 100 7 7 1000"
  have fresh: "fresh_dlc (dlc_new role 4 100 7 7 1000)" for role
    by (simp add: fresh_dlc_def dlc_inv_def dlc_new_def rfcomm_consts)
  obtain rs L where run: "run_machine rf_step (rf_start ?ds)
      [RWrite True [1, 2, 3], RDeliver True, RWrite False [9], RDeliver False, RFetch False] = (rs, L)" by (metis surj_pair)
  have "tx_credits (?ds x) = rx_credits (?ds y)" for x y by (simp add: dlc_new_def)
  then have claim: "(\<forall>r \<in> set rs. r = Ok ()) \<and> (\<forall>x. written L x = concat (accepted L (\<not> x)) @ wire_data (wire L x) @ tx_buffer (ends L x))"
    using rfcomm_transfer [of ?ds, OF _ _ _ _ run] fresh by blast
  then have "written L True = concat (accepted L False) @ wire_data (wire L True) @ tx_buffer (ends L True)"
    using spec [OF conjunct2 [OF claim], of True] by simp
  with claim run show ?thesis by blast
qed

end
