(* ===== verification/Rfcomm_Session.thy ===== *)
theory Rfcomm_Session
  imports Rfcomm_Link
begin

text \<open>
  Two RFCOMM sessions of \<open>bumble-rfcomm/src/mux.rs\<close> whose frames are relayed as bytes: the open
  handshake of the session and of a data link connection, the parameters the two ends come to hold,
  and what happens when the initial credits do not fit the three bits of the negotiation message.
\<close>

section \<open>Relaying frames\<close>

definition wire_frame :: "rfcomm_frame \<Rightarrow> rfcomm_frame rf_result" where
  "wire_frame f = bind_result (rf_to_bytes f) rf_from_bytes"

fun feed_frames :: "outbox \<Rightarrow> unit mx_op" where
  "feed_frames [] m = (Ok (), m)"
| "feed_frames (f # fs) m = and_then (lift_result (wire_frame f)) (\<lambda>g. and_then (mx_on_pdu g) (\<lambda>_. feed_frames fs)) m"

text \<open>One round: what \<open>a\<close> has queued goes to \<open>b\<close>, then what \<open>b\<close> has queued goes to \<open>a\<close>.\<close>

definition relay_round :: "(multiplexer \<times> multiplexer, unit, rfcomm_error) op" where
  "relay_round = (\<lambda>(a, b).
     let (fs, a1) = mx_drain_outgoing a; (r, b1) = feed_frames fs b; (gs, b2) = mx_drain_outgoing b1
     in case r of
          Ok _ \<Rightarrow> (let (r2, a2) = feed_frames gs a1 in (r2, (a2, b2)))
        | e \<Rightarrow> (e, (a1, b1)))"

fun relay_rounds :: "nat \<Rightarrow> (multiplexer \<times> multiplexer, unit, rfcomm_error) op" where
  "relay_rounds 0 s = (Ok (), s)"
| "relay_rounds (Suc n) s = and_then relay_round (\<lambda>_. relay_rounds n) s"

definition at_first :: "'a mx_op \<Rightarrow> (multiplexer \<times> multiplexer, 'a, rfcomm_error) op" where
  "at_first f = (\<lambda>(a, b). let (r, a') = f a in (r, (a', b)))"

text \<open>The initiator connects the session, then opens a channel the responder listens on.\<close>

definition session_connected :: "u16 \<Rightarrow> multiplexer \<Rightarrow> unit rf_result \<times> multiplexer \<times> multiplexer" where
  "session_connected mtu b = and_then (at_first mx_connect) (\<lambda>_. relay_rounds 1) (mx_new Initiator mtu, b)"

definition session_opened ::
  "u8 \<Rightarrow> u16 \<Rightarrow> u16 \<Rightarrow> multiplexer \<times> multiplexer \<Rightarrow> unit rf_result \<times> multiplexer \<times> multiplexer" where
  "session_opened channel frame_size credits =
     and_then (at_first (mx_open_dlc channel frame_size credits)) (\<lambda>_. relay_rounds 3)"

section \<open>Frames on the wire\<close>

lemma wire_frame_ok: "rf_wf f \<Longrightarrow> \<not> rf_with_credits f \<Longrightarrow> wire_frame f = Ok f"
  using rf_dec_enc [of f] by (cases f) (auto simp: wire_frame_def)

lemma wire_control [simp]:
  assumes "unat dlci < 64"
  shows "wire_frame (rf_sabm c dlci) = Ok (rf_sabm c dlci)" "wire_frame (rf_ua c dlci) = Ok (rf_ua c dlci)"
    "wire_frame (rf_dm c dlci) = Ok (rf_dm c dlci)" "wire_frame (rf_disc c dlci) = Ok (rf_disc c dlci)"
    "wire_frame (rf_uih c dlci data False) = Ok (rf_uih c dlci data False)"
  using assms by (simp_all add: wire_frame_ok rf_wf_def rf_sabm_def rf_ua_def rf_dm_def rf_disc_def
      rf_control_frame_def rf_uih_def)

lemma control_frame_fields [simp]:
  "rf_type (rf_sabm c d) = Sabm" "rf_dlci (rf_sabm c d) = d" "rf_type (rf_ua c d) = Ua" "rf_dlci (rf_ua c d) = d"
  "rf_type (rf_dm c d) = Dm" "rf_dlci (rf_dm c d) = d"
  "rf_type (rf_uih c d i p) = Uih" "rf_dlci (rf_uih c d i p) = d" "rf_information (rf_uih c d i p) = i"
  "rf_p_f (rf_uih c d i p) = p"
  by (simp_all add: rf_sabm_def rf_ua_def rf_dm_def rf_control_frame_def rf_uih_def)

text \<open>The simplifier's form of \<open>push_bit 1 channel\<close>.\<close>

lemma channel_dlci:
  assumes "unat (channel :: u8) < 32"
  shows "unat (channel * 2) = 2 * unat channel" "unat (channel * 2) < 64"
    "drop_bit (Suc 0) (channel * 2) = channel" "(channel * 2) AND 1 = 0"
    "channel \<noteq> 0 \<Longrightarrow> channel * 2 \<noteq> 0"
proof -
  show n: "unat (channel * 2) = 2 * unat channel"
    using assms by (simp add: unat_word_ariths)
  then show "unat (channel * 2) < 64" using assms by simp
  have "channel * 2 = push_bit 1 channel" by (simp only: push_bit_eq_mult) simp
  then show "(channel * 2) AND 1 = 0" by (simp only: u8_and_1 bit_push_bit_iff) simp
  have half: "channel * 2 div 2 = channel"
    using n by (simp only: word_unat_eq_iff unat_div) simp
  then show "drop_bit (Suc 0) (channel * 2) = channel" by (simp add: drop_bit_Suc)
  show "channel \<noteq> 0 \<Longrightarrow> channel * 2 \<noteq> 0"
    using n by (auto simp: word_unat_eq_iff)
qed

section \<open>The handshake\<close>

lemma session_connect:
  "session_connected mtu (mx_listen channel fsz credits (mx_new Responder mtu')) =
     (Ok (), (mx_new Initiator mtu)\<lparr>mx_state := MConnected\<rparr>,
      (mx_listen channel fsz credits (mx_new Responder mtu'))\<lparr>mx_state := MConnected\<rparr>)"
  by (simp add: session_connected_def at_first_def mx_connect_def mx_new_def mx_send_def mx_listen_def
      relay_round_def mx_drain_outgoing_def mx_on_pdu_def mx_on_control_frame_def and_then_simps
      and_then_def lift_result_def)

text \<open>The state of the two ends of an open connection.\<close>

definition opened_dlc :: "rf_role \<Rightarrow> u8 \<Rightarrow> u16 \<Rightarrow> u8 \<Rightarrow> u16 \<Rightarrow> u16 \<Rightarrow> dlc" where
  "opened_dlc role dlci fsz peer_credits credits mtu =
     (dlc_new role dlci fsz (ucast (peer_credits AND 7)) credits mtu)\<lparr>dlc_state_of := DConnected\<rparr>"

definition peers_opened :: "u8 \<Rightarrow> u16 \<Rightarrow> u16 \<Rightarrow> u16 \<Rightarrow> u16 \<Rightarrow> u16 \<Rightarrow> u16 \<Rightarrow> multiplexer \<times> multiplexer" where
  "peers_opened channel fa ca fb cb mtu mtu' =
     (let dlci = push_bit 1 channel
      in ((mx_new Initiator mtu)\<lparr>mx_state := MConnected, mx_opened := [dlci],
            mx_dlcs := [(dlci, opened_dlc Initiator dlci fb (ucast cb) (ucast (ucast ca :: u8)) mtu)]\<rparr>,
          (mx_listen channel fb cb (mx_new Responder mtu'))\<lparr>mx_state := MConnected, mx_opened := [dlci],
            mx_dlcs := [(dlci, opened_dlc Responder dlci fa (ucast ca) cb mtu')]\<rparr>))"

lemmas mx_defs = mx_new_def mx_send_def mx_listen_def mx_drain_outgoing_def mx_on_pdu_def mx_on_control_frame_def
  mx_on_uih_control_def mx_on_mcc_pn_def mx_insert_dlc_def mx_apply_upcall_def on_dlc_def

lemmas dlc_defs = dlc_new_def dlc_accept_def dlc_connect_def dlc_on_frame_def dlc_on_sabm_def dlc_on_ua_def
  send_msc_command_def dlc_on_mcc_msc_def dlc_msc_def

lemma bt_one [simp]: "bt_get [(k, v)] k = Some v" "bt_insert k w [(k, v)] = [(k, w)]" "bt_insert k v [] = [(k, v)]"
  by (simp_all add: bt_get_def)

lemma session_open:
  assumes "0 < channel" "unat channel < 32"
  shows "session_opened channel fa ca
       ((mx_new Initiator mtu)\<lparr>mx_state := MConnected\<rparr>, (mx_listen channel fb cb (mx_new Responder mtu'))\<lparr>mx_state := MConnected\<rparr>) =
     (Ok (), peers_opened channel fa ca fb cb mtu mtu')"
proof -
  have pn: "pn_from_bytes (pn_to_bytes p) = Ok (p\<lparr>pn_initial_credits := pn_initial_credits p AND 7\<rparr>)" for p
    using pn_dec_enc [of p "[]"] by simp
  have msc: "msc_from_bytes (msc_to_bytes s) = Ok s" if "unat (msc_dlci s) < 64" for s
    using msc_dec_enc [OF that, of "[]"] by simp
  note d = channel_dlci [OF assms(2)]
  have nz: "channel * 2 \<noteq> 0" using assms(1) d(5) by auto
  have n3: "relay_rounds 3 s = and_then relay_round (\<lambda>_. and_then relay_round (\<lambda>_. relay_round)) s" for s
    by (simp add: eval_nat_numeral and_then_def split: prod.splits rresult.splits)
  show ?thesis
    unfolding session_opened_def n3
    by (simp add: at_first_def mx_open_dlc_def relay_round_def mx_defs dlc_defs
      and_then_def lift_result_def pn msc d assms(2) nz mcc_dec_enc peers_opened_def opened_dlc_def Let_def)
qed

section \<open>A connection that starts without credits\<close>

text \<open>End \<open>True\<close> has no transmit credits and end \<open>False\<close> believes it has granted enough.\<close>

definition stalled :: "rf_link \<Rightarrow> bool" where
  "stalled L \<longleftrightarrow> tx_credits (ends L True) = 0 \<and> rx_credits_threshold (ends L False) < rx_credits (ends L False) \<and>
     1 \<le> dlc_mtu (ends L False) \<and> grants (wire L False) = 0 \<and> wire_data (wire L True) = [] \<and>
     accepted L False = []"

lemma process_tx_no_credits:
  assumes "tx_credits d = 0" "dlc_process_tx (d, []) = (r, (d', fs))"
  shows "tx_credits d' = 0 \<and> wire_data fs = []"
proof (cases "rx_credits_needed d")
  case (Ok needed)
  have idle: "\<not> sending (d\<lparr>rx_credits := c\<rparr>)" "\<not> sending d" for c using assms(1) by (simp_all add: sending_def)
  show ?thesis
  proof (cases "needed = 0")
    case True
    then show ?thesis
      using assms Ok dlc_tx_loop_idle [OF idle(2)] by (auto simp: dlc_process_tx_def and_then_def lift_result_def)
  next
    case False
    then show ?thesis
      using assms Ok dlc_tx_loop_grant [OF idle(2)] dlc_tx_loop_idle [OF idle(1)]
      by (auto simp: dlc_process_tx_def and_then_def lift_result_def word_gt_0)
  qed
qed (use assms in \<open>auto simp: dlc_process_tx_def and_then_def lift_result_def\<close>)

lemma process_tx_no_grant:
  assumes "rx_credits_threshold d < rx_credits d" "1 \<le> dlc_mtu d" "dlc_process_tx (d, []) = (r, (d', fs))"
  shows "rx_credits_threshold d' < rx_credits d' \<and> 1 \<le> dlc_mtu d' \<and> grants fs = 0"
proof -
  have "dlc_process_tx (d, []) = dlc_tx_loop 0 (d, [])"
    using assms(1) by (auto simp: dlc_process_tx_def rx_credits_needed_def and_then_def lift_result_def)
  with dlc_tx_loop_emits_0 [OF assms(2), of "[]"] assms(3) have "emitted d fs d'" "grants fs = 0" by auto
  then show ?thesis using assms(1,2) by (auto simp: emitted_def dlc_rest_def word_less_nat_alt)
qed

lemma stalled_deliver_True:
  assumes "stalled L" shows "stalled (snd (rf_step L (RDeliver True)))"
proof (cases "wire L True")
  case (Cons f fs)
  then have data: "frame_data f = []" using assms by (simp add: stalled_def)
  obtain r d1 box where take: "dlc_take_credits f (ends L False, []) = (r, (d1, box))" by (metis prod.exhaust)
  have d1: "box = []" "rx_credits d1 = rx_credits (ends L False)" "dlc_mtu d1 = dlc_mtu (ends L False)"
    "rx_credits_threshold d1 = rx_credits_threshold (ends L False)" "\<And>x. r = Ok x \<Longrightarrow> x = []"
    using take data by (auto simp: dlc_take_credits_def frame_data_def split: if_splits list.splits)
  obtain r' d' box' where up: "dlc_on_uih f (ends L False, []) = (r', (d', box'))" by (metis prod.exhaust)
  have "rx_credits_threshold d' < rx_credits d' \<and> 1 \<le> dlc_mtu d' \<and> grants box' = 0"
  proof (cases r)
    case (Ok x)
    then have "dlc_process_tx (d1, []) = (r', (d', box'))"
      using up take d1(1,5) by (simp add: dlc_on_uih_def and_then_def dlc_store_def)
    then show ?thesis using process_tx_no_grant [of d1] d1 assms by (simp add: stalled_def)
  qed (use up take d1 assms in \<open>simp_all add: dlc_on_uih_def and_then_def stalled_def\<close>)
  with Cons up data assms show ?thesis by (auto simp: stalled_def put_end_def)
qed (use assms in simp)

lemma stalled_deliver_False:
  assumes "stalled L" shows "stalled (snd (rf_step L (RDeliver False)))"
proof (cases "wire L False")
  case (Cons f fs)
  then have g: "frame_grant f = 0" using assms by (simp add: stalled_def)
  obtain r d1 box where take: "dlc_take_credits f (ends L True, []) = (r, (d1, box))" by (metis prod.exhaust)
  have d1: "box = []" "tx_credits d1 = 0"
    using take g assms by (auto simp: dlc_take_credits_def frame_grant_def stalled_def unat_eq_0 split: if_splits list.splits)
  obtain r' d' box' where up: "dlc_on_uih f (ends L True, []) = (r', (d', box'))" by (metis prod.exhaust)
  have "tx_credits d' = 0 \<and> wire_data box' = []"
  proof (cases r)
    case (Ok x)
    then have "dlc_process_tx (dlc_store x d1, []) = (r', (d', box'))"
      using up take d1(1) by (simp add: dlc_on_uih_def and_then_def)
    then show ?thesis using process_tx_no_credits [of "dlc_store x d1"] d1 by (simp add: dlc_store_def Let_def)
  qed (use up take d1 assms in \<open>simp_all add: dlc_on_uih_def and_then_def\<close>)
  with Cons up assms show ?thesis by (simp add: stalled_def put_end_def Let_def)
qed (use assms in simp)

lemma stalled_process:
  assumes "stalled L" "tx_credits d = tx_credits (ends L x)" "rx_credits d = rx_credits (ends L x)"
    "rx_credits_threshold d = rx_credits_threshold (ends L x)" "dlc_mtu d = dlc_mtu (ends L x)"
  shows "stalled (snd (put_end x (dlc_process_tx (d, [])) L))"
proof -
  obtain r d' fs where up: "dlc_process_tx (d, []) = (r, (d', fs))" by (metis prod.exhaust)
  show ?thesis
    using process_tx_no_credits [OF _ up] process_tx_no_grant [OF _ _ up] assms
    by (cases x) (auto simp: stalled_def put_end_def up)
qed

lemma stalled_step: assumes "stalled L" shows "stalled (snd (rf_step L a))"
proof (cases a)
  case (RWrite x data)
  have "stalled (L\<lparr>written := w\<rparr>)" for w using assms by (simp add: stalled_def)
  from stalled_process [OF this, of "(ends L x)\<lparr>tx_buffer := tx_buffer (ends L x) @ data\<rparr>" _ x] RWrite
  show ?thesis by (simp add: dlc_write_def)
next
  case (RDeliver x)
  then show ?thesis using stalled_deliver_True [OF assms] stalled_deliver_False [OF assms] by (cases x) simp_all
next
  case (RFetch x)
  then show ?thesis using assms by (auto simp: stalled_def)
next
  case (RPause x paused)
  then show ?thesis
    using stalled_process [OF assms, of "(ends L x)\<lparr>dlc_reading_paused := paused\<rparr>" x] assms
    by (cases paused) (auto simp: stalled_def put_end_def)
qed

interpretation rf_stall: machine rf_step stalled "\<lambda>_. True"
  by unfold_locales (simp_all add: stalled_step)

section \<open>Properties\<close>

text \<open>
  Property C14: an initiator that connects the session and opens a channel 1 to 31 its peer listens
  on. One relay round connects both sessions; three more open the connection on both sides, without an
  error, leaving nothing queued. Each end may send the low three bits of the credits the other asked
  for. When both asked for 1 to 7 credits and the frame sizes leave room for a credit octet
  and data, the two connections meet the conditions of the transfer theorem.
\<close>

theorem rfcomm_session_opens:
  assumes "0 < channel" and "unat channel < 32"
  shows "\<exists>s a b da db dlci. session_connected mtu (mx_listen channel fb cb (mx_new Responder mtu')) = (Ok (), s) \<and>
    mx_state (fst s) = MConnected \<and> mx_state (snd s) = MConnected \<and>
    session_opened channel fa ca s = (Ok (), (a, b)) \<and> dlci = push_bit 1 channel \<and>
    mx_state a = MConnected \<and> mx_state b = MConnected \<and> mx_outbox a = [] \<and> mx_outbox b = [] \<and>
    mx_opened a = [dlci] \<and> mx_opened b = [dlci] \<and>
    mx_dlc_state a dlci = Some DConnected \<and> mx_dlc_state b dlci = Some DConnected \<and>
    bt_get (mx_dlcs a) dlci = Some da \<and> bt_get (mx_dlcs b) dlci = Some db \<and>
    tx_credits da = ucast (ucast cb AND 7 :: u8) \<and> rx_credits db = cb \<and>
    tx_credits db = ucast (ucast ca AND 7 :: u8) \<and> rx_credits da = ucast (ucast ca :: u8) \<and>
    dlc_mtu da = min (unat fb) (unat mtu - 5) \<and> dlc_mtu db = min (unat fa) (unat mtu' - 5) \<and>
    (ca \<in> {1..7} \<and> cb \<in> {1..7} \<and> 2 \<le> dlc_mtu da \<and> 2 \<le> dlc_mtu db \<longrightarrow>
       fresh_dlc da \<and> fresh_dlc db \<and> tx_credits da = rx_credits db \<and> tx_credits db = rx_credits da)"
proof -
  have small: "ucast (ucast c AND 7 :: u8) = c" "ucast (ucast c :: u8) = c" if "c \<in> {1..7}" for c :: u16
  proof -
    have "unat c \<le> 7" using that by (simp add: word_le_nat_alt)
    then have c: "unat (ucast c :: u8) = unat c" by (simp add: unsigned_ucast_eq take_bit_nat_eq_self)
    have "(ucast c :: u8) AND 7 = take_bit 3 (ucast c)" by (simp add: take_bit_eq_mask mask_eq_exp_minus_1)
    also have "\<dots> = ucast c" using c \<open>unat c \<le> 7\<close> by (simp add: word_unat_eq_iff unsigned_take_bit_eq take_bit_nat_eq_self)
    finally have and7: "(ucast c :: u8) AND 7 = ucast c" .
    have "unat (ucast (ucast c :: u8) :: u16) = unat (ucast c :: u8)"
      using unat_u8_less [of "ucast c"] unfolding unsigned_ucast_eq [of "ucast c :: u8"] by (simp add: take_bit_nat_eq_self)
    with c show "ucast (ucast c :: u8) = c" by (simp only: word_unat_eq_iff)
    then show "ucast (ucast c AND 7 :: u8) = c" by (simp only: and7)
  qed
  have le: "c \<le> 32" "0 < c" if "c \<in> {1..7}" for c :: u16
    using that by (simp_all add: word_le_nat_alt word_less_nat_alt)
  define dlci where "dlci = (push_bit 1 channel :: u8)"
  define da db where "da = opened_dlc Initiator dlci fb (ucast cb) (ucast (ucast ca :: u8)) mtu"
    and "db = opened_dlc Responder dlci fa (ucast ca) cb mtu'"
  obtain a b where ab: "peers_opened channel fa ca fb cb mtu mtu' = (a, b)" by (metis surj_pair)
  then have peers: "mx_state a = MConnected" "mx_state b = MConnected" "mx_outbox a = []" "mx_outbox b = []"
    "mx_opened a = [dlci]" "mx_opened b = [dlci]" "bt_get (mx_dlcs a) dlci = Some da" "bt_get (mx_dlcs b) dlci = Some db"
    by (auto simp: peers_opened_def Let_def mx_new_def mx_listen_def dlci_def da_def db_def simp del: push_bit_Suc One_nat_def)
  have dlcs: "dlc_state_of da = DConnected" "dlc_state_of db = DConnected"
    "tx_credits da = ucast (ucast cb AND 7 :: u8)" "rx_credits db = cb"
    "tx_credits db = ucast (ucast ca AND 7 :: u8)" "rx_credits da = ucast (ucast ca :: u8)"
    "dlc_mtu da = min (unat fb) (unat mtu - 5)" "dlc_mtu db = min (unat fa) (unat mtu' - 5)"
    by (simp_all add: da_def db_def opened_dlc_def dlc_new_def FRAME_OVERHEAD_def)
  have "fresh_dlc da \<and> fresh_dlc db \<and> tx_credits da = rx_credits db \<and> tx_credits db = rx_credits da"
    if "ca \<in> {1..7} \<and> cb \<in> {1..7} \<and> 2 \<le> dlc_mtu da \<and> 2 \<le> dlc_mtu db"
  proof -
    have c: "rx_credits da = ca" "rx_credits db = cb" "tx_credits da = cb" "tx_credits db = ca"
      using that small [of ca] small [of cb] dlcs(3-6) by auto
    have "rx_max_credits da = 32" "rx_max_credits db = 32" "rx_credits_threshold da = 16" "rx_credits_threshold db = 16"
      "tx_buffer da = []" "tx_buffer db = []" "rx_packets da = []" "rx_packets db = []"
      by (simp_all add: da_def db_def opened_dlc_def dlc_new_def rfcomm_consts)
    with c that le [of ca] le [of cb] show ?thesis by (simp add: fresh_dlc_def dlc_inv_def)
  qed
  with session_connect [of mtu channel fb cb mtu'] session_open [OF assms, of fa ca mtu fb cb mtu'] peers dlcs show ?thesis
    unfolding ab mx_dlc_state_def dlci_def [symmetric]
    by (intro exI [of _ "(_, _)"] exI [of _ a] exI [of _ b] exI [of _ da] exI [of _ db] exI [of _ dlci]) auto
qed

theorem rfcomm_session_opens_witness:
  "\<exists>s r. session_connected 1000 (mx_listen 3 200 5 (mx_new Responder 1000)) = (Ok (), s) \<and>
     session_opened 3 100 7 s = (Ok (), r)"
  using rfcomm_session_opens [of 3 1000 200 5 1000 100 7] by (simp; blast)

text \<open>
  Property C39: a responder that listens with initial credits above the threshold of 16 and a
  multiple of 8 keeps them all as granted, while the negotiation message tells the initiator 0. From
  there on, whatever is written, delivered, fetched or paused, the initiator never sends a data byte and the
  responder never receives one.
\<close>

theorem rfcomm_initial_credits_stall:
  assumes "ds True = opened_dlc Initiator dlci fb (ucast cb) ca mtu"
    and "ds False = opened_dlc Responder dlci fa cp cb mtu'"
    and "(ucast cb :: u8) AND 7 = 0" and "16 < cb" and "1 \<le> unat fa" and "6 \<le> unat mtu'"
    and "run_machine rf_step (rf_start ds) acts = (rs, L)"
  shows "accepted L False = [] \<and> wire_data (wire L True) = [] \<and> tx_credits (ends L True) = 0"
proof -
  have "stalled (rf_start ds)"
    using assms(1-6) by (simp add: stalled_def rf_start_def opened_dlc_def dlc_new_def rfcomm_consts)
  then have "stalled L" using rf_stall.run_inv [of "rf_start ds" acts] assms(7) by simp
  then show ?thesis by (simp add: stalled_def)
qed

theorem rfcomm_initial_credits_stall_witness:
  "\<exists>rs L. run_machine rf_step
       (rf_start (\<lambda>x. if x then opened_dlc Initiator 4 100 24 7 1000 else opened_dlc Responder 4 100 7 24 1000))
       [RWrite True [1, 2, 3], RDeliver True, RDeliver False, RDeliver True] = (rs, L) \<and> accepted L False = []"
proof -
  obtain rs L where run: "run_machine rf_step
       (rf_start (\<lambda>x. if x then opened_dlc Initiator 4 100 24 7 1000 else opened_dlc Responder 4 100 7 24 1000))
       [RWrite True [1, 2, 3], RDeliver True, RDeliver False, RDeliver True] = (rs, L)" by (metis surj_pair)
  from rfcomm_initial_credits_stall [OF _ _ _ _ _ _ run, of 4 100 24 7 1000 100 7 1000] run show ?thesis by auto
qed

text \<open>
  Property C40: a frame of four bytes, a credit-bearing UIH frame without its credit octet, passes the
  parser and the frame check, and makes the session that owns the connection panic.
\<close>

theorem rfcomm_credit_frame_panic:
  assumes "bt_get (mx_dlcs m) dlci = Some d" and "0 < dlci" and "unat dlci < 64"
  shows "\<exists>b f. length b = 4 \<and> rf_from_bytes b = Ok f \<and> fst (mx_on_pdu f m) = Panic ''index out of bounds''"
proof -
  define f where "f = \<lparr>rf_type = Uih, rf_c_r = True, rf_dlci = dlci, rf_p_f = True, rf_information = [], rf_with_credits = False\<rparr>"
  have "rf_wf f" using assms(3) by (simp add: f_def rf_wf_def)
  then obtain b where b: "rf_to_bytes f = Ok b" "rf_from_bytes b = Ok f" using rf_dec_enc [of f] by (auto simp: f_def)
  have "length b = 4" using b(1) by (auto simp: rf_to_bytes_def length_field_def rf_fcs_def f_def)
  moreover have "fst (mx_on_pdu f m) = Panic ''index out of bounds''"
    using assms(1,2) by (simp add: mx_on_pdu_def on_dlc_def dlc_on_frame_def dlc_on_uih_def dlc_take_credits_def
        and_then_def f_def)
  ultimately show ?thesis using b(2) by blast
qed

theorem rfcomm_credit_frame_panic_witness:
  "\<exists>b f. length b = 4 \<and> rf_from_bytes b = Ok f \<and>
     fst (mx_on_pdu f ((mx_new Responder 1000)\<lparr>mx_dlcs := [(4, dlc_new Responder 4 100 7 7 1000)]\<rparr>)) =
       Panic ''index out of bounds''"
  by (rule rfcomm_credit_frame_panic [of _ 4 "dlc_new Responder 4 100 7 7 1000"]) simp_all

end
