(* ===== verification/Rfcomm_L2cap.thy ===== *)
theory Rfcomm_L2cap
  imports Rfcomm_Session Classic
begin

text \<open>
  The binding of \<open>bumble-rfcomm/src/l2cap.rs\<close>: an RFCOMM multiplexer attached to a classic L2CAP
  channel. Its operations take the channel manager as a mutable argument, so their state is the
  pair of the binding and the manager.
\<close>

section \<open>The binding\<close>

datatype binding_error = BL2cap rust_error | BRfcomm rfcomm_error | ChannelNotOpen u16

text \<open>The two \<open>From\<close> conversions the operator \<open>?\<close> applies.\<close>

fun map_err :: "('e \<Rightarrow> 'f) \<Rightarrow> ('a, 'e) rresult \<Rightarrow> ('a, 'f) rresult" where
  "map_err f (Ok x) = Ok x"
| "map_err f (Err e) = Err (f e)"
| "map_err f (Panic p) = Panic p"

record l2cap_multiplexer =
  lx_source_cid :: u16
  lx_multiplexer :: multiplexer

type_synonym 'a lx_op = "(l2cap_multiplexer \<times> channel_manager, 'a, binding_error) op"

definition lx_new :: "rf_role \<Rightarrow> u16 \<Rightarrow> channel_manager \<Rightarrow> (l2cap_multiplexer, binding_error) rresult" where
  "lx_new role c cm =
     (case bt_get (cm_channels cm) c of
        None \<Rightarrow> Err (ChannelNotOpen c)
      | Some ch \<Rightarrow>
          if cc_state ch \<noteq> COpen then Err (ChannelNotOpen c)
          else Ok \<lparr>lx_source_cid = c, lx_multiplexer = mx_new role (cc_peer_mtu ch)\<rparr>)"

definition on_multiplexer :: "'a mx_op \<Rightarrow> 'a lx_op" where
  "on_multiplexer f = (\<lambda>(l, cm).
     let (r, m) = f (lx_multiplexer l) in (map_err BRfcomm r, (l\<lparr>lx_multiplexer := m\<rparr>, cm)))"

fun send_frames :: "u16 \<Rightarrow> outbox \<Rightarrow> (channel_manager, unit, binding_error) op" where
  "send_frames c [] cm = (Ok (), cm)"
| "send_frames c (f # fs) cm =
     and_then (lift_result (map_err BRfcomm (rf_to_bytes f))) (\<lambda>b.
     and_then (\<lambda>cm. let (r, cm') = cm_send c b cm in (map_err BL2cap r, cm')) (\<lambda>_. send_frames c fs)) cm"

definition lx_flush :: "nat lx_op" where
  "lx_flush = (\<lambda>(l, cm).
     let (frames, m) = mx_drain_outgoing (lx_multiplexer l); (r, cm') = send_frames (lx_source_cid l) frames cm
     in (bind_result r (\<lambda>_. Ok (length frames)), (l\<lparr>lx_multiplexer := m\<rparr>, cm')))"

definition lx_connect :: "unit lx_op" where
  "lx_connect = and_then (on_multiplexer mx_connect) (\<lambda>_. and_then lx_flush (\<lambda>_ s. (Ok (), s)))"

definition lx_open_dlc :: "u8 \<Rightarrow> u16 \<Rightarrow> u16 \<Rightarrow> unit lx_op" where
  "lx_open_dlc channel max_frame_size initial_credits =
     and_then (on_multiplexer (mx_open_dlc channel max_frame_size initial_credits))
       (\<lambda>_. and_then lx_flush (\<lambda>_ s. (Ok (), s)))"

definition lx_write :: "u8 \<Rightarrow> bytes \<Rightarrow> unit lx_op" where
  "lx_write dlci data = and_then (on_multiplexer (mx_write dlci data)) (\<lambda>_. and_then lx_flush (\<lambda>_ s. (Ok (), s)))"

definition lx_disconnect :: "unit lx_op" where
  "lx_disconnect = and_then (on_multiplexer mx_disconnect) (\<lambda>_. and_then lx_flush (\<lambda>_ s. (Ok (), s)))"

text \<open>
  The loop of \<open>poll\<close> pops one received SDU of the channel per turn, so it ends with the queue.
\<close>

definition lx_pop :: "bytes option lx_op" where
  "lx_pop = (\<lambda>(l, cm).
     case bt_get (cm_channels cm) (lx_source_cid l) of
       None \<Rightarrow> (Err (ChannelNotOpen (lx_source_cid l)), (l, cm))
     | Some ch \<Rightarrow> let (sdu, ch') = classic_pop_received ch in (Ok sdu, (l, put_channel (lx_source_cid l) ch' cm)))"

definition lx_queue_length :: "l2cap_multiplexer \<times> channel_manager \<Rightarrow> nat" where
  "lx_queue_length s =
     (case bt_get (cm_channels (snd s)) (lx_source_cid (fst s)) of None \<Rightarrow> 0 | Some ch \<Rightarrow> length (cc_received ch))"

declare bt_get_insert_same [simp]

lemma lx_pop_shorter: "lx_pop s = (Ok (Some sdu), s') \<Longrightarrow> lx_queue_length s' < lx_queue_length s"
  by (auto simp: lx_pop_def lx_queue_length_def classic_pop_received_def put_channel_def bt_get_insert
      split: prod.splits option.splits list.splits)

lemma on_multiplexer_queue: "lx_queue_length (snd (on_multiplexer f s)) = lx_queue_length s"
  by (auto simp: on_multiplexer_def lx_queue_length_def split: prod.splits)

function lx_poll_loop :: "nat \<Rightarrow> nat lx_op" where
  "lx_poll_loop processed s =
     (case lx_pop s of
        (Ok (Some sdu), s1) \<Rightarrow>
          (case map_err BRfcomm (rf_from_bytes sdu) of
             Ok frame \<Rightarrow>
               (case on_multiplexer (mx_on_pdu frame) s1 of
                  (Ok u, s2) \<Rightarrow> lx_poll_loop (processed + 1) s2
                | (Err e, s2) \<Rightarrow> (Err e, s2)
                | (Panic p, s2) \<Rightarrow> (Panic p, s2))
           | Err e \<Rightarrow> (Err e, s1)
           | Panic p \<Rightarrow> (Panic p, s1))
      | (Ok None, s1) \<Rightarrow> (Ok processed, s1)
      | (Err e, s1) \<Rightarrow> (Err e, s1)
      | (Panic p, s1) \<Rightarrow> (Panic p, s1))"
  by pat_completeness auto
termination
proof (relation "measure (\<lambda>(processed, s). lx_queue_length s)")
  fix processed s r s1 a sdu frame r2 s2 u
  assume "(r, s1) = lx_pop s" "r = Ok a" "a = Some sdu" "(r2, s2) = on_multiplexer (mx_on_pdu frame) s1"
  then show "((processed + 1, s2), (processed, s)) \<in> measure (\<lambda>(processed, s). lx_queue_length s)"
    using lx_pop_shorter [of s sdu s1] on_multiplexer_queue [of "mx_on_pdu frame" s1] by (metis case_prod_conv in_measure snd_conv)
qed simp

declare lx_poll_loop.simps [simp del]

definition lx_poll :: "nat lx_op" where
  "lx_poll = and_then (lx_poll_loop 0) (\<lambda>processed. and_then lx_flush (\<lambda>n s. (Ok (processed + n), s)))"

section \<open>Frames through a channel in basic mode\<close>

definition basic_open :: "u16 \<Rightarrow> channel_manager \<Rightarrow> classic_channel \<Rightarrow> bool" where
  "basic_open c cm ch \<longleftrightarrow> bt_get (cm_channels cm) c = Some ch \<and> cc_state ch = COpen \<and> cc_ertm ch = None"

definition frame_bytes :: "rfcomm_frame \<Rightarrow> bytes" where
  "frame_bytes f = (case rf_to_bytes f of Ok b \<Rightarrow> b | _ \<Rightarrow> [])"

lemma frame_bytes_ok:
  assumes "rf_wf f"
  shows "rf_to_bytes f = Ok (frame_bytes f)" "rf_from_bytes (frame_bytes f) = wire_frame f"
  using rf_dec_enc [OF assms] by (auto simp: frame_bytes_def wire_frame_def)

text \<open>What a flush leaves in the outbound queue of the manager.\<close>

definition queue_pdus :: "u16 \<Rightarrow> outbox \<Rightarrow> channel_manager \<Rightarrow> channel_manager" where
  "queue_pdus dest fs cm = cm\<lparr>cm_outbound := cm_outbound cm @ map (\<lambda>f. l2cap_pdu_new dest (frame_bytes f)) fs\<rparr>"

lemma send_frames_basic:
  assumes "basic_open c cm ch" "\<forall>f \<in> set fs. rf_wf f \<and> length (frame_bytes f) \<le> unat (cc_peer_mtu ch)"
  shows "send_frames c fs cm = (Ok (), queue_pdus (cc_destination_cid ch) fs cm)"
  using assms
proof (induction fs arbitrary: cm)
  case Nil
  then show ?case by (simp add: queue_pdus_def)
next
  case (Cons f fs)
  let ?cm = "cm\<lparr>cm_outbound := cm_outbound cm @ [l2cap_pdu_new (cc_destination_cid ch) (frame_bytes f)]\<rparr>"
  have "cm_send c (frame_bytes f) cm = (Ok (), ?cm)"
    using Cons.prems by (simp add: cm_send_def basic_open_def)
  moreover have "send_frames c fs ?cm = (Ok (), queue_pdus (cc_destination_cid ch) fs ?cm)"
    using Cons.prems by (intro Cons.IH) (simp_all add: basic_open_def)
  moreover have "rf_to_bytes f = Ok (frame_bytes f)" using Cons.prems frame_bytes_ok(1) by simp
  ultimately show ?case by (simp add: and_then_def lift_result_def queue_pdus_def)
qed

lemma flush_basic:
  assumes "basic_open (lx_source_cid l) cm ch"
    "\<forall>f \<in> set (mx_outbox (lx_multiplexer l)). rf_wf f \<and> length (frame_bytes f) \<le> unat (cc_peer_mtu ch)"
  shows "lx_flush (l, cm) = (Ok (length (mx_outbox (lx_multiplexer l))),
    (l\<lparr>lx_multiplexer := (lx_multiplexer l)\<lparr>mx_outbox := []\<rparr>\<rparr>, queue_pdus (cc_destination_cid ch) (mx_outbox (lx_multiplexer l)) cm))"
  using send_frames_basic [OF assms] by (simp add: lx_flush_def mx_drain_outgoing_def)

text \<open>A manager that receives these PDUs appends the SDUs to the queue of the channel.\<close>

definition receive_sdus :: "u16 \<Rightarrow> bytes list \<Rightarrow> channel_manager \<Rightarrow> channel_manager" where
  "receive_sdus c sdus cm =
     (case bt_get (cm_channels cm) c of
        None \<Rightarrow> cm
      | Some ch \<Rightarrow> if sdus = [] then cm else put_channel c (ch\<lparr>cc_received := cc_received ch @ sdus\<rparr>) cm)"

lemma process_pdu_basic:
  assumes "basic_open c cm ch" "c \<noteq> L2CAP_SIGNALING_CID" "length sdu \<le> unat (cc_mtu ch)"
  shows "cm_process_pdu (l2cap_pdu_new c sdu) cm = (Ok (), receive_sdus c [sdu] cm)"
  using assms by (simp add: cm_process_pdu_def l2cap_pdu_new_def basic_open_def receive_sdus_def)

lemma receive_sdus_open:
  assumes "basic_open c cm ch"
  shows "basic_open c (receive_sdus c sdus cm) (ch\<lparr>cc_received := cc_received ch @ sdus\<rparr>)"
  using assms by (auto simp: basic_open_def receive_sdus_def put_channel_def)

lemma receive_sdus_append:
  assumes "basic_open c cm ch"
  shows "receive_sdus c ts (receive_sdus c ss cm) = receive_sdus c (ss @ ts) cm"
  using assms by (auto simp: basic_open_def receive_sdus_def put_channel_def bt_insert_twice)

text \<open>Polling hands the frames of the queue to the multiplexer, in order.\<close>

lemma poll_loop_frames:
  assumes "basic_open (lx_source_cid l) cm ch" "cc_received ch = map frame_bytes fs" "list_all rf_wf fs"
    "feed_frames fs (lx_multiplexer l) = (Ok (), m)"
  shows "\<exists>cm'. lx_poll_loop n (l, cm) = (Ok (n + length fs), (l\<lparr>lx_multiplexer := m\<rparr>, cm')) \<and>
    basic_open (lx_source_cid l) cm' (ch\<lparr>cc_received := []\<rparr>) \<and> cm_outbound cm' = cm_outbound cm"
  using assms
proof (induction fs arbitrary: l cm ch n)
  case Nil
  then show ?case
    by (subst lx_poll_loop.simps)
      (auto simp: lx_pop_def classic_pop_received_def put_channel_def basic_open_def)
next
  case (Cons f fs)
  let ?ch = "ch\<lparr>cc_received := map frame_bytes fs\<rparr>" and ?c = "lx_source_cid l"
  obtain g where g: "wire_frame f = Ok g" "rf_from_bytes (frame_bytes f) = Ok g"
    using Cons.prems(3) rf_dec_enc [of f] frame_bytes_ok [of f] by auto
  from Cons.prems(4) g(1) obtain m1 where m1: "mx_on_pdu g (lx_multiplexer l) = (Ok (), m1)" "feed_frames fs m1 = (Ok (), m)"
    by (auto simp: lift_result_def elim!: and_then_Ok)
  let ?l = "l\<lparr>lx_multiplexer := m1\<rparr>" and ?cm = "put_channel ?c ?ch cm"
  have "lx_pop (l, cm) = (Ok (Some (frame_bytes f)), (l, ?cm))"
    using Cons.prems(1,2) by (simp add: lx_pop_def classic_pop_received_def basic_open_def)
  then have loop: "lx_poll_loop n (l, cm) = lx_poll_loop (n + 1) (?l, ?cm)"
    using g(2) m1(1) by (subst lx_poll_loop.simps) (simp add: on_multiplexer_def)
  have "basic_open ?c ?cm ?ch" using Cons.prems(1) by (simp add: basic_open_def put_channel_def)
  from Cons.IH [of ?l ?cm ?ch "n + 1"] this Cons.prems(3) m1(2) show ?case
    unfolding loop by (simp add: put_channel_def)
qed

end
