(* ===== verification/Host_Rfcomm.thy ===== *)
theory Host_Rfcomm
  imports Host_Data Rfcomm_L2cap
begin

text \<open>
  The layers from an RFCOMM session down to the ACL packets of the host and up again on the other
  side: \<open>L2capMultiplexer::flush\<close>, \<open>flush_classic_channel_manager\<close>, the packets in the queue and on the
  transport, \<open>on_acl\<close> and \<open>L2capMultiplexer::poll\<close>.
\<close>

section \<open>Receiving the fragments of a PDU\<close>

definition host_assembler :: "host_data \<Rightarrow> u16 \<Rightarrow> assembler" where
  "host_assembler d h = or_default assembler_new (bt_get (acl_assemblers d) h)"

definition put_assembler :: "u16 \<Rightarrow> assembler \<Rightarrow> host_data \<Rightarrow> host_data" where
  "put_assembler h a d = d\<lparr>acl_assemblers := bt_insert h a (acl_assemblers d)\<rparr>"

definition put_manager :: "u16 \<Rightarrow> channel_manager \<Rightarrow> host_data \<Rightarrow> host_data" where
  "put_manager h cm d = d\<lparr>classic_channel_managers := bt_insert h cm (classic_channel_managers d)\<rparr>"

lemma put_simps [simp]:
  "host_assembler (put_assembler h a d) h = a" "put_assembler h a (put_assembler h b d) = put_assembler h a d"
  "classic_channel_managers (put_assembler h a d) = classic_channel_managers d"
  "bt_get (classic_channel_managers (put_manager h cm d)) h = Some cm"
  "put_manager h cm (put_manager h cm' d) = put_manager h cm d"
  "put_assembler h a (put_manager h cm d) = put_manager h cm (put_assembler h a d)"
  by (simp_all add: host_assembler_def put_assembler_def put_manager_def or_default_def bt_get_insert_same bt_insert_twice)

definition receive_acls :: "(acl_data_packet, 'l) transport \<Rightarrow> acl_data_packet list \<Rightarrow> host_data \<times> 'l \<Rightarrow>
    (l2cap_pdu option, rust_error) rresult list \<times> (host_data \<times> 'l)" where
  "receive_acls send ps s = run_machine (\<lambda>s p. on_acl send p s) s ps"

lemma on_acl_incomplete:
  assumes "connection_handle p = h" "feed p (host_assembler d h) = (Ok None, a)"
  shows "on_acl send p (d, link) = (Ok None, (put_assembler h a d, link))"
  using assms by (simp add: on_acl_def assemble_acl_def host_assembler_def put_assembler_def Let_def)

lemma on_acl_complete:
  assumes "connection_handle p = h" "feed p (host_assembler d h) = (Ok (Some (pdu_to_bytes False (l2cap_pdu_new c sdu))), a)"
    "length sdu \<le> 65535" "bt_get (classic_channel_managers d) h = Some cm" "basic_open c cm ch" "c \<noteq> L2CAP_SIGNALING_CID"
    "length sdu \<le> unat (cc_mtu ch)" "cm_outbound cm = []"
  shows "on_acl send p (d, link) = (Ok None, (put_manager h (receive_sdus c [sdu] cm) (put_assembler h a d), link))"
proof -
  let ?pdu = "l2cap_pdu_new c sdu" and ?cm = "receive_sdus c [sdu] cm"
  have dec: "pdu_from_bytes (pdu_to_bytes False ?pdu) = Ok ?pdu"
    using assms(3) by (intro pdu_dec_enc) (simp add: pdu_wf_def l2cap_pdu_new_def)
  have managed: "managed_classic_pdu ?pdu cm" using assms(5) by (simp add: managed_classic_pdu_def l2cap_pdu_new_def basic_open_def)
  have cm: "cm_process_pdu ?pdu cm = (Ok (), ?cm)" by (rule process_pdu_basic [OF assms(5-7)])
  have "cm_drain_outbound ?cm = ([], ?cm)"
    using assms(5,8) by (simp add: cm_drain_outbound_def receive_sdus_def put_channel_def basic_open_def)
  then show ?thesis
    using assms(1,2,4) dec managed cm
    by (simp add: on_acl_def assemble_acl_def host_assembler_def [symmetric] put_assembler_def put_manager_def Let_def
        on_classic_pdu_def record_error_def flush_classic_channel_manager_def and_then_def bt_get_insert_same bt_insert_twice)
qed

lemma receive_fragments:
  assumes "fragment_l2cap_pdu h bc n (pdu_to_bytes False (l2cap_pdu_new c sdu)) fl = Ok ps" "2 \<le> n"
    "length sdu \<le> 65535" "bt_get (classic_channel_managers d) h = Some cm" "basic_open c cm ch" "c \<noteq> L2CAP_SIGNALING_CID"
    "length sdu \<le> unat (cc_mtu ch)" "cm_outbound cm = []"
  shows "\<exists>a. receive_acls send ps (d, link) = (replicate (length ps) (Ok None),
    (put_manager h (receive_sdus c [sdu] cm) (put_assembler h a d), link))"
proof -
  let ?pdu = "pdu_to_bytes False (l2cap_pdu_new c sdu)"
  have gen: "\<exists>a. receive_acls send qs (e, link) = (replicate (length qs) (Ok None),
      (put_manager h (receive_sdus c [sdu] cm) (put_assembler h a e), link))"
    if "run_machine (\<lambda>a p. feed p a) (host_assembler e h) qs = (replicate (length qs - 1) (Ok None) @ [Ok (Some ?pdu)], z)"
      "\<forall>p \<in> set qs. connection_handle p = h" "bt_get (classic_channel_managers e) h = Some cm" "qs \<noteq> []" for qs e z
    using that
  proof (induction qs arbitrary: e)
    case (Cons p qs)
    obtain r a where p: "feed p (host_assembler e h) = (r, a)" by (metis surj_pair)
    show ?case
    proof (cases "qs = []")
      case True
      with Cons.prems p have "feed p (host_assembler e h) = (Ok (Some ?pdu), a)" by (simp add: Let_def)
      with True Cons.prems on_acl_complete [where send = send and link = link, OF _ this assms(3) _ assms(5-8)] show ?thesis
        by (auto simp: receive_acls_def)
    next
      case False
      then obtain k where k: "length qs = Suc k" by (cases qs) auto
      with Cons.prems(1) p have r: "r = Ok None"
        and rest: "run_machine (\<lambda>a p. feed p a) (host_assembler (put_assembler h a e) h) qs =
          (replicate (length qs - 1) (Ok None) @ [Ok (Some ?pdu)], z)"
        by (auto simp: Let_def split: prod.splits)
      from Cons.IH [OF rest] Cons.prems(2,3) False on_acl_incomplete [of p h e a send link] p r show ?thesis
        by (auto simp: receive_acls_def Let_def)
    qed
  qed simp
  show ?thesis
    using gen [of d ps "assembler_reset (host_assembler d h)"] reassemble_fragments [OF assms(1,2), of "host_assembler d h"]
      fragments_facts [OF assms(1)] assms(4) by auto
qed

text \<open>The controllers between the two hosts replace the connection handle.\<close>

definition relabel :: "u16 \<Rightarrow> acl_data_packet \<Rightarrow> acl_data_packet" where
  "relabel h p = p\<lparr>connection_handle := h\<rparr>"

lemma fragment_relabel:
  "fragment_l2cap_pdu h bc n pdu fl = Ok ps \<Longrightarrow> fragment_l2cap_pdu h' bc n pdu fl = Ok (map (relabel h') ps)"
  by (auto simp: fragment_l2cap_pdu_def Let_def relabel_def split: if_splits)

text \<open>The fragments of a sequence of SDUs for one channel.\<close>

definition sdu_fragments :: "u16 \<Rightarrow> nat \<Rightarrow> u16 \<Rightarrow> bytes \<Rightarrow> acl_data_packet list" where
  "sdu_fragments h n c sdu =
     (case fragment_l2cap_pdu h 0 n (pdu_to_bytes False (l2cap_pdu_new c sdu)) False of Ok ps \<Rightarrow> ps | _ \<Rightarrow> [])"

lemma sdu_fragments_ok:
  assumes "1 \<le> n" "n \<le> 65535" "length sdu \<le> 65535"
  shows "fragment_l2cap_pdu h 0 n (pdu_to_bytes False (l2cap_pdu_new c sdu)) False = Ok (sdu_fragments h n c sdu)"
  using assms
  by (simp add: sdu_fragments_def fragment_l2cap_pdu_def pdu_to_bytes_def l2cap_pdu_new_def Let_def u16_from_le_nth
      nth_append unat_of_nat_u16 u16_from_le_nth [simplified])

lemma sdu_fragments_relabel:
  assumes "1 \<le> n" "n \<le> 65535" "length sdu \<le> 65535"
  shows "map (relabel h') (sdu_fragments h n c sdu) = sdu_fragments h' n c sdu"
  using fragment_relabel [OF sdu_fragments_ok [OF assms], of h'] sdu_fragments_ok [OF assms] by (metis rresult.inject(1))

lemma receive_sdu_fragments:
  assumes "2 \<le> n" "n \<le> 65535" "bt_get (classic_channel_managers d) h = Some cm" "basic_open c cm ch"
    "c \<noteq> L2CAP_SIGNALING_CID" "\<forall>sdu \<in> set sdus. length sdu \<le> unat (cc_mtu ch)" "cm_outbound cm = []"
  shows "\<exists>d'. receive_acls send (concat (map (sdu_fragments h n c) sdus)) (d, link) =
      (replicate (length (concat (map (sdu_fragments h n c) sdus))) (Ok None), (d', link)) \<and>
    bt_get (classic_channel_managers d') h = Some (receive_sdus c sdus cm)"
  using assms(3,4,6,7)
proof (induction sdus arbitrary: d cm ch)
  case Nil
  then show ?case by (simp add: receive_acls_def receive_sdus_def basic_open_def)
next
  case (Cons sdu sdus)
  let ?fs = "sdu_fragments h n c sdu"
  have len: "length sdu \<le> 65535" using Cons.prems(3) unat_u16_le [of "cc_mtu ch"] by fastforce
  let ?cm = "receive_sdus c [sdu] cm" and ?ch = "ch\<lparr>cc_received := cc_received ch @ [sdu]\<rparr>"
  obtain a where first: "receive_acls send ?fs (d, link) =
      (replicate (length ?fs) (Ok None), (put_manager h ?cm (put_assembler h a d), link))"
    using receive_fragments [OF sdu_fragments_ok [OF _ assms(2) len] assms(1) len Cons.prems(1,2) assms(5)] assms(1)
      Cons.prems(3,4) by (metis One_nat_def Suc_1 Suc_leD list.set_intros(1))
  have "cm_outbound ?cm = []" using Cons.prems(2,4) by (simp add: receive_sdus_def put_channel_def basic_open_def)
  with Cons.IH [of "put_manager h ?cm (put_assembler h a d)" ?cm ?ch] Cons.prems receive_sdus_open [OF Cons.prems(2), of "[sdu]"]
  obtain d' where "receive_acls send (concat (map (sdu_fragments h n c) sdus)) (put_manager h ?cm (put_assembler h a d), link) =
      (replicate (length (concat (map (sdu_fragments h n c) sdus))) (Ok None), (d', link))"
    "bt_get (classic_channel_managers d') h = Some (receive_sdus c sdus ?cm)" by auto
  then show ?case
    using first receive_sdus_append [OF Cons.prems(2), of "sdus" "[sdu]"]
    by (auto simp: receive_acls_def run_machine_append replicate_add)
qed

section \<open>Sending the PDUs of a manager\<close>

lemma pdu_fragments_classic:
  "h \<notin> set (le_connections d) \<Longrightarrow> pdu_fragments d h c sdu = sdu_fragments h (acl_data_packet_length d) c sdu"
  by (simp add: pdu_fragments_def sdu_fragments_def in_le_pool_def pool_length_def)

lemma send_pdus_log:
  assumes "host_inv d" "h \<notin> set (le_connections d)" "1 \<le> acl_data_packet_length d" "acl_data_packet_length d \<le> 65535"
    "\<forall>sdu \<in> set sdus. length sdu \<le> 65535"
  shows "\<exists>d' ps. send_pdus log_send h (map (l2cap_pdu_new c) sdus) (d, log) = (Ok (), (d', log @ ps)) \<and> host_inv d' \<and>
    same_config d d' \<and> (\<forall>le. of_pool le d ps @ map fst (pool_waiting le d') =
      map fst (pool_waiting le d) @ of_pool le d (concat (map (sdu_fragments h (acl_data_packet_length d) c) sdus)))"
  using assms
proof (induction sdus arbitrary: d log)
  case Nil
  then show ?case by (intro exI [of _ d] exI [of _ "[]"]) (simp add: of_pool_def)
next
  case (Cons sdu sdus)
  let ?n = "acl_data_packet_length d"
  have frags: "pdu_fragments d h c sdu = sdu_fragments h ?n c sdu" by (rule pdu_fragments_classic [OF Cons.prems(2)])
  have "sdu_fragments h ?n c sdu \<noteq> []"
    using Cons.prems fragments_facts(1) [OF sdu_fragments_ok [of ?n sdu h c]] by simp
  then obtain d1 ps where d1: "send_l2cap_on_handle log_send h c sdu (d, log) = (Ok True, (d1, log @ ps))"
      "host_inv d1" "same_config d d1"
      "\<forall>le. of_pool le d ps @ map fst (pool_waiting le d1) = map fst (pool_waiting le d) @ of_pool le d (sdu_fragments h ?n c sdu)"
    using send_l2cap_log [OF Cons.prems(1), of h c sdu log] unfolding frags by auto
  have conf: "le_connections d1 = le_connections d" "acl_data_packet_length d1 = ?n" using d1(3) by (simp_all add: same_config_def)
  with Cons.IH [of d1 "log @ ps"] Cons.prems d1(2) obtain d2 qs where d2:
      "send_pdus log_send h (map (l2cap_pdu_new c) sdus) (d1, log @ ps) = (Ok (), (d2, (log @ ps) @ qs))" "host_inv d2"
      "same_config d1 d2" "\<forall>le. of_pool le d1 qs @ map fst (pool_waiting le d2) =
        map fst (pool_waiting le d1) @ of_pool le d1 (concat (map (sdu_fragments h ?n c) sdus))" by auto
  have pools: "of_pool le d1 = of_pool le d" for le using same_config_pools [OF d1(3)] by simp
  have "send_pdus log_send h (map (l2cap_pdu_new c) (sdu # sdus)) (d, log) = (Ok (), (d2, log @ ps @ qs))"
    using d1(1) d2(1) by (simp add: and_then_def l2cap_pdu_new_def)
  moreover have "\<forall>le. of_pool le d (ps @ qs) @ map fst (pool_waiting le d2) =
      map fst (pool_waiting le d) @ of_pool le d (concat (map (sdu_fragments h ?n c) (sdu # sdus)))"
    using d1(4) d2(4) by (simp add: pools)
  ultimately show ?case using d2(2) same_config_trans [OF d1(3) d2(3)] by blast
qed

end
