(* ===== verification/Att.thy ===== *)
theory Att
  imports Prelude
begin

text \<open>
  The attribute protocol PDUs of \<open>bumble-att/src/lib.rs\<close> and the UUIDs of \<open>bumble/src/uuid.rs\<close> they
  carry: the PDU type with its constructors, serialization, and the parser.
\<close>

section \<open>UUIDs\<close>

datatype uuid_error = UuidInvalidArgument string

datatype uuid = Uuid (uuid_bytes: bytes)

definition BASE_UUID_LE :: bytes where
  "BASE_UUID_LE = [0xFB, 0x34, 0x9B, 0x5F, 0x80, 0x00, 0x00, 0x80, 0x00, 0x10, 0x00, 0x00]"

definition uuid_from_16_bits :: "u16 \<Rightarrow> uuid" where
  "uuid_from_16_bits v = Uuid (u16_to_le_bytes v)"

definition uuid_from_32_bits :: "u32 \<Rightarrow> uuid" where
  "uuid_from_32_bits v = Uuid (u32_to_le_bytes v)"

definition uuid_from_bytes :: "bytes \<Rightarrow> (uuid, uuid_error) rresult" where
  "uuid_from_bytes b =
     (if length b = 2 \<or> length b = 4 \<or> length b = 16 then Ok (Uuid b)
      else Err (UuidInvalidArgument ''only 2, 4 and 16 bytes are allowed''))"

definition uuid_128_bytes :: "uuid \<Rightarrow> (bytes, uuid_error) rresult" where
  "uuid_128_bytes u =
     (if length (uuid_bytes u) = 2 then Ok (BASE_UUID_LE @ uuid_bytes u @ [0, 0])
      else if length (uuid_bytes u) = 4 then Ok (BASE_UUID_LE @ uuid_bytes u)
      else if length (uuid_bytes u) = 16 then Ok (uuid_bytes u)
      else Panic ''Uuid always holds 2/4/16 bytes'')"

definition uuid_to_bytes :: "uuid \<Rightarrow> bool \<Rightarrow> (bytes, uuid_error) rresult" where
  "uuid_to_bytes u force_128 = (if force_128 then uuid_128_bytes u else Ok (uuid_bytes u))"

definition uuid_eq :: "uuid \<Rightarrow> uuid \<Rightarrow> bool" where
  "uuid_eq u v \<longleftrightarrow> uuid_128_bytes u = uuid_128_bytes v"

section \<open>PDUs\<close>

definition ATT_ERROR_RESPONSE :: u8 where "ATT_ERROR_RESPONSE = 0x01"
definition ATT_EXCHANGE_MTU_REQUEST :: u8 where "ATT_EXCHANGE_MTU_REQUEST = 0x02"
definition ATT_EXCHANGE_MTU_RESPONSE :: u8 where "ATT_EXCHANGE_MTU_RESPONSE = 0x03"
definition ATT_FIND_INFORMATION_REQUEST :: u8 where "ATT_FIND_INFORMATION_REQUEST = 0x04"
definition ATT_FIND_INFORMATION_RESPONSE :: u8 where "ATT_FIND_INFORMATION_RESPONSE = 0x05"
definition ATT_FIND_BY_TYPE_VALUE_REQUEST :: u8 where "ATT_FIND_BY_TYPE_VALUE_REQUEST = 0x06"
definition ATT_FIND_BY_TYPE_VALUE_RESPONSE :: u8 where "ATT_FIND_BY_TYPE_VALUE_RESPONSE = 0x07"
definition ATT_READ_BY_TYPE_REQUEST :: u8 where "ATT_READ_BY_TYPE_REQUEST = 0x08"
definition ATT_READ_BY_TYPE_RESPONSE :: u8 where "ATT_READ_BY_TYPE_RESPONSE = 0x09"
definition ATT_READ_REQUEST :: u8 where "ATT_READ_REQUEST = 0x0A"
definition ATT_READ_RESPONSE :: u8 where "ATT_READ_RESPONSE = 0x0B"
definition ATT_READ_BLOB_REQUEST :: u8 where "ATT_READ_BLOB_REQUEST = 0x0C"
definition ATT_READ_BLOB_RESPONSE :: u8 where "ATT_READ_BLOB_RESPONSE = 0x0D"
definition ATT_READ_MULTIPLE_REQUEST :: u8 where "ATT_READ_MULTIPLE_REQUEST = 0x0E"
definition ATT_READ_MULTIPLE_RESPONSE :: u8 where "ATT_READ_MULTIPLE_RESPONSE = 0x0F"
definition ATT_READ_BY_GROUP_TYPE_REQUEST :: u8 where "ATT_READ_BY_GROUP_TYPE_REQUEST = 0x10"
definition ATT_READ_BY_GROUP_TYPE_RESPONSE :: u8 where "ATT_READ_BY_GROUP_TYPE_RESPONSE = 0x11"
definition ATT_WRITE_REQUEST :: u8 where "ATT_WRITE_REQUEST = 0x12"
definition ATT_WRITE_RESPONSE :: u8 where "ATT_WRITE_RESPONSE = 0x13"
definition ATT_PREPARE_WRITE_REQUEST :: u8 where "ATT_PREPARE_WRITE_REQUEST = 0x16"
definition ATT_PREPARE_WRITE_RESPONSE :: u8 where "ATT_PREPARE_WRITE_RESPONSE = 0x17"
definition ATT_EXECUTE_WRITE_REQUEST :: u8 where "ATT_EXECUTE_WRITE_REQUEST = 0x18"
definition ATT_EXECUTE_WRITE_RESPONSE :: u8 where "ATT_EXECUTE_WRITE_RESPONSE = 0x19"
definition ATT_WRITE_COMMAND :: u8 where "ATT_WRITE_COMMAND = 0x52"
definition ATT_SIGNED_WRITE_COMMAND :: u8 where "ATT_SIGNED_WRITE_COMMAND = 0xD2"
definition ATT_READ_MULTIPLE_VARIABLE_REQUEST :: u8 where "ATT_READ_MULTIPLE_VARIABLE_REQUEST = 0x20"
definition ATT_READ_MULTIPLE_VARIABLE_RESPONSE :: u8 where "ATT_READ_MULTIPLE_VARIABLE_RESPONSE = 0x21"
definition ATT_HANDLE_VALUE_NOTIFICATION :: u8 where "ATT_HANDLE_VALUE_NOTIFICATION = 0x1B"
definition ATT_HANDLE_VALUE_INDICATION :: u8 where "ATT_HANDLE_VALUE_INDICATION = 0x1D"
definition ATT_HANDLE_VALUE_CONFIRMATION :: u8 where "ATT_HANDLE_VALUE_CONFIRMATION = 0x1E"

lemmas att_codes = ATT_ERROR_RESPONSE_def ATT_EXCHANGE_MTU_REQUEST_def ATT_EXCHANGE_MTU_RESPONSE_def
  ATT_FIND_INFORMATION_REQUEST_def ATT_FIND_INFORMATION_RESPONSE_def ATT_FIND_BY_TYPE_VALUE_REQUEST_def
  ATT_FIND_BY_TYPE_VALUE_RESPONSE_def ATT_READ_BY_TYPE_REQUEST_def ATT_READ_BY_TYPE_RESPONSE_def ATT_READ_REQUEST_def
  ATT_READ_RESPONSE_def ATT_READ_BLOB_REQUEST_def ATT_READ_BLOB_RESPONSE_def ATT_READ_MULTIPLE_REQUEST_def
  ATT_READ_MULTIPLE_RESPONSE_def ATT_READ_BY_GROUP_TYPE_REQUEST_def ATT_READ_BY_GROUP_TYPE_RESPONSE_def
  ATT_WRITE_REQUEST_def ATT_WRITE_RESPONSE_def ATT_PREPARE_WRITE_REQUEST_def ATT_PREPARE_WRITE_RESPONSE_def
  ATT_EXECUTE_WRITE_REQUEST_def ATT_EXECUTE_WRITE_RESPONSE_def ATT_WRITE_COMMAND_def ATT_SIGNED_WRITE_COMMAND_def
  ATT_READ_MULTIPLE_VARIABLE_REQUEST_def ATT_READ_MULTIPLE_VARIABLE_RESPONSE_def ATT_HANDLE_VALUE_NOTIFICATION_def
  ATT_HANDLE_VALUE_INDICATION_def ATT_HANDLE_VALUE_CONFIRMATION_def

datatype att_pdu =
    AttErrorResponse u8 u16 u8
  | AttExchangeMtuRequest u16
  | AttExchangeMtuResponse u16
  | AttFindInformationRequest u16 u16
  | AttFindInformationResponse u8 bytes
  | AttFindByTypeValueRequest u16 u16 uuid bytes
  | AttFindByTypeValueResponse bytes
  | AttReadRequest u16
  | AttReadResponse bytes
  | AttReadBlobRequest u16 u16
  | AttReadBlobResponse bytes
  | AttReadMultipleRequest "u16 list"
  | AttReadMultipleResponse bytes
  | AttReadByTypeRequest u16 u16 uuid
  | AttReadByTypeResponse u8 bytes
  | AttReadByGroupTypeRequest u16 u16 uuid
  | AttReadByGroupTypeResponse u8 bytes
  | AttReadMultipleVariableRequest "u16 list"
  | AttReadMultipleVariableResponse "(u16 \<times> bytes) list"
  | AttWriteRequest u16 bytes
  | AttWriteResponse
  | AttWriteCommand u16 bytes
  | AttSignedWriteCommand u16 bytes u32 bytes
  | AttPrepareWriteRequest u16 u16 bytes
  | AttPrepareWriteResponse u16 u16 bytes
  | AttExecuteWriteRequest u8
  | AttExecuteWriteResponse
  | AttHandleValueNotification u16 bytes
  | AttHandleValueIndication u16 bytes
  | AttHandleValueConfirmation
  | AttGeneric u8 bytes

section \<open>Parsing helpers\<close>

definition att_le16 :: "bytes \<Rightarrow> nat \<Rightarrow> u16 result" where
  "att_le16 data offset =
     (if offset + 2 > length data then Err (InvalidPacket ''truncated u16 field'' [])
      else Ok (u16_from_le_bytes (data ! offset) (data ! (offset + 1))))"

fun u16_pairs :: "bytes \<Rightarrow> u16 list" where
  "u16_pairs (a # b # rest) = u16_from_le_bytes a b # u16_pairs rest"
| "u16_pairs _ = []"

definition parse_handles :: "bytes \<Rightarrow> u16 list result" where
  "parse_handles data =
     (if odd (length data) then Err (InvalidPacket ''odd-length ATT handle set'' []) else Ok (u16_pairs data))"

text \<open>\<open>offset.checked_add(length)\<close> cannot fail for a length of 16 bits and an offset inside a slice.\<close>

function parse_tuples_loop :: "bytes \<Rightarrow> nat \<Rightarrow> (u16 \<times> bytes) list \<Rightarrow> (u16 \<times> bytes) list result" where
  "parse_tuples_loop data offset tuples =
     (if offset < length data then
        bind_result (att_le16 data offset) (\<lambda>n.
          let start = offset + 2; end_pos = start + unat n
          in if end_pos > length data then Err (InvalidPacket ''truncated ATT length/value tuple'' [])
             else parse_tuples_loop data end_pos (tuples @ [(n, take (unat n) (drop start data))]))
      else Ok tuples)"
  by pat_completeness auto
termination
  by (relation "measure (\<lambda>(data, offset, tuples). length data - offset)") auto

declare parse_tuples_loop.simps [simp del]

definition parse_length_value_tuples :: "bytes \<Rightarrow> (u16 \<times> bytes) list result" where
  "parse_length_value_tuples data = parse_tuples_loop data 0 []"

definition first_or :: "bytes \<Rightarrow> string \<Rightarrow> u8 result" where
  "first_or data m = (case data of [] \<Rightarrow> Err (InvalidPacket m []) | b # _ \<Rightarrow> Ok b)"

definition bad_uuid :: "string \<Rightarrow> (uuid, uuid_error) rresult \<Rightarrow> uuid result" where
  "bad_uuid m r = (case r of Ok u \<Rightarrow> Ok u | Err e \<Rightarrow> Err (InvalidPacket m []) | Panic p \<Rightarrow> Panic p)"

section \<open>Serialization and parsing\<close>

fun att_op_code :: "att_pdu \<Rightarrow> u8" where
  "att_op_code (AttErrorResponse _ _ _) = ATT_ERROR_RESPONSE"
| "att_op_code (AttExchangeMtuRequest _) = ATT_EXCHANGE_MTU_REQUEST"
| "att_op_code (AttExchangeMtuResponse _) = ATT_EXCHANGE_MTU_RESPONSE"
| "att_op_code (AttFindInformationRequest _ _) = ATT_FIND_INFORMATION_REQUEST"
| "att_op_code (AttFindInformationResponse _ _) = ATT_FIND_INFORMATION_RESPONSE"
| "att_op_code (AttFindByTypeValueRequest _ _ _ _) = ATT_FIND_BY_TYPE_VALUE_REQUEST"
| "att_op_code (AttFindByTypeValueResponse _) = ATT_FIND_BY_TYPE_VALUE_RESPONSE"
| "att_op_code (AttReadRequest _) = ATT_READ_REQUEST"
| "att_op_code (AttReadResponse _) = ATT_READ_RESPONSE"
| "att_op_code (AttReadBlobRequest _ _) = ATT_READ_BLOB_REQUEST"
| "att_op_code (AttReadBlobResponse _) = ATT_READ_BLOB_RESPONSE"
| "att_op_code (AttReadMultipleRequest _) = ATT_READ_MULTIPLE_REQUEST"
| "att_op_code (AttReadMultipleResponse _) = ATT_READ_MULTIPLE_RESPONSE"
| "att_op_code (AttReadByTypeRequest _ _ _) = ATT_READ_BY_TYPE_REQUEST"
| "att_op_code (AttReadByTypeResponse _ _) = ATT_READ_BY_TYPE_RESPONSE"
| "att_op_code (AttReadByGroupTypeRequest _ _ _) = ATT_READ_BY_GROUP_TYPE_REQUEST"
| "att_op_code (AttReadByGroupTypeResponse _ _) = ATT_READ_BY_GROUP_TYPE_RESPONSE"
| "att_op_code (AttReadMultipleVariableRequest _) = ATT_READ_MULTIPLE_VARIABLE_REQUEST"
| "att_op_code (AttReadMultipleVariableResponse _) = ATT_READ_MULTIPLE_VARIABLE_RESPONSE"
| "att_op_code (AttWriteRequest _ _) = ATT_WRITE_REQUEST"
| "att_op_code AttWriteResponse = ATT_WRITE_RESPONSE"
| "att_op_code (AttWriteCommand _ _) = ATT_WRITE_COMMAND"
| "att_op_code (AttSignedWriteCommand _ _ _ _) = ATT_SIGNED_WRITE_COMMAND"
| "att_op_code (AttPrepareWriteRequest _ _ _) = ATT_PREPARE_WRITE_REQUEST"
| "att_op_code (AttPrepareWriteResponse _ _ _) = ATT_PREPARE_WRITE_RESPONSE"
| "att_op_code (AttExecuteWriteRequest _) = ATT_EXECUTE_WRITE_REQUEST"
| "att_op_code AttExecuteWriteResponse = ATT_EXECUTE_WRITE_RESPONSE"
| "att_op_code (AttHandleValueNotification _ _) = ATT_HANDLE_VALUE_NOTIFICATION"
| "att_op_code (AttHandleValueIndication _ _) = ATT_HANDLE_VALUE_INDICATION"
| "att_op_code AttHandleValueConfirmation = ATT_HANDLE_VALUE_CONFIRMATION"
| "att_op_code (AttGeneric op_code _) = op_code"

fun att_payload :: "att_pdu \<Rightarrow> bytes" where
  "att_payload (AttErrorResponse req handle err) = req # u16_to_le_bytes handle @ [err]"
| "att_payload (AttExchangeMtuRequest mtu) = u16_to_le_bytes mtu"
| "att_payload (AttExchangeMtuResponse mtu) = u16_to_le_bytes mtu"
| "att_payload (AttFindInformationRequest a b) = u16_to_le_bytes a @ u16_to_le_bytes b"
| "att_payload (AttFindInformationResponse format data) = format # data"
| "att_payload (AttFindByTypeValueRequest a b u v) = u16_to_le_bytes a @ u16_to_le_bytes b @ uuid_bytes u @ v"
| "att_payload (AttFindByTypeValueResponse data) = data"
| "att_payload (AttReadRequest h) = u16_to_le_bytes h"
| "att_payload (AttReadResponse v) = v"
| "att_payload (AttReadBlobRequest h off) = u16_to_le_bytes h @ u16_to_le_bytes off"
| "att_payload (AttReadBlobResponse v) = v"
| "att_payload (AttReadMultipleRequest hs) = concat (map u16_to_le_bytes hs)"
| "att_payload (AttReadMultipleResponse v) = v"
| "att_payload (AttReadByTypeRequest a b u) = u16_to_le_bytes a @ u16_to_le_bytes b @ uuid_bytes u"
| "att_payload (AttReadByTypeResponse n data) = n # data"
| "att_payload (AttReadByGroupTypeRequest a b u) = u16_to_le_bytes a @ u16_to_le_bytes b @ uuid_bytes u"
| "att_payload (AttReadByGroupTypeResponse n data) = n # data"
| "att_payload (AttReadMultipleVariableRequest hs) = concat (map u16_to_le_bytes hs)"
| "att_payload (AttReadMultipleVariableResponse ts) = concat (map (\<lambda>(n, v). u16_to_le_bytes n @ v) ts)"
| "att_payload (AttWriteRequest h v) = u16_to_le_bytes h @ v"
| "att_payload AttWriteResponse = []"
| "att_payload (AttWriteCommand h v) = u16_to_le_bytes h @ v"
| "att_payload (AttSignedWriteCommand h v n s) = u16_to_le_bytes h @ v @ u32_to_le_bytes n @ s"
| "att_payload (AttPrepareWriteRequest h off v) = u16_to_le_bytes h @ u16_to_le_bytes off @ v"
| "att_payload (AttPrepareWriteResponse h off v) = u16_to_le_bytes h @ u16_to_le_bytes off @ v"
| "att_payload (AttExecuteWriteRequest flags) = [flags]"
| "att_payload AttExecuteWriteResponse = []"
| "att_payload (AttHandleValueNotification h v) = u16_to_le_bytes h @ v"
| "att_payload (AttHandleValueIndication h v) = u16_to_le_bytes h @ v"
| "att_payload AttHandleValueConfirmation = []"
| "att_payload (AttGeneric _ v) = v"

definition att_to_bytes :: "att_pdu \<Rightarrow> bytes" where
  "att_to_bytes p = att_op_code p # att_payload p"

text \<open>\<open>payload.get(k..).unwrap_or(&[])\<close> is \<open>drop k\<close>.\<close>

definition two_u16 :: "(u16 \<Rightarrow> u16 \<Rightarrow> bytes \<Rightarrow> att_pdu) \<Rightarrow> bytes \<Rightarrow> att_pdu result" where
  "two_u16 f p = bind_result (att_le16 p 0) (\<lambda>a. bind_result (att_le16 p 2) (\<lambda>b. Ok (f a b (drop 4 p))))"

definition one_u16 :: "(u16 \<Rightarrow> bytes \<Rightarrow> att_pdu) \<Rightarrow> bytes \<Rightarrow> att_pdu result" where
  "one_u16 f p = bind_result (att_le16 p 0) (\<lambda>a. Ok (f a (drop 2 p)))"

definition byte_then :: "string \<Rightarrow> (u8 \<Rightarrow> bytes \<Rightarrow> att_pdu) \<Rightarrow> bytes \<Rightarrow> att_pdu result" where
  "byte_then m f p = bind_result (first_or p m) (\<lambda>b. Ok (f b (drop 1 p)))"

definition signed_write_of :: "bytes \<Rightarrow> att_pdu result" where
  "signed_write_of p =
     (if length p < 14 then Err (InvalidPacket ''Signed Write Command requires a 12-byte authentication signature'' [])
      else let trailer = length p - 12
      in bind_result (att_le16 p 0) (\<lambda>h.
           Ok (AttSignedWriteCommand h (take (trailer - 2) (drop 2 p))
             (u32_from_le_bytes (p ! trailer) (p ! (trailer + 1)) (p ! (trailer + 2)) (p ! (trailer + 3)))
             (drop (trailer + 4) p))))"

definition att_from_bytes :: "bytes \<Rightarrow> att_pdu result" where
  "att_from_bytes pdu =
     (case pdu of
        [] \<Rightarrow> Err (InvalidPacket ''empty ATT PDU'' [])
      | op_code # p \<Rightarrow>
          if op_code = ATT_ERROR_RESPONSE then
            bind_result (first_or p ''truncated Error_Response'') (\<lambda>req. bind_result (att_le16 p 1) (\<lambda>h.
              if length p < 4 then Err (InvalidPacket ''truncated Error_Response'' [])
              else Ok (AttErrorResponse req h (p ! 3))))
          else if op_code = ATT_EXCHANGE_MTU_REQUEST then one_u16 (\<lambda>a _. AttExchangeMtuRequest a) p
          else if op_code = ATT_EXCHANGE_MTU_RESPONSE then one_u16 (\<lambda>a _. AttExchangeMtuResponse a) p
          else if op_code = ATT_FIND_INFORMATION_REQUEST then two_u16 (\<lambda>a b _. AttFindInformationRequest a b) p
          else if op_code = ATT_FIND_INFORMATION_RESPONSE then
            byte_then ''truncated Find_Information_Response'' AttFindInformationResponse p
          else if op_code = ATT_FIND_BY_TYPE_VALUE_REQUEST then
            (if length p < 6 then Err (InvalidPacket ''truncated Find_By_Type_Value_Request'' [])
             else bind_result (bad_uuid ''bad type UUID: {e}'' (uuid_from_bytes (take 2 (drop 4 p)))) (\<lambda>u.
               two_u16 (\<lambda>a b _. AttFindByTypeValueRequest a b u (drop 6 p)) p))
          else if op_code = ATT_FIND_BY_TYPE_VALUE_RESPONSE then Ok (AttFindByTypeValueResponse p)
          else if op_code = ATT_READ_REQUEST then one_u16 (\<lambda>a _. AttReadRequest a) p
          else if op_code = ATT_READ_RESPONSE then Ok (AttReadResponse p)
          else if op_code = ATT_READ_BLOB_REQUEST then two_u16 (\<lambda>a b _. AttReadBlobRequest a b) p
          else if op_code = ATT_READ_BLOB_RESPONSE then Ok (AttReadBlobResponse p)
          else if op_code = ATT_READ_MULTIPLE_REQUEST then
            bind_result (parse_handles p) (\<lambda>hs. Ok (AttReadMultipleRequest hs))
          else if op_code = ATT_READ_MULTIPLE_RESPONSE then Ok (AttReadMultipleResponse p)
          else if op_code = ATT_READ_BY_TYPE_REQUEST then
            bind_result (bad_uuid ''bad type UUID: {e}'' (uuid_from_bytes (drop 4 p))) (\<lambda>u.
              two_u16 (\<lambda>a b _. AttReadByTypeRequest a b u) p)
          else if op_code = ATT_READ_BY_TYPE_RESPONSE then
            byte_then ''truncated Read_By_Type_Response'' AttReadByTypeResponse p
          else if op_code = ATT_READ_BY_GROUP_TYPE_REQUEST then
            bind_result (bad_uuid ''bad group type UUID: {e}'' (uuid_from_bytes (drop 4 p))) (\<lambda>u.
              two_u16 (\<lambda>a b _. AttReadByGroupTypeRequest a b u) p)
          else if op_code = ATT_READ_BY_GROUP_TYPE_RESPONSE then
            byte_then ''truncated Read_By_Group_Type_Response'' AttReadByGroupTypeResponse p
          else if op_code = ATT_READ_MULTIPLE_VARIABLE_REQUEST then
            bind_result (parse_handles p) (\<lambda>hs. Ok (AttReadMultipleVariableRequest hs))
          else if op_code = ATT_READ_MULTIPLE_VARIABLE_RESPONSE then
            bind_result (parse_length_value_tuples p) (\<lambda>ts. Ok (AttReadMultipleVariableResponse ts))
          else if op_code = ATT_WRITE_REQUEST then one_u16 AttWriteRequest p
          else if op_code = ATT_WRITE_RESPONSE then Ok AttWriteResponse
          else if op_code = ATT_WRITE_COMMAND then one_u16 AttWriteCommand p
          else if op_code = ATT_SIGNED_WRITE_COMMAND then signed_write_of p
          else if op_code = ATT_PREPARE_WRITE_REQUEST then two_u16 AttPrepareWriteRequest p
          else if op_code = ATT_PREPARE_WRITE_RESPONSE then two_u16 AttPrepareWriteResponse p
          else if op_code = ATT_EXECUTE_WRITE_REQUEST then
            byte_then ''truncated Execute_Write_Request'' (\<lambda>b _. AttExecuteWriteRequest b) p
          else if op_code = ATT_EXECUTE_WRITE_RESPONSE then Ok AttExecuteWriteResponse
          else if op_code = ATT_HANDLE_VALUE_NOTIFICATION then one_u16 AttHandleValueNotification p
          else if op_code = ATT_HANDLE_VALUE_INDICATION then one_u16 AttHandleValueIndication p
          else if op_code = ATT_HANDLE_VALUE_CONFIRMATION then Ok AttHandleValueConfirmation
          else Ok (AttGeneric op_code p))"

definition att_is_command :: "att_pdu \<Rightarrow> bool" where
  "att_is_command p \<longleftrightarrow> drop_bit 6 (att_op_code p) AND 1 = 1"

definition att_is_signed :: "att_pdu \<Rightarrow> bool" where
  "att_is_signed p \<longleftrightarrow> drop_bit 7 (att_op_code p) AND 1 = 1"

section \<open>Well-formed PDUs\<close>

definition att_typed_codes :: "u8 list" where
  "att_typed_codes = [ATT_ERROR_RESPONSE, ATT_EXCHANGE_MTU_REQUEST, ATT_EXCHANGE_MTU_RESPONSE, ATT_FIND_INFORMATION_REQUEST,
     ATT_FIND_INFORMATION_RESPONSE, ATT_FIND_BY_TYPE_VALUE_REQUEST, ATT_FIND_BY_TYPE_VALUE_RESPONSE, ATT_READ_BY_TYPE_REQUEST,
     ATT_READ_BY_TYPE_RESPONSE, ATT_READ_REQUEST, ATT_READ_RESPONSE, ATT_READ_BLOB_REQUEST, ATT_READ_BLOB_RESPONSE,
     ATT_READ_MULTIPLE_REQUEST, ATT_READ_MULTIPLE_RESPONSE, ATT_READ_BY_GROUP_TYPE_REQUEST, ATT_READ_BY_GROUP_TYPE_RESPONSE,
     ATT_WRITE_REQUEST, ATT_WRITE_RESPONSE, ATT_PREPARE_WRITE_REQUEST, ATT_PREPARE_WRITE_RESPONSE, ATT_EXECUTE_WRITE_REQUEST,
     ATT_EXECUTE_WRITE_RESPONSE, ATT_WRITE_COMMAND, ATT_SIGNED_WRITE_COMMAND, ATT_READ_MULTIPLE_VARIABLE_REQUEST,
     ATT_READ_MULTIPLE_VARIABLE_RESPONSE, ATT_HANDLE_VALUE_NOTIFICATION, ATT_HANDLE_VALUE_INDICATION,
     ATT_HANDLE_VALUE_CONFIRMATION]"

definition uuid_wf :: "uuid \<Rightarrow> bool" where
  "uuid_wf u \<longleftrightarrow> length (uuid_bytes u) \<in> {2, 4, 16}"

fun att_wf :: "att_pdu \<Rightarrow> bool" where
  "att_wf (AttFindByTypeValueRequest _ _ u _) \<longleftrightarrow> length (uuid_bytes u) = 2"
| "att_wf (AttReadByTypeRequest _ _ u) \<longleftrightarrow> uuid_wf u"
| "att_wf (AttReadByGroupTypeRequest _ _ u) \<longleftrightarrow> uuid_wf u"
| "att_wf (AttReadMultipleVariableResponse ts) \<longleftrightarrow> list_all (\<lambda>(n, v). unat n = length v) ts"
| "att_wf (AttSignedWriteCommand _ _ _ s) \<longleftrightarrow> length s = 8"
| "att_wf (AttGeneric op_code _) \<longleftrightarrow> op_code \<notin> set att_typed_codes"
| "att_wf _ \<longleftrightarrow> True"

lemma att_le16_simps [simp]:
  "att_le16 (u16_to_le_bytes a @ rest) 0 = Ok a" "att_le16 (u16_to_le_bytes a) 0 = Ok a"
  "att_le16 (u16_to_le_bytes a @ u16_to_le_bytes b @ rest) 2 = Ok b" "att_le16 (u16_to_le_bytes a @ u16_to_le_bytes b) 2 = Ok b"
  "att_le16 (x # u16_to_le_bytes a @ rest) 1 = Ok a" "att_le16 (x # u16_to_le_bytes a @ rest) (Suc 0) = Ok a"
  by (simp_all add: att_le16_def u16_to_le_bytes_def)

lemma u16_pairs_concat: "u16_pairs (concat (map u16_to_le_bytes hs)) = hs"
  by (induction hs) (simp_all add: u16_to_le_bytes_def)

lemma even_concat_u16: "even (length (concat (map u16_to_le_bytes hs)))"
  by (induction hs) simp_all

lemma parse_tuples_concat:
  assumes "list_all (\<lambda>(n, v). unat n = length v) ts"
  shows "parse_tuples_loop (pre @ concat (map (\<lambda>(n, v). u16_to_le_bytes n @ v) ts)) (length pre) acc = Ok (acc @ ts)"
  using assms
proof (induction ts arbitrary: pre acc)
  case Nil
  then show ?case by (subst parse_tuples_loop.simps) simp
next
  case (Cons t ts)
  obtain n v where t: "t = (n, v)" by (cases t)
  let ?rest = "concat (map (\<lambda>(n, v). u16_to_le_bytes n @ v) ts)"
  let ?pre = "pre @ u16_to_le_bytes n @ v"
  have v: "unat n = length v" using Cons.prems t by simp
  have "att_le16 (pre @ u16_to_le_bytes n @ v @ ?rest) (length pre) = Ok n"
    by (simp add: att_le16_def u16_to_le_bytes_def nth_append)
  moreover have "take (length v) (drop (length pre + 2) (pre @ u16_to_le_bytes n @ v @ ?rest)) = v" by simp
  ultimately have "parse_tuples_loop (pre @ u16_to_le_bytes n @ v @ ?rest) (length pre) acc =
      parse_tuples_loop (?pre @ ?rest) (length ?pre) (acc @ [(n, v)])"
    using v by (subst parse_tuples_loop.simps) (simp add: Let_def add.assoc)
  with Cons.IH [of ?pre "acc @ [(n, v)]"] Cons.prems t show ?case by simp
qed

lemma signed_write_roundtrip:
  assumes "length s = 8"
  shows "signed_write_of (u16_to_le_bytes h @ v @ u32_to_le_bytes n @ s) = Ok (AttSignedWriteCommand h v n s)"
  using assms by (simp add: signed_write_of_def Let_def nth_append u32_to_le_bytes_def)

lemmas att_parse_defs = att_from_bytes_def one_u16_def two_u16_def byte_then_def first_or_def bad_uuid_def uuid_from_bytes_def

lemma att_dec_enc:
  assumes "att_wf p" shows "att_from_bytes (att_to_bytes p) = Ok p"
proof (cases p)
  case (AttReadMultipleVariableResponse ts)
  then show ?thesis
    using assms parse_tuples_concat [of ts "[]" "[]"]
    by (simp add: att_to_bytes_def att_from_bytes_def att_codes parse_length_value_tuples_def)
next
  case (AttReadMultipleRequest hs)
  then show ?thesis
    by (simp add: att_to_bytes_def att_from_bytes_def att_codes parse_handles_def u16_pairs_concat even_concat_u16 del: length_concat)
next
  case (AttReadMultipleVariableRequest hs)
  then show ?thesis
    by (simp add: att_to_bytes_def att_from_bytes_def att_codes parse_handles_def u16_pairs_concat even_concat_u16 del: length_concat)
next
  case (AttSignedWriteCommand h v n s)
  then show ?thesis using assms by (simp add: att_to_bytes_def att_from_bytes_def att_codes signed_write_roundtrip)
next
  case (AttFindByTypeValueRequest a b u v)
  then show ?thesis using assms by (cases u) (simp add: att_to_bytes_def att_parse_defs att_codes)
next
  case (AttReadByTypeRequest a b u)
  then show ?thesis using assms by (cases u) (auto simp: att_to_bytes_def att_parse_defs att_codes uuid_wf_def)
next
  case (AttReadByGroupTypeRequest a b u)
  then show ?thesis using assms by (cases u) (auto simp: att_to_bytes_def att_parse_defs att_codes uuid_wf_def)
next
  case (AttGeneric op_code data)
  then show ?thesis using assms by (simp add: att_to_bytes_def att_from_bytes_def att_typed_codes_def)
qed (simp_all add: att_to_bytes_def att_parse_defs att_codes nth_append)

interpretation att: codec att_to_bytes att_from_bytes att_wf
  by unfold_locales (rule att_dec_enc)

section \<open>What the parser returns\<close>

text \<open>A parse result that is not a panic and whose encoding starts the input.\<close>

definition att_parsed :: "u8 \<Rightarrow> bytes \<Rightarrow> att_pdu result \<Rightarrow> bool" where
  "att_parsed op_code p r \<longleftrightarrow>
     (case r of Ok a \<Rightarrow> att_wf a \<and> att_op_code a = op_code \<and> (\<exists>rest. p = att_payload a @ rest) | Err e \<Rightarrow> True | Panic m \<Rightarrow> False)"

lemma first_bytes:
  fixes p :: bytes
  shows "2 \<le> length p \<Longrightarrow> p = p ! 0 # p ! 1 # drop 2 p"
  "4 \<le> length p \<Longrightarrow> p = p ! 0 # p ! 1 # p ! 2 # p ! 3 # drop 4 p"
proof -
  have two: "2 \<le> length q \<Longrightarrow> q = q ! 0 # q ! 1 # drop 2 q" for q :: bytes
    by (cases q; cases "tl q") (auto simp: eval_nat_numeral)
  show "2 \<le> length p \<Longrightarrow> p = p ! 0 # p ! 1 # drop 2 p" by (rule two)
  show "4 \<le> length p \<Longrightarrow> p = p ! 0 # p ! 1 # p ! 2 # p ! 3 # drop 4 p"
    using two [of p] two [of "drop 2 p"] by simp
qed

lemma att_le16_Ok:
  "att_le16 p 0 = Ok a \<Longrightarrow> p = u16_to_le_bytes a @ drop 2 p"
  "att_le16 p 0 = Ok a \<Longrightarrow> att_le16 p 2 = Ok b \<Longrightarrow> p = u16_to_le_bytes a @ u16_to_le_bytes b @ drop 4 p"
  using first_bytes [of p] by (auto simp: att_le16_def not_less split: if_splits)

lemma att_le16_no_panic: "att_le16 p k \<noteq> Panic m"
  by (simp add: att_le16_def)

lemma u8_bit_bound: "bit (a :: u8) n \<Longrightarrow> n < 8"
  using bit_imp_le_length [of a n] by simp

lemma u8_no_high_bits: "\<not> bit (a :: u8) (16 + n)" "\<not> bit (a :: u8) (24 + n)"
  by (auto dest: u8_bit_bound)

lemma u32_to_from_le: "u32_to_le_bytes (u32_from_le_bytes a b c d) = [a, b, c, d]"
  unfolding u32_from_le_bytes_def u32_to_le_bytes_def
  by (auto intro!: bit_word_eqI simp: bit_simps u8_no_high_bits)

lemma one_u16_parsed:
  assumes "\<And>a v. att_wf (f a v) \<and> att_op_code (f a v) = op_code \<and> (\<exists>rest. u16_to_le_bytes a @ v = att_payload (f a v) @ rest)"
  shows "att_parsed op_code p (one_u16 f p)"
proof (cases "att_le16 p 0")
  case (Ok a)
  then have "p = u16_to_le_bytes a @ drop 2 p" by (rule att_le16_Ok)
  with assms [of a "drop 2 p"] Ok show ?thesis by (simp add: one_u16_def att_parsed_def)
qed (simp_all add: one_u16_def att_parsed_def att_le16_no_panic)

lemma two_u16_parsed:
  assumes "\<And>a b v. p = u16_to_le_bytes a @ u16_to_le_bytes b @ v \<Longrightarrow> att_wf (f a b v) \<and> att_op_code (f a b v) = op_code \<and>
    (\<exists>rest. p = att_payload (f a b v) @ rest)"
  shows "att_parsed op_code p (two_u16 f p)"
proof (cases "att_le16 p 0")
  case a: (Ok a)
  show ?thesis
  proof (cases "att_le16 p 2")
    case (Ok b)
    from assms [OF att_le16_Ok(2) [OF a this]] a Ok show ?thesis by (simp add: two_u16_def att_parsed_def)
  qed (simp_all add: two_u16_def att_parsed_def att_le16_no_panic a)
qed (simp_all add: two_u16_def att_parsed_def att_le16_no_panic)

lemma byte_then_parsed:
  assumes "\<And>b v. att_wf (f b v) \<and> att_op_code (f b v) = op_code \<and> (\<exists>rest. b # v = att_payload (f b v) @ rest)"
  shows "att_parsed op_code p (byte_then m f p)"
  using assms by (cases p) (simp_all add: byte_then_def first_or_def att_parsed_def)

lemma u16_pairs_inverse: "even (length p) \<Longrightarrow> concat (map u16_to_le_bytes (u16_pairs p)) = p"
  by (induction p rule: u16_pairs.induct) auto

lemma parse_tuples_sound:
  assumes "parse_tuples_loop data offset acc = r" "offset \<le> length data"
  shows "(\<forall>m. r \<noteq> Panic m) \<and> (\<forall>ts. r = Ok ts \<longrightarrow> (\<exists>us. ts = acc @ us \<and> list_all (\<lambda>(n, v). unat n = length v) us \<and>
    drop offset data = concat (map (\<lambda>(n, v). u16_to_le_bytes n @ v) us)))"
  using assms
proof (induction data offset acc arbitrary: r rule: parse_tuples_loop.induct)
  case (1 data offset acc)
  show ?case
  proof (cases "offset < length data")
    case False
    with 1(3) have "offset = length data" by simp
    moreover have "parse_tuples_loop data (length data) acc = Ok acc" by (subst parse_tuples_loop.simps) simp
    ultimately show ?thesis using 1(2) by (auto intro: exI [of _ "[]"])
  next
    case True
    show ?thesis
    proof (cases "att_le16 data offset")
      case (Ok n)
      let ?e = "offset + 2 + unat n" and ?v = "take (unat n) (drop (offset + 2) data)"
      show ?thesis
      proof (cases "?e > length data")
        case False
        have "parse_tuples_loop data ?e (acc @ [(n, ?v)]) = r"
          using 1(2) True Ok False by (subst (asm) parse_tuples_loop.simps) (simp add: Let_def)
        from 1(1) [OF True Ok refl refl _ this] False
        have IH: "\<forall>m. r \<noteq> Panic m" "\<And>ts. r = Ok ts \<Longrightarrow> \<exists>us. ts = (acc @ [(n, ?v)]) @ us \<and>
            list_all (\<lambda>(n, v). unat n = length v) us \<and> drop ?e data = concat (map (\<lambda>(n, v). u16_to_le_bytes n @ v) us)" by simp_all
        have "2 \<le> length (drop offset data)" using Ok True by (simp add: att_le16_def split: if_splits)
        from first_bytes(1) [OF this] have "drop offset data = u16_to_le_bytes n @ drop (offset + 2) data"
          using Ok True by (auto simp: att_le16_def add.commute split: if_splits)
        also have "drop (offset + 2) data = ?v @ drop ?e data"
          by (metis append_take_drop_id drop_drop add.commute)
        finally have d: "drop offset data = u16_to_le_bytes n @ ?v @ drop ?e data" .
        have "\<exists>us. ts = acc @ us \<and> list_all (\<lambda>(n, v). unat n = length v) us \<and>
            drop offset data = concat (map (\<lambda>(n, v). u16_to_le_bytes n @ v) us)" if "r = Ok ts" for ts
        proof -
          from IH(2) [OF that] obtain us where "ts = (acc @ [(n, ?v)]) @ us" "list_all (\<lambda>(n, v). unat n = length v) us"
            "drop ?e data = concat (map (\<lambda>(n, v). u16_to_le_bytes n @ v) us)" by blast
          with d False show ?thesis by (intro exI [of _ "(n, ?v) # us"]) simp
        qed
        with IH(1) show ?thesis by blast
      qed (use 1(2) True Ok in \<open>subst (asm) parse_tuples_loop.simps, force simp: Let_def\<close>)
    qed (use 1(2) True att_le16_no_panic in \<open>subst (asm) parse_tuples_loop.simps, force\<close>)+
  qed
qed

lemma if_parsed:
  "(c \<Longrightarrow> att_parsed op_code p x) \<Longrightarrow> (\<not> c \<Longrightarrow> att_parsed op_code p y) \<Longrightarrow> att_parsed op_code p (if c then x else y)"
  by simp

lemma parsed_simps [simp]:
  "att_parsed op_code p (Err e)"
  "att_parsed op_code p (Ok a) \<longleftrightarrow> att_wf a \<and> att_op_code a = op_code \<and> (\<exists>rest. p = att_payload a @ rest)"
  by (simp_all add: att_parsed_def)

lemma parsed_bind:
  "(\<And>x. r = Ok x \<Longrightarrow> att_parsed op_code p (k x)) \<Longrightarrow> (\<And>m. r \<noteq> Panic m) \<Longrightarrow> att_parsed op_code p (bind_result r k)"
  by (cases r) auto

lemma uuid_result:
  "bad_uuid m (uuid_from_bytes b) = Ok u \<Longrightarrow> uuid_wf u \<and> uuid_bytes u = b" "bad_uuid m (uuid_from_bytes b) \<noteq> Panic m'"
  by (auto simp: bad_uuid_def uuid_from_bytes_def uuid_wf_def split: if_splits)

lemma error_response_parsed:
  "att_parsed ATT_ERROR_RESPONSE p (bind_result (first_or p m) (\<lambda>req. bind_result (att_le16 p 1) (\<lambda>h.
     if length p < 4 then Err e else Ok (AttErrorResponse req h (p ! 3)))))"
proof (rule parsed_bind, rule parsed_bind)
  fix req h assume "first_or p m = Ok req" "att_le16 p 1 = Ok h"
  then show "att_parsed ATT_ERROR_RESPONSE p (if length p < 4 then Err e else Ok (AttErrorResponse req h (p ! 3)))"
    using first_bytes(2) [of p] by (auto simp: first_or_def att_le16_def split: list.splits if_splits)
qed (auto simp: first_or_def att_le16_no_panic split: list.splits)

lemma find_by_type_value_parsed:
  assumes "6 \<le> length p"
  shows "att_parsed ATT_FIND_BY_TYPE_VALUE_REQUEST p (bind_result (bad_uuid m (uuid_from_bytes (take 2 (drop 4 p))))
    (\<lambda>u. two_u16 (\<lambda>a b _. AttFindByTypeValueRequest a b u (drop 6 p)) p))"
proof (rule parsed_bind, rule two_u16_parsed)
  fix u a b v assume u: "bad_uuid m (uuid_from_bytes (take 2 (drop 4 p))) = Ok u" and p: "p = u16_to_le_bytes a @ u16_to_le_bytes b @ v"
  have "uuid_bytes u = take 2 v" "drop 6 p = drop 2 v" "2 \<le> length v"
    using uuid_result(1) [OF u] p assms by simp_all
  then show "att_wf (AttFindByTypeValueRequest a b u (drop 6 p)) \<and>
      att_op_code (AttFindByTypeValueRequest a b u (drop 6 p)) = ATT_FIND_BY_TYPE_VALUE_REQUEST \<and>
      (\<exists>rest. p = att_payload (AttFindByTypeValueRequest a b u (drop 6 p)) @ rest)"
    using p by simp
qed (rule uuid_result(2))

lemma uuid_request_parsed:
  assumes "\<And>a b u. att_op_code (f a b u) = op_code" "\<And>a b u. att_wf (f a b u) = uuid_wf u"
    "\<And>a b u. att_payload (f a b u) = u16_to_le_bytes a @ u16_to_le_bytes b @ uuid_bytes u"
  shows "att_parsed op_code p (bind_result (bad_uuid m (uuid_from_bytes (drop 4 p))) (\<lambda>u. two_u16 (\<lambda>a b _. f a b u) p))"
proof (rule parsed_bind, rule two_u16_parsed)
  fix u a b v assume u: "bad_uuid m (uuid_from_bytes (drop 4 p)) = Ok u" and p: "p = u16_to_le_bytes a @ u16_to_le_bytes b @ v"
  have "uuid_wf u" "uuid_bytes u = v" using uuid_result(1) [OF u] p by simp_all
  then show "att_wf (f a b u) \<and> att_op_code (f a b u) = op_code \<and> (\<exists>rest. p = att_payload (f a b u) @ rest)"
    using p assms by simp
qed (rule uuid_result(2))

lemma signed_write_parsed: "att_parsed ATT_SIGNED_WRITE_COMMAND p (signed_write_of p)"
proof (cases "length p < 14")
  case False
  define t where "t = length p - 12"
  have len: "length p = t + 12" "2 \<le> t" using False by (simp_all add: t_def)
  obtain h where h: "att_le16 p 0 = Ok h" using False by (simp add: att_le16_def)
  let ?q = "drop t p"
  have "4 \<le> length ?q" using len by simp
  then have q: "?q = ?q ! 0 # ?q ! 1 # ?q ! 2 # ?q ! 3 # drop 4 ?q" by (rule first_bytes(2))
  have nth: "?q ! i = p ! (t + i)" if "i < 12" for i using that len by simp
  have "p = take 2 p @ take (t - 2) (drop 2 p) @ ?q"
    using len(2) by (metis append_take_drop_id drop_drop le_add_diff_inverse2)
  also have "take 2 p = u16_to_le_bytes h" using att_le16_Ok(1) [OF h] by (metis append_eq_conv_conj length_to_le_bytes(1))
  finally have "p = u16_to_le_bytes h @ take (t - 2) (drop 2 p) @ ?q" .
  then have payload: "p = u16_to_le_bytes h @ take (t - 2) (drop 2 p) @ [?q ! 0, ?q ! 1, ?q ! 2, ?q ! 3] @ drop 4 ?q"
    using q by simp
  have "signed_write_of p = Ok (AttSignedWriteCommand h (take (t - 2) (drop 2 p))
      (u32_from_le_bytes (?q ! 0) (?q ! 1) (?q ! 2) (?q ! 3)) (drop 4 ?q))"
    using False h len nth by (simp add: signed_write_of_def Let_def t_def [symmetric] add.commute)
  moreover have "length (drop 4 ?q) = 8" using len by simp
  ultimately show ?thesis using payload by (simp only: parsed_simps att_wf.simps att_op_code.simps att_payload.simps u32_to_from_le) auto
qed (simp add: signed_write_of_def)

lemma handles_parsed:
  assumes "\<And>hs. att_wf (f hs) \<and> att_op_code (f hs) = op_code \<and> att_payload (f hs) = concat (map u16_to_le_bytes hs)"
  shows "att_parsed op_code p (bind_result (parse_handles p) (\<lambda>hs. Ok (f hs)))"
  using assms u16_pairs_inverse [of p] by (intro parsed_bind) (auto simp: parse_handles_def split: if_splits)

lemma att_from_bytes_parsed: "att_parsed op_code p (att_from_bytes (op_code # p))"
proof -
  have tuples: "att_parsed ATT_READ_MULTIPLE_VARIABLE_RESPONSE p
      (bind_result (parse_length_value_tuples p) (\<lambda>ts. Ok (AttReadMultipleVariableResponse ts)))"
    using parse_tuples_sound [of p 0 "[]", OF refl] by (intro parsed_bind) (auto simp: parse_length_value_tuples_def)
  show ?thesis
    unfolding att_from_bytes_def list.case
    by (intro if_parsed)
      (auto simp: error_response_parsed [simplified] find_by_type_value_parsed signed_write_parsed tuples not_less att_typed_codes_def
        intro!: one_u16_parsed two_u16_parsed byte_then_parsed uuid_request_parsed handles_parsed)
qed

section \<open>Property\<close>

text \<open>
  Property C27: the codec of the attribute protocol. A well-formed PDU is parsed back from its bytes.
  For arbitrary bytes the parser never panics, and a PDU it returns is well formed (UUIDs of 2, 4 or 16
  bytes, tuple lengths that match, an 8-byte signature, no typed op code in the generic variant) and
  its encoding is the input up to trailing bytes.
\<close>

theorem att_codec:
  "(att_wf p \<longrightarrow> att_from_bytes (att_to_bytes p) = Ok p) \<and> \<not> is_panic (att_from_bytes data) \<and>
   (att_from_bytes data = Ok q \<longrightarrow> att_wf q \<and> (\<exists>rest. data = att_to_bytes q @ rest))"
proof (cases data)
  case Nil
  then show ?thesis by (simp add: att.dec_enc) (simp add: att_from_bytes_def)
next
  case (Cons op_code payload)
  from att_from_bytes_parsed [of op_code payload] show ?thesis
    using att.dec_enc [of p] by (cases "att_from_bytes data") (auto simp: Cons att_parsed_def att_to_bytes_def)
qed

theorem att_codec_witness:
  "att_from_bytes (att_to_bytes (AttReadByTypeRequest 1 0xFFFF (Uuid [0x03, 0x28]))) = Ok (AttReadByTypeRequest 1 0xFFFF (Uuid [0x03, 0x28])) \<and>
   \<not> is_panic (att_from_bytes [0xD2, 1])"
  using att_codec [of "AttReadByTypeRequest 1 0xFFFF (Uuid [0x03, 0x28])" "[0xD2, 1]"] by (simp add: uuid_wf_def)

end
