(* ===== verification/Signed_Write.thy ===== *)
theory Signed_Write
  imports Att
begin

text \<open>
  Signed writes: AES-CMAC of \<open>bumble-crypto/src/lib.rs\<close> over a block cipher, and the signer and verifier
  of \<open>bumble-att/src/lib.rs\<close> with their counters. The AES-128 block encryption comes from the \<open>aes\<close>
  crate and is the parameter \<open>aes\<close>; the theorems assume of it that it returns 16 bytes.
\<close>

section \<open>AES-CMAC\<close>

type_synonym block_cipher = "bytes \<Rightarrow> bytes \<Rightarrow> bytes"

definition cmac_carry :: "bytes \<Rightarrow> nat \<Rightarrow> u8" where
  "cmac_carry input i = (if Suc i < 16 then drop_bit 7 (input ! Suc i) else 0)"

definition cmac_double :: "bytes \<Rightarrow> bytes" where
  "cmac_double input =
     (let out = map (\<lambda>i. push_bit 1 (input ! i) OR cmac_carry input i) [0..<16]
      in if drop_bit 7 (input ! 0) = 1 then out[15 := out ! 15 XOR 0x87] else out)"

definition xor_block :: "bytes \<Rightarrow> bytes \<Rightarrow> bytes" where
  "xor_block x y = map (\<lambda>j. x ! j XOR y ! j) [0..<16]"

fun cmac_blocks :: "(bytes \<Rightarrow> bytes) \<Rightarrow> nat \<Rightarrow> nat \<Rightarrow> bytes \<Rightarrow> bytes \<Rightarrow> bytes" where
  "cmac_blocks encrypt 0 i m x = x"
| "cmac_blocks encrypt (Suc n) i m x = cmac_blocks encrypt n (Suc i) m (encrypt (xor_block x (take 16 (drop (i * 16) m))))"

text \<open>\<open>to_array16\<close> panics on a key of another length; \<open>n\<close> is at least 1.\<close>

definition aes_cmac :: "block_cipher \<Rightarrow> bytes \<Rightarrow> bytes \<Rightarrow> (bytes, rust_error) rresult" where
  "aes_cmac aes m k =
     (if length k \<noteq> 16 then Panic ''copy_from_slice: source slice length does not match destination slice length''
      else let l = aes k (replicate 16 0); k1 = cmac_double l; k2 = cmac_double k1;
               n = max ((length m + 15) div 16) 1;
               last_is_complete = (m \<noteq> [] \<and> length m mod 16 = 0);
               x = cmac_blocks (aes k) (n - 1) 0 m (replicate 16 0);
               rem = drop ((n - 1) * 16) m;
               last_block = (if last_is_complete then xor_block rem k1
                             else xor_block (rem @ [0x80] @ replicate (15 - length rem) 0) k2)
           in Ok (aes k (xor_block x last_block)))"

section \<open>Signer and verifier\<close>

text \<open>Of the pairing keys the two signature keys with their counters are used.\<close>

record pairing_key =
  key_value :: bytes
  key_sign_counter :: "u32 option"

record signature_keys =
  key_csrk :: "pairing_key option"
  key_local_csrk :: "pairing_key option"

record signed_write_signer =
  sgn_csrk :: bytes
  sgn_next_counter :: u32

record signed_write_verifier =
  ver_csrk :: bytes
  ver_last_counter :: "u32 option"

definition signed_write_signature :: "block_cipher \<Rightarrow> bytes \<Rightarrow> u16 \<Rightarrow> bytes \<Rightarrow> u32 \<Rightarrow> (bytes, rust_error) rresult" where
  "signed_write_signature aes csrk handle v counter =
     bind_result (aes_cmac aes (ATT_SIGNED_WRITE_COMMAND # u16_to_le_bytes handle @ v @ u32_to_le_bytes counter) csrk)
       (\<lambda>t. if length t < 8 then Panic ''range end index 8 out of range'' else Ok (take 8 t))"

definition signer_new :: "bytes \<Rightarrow> u32 \<Rightarrow> signed_write_signer" where
  "signer_new csrk n = \<lparr>sgn_csrk = csrk, sgn_next_counter = n\<rparr>"

definition signer_from_pairing_keys :: "signature_keys \<Rightarrow> signed_write_signer option" where
  "signer_from_pairing_keys keys =
     (case key_local_csrk keys of
        None \<Rightarrow> None
      | Some key \<Rightarrow>
          if length (key_value key) = 16 then
            Some (signer_new (key_value key) (case key_sign_counter key of None \<Rightarrow> 0 | Some n \<Rightarrow> n))
          else None)"

definition signer_save_counter :: "signed_write_signer \<Rightarrow> signature_keys \<Rightarrow> bool \<times> signature_keys" where
  "signer_save_counter s keys =
     (case key_local_csrk keys of
        None \<Rightarrow> (False, keys)
      | Some key \<Rightarrow> (True, keys\<lparr>key_local_csrk := Some (key\<lparr>key_sign_counter := Some (sgn_next_counter s)\<rparr>)\<rparr>))"

text \<open>\<open>checked_add\<close> refuses the last counter value, and the early return leaves the signer as it is.\<close>

definition sign :: "block_cipher \<Rightarrow> u16 \<Rightarrow> bytes \<Rightarrow> (signed_write_signer, att_pdu option, rust_error) op" where
  "sign aes handle v s =
     (let counter = sgn_next_counter s
      in if unat counter + 1 > 0xFFFFFFFF then (Ok None, s)
         else let s' = s\<lparr>sgn_next_counter := counter + 1\<rparr>
              in (bind_result (signed_write_signature aes (sgn_csrk s') handle v counter)
                    (\<lambda>t. Ok (Some (AttSignedWriteCommand handle v counter t))), s'))"

definition verifier_new :: "bytes \<Rightarrow> u32 option \<Rightarrow> signed_write_verifier" where
  "verifier_new csrk n = \<lparr>ver_csrk = csrk, ver_last_counter = n\<rparr>"

definition verifier_from_pairing_keys :: "signature_keys \<Rightarrow> signed_write_verifier option" where
  "verifier_from_pairing_keys keys =
     (case key_csrk keys of
        None \<Rightarrow> None
      | Some key \<Rightarrow> if length (key_value key) = 16 then Some (verifier_new (key_value key) (key_sign_counter key)) else None)"

definition verifier_save_counter :: "signed_write_verifier \<Rightarrow> signature_keys \<Rightarrow> bool \<times> signature_keys" where
  "verifier_save_counter v keys =
     (case key_csrk keys of
        None \<Rightarrow> (False, keys)
      | Some key \<Rightarrow> (True, keys\<lparr>key_csrk := Some (key\<lparr>key_sign_counter := ver_last_counter v\<rparr>)\<rparr>))"

definition difference :: "bytes \<Rightarrow> bytes \<Rightarrow> u8" where
  "difference signature expected = foldl (\<lambda>d (a, e). d OR (a XOR e)) 0 (zip signature expected)"

definition verify :: "block_cipher \<Rightarrow> att_pdu \<Rightarrow> (signed_write_verifier, bool, rust_error) op" where
  "verify aes pdu v =
     (case pdu of
        AttSignedWriteCommand handle value counter signature \<Rightarrow>
          if (case ver_last_counter v of None \<Rightarrow> False | Some last_counter \<Rightarrow> counter \<le> last_counter) then (Ok False, v)
          else (case signed_write_signature aes (ver_csrk v) handle value counter of
                  Ok expected \<Rightarrow>
                    if difference signature expected \<noteq> 0 then (Ok False, v)
                    else (Ok True, v\<lparr>ver_last_counter := Some counter\<rparr>)
                | Err e \<Rightarrow> (Err e, v)
                | Panic p \<Rightarrow> (Panic p, v))
      | _ \<Rightarrow> (Ok False, v))"

section \<open>Signatures\<close>

lemma aes_cmac_ok:
  assumes "\<And>k b. length (aes k b) = 16" and "length k = 16"
  shows "\<exists>t. aes_cmac aes m k = Ok t \<and> length t = 16"
proof -
  have "\<not> length k \<noteq> 16" using assms(2) by simp
  then have "\<exists>b. aes_cmac aes m k = Ok (aes k b)" unfolding aes_cmac_def Let_def by (simp only: if_False) blast
  then show ?thesis using assms(1) by blast
qed

lemma signature_ok:
  assumes "\<And>k b. length (aes k b) = 16" and "length csrk = 16"
  shows "\<exists>t. signed_write_signature aes csrk h v n = Ok t \<and> length t = 8"
proof -
  obtain t where "aes_cmac aes (ATT_SIGNED_WRITE_COMMAND # u16_to_le_bytes h @ v @ u32_to_le_bytes n) csrk = Ok t" "length t = 16"
    using aes_cmac_ok [of aes csrk, OF assms] by blast
  then show ?thesis unfolding signed_write_signature_def by simp
qed

lemma or_fold: "foldl (\<lambda>d (a, e). d OR (a XOR e)) (d :: u8) ps = 0 \<longleftrightarrow> d = 0 \<and> (\<forall>(a, e) \<in> set ps. a = e)"
proof (induction ps arbitrary: d)
  case (Cons p ps)
  have "(x :: u8) OR y = 0 \<longleftrightarrow> x = 0 \<and> y = 0" for x y by (rule or_eq_0_iff)
  moreover have "(x :: u8) XOR y = 0 \<longleftrightarrow> x = y" for x y by (simp only: bit_eq_iff bit_xor_iff bit_0_eq) blast
  ultimately show ?case by (cases p) (simp add: Cons.IH)
qed simp

lemma difference_0: "length s = length e \<Longrightarrow> difference s e = 0 \<longleftrightarrow> s = e"
  unfolding difference_def or_fold by (induction s e rule: list_induct2) auto

section \<open>Runs of the verifier\<close>

fun signed_counter :: "att_pdu \<Rightarrow> u32" where
  "signed_counter (AttSignedWriteCommand _ _ n _) = n"
| "signed_counter _ = 0"

fun genuine :: "block_cipher \<Rightarrow> bytes \<Rightarrow> att_pdu \<Rightarrow> bool" where
  "genuine aes csrk (AttSignedWriteCommand h v n s) \<longleftrightarrow> signed_write_signature aes csrk h v n = Ok s"
| "genuine aes csrk _ \<longleftrightarrow> False"

text \<open>The PDUs a sequence of \<open>verify\<close> calls accepts.\<close>

fun accepted_writes :: "block_cipher \<Rightarrow> signed_write_verifier \<Rightarrow> att_pdu list \<Rightarrow> att_pdu list" where
  "accepted_writes aes v [] = []"
| "accepted_writes aes v (p # ps) =
     (if fst (verify aes p v) = Ok True then [p] else []) @ accepted_writes aes (snd (verify aes p v)) ps"

lemma verify_cases:
  assumes "\<And>k b. length (aes k b) = 16" "length (ver_csrk v) = 16" "att_wf p"
  shows "verify aes p v = (Ok False, v) \<or>
    (verify aes p v = (Ok True, v\<lparr>ver_last_counter := Some (signed_counter p)\<rparr>) \<and> genuine aes (ver_csrk v) p \<and>
     (\<forall>n. ver_last_counter v = Some n \<longrightarrow> n < signed_counter p))"
proof (cases p)
  case (AttSignedWriteCommand h d n s)
  obtain t where t: "signed_write_signature aes (ver_csrk v) h d n = Ok t" "length t = 8"
    using signature_ok [of aes, OF assms(1,2)] by blast
  have "difference s t = 0 \<longleftrightarrow> s = t" using difference_0 [of s t] t(2) assms(3) AttSignedWriteCommand by simp
  then show ?thesis
    using AttSignedWriteCommand t(1) by (auto simp: verify_def split: option.splits if_splits)
qed (simp_all add: verify_def)

lemma accepted_writes_sorted:
  assumes "\<And>k b. length (aes k b) = 16" "length (ver_csrk v) = 16" "list_all att_wf ps"
  shows "sorted_wrt (<) (map signed_counter (accepted_writes aes v ps)) \<and>
    list_all (genuine aes (ver_csrk v)) (accepted_writes aes v ps) \<and>
    (\<forall>n. ver_last_counter v = Some n \<longrightarrow> (\<forall>p \<in> set (accepted_writes aes v ps). n < signed_counter p))"
  using assms(2,3)
proof (induction ps arbitrary: v)
  case (Cons p ps)
  from verify_cases [of aes v p, OF assms(1) Cons.prems(1)] Cons.prems(2)
  consider "verify aes p v = (Ok False, v)"
    | "verify aes p v = (Ok True, v\<lparr>ver_last_counter := Some (signed_counter p)\<rparr>)" "genuine aes (ver_csrk v) p"
      "\<forall>n. ver_last_counter v = Some n \<longrightarrow> n < signed_counter p" by auto
  then show ?case
  proof cases
    case 1
    then show ?thesis using Cons.IH [of v] Cons.prems by simp
  next
    case 2
    with Cons.IH [of "v\<lparr>ver_last_counter := Some (signed_counter p)\<rparr>"] Cons.prems show ?thesis by force
  qed
qed simp

section \<open>Property\<close>

text \<open>
  Property C13: signed writes, for any block cipher with 16-byte blocks and 16-byte keys. What a signer
  signs a verifier with the same key accepts, if its last counter is below the signer's; the signer then
  moves to the next counter and never hands out the last one. Whatever well-formed PDUs are presented to
  a verifier, those it accepts carry the right signature and strictly increasing counters, above the last
  one it had accepted before: no write is accepted twice.
\<close>

theorem signed_writes:
  assumes "\<And>k b. length (aes k b) = 16" and "length csrk = 16" and "list_all att_wf ps"
    and "ver_csrk v = csrk" and "sgn_csrk s = csrk" and "unat (sgn_next_counter s) < 0xFFFFFFFF"
    and "\<forall>n. ver_last_counter v = Some n \<longrightarrow> n < sgn_next_counter s"
  shows "(\<exists>pdu. sign aes h d s = (Ok (Some pdu), s\<lparr>sgn_next_counter := sgn_next_counter s + 1\<rparr>) \<and> att_wf pdu \<and>
      verify aes pdu v = (Ok True, v\<lparr>ver_last_counter := Some (sgn_next_counter s)\<rparr>) \<and>
      fst (verify aes pdu (snd (verify aes pdu v))) = Ok False) \<and>
    sorted_wrt (<) (map signed_counter (accepted_writes aes v ps)) \<and> distinct (accepted_writes aes v ps) \<and>
    list_all (genuine aes csrk) (accepted_writes aes v ps) \<and>
    (\<forall>n. ver_last_counter v = Some n \<longrightarrow> (\<forall>p \<in> set (accepted_writes aes v ps). n < signed_counter p))"
proof -
  obtain t where t: "signed_write_signature aes csrk h d (sgn_next_counter s) = Ok t" "length t = 8"
    using signature_ok [of aes, OF assms(1,2)] by blast
  let ?pdu = "AttSignedWriteCommand h d (sgn_next_counter s) t"
  have "sign aes h d s = (Ok (Some ?pdu), s\<lparr>sgn_next_counter := sgn_next_counter s + 1\<rparr>)"
    using t(1) assms(5,6) by (simp add: sign_def Let_def)
  moreover have "verify aes ?pdu v = (Ok True, v\<lparr>ver_last_counter := Some (sgn_next_counter s)\<rparr>)"
    using t assms(4,7) difference_0 [of t t] by (auto simp: verify_def split: option.splits)
  moreover from this have "fst (verify aes ?pdu (snd (verify aes ?pdu v))) = Ok False" by (simp add: verify_def)
  moreover have "att_wf ?pdu" using t(2) by simp
  moreover have run: "sorted_wrt (<) (map signed_counter (accepted_writes aes v ps)) \<and>
      list_all (genuine aes csrk) (accepted_writes aes v ps) \<and>
      (\<forall>n. ver_last_counter v = Some n \<longrightarrow> (\<forall>p \<in> set (accepted_writes aes v ps). n < signed_counter p))"
    using accepted_writes_sorted [of aes v ps, OF assms(1)] assms(2-4) by simp
  moreover have "distinct (map signed_counter (accepted_writes aes v ps))"
    using run by (simp add: strict_sorted_iff)
  ultimately show ?thesis by (auto simp: distinct_map)
qed

theorem signed_writes_witness:
  "\<exists>aes s v pdu. (\<forall>k b. length (aes k b) = 16) \<and> sign aes 3 [1] s = (Ok (Some pdu), s\<lparr>sgn_next_counter := 1\<rparr>) \<and>
     verify aes pdu v = (Ok True, v\<lparr>ver_last_counter := Some 0\<rparr>)"
proof -
  define aes :: block_cipher where "aes = (\<lambda>k b. take 16 (map (\<lambda>x. x XOR 0x5A) b @ k @ replicate 16 0))"
  define s v where "s = signer_new (replicate 16 7) 0" and "v = verifier_new (replicate 16 7) None"
  have aes: "length (aes k b) = 16" for k b by (simp add: aes_def)
  have "\<exists>pdu. sign aes 3 [1] s = (Ok (Some pdu), s\<lparr>sgn_next_counter := sgn_next_counter s + 1\<rparr>) \<and> att_wf pdu \<and>
      verify aes pdu v = (Ok True, v\<lparr>ver_last_counter := Some (sgn_next_counter s)\<rparr>) \<and>
      fst (verify aes pdu (snd (verify aes pdu v))) = Ok False"
    using signed_writes [of aes "replicate 16 7" "[]" v s 3 "[1]"] aes by (simp add: s_def v_def signer_new_def verifier_new_def)
  moreover have "sgn_next_counter s = 0" by (simp add: s_def signer_new_def)
  ultimately show ?thesis using aes by (metis add_0)
qed

end
