(* ===== verification/Gatt_Server.thy ===== *)
theory Gatt_Server
  imports Signed_Write Ordered_Map "HOL-Library.Product_Lexorder"
begin

text \<open>
  The attribute servers of \<open>bumble-gatt/src/lib.rs\<close>: the bare table \<open>AttServer\<close> and the
  \<open>GattServer\<close> with its database built from service definitions, access checks, bearer-local state and
  every request it answers. A panic of the code is a \<open>Panic\<close> of the model; \<open>return error(op, handle, code)\<close>
  inside a handler is \<open>Err (handle, code)\<close>, which \<open>answer\<close> turns into the response.
\<close>

section \<open>Constants\<close>

definition GATT_PRIMARY_SERVICE_UUID :: u16 where "GATT_PRIMARY_SERVICE_UUID = 0x2800"
definition GATT_SECONDARY_SERVICE_UUID :: u16 where "GATT_SECONDARY_SERVICE_UUID = 0x2801"
definition GATT_INCLUDE_UUID :: u16 where "GATT_INCLUDE_UUID = 0x2802"
definition GATT_CHARACTERISTIC_UUID :: u16 where "GATT_CHARACTERISTIC_UUID = 0x2803"
definition GATT_CLIENT_CHARACTERISTIC_CONFIGURATION_UUID :: u16 where "GATT_CLIENT_CHARACTERISTIC_CONFIGURATION_UUID = 0x2902"

definition NOTIFY :: u8 where "NOTIFY = 0x10"
definition INDICATE :: u8 where "INDICATE = 0x20"

definition READABLE :: u8 where "READABLE = 0x01"
definition WRITEABLE :: u8 where "WRITEABLE = 0x02"
definition READ_REQUIRES_ENCRYPTION :: u8 where "READ_REQUIRES_ENCRYPTION = 0x04"
definition WRITE_REQUIRES_ENCRYPTION :: u8 where "WRITE_REQUIRES_ENCRYPTION = 0x08"
definition READ_REQUIRES_AUTHENTICATION :: u8 where "READ_REQUIRES_AUTHENTICATION = 0x10"
definition WRITE_REQUIRES_AUTHENTICATION :: u8 where "WRITE_REQUIRES_AUTHENTICATION = 0x20"
definition READ_REQUIRES_AUTHORIZATION :: u8 where "READ_REQUIRES_AUTHORIZATION = 0x40"
definition WRITE_REQUIRES_AUTHORIZATION :: u8 where "WRITE_REQUIRES_AUTHORIZATION = 0x80"

definition ATT_READ_NOT_PERMITTED_ERROR :: u8 where "ATT_READ_NOT_PERMITTED_ERROR = 0x02"
definition ATT_WRITE_NOT_PERMITTED_ERROR :: u8 where "ATT_WRITE_NOT_PERMITTED_ERROR = 0x03"
definition ATT_INVALID_PDU_ERROR :: u8 where "ATT_INVALID_PDU_ERROR = 0x04"
definition ATT_INSUFFICIENT_AUTHENTICATION_ERROR :: u8 where "ATT_INSUFFICIENT_AUTHENTICATION_ERROR = 0x05"
definition ATT_REQUEST_NOT_SUPPORTED_ERROR :: u8 where "ATT_REQUEST_NOT_SUPPORTED_ERROR = 0x06"
definition ATT_INVALID_OFFSET_ERROR :: u8 where "ATT_INVALID_OFFSET_ERROR = 0x07"
definition ATT_INSUFFICIENT_AUTHORIZATION_ERROR :: u8 where "ATT_INSUFFICIENT_AUTHORIZATION_ERROR = 0x08"
definition ATT_ATTRIBUTE_NOT_FOUND_ERROR :: u8 where "ATT_ATTRIBUTE_NOT_FOUND_ERROR = 0x0A"
definition ATT_ATTRIBUTE_NOT_LONG_ERROR :: u8 where "ATT_ATTRIBUTE_NOT_LONG_ERROR = 0x0B"
definition ATT_INSUFFICIENT_ENCRYPTION_ERROR :: u8 where "ATT_INSUFFICIENT_ENCRYPTION_ERROR = 0x0F"

definition ATT_DEFAULT_MTU :: u16 where "ATT_DEFAULT_MTU = 23"

section \<open>Answers\<close>

type_synonym 'a handled = "('a, u16 \<times> u8) rresult"

fun answer :: "u8 \<Rightarrow> att_pdu handled \<Rightarrow> (att_pdu, unit) rresult" where
  "answer op_code (Ok pdu) = Ok pdu"
| "answer op_code (Err (handle, code)) = Ok (AttErrorResponse op_code handle code)"
| "answer op_code (Panic p) = Panic p"

definition truncate_to :: "bytes \<Rightarrow> nat \<Rightarrow> bytes" where
  "truncate_to v n = take (min (length v) n) v"

text \<open>\<open>usize::from(mtu - k)\<close>: the subtraction is on 16 bits.\<close>

definition mtu_minus :: "u16 \<Rightarrow> u16 \<Rightarrow> (nat, 'e) rresult" where
  "mtu_minus mtu k = (if mtu < k then Panic ''attempt to subtract with overflow'' else Ok (unat (mtu - k)))"

section \<open>The bare attribute table\<close>

record att_server =
  as_attributes :: "(u16, bytes) btree_map"
  as_mtu :: u16
  as_prepared_writes :: "(u16 \<times> u16 \<times> bytes) list"
  as_verifier :: "signed_write_verifier option"

definition att_server_new :: att_server where
  "att_server_new = \<lparr>as_attributes = [], as_mtu = ATT_DEFAULT_MTU, as_prepared_writes = [], as_verifier = None\<rparr>"

definition as_set_attribute :: "u16 \<Rightarrow> bytes \<Rightarrow> att_server \<Rightarrow> att_server" where
  "as_set_attribute handle v s = s\<lparr>as_attributes := bt_insert handle v (as_attributes s)\<rparr>"

definition as_set_signed_write_key :: "bytes \<Rightarrow> u32 option \<Rightarrow> att_server \<Rightarrow> att_server" where
  "as_set_signed_write_key csrk counter s = s\<lparr>as_verifier := Some (verifier_new csrk counter)\<rparr>"

definition as_lookup :: "att_server \<Rightarrow> u16 \<Rightarrow> bytes handled" where
  "as_lookup s handle =
     (case bt_get (as_attributes s) handle of None \<Rightarrow> Err (handle, ATT_ATTRIBUTE_NOT_FOUND_ERROR) | Some v \<Rightarrow> Ok v)"

text \<open>The loops of \<open>read_multiple\<close>, over a function that reads one handle: they stop at the first value that does not fit.\<close>

fun variable_tuples :: "(u16 \<Rightarrow> bytes handled) \<Rightarrow> u16 \<Rightarrow> u16 list \<Rightarrow> nat \<Rightarrow> (u16 \<times> bytes) list \<Rightarrow> (u16 \<times> bytes) list handled" where
  "variable_tuples read mtu [] remaining tuples = Ok tuples"
| "variable_tuples read mtu (h # hs) remaining tuples =
     bind_result (read h) (\<lambda>v. bind_result (mtu_minus mtu 3) (\<lambda>n.
       let part = truncate_to v (min n 251)
       in if length part + 2 > remaining then Ok tuples
          else variable_tuples read mtu hs (remaining - (length part + 2))
                 (tuples @ [(of_nat (min (length v) 65535), part)])))"

fun joined_values :: "(u16 \<Rightarrow> bytes handled) \<Rightarrow> u16 \<Rightarrow> u16 list \<Rightarrow> nat \<Rightarrow> bytes \<Rightarrow> bytes handled" where
  "joined_values read mtu [] remaining vs = Ok vs"
| "joined_values read mtu (h # hs) remaining vs =
     bind_result (read h) (\<lambda>v. bind_result (mtu_minus mtu 1) (\<lambda>n.
       let part = truncate_to v (min n 251)
       in if length part > remaining then Ok vs
          else joined_values read mtu hs (remaining - length part) (vs @ part)))"

definition read_multiple :: "(u16 \<Rightarrow> bytes handled) \<Rightarrow> u16 \<Rightarrow> u16 list \<Rightarrow> bool \<Rightarrow> (att_pdu, unit) rresult" where
  "read_multiple read mtu handles variable =
     (if variable then
        answer ATT_READ_MULTIPLE_VARIABLE_REQUEST (bind_result (mtu_minus mtu 1) (\<lambda>remaining.
          bind_result (variable_tuples read mtu handles remaining []) (\<lambda>ts. Ok (AttReadMultipleVariableResponse ts))))
      else
        answer ATT_READ_MULTIPLE_REQUEST (bind_result (mtu_minus mtu 1) (\<lambda>remaining.
          bind_result (joined_values read mtu handles remaining []) (\<lambda>vs. Ok (AttReadMultipleResponse vs)))))"

text \<open>One prepared write on the staged values: the value grows to hold the part, which then overwrites it.\<close>

definition overlay :: "nat \<Rightarrow> bytes \<Rightarrow> bytes \<Rightarrow> bytes" where
  "overlay offset part v =
     (let end_pos = offset + length part;
          v' = (if end_pos > length v then v @ replicate (end_pos - length v) 0 else v)
      in take offset v' @ part @ drop end_pos v')"

definition stage_write :: "u16 \<times> u16 \<times> bytes \<Rightarrow> (u16, bytes) btree_map \<Rightarrow> (u16, bytes) btree_map handled" where
  "stage_write = (\<lambda>(handle, offset, part) staged.
     case bt_get staged handle of
       None \<Rightarrow> Err (handle, ATT_ATTRIBUTE_NOT_FOUND_ERROR)
     | Some v \<Rightarrow>
         if unat offset > length v then Err (handle, ATT_INVALID_OFFSET_ERROR)
         else Ok (bt_insert handle (overlay (unat offset) part v) staged))"

fun as_stage :: "(u16 \<times> u16 \<times> bytes) list \<Rightarrow> (u16, bytes) btree_map \<Rightarrow> (u16, bytes) btree_map handled" where
  "as_stage [] staged = Ok staged"
| "as_stage (w # ws) staged = bind_result (stage_write w staged) (as_stage ws)"

definition as_execute_writes :: "u8 \<Rightarrow> (att_server, att_pdu, unit) op" where
  "as_execute_writes flags s =
     (if flags = 0 then (Ok AttExecuteWriteResponse, s\<lparr>as_prepared_writes := []\<rparr>)
      else if flags \<noteq> 1 then (answer ATT_EXECUTE_WRITE_REQUEST (Err (0, ATT_INVALID_PDU_ERROR)), s)
      else let s' = s\<lparr>as_prepared_writes := []\<rparr>
           in case as_stage (as_prepared_writes s) (as_attributes s) of
                Ok staged \<Rightarrow> (Ok AttExecuteWriteResponse, s'\<lparr>as_attributes := staged\<rparr>)
              | Err e \<Rightarrow> (answer ATT_EXECUTE_WRITE_REQUEST (Err e), s')
              | Panic p \<Rightarrow> (Panic p, s'))"

definition as_write :: "u16 \<Rightarrow> bytes \<Rightarrow> att_server \<Rightarrow> att_server" where
  "as_write handle v s =
     (if bt_contains_key (as_attributes s) handle then s\<lparr>as_attributes := bt_insert handle v (as_attributes s)\<rparr> else s)"

text \<open>\<open>is_some_and(|verifier| verifier.verify(request))\<close>\<close>

definition check_signature ::
  "block_cipher \<Rightarrow> att_pdu \<Rightarrow> signed_write_verifier option \<Rightarrow> (bool, rust_error) rresult \<times> signed_write_verifier option" where
  "check_signature aes request verifier =
     (case verifier of
        None \<Rightarrow> (Ok False, None)
      | Some v \<Rightarrow> (let (r, v') = verify aes request v in (r, Some v')))"

definition as_on_request :: "block_cipher \<Rightarrow> att_pdu \<Rightarrow> (att_server, att_pdu, unit) op" where
  "as_on_request aes request s =
     (case request of
        AttExchangeMtuRequest _ \<Rightarrow> (Ok (AttExchangeMtuResponse (as_mtu s)), s)
      | AttReadRequest h \<Rightarrow> (answer ATT_READ_REQUEST (bind_result (as_lookup s h) (\<lambda>v. Ok (AttReadResponse v))), s)
      | AttReadMultipleRequest hs \<Rightarrow> (read_multiple (as_lookup s) (as_mtu s) hs False, s)
      | AttReadMultipleVariableRequest hs \<Rightarrow> (read_multiple (as_lookup s) (as_mtu s) hs True, s)
      | AttWriteRequest h v \<Rightarrow>
          (answer ATT_WRITE_REQUEST (bind_result (as_lookup s h) (\<lambda>_. Ok AttWriteResponse)), as_write h v s)
      | AttWriteCommand h v \<Rightarrow> (Ok AttHandleValueConfirmation, as_write h v s)
      | AttSignedWriteCommand h v n sig \<Rightarrow>
          (let (verified, verifier) = check_signature aes request (as_verifier s); s' = s\<lparr>as_verifier := verifier\<rparr>
           in case verified of
                Ok True \<Rightarrow> (Ok AttHandleValueConfirmation, as_write h v s')
              | Panic p \<Rightarrow> (Panic p, s')
              | _ \<Rightarrow> (Ok AttHandleValueConfirmation, s'))
      | AttPrepareWriteRequest h offset part \<Rightarrow>
          (case as_lookup s h of
             Ok _ \<Rightarrow> (Ok (AttPrepareWriteResponse h offset part),
                       s\<lparr>as_prepared_writes := as_prepared_writes s @ [(h, offset, part)]\<rparr>)
           | Err e \<Rightarrow> (answer ATT_PREPARE_WRITE_REQUEST (Err e), s)
           | Panic p \<Rightarrow> (Panic p, s))
      | AttExecuteWriteRequest flags \<Rightarrow> as_execute_writes flags s
      | other \<Rightarrow> (answer (att_op_code other) (Err (0, ATT_REQUEST_NOT_SUPPORTED_ERROR)), s))"

section \<open>The database\<close>

record access_context =
  bearer_id :: u64
  ac_encrypted :: bool
  ac_authenticated :: bool
  ac_authorized :: bool

definition access_context_default :: access_context where
  "access_context_default = \<lparr>bearer_id = 0, ac_encrypted = False, ac_authenticated = False, ac_authorized = False\<rparr>"

text \<open>
  A dynamic value is the configuration descriptor of a characteristic, whose callbacks share the
  table of subscriptions of the server, or a pair of callbacks of the application. The callbacks act on the
  state \<open>'w\<close> of the application; a read callback observes it.
\<close>

datatype 'w dynamic_value =
    CccdValue u16
  | DynamicValue "(access_context \<Rightarrow> 'w \<Rightarrow> (bytes, u8) rresult) option"
      "(access_context \<Rightarrow> bytes \<Rightarrow> 'w \<Rightarrow> (unit, u8) rresult \<times> 'w) option"

record 'w attribute =
  at_handle :: u16
  at_type :: uuid
  at_end_group :: u16
  at_permissions :: u8
  at_value :: bytes
  at_dynamic :: "'w dynamic_value option"

record 'w gatt_server =
  gs_attributes :: "'w attribute list"
  gs_mtu :: u16
  gs_negotiated_mtus :: "(u64, u16) btree_map"
  gs_prepared_writes :: "(u64, (u16 \<times> u16 \<times> bytes) list) btree_map"
  gs_subscriptions :: "(u64 \<times> u16, u16) btree_map"
  gs_verifier :: "signed_write_verifier option"
  gs_world :: 'w

type_synonym ('w, 'a) gatt_op = "('w gatt_server, 'a, unit) op"

record descriptor_definition =
  dd_uuid :: uuid
  dd_permissions :: u8
  dd_value :: bytes

record characteristic_definition =
  cd_uuid :: uuid
  cd_properties :: u8
  cd_permissions :: u8
  cd_value :: bytes
  cd_descriptors :: "descriptor_definition list"

record service_definition =
  sd_uuid :: uuid
  sd_primary :: bool
  sd_included :: "nat list"
  sd_characteristics :: "characteristic_definition list"

datatype database_error =
    InvalidIncludedService nat nat
  | UnknownAttribute u16
  | TooManyAttributes

definition is_cccd :: "descriptor_definition \<Rightarrow> bool" where
  "is_cccd d \<longleftrightarrow> uuid_eq (dd_uuid d) (uuid_from_16_bits GATT_CLIENT_CHARACTERISTIC_CONFIGURATION_UUID)"

definition needs_cccd :: "characteristic_definition \<Rightarrow> bool" where
  "needs_cccd c \<longleftrightarrow> cd_properties c AND (NOTIFY OR INDICATE) \<noteq> 0 \<and> \<not> list_ex is_cccd (cd_descriptors c)"

definition characteristic_count :: "characteristic_definition \<Rightarrow> nat" where
  "characteristic_count c = 2 + length (cd_descriptors c) + (if needs_cccd c then 1 else 0)"

definition service_count :: "service_definition \<Rightarrow> nat" where
  "service_count s = 1 + length (sd_included s) + sum_list (map characteristic_count (sd_characteristics s))"

text \<open>The first loop of \<open>from_definitions\<close>: the handle range of every service.\<close>

fun layouts :: "nat \<Rightarrow> service_definition list \<Rightarrow> ((u16 \<times> u16) list, database_error) rresult" where
  "layouts next_handle [] = Ok []"
| "layouts next_handle (s # ss) =
     (let end_pos = next_handle + (service_count s - 1)
      in if end_pos > 65535 then Err TooManyAttributes
         else bind_result (layouts (end_pos + 1) ss) (\<lambda>ls. Ok ((of_nat next_handle, of_nat end_pos) # ls)))"

text \<open>The second loop: the first included index that is out of range.\<close>

fun check_included :: "nat \<Rightarrow> nat \<Rightarrow> service_definition list \<Rightarrow> (unit, database_error) rresult" where
  "check_included n i [] = Ok ()"
| "check_included n i (s # ss) =
     (case List.find (\<lambda>k. k \<ge> n) (sd_included s) of
        Some k \<Rightarrow> Err (InvalidIncludedService i k)
      | None \<Rightarrow> check_included n (Suc i) ss)"

definition include_attribute :: "(u16 \<times> u16) list \<Rightarrow> uuid list \<Rightarrow> nat \<Rightarrow> nat \<Rightarrow> 'w attribute" where
  "include_attribute ls uuids handle i =
     \<lparr>at_handle = of_nat handle, at_type = uuid_from_16_bits GATT_INCLUDE_UUID, at_end_group = of_nat handle,
      at_permissions = READABLE,
      at_value = u16_to_le_bytes (fst (ls ! i)) @ u16_to_le_bytes (snd (ls ! i)) @
        (if length (uuid_bytes (uuids ! i)) = 2 then uuid_bytes (uuids ! i) else []),
      at_dynamic = None\<rparr>"

definition descriptor_attribute :: "nat \<Rightarrow> nat \<Rightarrow> descriptor_definition \<Rightarrow> 'w attribute" where
  "descriptor_attribute value_handle handle d =
     \<lparr>at_handle = of_nat handle, at_type = dd_uuid d, at_end_group = of_nat handle, at_permissions = dd_permissions d,
      at_value = dd_value d, at_dynamic = (if is_cccd d then Some (CccdValue (of_nat value_handle)) else None)\<rparr>"

definition declaration_attribute :: "nat \<Rightarrow> characteristic_definition \<Rightarrow> 'w attribute" where
  "declaration_attribute handle c =
     \<lparr>at_handle = of_nat handle, at_type = uuid_from_16_bits GATT_CHARACTERISTIC_UUID, at_end_group = of_nat handle,
      at_permissions = READABLE,
      at_value = cd_properties c # u16_to_le_bytes (of_nat (handle + 1)) @ uuid_bytes (cd_uuid c), at_dynamic = None\<rparr>"

definition value_attribute :: "nat \<Rightarrow> characteristic_definition \<Rightarrow> 'w attribute" where
  "value_attribute handle c =
     \<lparr>at_handle = of_nat handle, at_type = cd_uuid c, at_end_group = of_nat handle, at_permissions = cd_permissions c,
      at_value = cd_value c, at_dynamic = None\<rparr>"

definition cccd_attribute :: "nat \<Rightarrow> nat \<Rightarrow> 'w attribute" where
  "cccd_attribute value_handle handle =
     \<lparr>at_handle = of_nat handle, at_type = uuid_from_16_bits GATT_CLIENT_CHARACTERISTIC_CONFIGURATION_UUID,
      at_end_group = of_nat handle, at_permissions = READABLE OR WRITEABLE, at_value = [0, 0],
      at_dynamic = Some (CccdValue (of_nat value_handle))\<rparr>"

definition characteristic_attributes :: "nat \<Rightarrow> characteristic_definition \<Rightarrow> 'w attribute list" where
  "characteristic_attributes handle c =
     [declaration_attribute handle c, value_attribute (handle + 1) c] @
     map (\<lambda>(k, d). descriptor_attribute (handle + 1) k d) (enumerate (handle + 2) (cd_descriptors c)) @
     (if needs_cccd c then [cccd_attribute (handle + 1) (handle + 2 + length (cd_descriptors c))] else [])"

fun characteristics_attributes :: "nat \<Rightarrow> characteristic_definition list \<Rightarrow> 'w attribute list" where
  "characteristics_attributes handle [] = []"
| "characteristics_attributes handle (c # cs) =
     characteristic_attributes handle c @ characteristics_attributes (handle + characteristic_count c) cs"

definition service_declaration :: "nat \<Rightarrow> u16 \<times> u16 \<Rightarrow> service_definition \<Rightarrow> 'w attribute" where
  "service_declaration handle l s =
     \<lparr>at_handle = of_nat handle,
      at_type = uuid_from_16_bits (if sd_primary s then GATT_PRIMARY_SERVICE_UUID else GATT_SECONDARY_SERVICE_UUID),
      at_end_group = snd l, at_permissions = READABLE, at_value = uuid_bytes (sd_uuid s), at_dynamic = None\<rparr>"

definition service_attributes :: "(u16 \<times> u16) list \<Rightarrow> uuid list \<Rightarrow> nat \<Rightarrow> u16 \<times> u16 \<Rightarrow> service_definition \<Rightarrow> 'w attribute list" where
  "service_attributes ls uuids handle l s =
     service_declaration handle l s #
     map (\<lambda>(k, i). include_attribute ls uuids k i) (enumerate (handle + 1) (sd_included s)) @
     characteristics_attributes (handle + 1 + length (sd_included s)) (sd_characteristics s)"

fun services_attributes :: "(u16 \<times> u16) list \<Rightarrow> uuid list \<Rightarrow> nat \<Rightarrow> (u16 \<times> u16) list \<Rightarrow> service_definition list \<Rightarrow> 'w attribute list" where
  "services_attributes ls uuids handle (l # rest) (s # ss) =
     service_attributes ls uuids handle l s @ services_attributes ls uuids (handle + service_count s) rest ss"
| "services_attributes ls uuids handle _ _ = []"

text \<open>The running handle is a \<open>u32\<close> of at most 65536; \<open>w\<close> is the state of the application's callbacks.\<close>

definition from_definitions :: "'w \<Rightarrow> service_definition list \<Rightarrow> ('w gatt_server, database_error) rresult" where
  "from_definitions w services =
     bind_result (layouts 1 services) (\<lambda>ls.
     bind_result (check_included (length services) 0 services) (\<lambda>_.
       Ok \<lparr>gs_attributes = services_attributes ls (map sd_uuid services) 1 ls services, gs_mtu = ATT_DEFAULT_MTU,
           gs_negotiated_mtus = [], gs_prepared_writes = [], gs_subscriptions = [], gs_verifier = None, gs_world = w\<rparr>))"

text \<open>The compact definitions of \<open>Service\<close> and \<open>Characteristic\<close>.\<close>

record gatt_characteristic =
  gc_uuid :: uuid
  gc_properties :: u8
  gc_value :: bytes

record gatt_service =
  gv_uuid :: uuid
  gv_characteristics :: "gatt_characteristic list"

definition gatt_server_new :: "'w \<Rightarrow> gatt_service list \<Rightarrow> ('w gatt_server, database_error) rresult" where
  "gatt_server_new w services =
     (case from_definitions w
        (map (\<lambda>s. \<lparr>sd_uuid = gv_uuid s, sd_primary = True, sd_included = [],
            sd_characteristics = map (\<lambda>c. \<lparr>cd_uuid = gc_uuid c, cd_properties = gc_properties c,
              cd_permissions = READABLE OR WRITEABLE, cd_value = gc_value c, cd_descriptors = []\<rparr>) (gv_characteristics s)\<rparr>)
          services) of
        Ok s \<Rightarrow> Ok s
      | Err e \<Rightarrow> Panic ''legacy GATT database fits in handle space''
      | Panic p \<Rightarrow> Panic p)"

section \<open>Access to attributes\<close>

definition gs_find :: "'w gatt_server \<Rightarrow> u16 \<Rightarrow> 'w attribute option" where
  "gs_find s handle = List.find (\<lambda>a. at_handle a = handle) (gs_attributes s)"

text \<open>\<open>find_mut\<close>: the first attribute with the handle is updated in place.\<close>

fun update_first :: "('a \<Rightarrow> bool) \<Rightarrow> ('a \<Rightarrow> 'a) \<Rightarrow> 'a list \<Rightarrow> 'a list" where
  "update_first P f [] = []"
| "update_first P f (x # xs) = (if P x then f x # xs else x # update_first P f xs)"

definition gs_update :: "u16 \<Rightarrow> ('w attribute \<Rightarrow> 'w attribute) \<Rightarrow> 'w gatt_server \<Rightarrow> 'w gatt_server" where
  "gs_update handle f s = s\<lparr>gs_attributes := update_first (\<lambda>a. at_handle a = handle) f (gs_attributes s)\<rparr>"

definition handles_by_uuid :: "uuid \<Rightarrow> 'w gatt_server \<Rightarrow> u16 list" where
  "handles_by_uuid u s = map at_handle (filter (\<lambda>a. uuid_eq (at_type a) u) (gs_attributes s))"

definition change_attribute :: "u16 \<Rightarrow> ('w attribute \<Rightarrow> 'w attribute) \<Rightarrow> ('w gatt_server, unit, database_error) op" where
  "change_attribute handle f s =
     (case gs_find s handle of None \<Rightarrow> (Err (UnknownAttribute handle), s) | Some _ \<Rightarrow> (Ok (), gs_update handle f s))"

definition set_attribute_value :: "u16 \<Rightarrow> bytes \<Rightarrow> ('w gatt_server, unit, database_error) op" where
  "set_attribute_value handle v = change_attribute handle (\<lambda>a. a\<lparr>at_value := v\<rparr>)"

definition set_dynamic_value :: "u16 \<Rightarrow> 'w dynamic_value \<Rightarrow> ('w gatt_server, unit, database_error) op" where
  "set_dynamic_value handle v = change_attribute handle (\<lambda>a. a\<lparr>at_dynamic := Some v\<rparr>)"

definition clear_dynamic_value :: "u16 \<Rightarrow> ('w gatt_server, unit, database_error) op" where
  "clear_dynamic_value handle = change_attribute handle (\<lambda>a. a\<lparr>at_dynamic := None\<rparr>)"

definition gs_prepared_write_count :: "'w gatt_server \<Rightarrow> nat" where
  "gs_prepared_write_count s = sum_list (map length (bt_values (gs_prepared_writes s)))"

definition set_max_mtu :: "u16 \<Rightarrow> 'w gatt_server \<Rightarrow> bool \<times> 'w gatt_server" where
  "set_max_mtu mtu s = (if mtu < ATT_DEFAULT_MTU then (False, s) else (True, s\<lparr>gs_mtu := mtu\<rparr>))"

definition subscription_bits :: "'w gatt_server \<Rightarrow> u64 \<Rightarrow> u16 \<Rightarrow> u16" where
  "subscription_bits s bearer value_handle =
     (case bt_get (gs_subscriptions s) (bearer, value_handle) of None \<Rightarrow> 0 | Some bits \<Rightarrow> bits)"

definition remove_bearer :: "u64 \<Rightarrow> 'w gatt_server \<Rightarrow> 'w gatt_server" where
  "remove_bearer bearer s =
     s\<lparr>gs_negotiated_mtus := bt_remove bearer (gs_negotiated_mtus s),
       gs_prepared_writes := bt_remove bearer (gs_prepared_writes s),
       gs_subscriptions := filter (\<lambda>((b, _), _). b \<noteq> bearer) (gs_subscriptions s)\<rparr>"

definition negotiated_mtu :: "'w gatt_server \<Rightarrow> u64 \<Rightarrow> u16" where
  "negotiated_mtu s bearer = (case bt_get (gs_negotiated_mtus s) bearer of None \<Rightarrow> ATT_DEFAULT_MTU | Some m \<Rightarrow> m)"

definition gs_set_signed_write_key :: "bytes \<Rightarrow> u32 option \<Rightarrow> 'w gatt_server \<Rightarrow> 'w gatt_server" where
  "gs_set_signed_write_key csrk counter s = s\<lparr>gs_verifier := Some (verifier_new csrk counter)\<rparr>"

definition check_access :: "u8 \<Rightarrow> u8 \<Rightarrow> u8 \<Rightarrow> u8 \<Rightarrow> u8 \<Rightarrow> u8 \<Rightarrow> access_context \<Rightarrow> (unit, u8) rresult" where
  "check_access refused plain encryption authentication authorization permissions c =
     (if permissions AND (plain OR encryption OR authentication OR authorization) = 0 then Err refused
      else if permissions AND encryption \<noteq> 0 \<and> \<not> ac_encrypted c then Err ATT_INSUFFICIENT_ENCRYPTION_ERROR
      else if permissions AND authentication \<noteq> 0 \<and> \<not> ac_authenticated c then Err ATT_INSUFFICIENT_AUTHENTICATION_ERROR
      else if permissions AND authorization \<noteq> 0 \<and> \<not> ac_authorized c then Err ATT_INSUFFICIENT_AUTHORIZATION_ERROR
      else Ok ())"

definition check_read_access :: "u8 \<Rightarrow> access_context \<Rightarrow> (unit, u8) rresult" where
  "check_read_access = check_access ATT_READ_NOT_PERMITTED_ERROR READABLE READ_REQUIRES_ENCRYPTION
     READ_REQUIRES_AUTHENTICATION READ_REQUIRES_AUTHORIZATION"

definition check_write_access :: "u8 \<Rightarrow> access_context \<Rightarrow> (unit, u8) rresult" where
  "check_write_access = check_access ATT_WRITE_NOT_PERMITTED_ERROR WRITEABLE WRITE_REQUIRES_ENCRYPTION
     WRITE_REQUIRES_AUTHENTICATION WRITE_REQUIRES_AUTHORIZATION"

fun dynamic_read :: "'w gatt_server \<Rightarrow> access_context \<Rightarrow> 'w dynamic_value \<Rightarrow> (bytes, u8) rresult" where
  "dynamic_read s c (CccdValue h) = Ok (u16_to_le_bytes (subscription_bits s (bearer_id c) h))"
| "dynamic_read s c (DynamicValue None w) = Err ATT_READ_NOT_PERMITTED_ERROR"
| "dynamic_read s c (DynamicValue (Some f) w) = f c (gs_world s)"

definition read_value :: "'w gatt_server \<Rightarrow> access_context \<Rightarrow> 'w attribute \<Rightarrow> (bytes, u8) rresult" where
  "read_value s c a = (case at_dynamic a of None \<Rightarrow> Ok (at_value a) | Some d \<Rightarrow> dynamic_read s c d)"

definition cccd_write :: "access_context \<Rightarrow> u16 \<Rightarrow> bytes \<Rightarrow> 'w gatt_server \<Rightarrow> 'w gatt_server" where
  "cccd_write c h v s =
     (case v of
        [a, b] \<Rightarrow>
          let bits = u16_from_le_bytes a b
          in s\<lparr>gs_subscriptions :=
                 (if bits = 0 then bt_remove (bearer_id c, h) (gs_subscriptions s)
                  else bt_insert (bearer_id c, h) bits (gs_subscriptions s))\<rparr>
      | _ \<Rightarrow> s)"

fun dynamic_write :: "access_context \<Rightarrow> bytes \<Rightarrow> 'w dynamic_value \<Rightarrow> ('w gatt_server, unit, u8) op" where
  "dynamic_write c v (CccdValue h) s = (Ok (), cccd_write c h v s)"
| "dynamic_write c v (DynamicValue r None) s = (Err ATT_WRITE_NOT_PERMITTED_ERROR, s)"
| "dynamic_write c v (DynamicValue r (Some f)) s = (let (x, w) = f c v (gs_world s) in (x, s\<lparr>gs_world := w\<rparr>))"

text \<open>\<open>write_value\<close> on the attribute \<open>a\<close> that \<open>find\<close> returned for its handle.\<close>

definition write_value :: "access_context \<Rightarrow> bytes \<Rightarrow> 'w attribute \<Rightarrow> ('w gatt_server, unit, u8) op" where
  "write_value c v a s =
     (case at_dynamic a of
        None \<Rightarrow> (Ok (), gs_update (at_handle a) (\<lambda>a. a\<lparr>at_value := v\<rparr>) s)
      | Some d \<Rightarrow> dynamic_write c v d s)"

definition with_handle :: "u16 \<Rightarrow> ('a, u8) rresult \<Rightarrow> 'a handled" where
  "with_handle h r = (case r of Ok x \<Rightarrow> Ok x | Err code \<Rightarrow> Err (h, code) | Panic p \<Rightarrow> Panic p)"

definition gs_lookup :: "'w gatt_server \<Rightarrow> u16 \<Rightarrow> 'w attribute handled" where
  "gs_lookup s h = (case gs_find s h of None \<Rightarrow> Err (h, ATT_ATTRIBUTE_NOT_FOUND_ERROR) | Some a \<Rightarrow> Ok a)"

text \<open>The two checks every read makes, in this order.\<close>

definition read_attribute :: "'w gatt_server \<Rightarrow> access_context \<Rightarrow> 'w attribute \<Rightarrow> bytes handled" where
  "read_attribute s c a =
     with_handle (at_handle a) (bind_result (check_read_access (at_permissions a) c) (\<lambda>_. read_value s c a))"

definition read_handle :: "'w gatt_server \<Rightarrow> access_context \<Rightarrow> u16 \<Rightarrow> bytes handled" where
  "read_handle s c h = bind_result (gs_lookup s h) (read_attribute s c)"

definition write_attribute :: "access_context \<Rightarrow> u16 \<Rightarrow> bytes \<Rightarrow> ('w gatt_server, unit, u16 \<times> u8) op" where
  "write_attribute c h v s =
     (case bind_result (gs_lookup s h) (\<lambda>a. bind_result (with_handle h (check_write_access (at_permissions a) c)) (\<lambda>_. Ok a)) of
        Ok a \<Rightarrow> (let (r, s') = write_value c v a s in (with_handle h r, s'))
      | Err e \<Rightarrow> (Err e, s)
      | Panic p \<Rightarrow> (Panic p, s))"

section \<open>Requests\<close>

definition in_range :: "u16 \<Rightarrow> u16 \<Rightarrow> 'w attribute \<Rightarrow> bool" where
  "in_range start end_pos a \<longleftrightarrow> at_handle a \<ge> start \<and> at_handle a \<le> end_pos"

definition find_information :: "'w gatt_server \<Rightarrow> u16 \<Rightarrow> u16 \<Rightarrow> att_pdu handled" where
  "find_information s start end_pos =
     (case filter (in_range start end_pos) (gs_attributes s) of
        [] \<Rightarrow> Err (start, ATT_ATTRIBUTE_NOT_FOUND_ERROR)
      | a # as \<Rightarrow>
          let uuid_len = length (uuid_bytes (at_type a));
              same = takeWhile (\<lambda>b. length (uuid_bytes (at_type b)) = uuid_len) (a # as)
          in Ok (AttFindInformationResponse (if uuid_len = 2 then 1 else 2)
                   (concat (map (\<lambda>b. u16_to_le_bytes (at_handle b) @ uuid_bytes (at_type b)) same))))"

definition typed_in_range :: "'w gatt_server \<Rightarrow> u16 \<Rightarrow> u16 \<Rightarrow> uuid \<Rightarrow> 'w attribute list" where
  "typed_in_range s start end_pos u = filter (\<lambda>a. in_range start end_pos a \<and> uuid_eq (at_type a) u) (gs_attributes s)"

fun matching_groups :: "'w gatt_server \<Rightarrow> access_context \<Rightarrow> bytes \<Rightarrow> 'w attribute list \<Rightarrow> bytes \<Rightarrow> bytes handled" where
  "matching_groups s c v [] ls = Ok ls"
| "matching_groups s c v (a # as) ls =
     bind_result (read_attribute s c a) (\<lambda>x.
       matching_groups s c v as
         (if x = v then ls @ u16_to_le_bytes (at_handle a) @ u16_to_le_bytes (at_end_group a) else ls))"

definition find_by_type_value :: "'w gatt_server \<Rightarrow> access_context \<Rightarrow> u16 \<Rightarrow> u16 \<Rightarrow> uuid \<Rightarrow> bytes \<Rightarrow> att_pdu handled" where
  "find_by_type_value s c start end_pos u v =
     bind_result (matching_groups s c v (typed_in_range s start end_pos u) []) (\<lambda>ls.
       if ls = [] then Err (start, ATT_ATTRIBUTE_NOT_FOUND_ERROR) else Ok (AttFindByTypeValueResponse ls))"

text \<open>Values are collected while they have the length of the first.\<close>

fun select_values ::
  "'w gatt_server \<Rightarrow> access_context \<Rightarrow> 'w attribute list \<Rightarrow> (u16 \<times> u16 \<times> bytes) list \<Rightarrow> (u16 \<times> u16 \<times> bytes) list handled" where
  "select_values s c [] selected = Ok selected"
| "select_values s c (a # as) selected =
     bind_result (read_attribute s c a) (\<lambda>v.
       if selected \<noteq> [] \<and> length (snd (snd (hd selected))) \<noteq> length v then Ok selected
       else select_values s c as (selected @ [(at_handle a, at_end_group a, v)]))"

definition read_selected ::
  "'w gatt_server \<Rightarrow> access_context \<Rightarrow> u16 \<Rightarrow> u16 \<Rightarrow> uuid \<Rightarrow> (nat \<Rightarrow> (u16 \<times> u16 \<times> bytes) list \<Rightarrow> att_pdu) \<Rightarrow> att_pdu handled" where
  "read_selected s c start end_pos u f =
     (if typed_in_range s start end_pos u = [] then Err (start, ATT_ATTRIBUTE_NOT_FOUND_ERROR)
      else bind_result (select_values s c (typed_in_range s start end_pos u) []) (\<lambda>selected.
             case selected of
               [] \<Rightarrow> Panic ''index out of bounds''
             | (_, _, v) # _ \<Rightarrow> Ok (f (length v) selected)))"

definition read_by_group_type :: "'w gatt_server \<Rightarrow> access_context \<Rightarrow> u16 \<Rightarrow> u16 \<Rightarrow> uuid \<Rightarrow> att_pdu handled" where
  "read_by_group_type s c start end_pos u =
     read_selected s c start end_pos u (\<lambda>n selected. AttReadByGroupTypeResponse (of_nat (4 + n))
       (concat (map (\<lambda>(h, e, v). u16_to_le_bytes h @ u16_to_le_bytes e @ v) selected)))"

definition read_by_type :: "'w gatt_server \<Rightarrow> access_context \<Rightarrow> u16 \<Rightarrow> u16 \<Rightarrow> uuid \<Rightarrow> att_pdu handled" where
  "read_by_type s c start end_pos u =
     read_selected s c start end_pos u (\<lambda>n selected. AttReadByTypeResponse (of_nat (2 + n))
       (concat (map (\<lambda>(h, e, v). u16_to_le_bytes h @ v) selected)))"

definition read_blob :: "'w gatt_server \<Rightarrow> access_context \<Rightarrow> u16 \<Rightarrow> u16 \<Rightarrow> att_pdu handled" where
  "read_blob s c h offset =
     bind_result (read_handle s c h) (\<lambda>v.
       if unat offset > length v then Err (h, ATT_INVALID_OFFSET_ERROR)
       else bind_result (mtu_minus (negotiated_mtu s (bearer_id c)) 1) (\<lambda>n.
         let end_pos = min (unat offset + n) (length v)
         in Ok (AttReadBlobResponse (take (end_pos - unat offset) (drop (unat offset) v)))))"

text \<open>A queued write is checked again when it is executed, against the attributes before any of them.\<close>

fun gs_stage :: "'w gatt_server \<Rightarrow> access_context \<Rightarrow> (u16 \<times> u16 \<times> bytes) list \<Rightarrow> (u16, bytes) btree_map \<Rightarrow> (u16, bytes) btree_map handled" where
  "gs_stage s c [] staged = Ok staged"
| "gs_stage s c (w # ws) staged =
     bind_result (gs_lookup s (fst w)) (\<lambda>a.
     bind_result (with_handle (fst w) (check_write_access (at_permissions a) c)) (\<lambda>_.
       if at_dynamic a \<noteq> None then Err (fst w, ATT_ATTRIBUTE_NOT_LONG_ERROR)
       else bind_result (stage_write w staged) (gs_stage s c ws)))"

fun apply_staged :: "'w attribute list \<Rightarrow> (u16, bytes) btree_map \<Rightarrow> 'w attribute list" where
  "apply_staged [] staged = []"
| "apply_staged (a # as) staged =
     (case bt_get staged (at_handle a) of
        Some v \<Rightarrow> a\<lparr>at_value := v\<rparr> # apply_staged as (bt_remove (at_handle a) staged)
      | None \<Rightarrow> a # apply_staged as staged)"

definition staged_values :: "'w attribute list \<Rightarrow> (u16, bytes) btree_map" where
  "staged_values as = foldl (\<lambda>m a. bt_insert (at_handle a) (at_value a) m) [] as"

definition prepared_of :: "'w gatt_server \<Rightarrow> u64 \<Rightarrow> (u16 \<times> u16 \<times> bytes) list" where
  "prepared_of s bearer = (case bt_get (gs_prepared_writes s) bearer of None \<Rightarrow> [] | Some ws \<Rightarrow> ws)"

definition gs_execute_writes :: "u8 \<Rightarrow> access_context \<Rightarrow> ('w, att_pdu) gatt_op" where
  "gs_execute_writes flags c s =
     (let s' = s\<lparr>gs_prepared_writes := bt_remove (bearer_id c) (gs_prepared_writes s)\<rparr>
      in if flags = 0 then (Ok AttExecuteWriteResponse, s')
         else if flags \<noteq> 1 then (answer ATT_EXECUTE_WRITE_REQUEST (Err (0, ATT_INVALID_PDU_ERROR)), s)
         else case gs_stage s c (prepared_of s (bearer_id c)) (staged_values (gs_attributes s)) of
                Ok staged \<Rightarrow> (Ok AttExecuteWriteResponse, s'\<lparr>gs_attributes := apply_staged (gs_attributes s) staged\<rparr>)
              | Err e \<Rightarrow> (answer ATT_EXECUTE_WRITE_REQUEST (Err e), s')
              | Panic p \<Rightarrow> (Panic p, s'))"

definition gs_prepare_write :: "access_context \<Rightarrow> u16 \<Rightarrow> u16 \<Rightarrow> bytes \<Rightarrow> ('w gatt_server, att_pdu, u16 \<times> u8) op" where
  "gs_prepare_write c h offset part s =
     (case bind_result (gs_lookup s h) (\<lambda>a. bind_result (with_handle h (check_write_access (at_permissions a) c)) (\<lambda>_.
             if at_dynamic a \<noteq> None then Err (h, ATT_ATTRIBUTE_NOT_LONG_ERROR) else Ok ())) of
        Ok _ \<Rightarrow> (Ok (AttPrepareWriteResponse h offset part),
                  s\<lparr>gs_prepared_writes := bt_insert (bearer_id c) (prepared_of s (bearer_id c) @ [(h, offset, part)])
                      (gs_prepared_writes s)\<rparr>)
      | Err e \<Rightarrow> (Err e, s)
      | Panic p \<Rightarrow> (Panic p, s))"

text \<open>The result of a command's write is discarded; a panic of a callback is not.\<close>

definition command_write :: "access_context \<Rightarrow> u16 \<Rightarrow> bytes \<Rightarrow> ('w, att_pdu) gatt_op" where
  "command_write c h v s =
     (let (r, s') = write_attribute c h v s
      in case r of Panic p \<Rightarrow> (Panic p, s') | _ \<Rightarrow> (Ok AttHandleValueConfirmation, s'))"

definition on_signed_write :: "block_cipher \<Rightarrow> att_pdu \<Rightarrow> access_context \<Rightarrow> u16 \<Rightarrow> bytes \<Rightarrow> ('w, att_pdu) gatt_op" where
  "on_signed_write aes request c h v s =
     (let (verified, verifier) = check_signature aes request (gs_verifier s); s' = s\<lparr>gs_verifier := verifier\<rparr>
      in case verified of
           Ok True \<Rightarrow> command_write (c\<lparr>ac_authenticated := True\<rparr>) h v s'
         | Panic p \<Rightarrow> (Panic p, s')
         | _ \<Rightarrow> (Ok AttHandleValueConfirmation, s'))"

definition gs_on_request :: "block_cipher \<Rightarrow> att_pdu \<Rightarrow> access_context \<Rightarrow> ('w, att_pdu) gatt_op" where
  "gs_on_request aes request c s =
     (case request of
        AttExchangeMtuRequest m \<Rightarrow>
          (Ok (AttExchangeMtuResponse (gs_mtu s)),
           s\<lparr>gs_negotiated_mtus := bt_insert (bearer_id c) (max (min m (gs_mtu s)) ATT_DEFAULT_MTU) (gs_negotiated_mtus s)\<rparr>)
      | AttReadRequest h \<Rightarrow>
          (answer ATT_READ_REQUEST (bind_result (read_handle s c h) (\<lambda>v.
             bind_result (mtu_minus (negotiated_mtu s (bearer_id c)) 1) (\<lambda>n. Ok (AttReadResponse (truncate_to v n))))), s)
      | AttReadBlobRequest h offset \<Rightarrow> (answer ATT_READ_BLOB_REQUEST (read_blob s c h offset), s)
      | AttReadMultipleRequest hs \<Rightarrow> (read_multiple (read_handle s c) (negotiated_mtu s (bearer_id c)) hs False, s)
      | AttReadMultipleVariableRequest hs \<Rightarrow> (read_multiple (read_handle s c) (negotiated_mtu s (bearer_id c)) hs True, s)
      | AttWriteRequest h v \<Rightarrow>
          (let (r, s') = write_attribute c h v s
           in (answer ATT_WRITE_REQUEST (bind_result r (\<lambda>_. Ok AttWriteResponse)), s'))
      | AttReadByGroupTypeRequest a b u \<Rightarrow> (answer ATT_READ_BY_GROUP_TYPE_REQUEST (read_by_group_type s c a b u), s)
      | AttReadByTypeRequest a b u \<Rightarrow> (answer ATT_READ_BY_TYPE_REQUEST (read_by_type s c a b u), s)
      | AttFindInformationRequest a b \<Rightarrow> (answer ATT_FIND_INFORMATION_REQUEST (find_information s a b), s)
      | AttFindByTypeValueRequest a b u v \<Rightarrow>
          (answer ATT_FIND_BY_TYPE_VALUE_REQUEST (find_by_type_value s c a b u v), s)
      | AttWriteCommand h v \<Rightarrow> command_write c h v s
      | AttSignedWriteCommand h v n sig \<Rightarrow> on_signed_write aes request c h v s
      | AttPrepareWriteRequest h offset part \<Rightarrow>
          (let (r, s') = gs_prepare_write c h offset part s in (answer ATT_PREPARE_WRITE_REQUEST r, s'))
      | AttExecuteWriteRequest flags \<Rightarrow> gs_execute_writes flags c s
      | other \<Rightarrow> (answer (att_op_code other) (Err (0, ATT_REQUEST_NOT_SUPPORTED_ERROR)), s))"

definition gs_notify :: "u16 \<Rightarrow> bytes \<Rightarrow> att_pdu" where
  "gs_notify h v = AttHandleValueNotification h v"

definition gs_indicate :: "u16 \<Rightarrow> bytes \<Rightarrow> att_pdu" where
  "gs_indicate h v = AttHandleValueIndication h v"

section \<open>Database hash\<close>

definition hashed_with_value :: "u16 list" where
  "hashed_with_value = [GATT_PRIMARY_SERVICE_UUID, GATT_SECONDARY_SERVICE_UUID, GATT_INCLUDE_UUID, GATT_CHARACTERISTIC_UUID, 0x2900]"

definition hashed_without_value :: "u16 list" where
  "hashed_without_value = [0x2901, GATT_CLIENT_CHARACTERISTIC_CONFIGURATION_UUID, 0x2903, 0x2904, 0x2905]"

definition hash_input :: "'w attribute \<Rightarrow> bytes" where
  "hash_input a =
     (case uuid_bytes (at_type a) of
        [x, y] \<Rightarrow>
          let short_uuid = u16_from_le_bytes x y
          in if short_uuid \<in> set hashed_with_value then u16_to_le_bytes (at_handle a) @ [x, y] @ at_value a
             else if short_uuid \<in> set hashed_without_value then u16_to_le_bytes (at_handle a) @ [x, y]
             else []
      | _ \<Rightarrow> [])"

definition database_hash :: "block_cipher \<Rightarrow> 'w gatt_server \<Rightarrow> (bytes, rust_error) rresult" where
  "database_hash aes s = aes_cmac aes (concat (map hash_input (gs_attributes s))) (replicate 16 0)"

end
