(* ===== verification/Gatt_Client.thy ===== *)
theory Gatt_Client
  imports Gatt_Server
begin

text \<open>
  The client of \<open>bumble-gatt/src/client.rs\<close>: discovery, reads, writes and subscriptions over a
  transport, which is a parameter: a function from a request and the state of the transport to its answer. Loops that wait for a peer
  are \<open>partial_function (option)\<close>: a loop that does not end is \<open>None\<close>. A listener acts on the state \<open>'w\<close> of the application.
\<close>

section \<open>Data\<close>

text \<open>A protocol error is its format string with the formatted numbers and PDU.\<close>

datatype gatt_error =
    AttError u8 u16 u8
  | Protocol string "nat list" "att_pdu list"
  | TransportError string

record service_proxy =
  sp_handle :: u16
  sp_end_group :: u16
  sp_uuid :: uuid

record characteristic_proxy =
  cp_declaration_handle :: u16
  cp_handle :: u16
  cp_end_group :: u16
  cp_properties :: u8
  cp_uuid :: uuid

record descriptor_proxy =
  dp_handle :: u16
  dp_uuid :: uuid

record 'w gatt_subscription =
  su_implicit :: bool
  su_listeners :: "(u64, bytes \<Rightarrow> 'w \<Rightarrow> 'w) btree_map"

record 'w gatt_client =
  gc_mtu :: u16
  gc_cached_values :: "(u16, bytes) btree_map"
  gc_notification_subscribers :: "(u16, 'w gatt_subscription) btree_map"
  gc_indication_subscribers :: "(u16, 'w gatt_subscription) btree_map"
  gc_next_listener_id :: u64

definition CCCD_NOTIFICATION :: u16 where "CCCD_NOTIFICATION = 1"
definition CCCD_INDICATION :: u16 where "CCCD_INDICATION = 2"

definition gatt_client_new :: "'w gatt_client" where
  "gatt_client_new = \<lparr>gc_mtu = ATT_DEFAULT_MTU, gc_cached_values = [], gc_notification_subscribers = [],
     gc_indication_subscribers = [], gc_next_listener_id = 1\<rparr>"

section \<open>Requests\<close>

type_synonym 't transport = "att_pdu \<Rightarrow> ('t, att_pdu, string) op"
type_synonym ('w, 't, 'a) client_op = "('w gatt_client \<times> 't, 'a, gatt_error) op"

fun as_error :: "att_pdu \<Rightarrow> gatt_error option" where
  "as_error (AttErrorResponse op_code handle code) = Some (AttError op_code handle code)"
| "as_error _ = None"

definition ask :: "'t transport \<Rightarrow> att_pdu \<Rightarrow> ('t, att_pdu, gatt_error) op" where
  "ask tr request t =
     (case tr request t of
        (Ok p, t') \<Rightarrow> (Ok p, t')
      | (Err m, t') \<Rightarrow> (Err (TransportError m), t')
      | (Panic p, t') \<Rightarrow> (Panic p, t'))"

text \<open>An error response becomes the error; any other response is given to \<open>f\<close>, which answers \<open>None\<close> to the wrong kind.\<close>

definition expect :: "string \<Rightarrow> (att_pdu \<Rightarrow> 'a option) \<Rightarrow> att_pdu \<Rightarrow> ('a, gatt_error) rresult" where
  "expect msg f response =
     (case as_error response of
        Some e \<Rightarrow> Err e
      | None \<Rightarrow> (case f response of Some x \<Rightarrow> Ok x | None \<Rightarrow> Err (Protocol msg [] [response])))"

definition on_transport :: "('t, 'a, gatt_error) op \<Rightarrow> ('w, 't, 'a) client_op" where
  "on_transport m = (\<lambda>(c, t). let (r, t') = m t in (r, (c, t')))"

definition exchange_mtu :: "'t transport \<Rightarrow> u16 \<Rightarrow> ('w, 't, u16) client_op" where
  "exchange_mtu tr client_rx_mtu =
     and_then (on_transport (ask tr (AttExchangeMtuRequest client_rx_mtu))) (\<lambda>response.
     and_then (lift_result (expect ''expected Exchange MTU Response, got {other:?}''
       (\<lambda>p. case p of AttExchangeMtuResponse m \<Rightarrow> Some m | _ \<Rightarrow> None) response)) (\<lambda>server_rx_mtu (c, t).
       let mtu = max (min client_rx_mtu server_rx_mtu) ATT_DEFAULT_MTU in (Ok mtu, (c\<lparr>gc_mtu := mtu\<rparr>, t))))"

section \<open>Response data\<close>

definition entry_chunks :: "string \<Rightarrow> string \<Rightarrow> nat \<Rightarrow> nat \<Rightarrow> bytes \<Rightarrow> (bytes list, gatt_error) rresult" where
  "entry_chunks short uneven least n data =
     (if n < least then Err (Protocol short [n] [])
      else if length data mod n \<noteq> 0 then Err (Protocol uneven [] [])
      else Ok (chunks n data))"

definition parse_group_entries :: "u8 \<Rightarrow> bytes \<Rightarrow> ((u16 \<times> u16 \<times> bytes) list, gatt_error) rresult" where
  "parse_group_entries n data =
     bind_result (entry_chunks ''Read By Group Type entry length {length} < 4''
         ''Read By Group Type data list not a multiple of entry length'' 4 (unat n) data) (\<lambda>cs.
       Ok (map (\<lambda>c. (u16_from_le_bytes (c ! 0) (c ! 1), u16_from_le_bytes (c ! 2) (c ! 3), drop 4 c)) cs))"

definition parse_type_entries :: "u8 \<Rightarrow> bytes \<Rightarrow> ((u16 \<times> bytes) list, gatt_error) rresult" where
  "parse_type_entries n data =
     bind_result (entry_chunks ''Read By Type entry length {length} < 2''
         ''Read By Type data list not a multiple of entry length'' 2 (unat n) data) (\<lambda>cs.
       Ok (map (\<lambda>c. (u16_from_le_bytes (c ! 0) (c ! 1), drop 2 c)) cs))"

definition uuid_or :: "string \<Rightarrow> bytes \<Rightarrow> (uuid, gatt_error) rresult" where
  "uuid_or msg b = (case uuid_from_bytes b of Ok u \<Rightarrow> Ok u | Err e \<Rightarrow> Err (Protocol msg [] []) | Panic p \<Rightarrow> Panic p)"

fun information_entries :: "bytes list \<Rightarrow> (u16 \<times> uuid) list \<Rightarrow> ((u16 \<times> uuid) list, gatt_error) rresult" where
  "information_entries [] out = Ok out"
| "information_entries (c # cs) out =
     bind_result (uuid_or ''bad descriptor UUID: {e}'' (drop 2 c)) (\<lambda>u.
       information_entries cs (out @ [(u16_from_le_bytes (c ! 0) (c ! 1), u)]))"

definition parse_information_entries :: "u8 \<Rightarrow> bytes \<Rightarrow> ((u16 \<times> uuid) list, gatt_error) rresult" where
  "parse_information_entries format data =
     bind_result (if format = 1 then Ok 2 else if format = 2 then Ok 16
         else Err (Protocol ''invalid Find Information format {other}'' [unat format] [])) (\<lambda>uuid_size.
     if length data mod (2 + uuid_size) \<noteq> 0 then Err (Protocol ''Find Information data not a multiple of entry size'' [] [])
     else information_entries (chunks (2 + uuid_size) data) [])"

section \<open>Discovery\<close>

text \<open>One pass of a discovery loop breaks with the result or continues at a handle.\<close>

datatype 'a progress = Break 'a | Continue u16 'a

partial_function (option) discovery_loop ::
  "(u16 \<Rightarrow> bool) \<Rightarrow> (u16 \<Rightarrow> 'a \<Rightarrow> ('t, 'a progress, gatt_error) op) \<Rightarrow> u16 \<Rightarrow> 'a \<Rightarrow> 't \<Rightarrow> (('a, gatt_error) rresult \<times> 't) option" where
  "discovery_loop guard body start found t =
     (if \<not> guard start then Some (Ok found, t)
      else case body start found t of
             (Ok (Break found'), t') \<Rightarrow> Some (Ok found', t')
           | (Ok (Continue start' found'), t') \<Rightarrow> discovery_loop guard body start' found' t'
           | (Err e, t') \<Rightarrow> Some (Err e, t')
           | (Panic p, t') \<Rightarrow> Some (Panic p, t'))"

text \<open>The error arms every discovery loop shares: not found ends the loop.\<close>

definition unless_error ::
  "string \<Rightarrow> 'a \<Rightarrow> (att_pdu \<Rightarrow> ('t, 'a progress, gatt_error) op option) \<Rightarrow> att_pdu \<Rightarrow> ('t, 'a progress, gatt_error) op" where
  "unless_error msg found f response t =
     (case response of
        AttErrorResponse op_code handle code \<Rightarrow>
          (if code = ATT_ATTRIBUTE_NOT_FOUND_ERROR then (Ok (Break found), t) else (Err (AttError op_code handle code), t))
      | _ \<Rightarrow> (case f response of Some m \<Rightarrow> m t | None \<Rightarrow> (Err (Protocol msg [] [response]), t)))"

fun service_entries ::
  "u16 \<Rightarrow> (u16 \<times> u16 \<times> bytes) list \<Rightarrow> u16 \<Rightarrow> service_proxy list \<Rightarrow> (u16 \<times> service_proxy list, gatt_error) rresult" where
  "service_entries start [] last_end services = Ok (last_end, services)"
| "service_entries start ((handle, end_group, v) # es) last_end services =
     (if handle < start \<or> end_group < handle
      then Err (Protocol ''bogus service handles {handle:#06x}/{end_group_handle:#06x}'' [unat handle, unat end_group] [])
      else bind_result (uuid_or ''bad service UUID: {e}'' v) (\<lambda>u.
        service_entries start es end_group (services @ [\<lparr>sp_handle = handle, sp_end_group = end_group, sp_uuid = u\<rparr>])))"

definition after_services :: "u16 \<times> service_proxy list \<Rightarrow> service_proxy list progress" where
  "after_services = (\<lambda>(last_end, services). if last_end = 0xFFFF then Break services else Continue (last_end + 1) services)"

definition services_pass :: "'t transport \<Rightarrow> u16 \<Rightarrow> service_proxy list \<Rightarrow> ('t, service_proxy list progress, gatt_error) op" where
  "services_pass tr start services =
     and_then (ask tr (AttReadByGroupTypeRequest start 0xFFFF (uuid_from_16_bits GATT_PRIMARY_SERVICE_UUID)))
       (unless_error ''unexpected response to Read By Group Type: {other:?}'' services (\<lambda>p. case p of
          AttReadByGroupTypeResponse n data \<Rightarrow> Some (lift_result (bind_result (parse_group_entries n data) (\<lambda>es.
            if es = [] then Ok (Break services)
            else bind_result (service_entries start es 0 services) (\<lambda>r. Ok (after_services r)))))
        | _ \<Rightarrow> None))"

definition discover_services :: "'t transport \<Rightarrow> 't \<Rightarrow> ((service_proxy list, gatt_error) rresult \<times> 't) option" where
  "discover_services tr = discovery_loop (\<lambda>_. True) (services_pass tr) 1 []"

definition handles_pass ::
  "'t transport \<Rightarrow> uuid \<Rightarrow> u16 \<Rightarrow> u16 \<Rightarrow> service_proxy list \<Rightarrow> ('t, service_proxy list progress, gatt_error) op" where
  "handles_pass tr u service_type start services =
     and_then (ask tr (AttFindByTypeValueRequest start 0xFFFF (uuid_from_16_bits service_type) (uuid_bytes u)))
       (unless_error ''unexpected response to Find By Type Value: {other:?}'' services (\<lambda>p. case p of
          AttFindByTypeValueResponse data \<Rightarrow> Some (lift_result (
            if length data mod 4 \<noteq> 0 \<or> data = [] then Ok (Break services)
            else let found = map (\<lambda>c. \<lparr>sp_handle = u16_from_le_bytes (c ! 0) (c ! 1),
                       sp_end_group = u16_from_le_bytes (c ! 2) (c ! 3), sp_uuid = u\<rparr>) (chunks 4 data)
                 in Ok (after_services (sp_end_group (last found), services @ found))))
        | _ \<Rightarrow> None))"

definition discover_service_by_uuid_with_type ::
  "'t transport \<Rightarrow> uuid \<Rightarrow> u16 \<Rightarrow> 't \<Rightarrow> ((service_proxy list, gatt_error) rresult \<times> 't) option" where
  "discover_service_by_uuid_with_type tr u service_type = discovery_loop (\<lambda>_. True) (handles_pass tr u service_type) 1 []"

definition discover_service_by_uuid :: "'t transport \<Rightarrow> uuid \<Rightarrow> 't \<Rightarrow> ((service_proxy list, gatt_error) rresult \<times> 't) option" where
  "discover_service_by_uuid tr u = discover_service_by_uuid_with_type tr u GATT_PRIMARY_SERVICE_UUID"

definition discover_secondary_service_by_uuid ::
  "'t transport \<Rightarrow> uuid \<Rightarrow> 't \<Rightarrow> ((service_proxy list, gatt_error) rresult \<times> 't) option" where
  "discover_secondary_service_by_uuid tr u = discover_service_by_uuid_with_type tr u GATT_SECONDARY_SERVICE_UUID"

subsection \<open>Included services\<close>

text \<open>The UUID of an included service that the declaration does not carry is read from the service.\<close>

definition included_uuid :: "'t transport \<Rightarrow> bytes \<Rightarrow> u16 \<Rightarrow> ('t, uuid, gatt_error) op" where
  "included_uuid tr v handle =
     (if length v = 6 then lift_result (uuid_or ''invalid included-service UUID: {error}'' (drop 4 v))
      else and_then (ask tr (AttReadRequest handle)) (\<lambda>response.
        lift_result (bind_result (expect ''expected Read Response for included service, got {response:?}''
            (\<lambda>p. case p of AttReadResponse x \<Rightarrow> Some x | _ \<Rightarrow> None) response)
          (uuid_or ''invalid included-service UUID: {error}''))))"

fun included_entries ::
  "'t transport \<Rightarrow> (u16 \<times> bytes) list \<Rightarrow> u16 \<Rightarrow> service_proxy list \<Rightarrow> ('t, u16 \<times> service_proxy list, gatt_error) op" where
  "included_entries tr [] last_declaration found t = (Ok (last_declaration, found), t)"
| "included_entries tr ((declaration_handle, v) # es) last_declaration found t =
     (if length v \<noteq> 4 \<and> length v \<noteq> 6 then (Err (Protocol ''invalid Include value length {}'' [length v] []), t)
      else let handle = u16_from_le_bytes (v ! 0) (v ! 1); end_group = u16_from_le_bytes (v ! 2) (v ! 3)
           in if handle = 0 \<or> end_group < handle
              then (Err (Protocol ''invalid included-service handle range {handle:#06x}..={end_group_handle:#06x}'' [unat handle, unat end_group] []), t)
              else and_then (included_uuid tr v handle) (\<lambda>u.
                included_entries tr es declaration_handle
                  (found @ [\<lparr>sp_handle = handle, sp_end_group = end_group, sp_uuid = u\<rparr>])) t)"

definition included_pass ::
  "'t transport \<Rightarrow> u16 \<Rightarrow> u16 \<Rightarrow> service_proxy list \<Rightarrow> ('t, service_proxy list progress, gatt_error) op" where
  "included_pass tr end_pos start found =
     and_then (ask tr (AttReadByTypeRequest start end_pos (uuid_from_16_bits GATT_INCLUDE_UUID)))
       (unless_error ''unexpected response to included-service discovery: {other:?}'' found (\<lambda>p. case p of
          AttReadByTypeResponse n data \<Rightarrow> Some (and_then (lift_result (parse_type_entries n data)) (\<lambda>es.
            if es = [] then lift_result (Ok (Break found))
            else and_then (included_entries tr es 0 found) (\<lambda>(last_declaration, found').
              lift_result (Ok (if last_declaration \<ge> end_pos then Break found' else Continue (last_declaration + 1) found')))))
        | _ \<Rightarrow> None))"

definition discover_included_services :: "'t transport \<Rightarrow> service_proxy \<Rightarrow> 't \<Rightarrow> ((service_proxy list, gatt_error) rresult \<times> 't) option" where
  "discover_included_services tr service t =
     (if sp_handle service \<ge> sp_end_group service then Some (Ok [], t)
      else discovery_loop (\<lambda>start. start \<le> sp_end_group service) (included_pass tr (sp_end_group service)) (sp_handle service + 1) [] t)"

subsection \<open>Characteristics and descriptors\<close>

text \<open>\<open>declaration_handle - 1\<close> is on 16 bits.\<close>

definition close_previous :: "u16 \<Rightarrow> characteristic_proxy list \<Rightarrow> (characteristic_proxy list, gatt_error) rresult" where
  "close_previous declaration_handle cs =
     (if cs = [] then Ok []
      else if declaration_handle = 0 then Panic ''attempt to subtract with overflow''
      else Ok (butlast cs @ [last cs\<lparr>cp_end_group := declaration_handle - 1\<rparr>]))"

fun characteristic_entries ::
  "u16 \<Rightarrow> u16 \<Rightarrow> (u16 \<times> bytes) list \<Rightarrow> u16 \<Rightarrow> characteristic_proxy list \<Rightarrow> (u16 \<times> characteristic_proxy list, gatt_error) rresult" where
  "characteristic_entries start end_pos [] last_decl cs = Ok (last_decl, cs)"
| "characteristic_entries start end_pos ((declaration_handle, v) # es) last_decl cs =
     (if declaration_handle < start then Err (Protocol ''bogus characteristic handle {declaration_handle:#06x}'' [unat declaration_handle] [])
      else if length v < 3 then Err (Protocol ''truncated characteristic declaration'' [] [])
      else bind_result (uuid_or ''bad characteristic UUID: {e}'' (drop 3 v)) (\<lambda>u.
        bind_result (close_previous declaration_handle cs) (\<lambda>cs'.
          characteristic_entries start end_pos es declaration_handle
            (cs' @ [\<lparr>cp_declaration_handle = declaration_handle, cp_handle = u16_from_le_bytes (v ! 1) (v ! 2),
               cp_end_group = end_pos, cp_properties = v ! 0, cp_uuid = u\<rparr>]))))"

definition characteristics_pass ::
  "'t transport \<Rightarrow> u16 \<Rightarrow> u16 \<Rightarrow> characteristic_proxy list \<Rightarrow> ('t, characteristic_proxy list progress, gatt_error) op" where
  "characteristics_pass tr end_pos start cs =
     and_then (ask tr (AttReadByTypeRequest start end_pos (uuid_from_16_bits GATT_CHARACTERISTIC_UUID)))
       (unless_error ''unexpected response to Read By Type: {other:?}'' cs (\<lambda>p. case p of
          AttReadByTypeResponse n data \<Rightarrow> Some (lift_result (bind_result (parse_type_entries n data) (\<lambda>es.
            if es = [] then Ok (Break cs)
            else bind_result (characteristic_entries start end_pos es 0 cs) (\<lambda>(last_decl, cs').
              Ok (if last_decl \<ge> end_pos then Break cs' else Continue (last_decl + 1) cs')))))
        | _ \<Rightarrow> None))"

definition close_last :: "u16 \<Rightarrow> characteristic_proxy list \<Rightarrow> characteristic_proxy list" where
  "close_last end_pos cs = (if cs = [] then [] else butlast cs @ [last cs\<lparr>cp_end_group := end_pos\<rparr>])"

definition discover_characteristics ::
  "'t transport \<Rightarrow> service_proxy \<Rightarrow> 't \<Rightarrow> ((characteristic_proxy list, gatt_error) rresult \<times> 't) option" where
  "discover_characteristics tr service t =
     map_option (\<lambda>(r, t'). (bind_result r (\<lambda>cs. Ok (close_last (sp_end_group service) cs)), t'))
       (discovery_loop (\<lambda>start. start \<le> sp_end_group service) (characteristics_pass tr (sp_end_group service)) (sp_handle service) [] t)"

definition attributes_pass ::
  "'t transport \<Rightarrow> u16 \<Rightarrow> u16 \<Rightarrow> descriptor_proxy list \<Rightarrow> ('t, descriptor_proxy list progress, gatt_error) op" where
  "attributes_pass tr end_pos start found =
     and_then (ask tr (AttFindInformationRequest start end_pos))
       (unless_error ''unexpected response to Find Information: {other:?}'' found (\<lambda>p. case p of
          AttFindInformationResponse format data \<Rightarrow> Some (lift_result (bind_result (parse_information_entries format data) (\<lambda>es.
            if es = [] then Ok (Break found)
            else let found' = found @ map (\<lambda>(h, u). \<lparr>dp_handle = h, dp_uuid = u\<rparr>) es; last_handle = fst (last es)
                 in Ok (if last_handle \<ge> end_pos then Break found' else Continue (last_handle + 1) found'))))
        | _ \<Rightarrow> None))"

definition discover_attribute_range ::
  "'t transport \<Rightarrow> u16 \<Rightarrow> u16 \<Rightarrow> 't \<Rightarrow> ((descriptor_proxy list, gatt_error) rresult \<times> 't) option" where
  "discover_attribute_range tr start end_pos = discovery_loop (\<lambda>start. start \<le> end_pos) (attributes_pass tr end_pos) start []"

definition discover_descriptors ::
  "'t transport \<Rightarrow> characteristic_proxy \<Rightarrow> 't \<Rightarrow> ((descriptor_proxy list, gatt_error) rresult \<times> 't) option" where
  "discover_descriptors tr ch t =
     (if cp_handle ch \<ge> cp_end_group ch then Some (Ok [], t)
      else discover_attribute_range tr (cp_handle ch + 1) (cp_end_group ch) t)"

definition discover_attributes :: "'t transport \<Rightarrow> 't \<Rightarrow> ((descriptor_proxy list, gatt_error) rresult \<times> 't) option" where
  "discover_attributes tr = discover_attribute_range tr 1 0xFFFF"

section \<open>Reads and writes\<close>

text \<open>One Read Blob; \<open>offset\<close> is a \<open>u16\<close>.\<close>

definition blob_pass :: "'t transport \<Rightarrow> u16 \<Rightarrow> nat \<Rightarrow> u16 \<Rightarrow> bytes \<Rightarrow> ('t, bytes progress, gatt_error) op" where
  "blob_pass tr handle chunk offset v =
     and_then (ask tr (AttReadBlobRequest handle offset)) (\<lambda>response t.
       case response of
         AttErrorResponse op_code h code \<Rightarrow>
           (if code = ATT_ATTRIBUTE_NOT_LONG_ERROR \<or> code = ATT_INVALID_OFFSET_ERROR then (Ok (Break v), t)
            else (Err (AttError op_code h code), t))
       | AttReadBlobResponse part \<Rightarrow>
           (if length part < chunk then (Ok (Break (v @ part)), t)
            else if unat offset + unat (of_nat (length part) :: u16) > 65535 then (Panic ''attempt to add with overflow'', t)
            else (Ok (Continue (offset + of_nat (length part)) (v @ part)), t))
       | other \<Rightarrow> (Err (Protocol ''expected Read Blob Response, got {other:?}'' [] [other]), t))"

definition gc_read_value :: "'t transport \<Rightarrow> u16 \<Rightarrow> bool \<Rightarrow> 'w gatt_client \<times> 't \<Rightarrow> ((bytes, gatt_error) rresult \<times> 'w gatt_client \<times> 't) option" where
  "gc_read_value tr handle no_long_read = (\<lambda>(c, t).
     case and_then (ask tr (AttReadRequest handle)) (\<lambda>response. lift_result (bind_result
            (expect ''expected Read Response, got {response:?}'' (\<lambda>p. case p of AttReadResponse x \<Rightarrow> Some x | _ \<Rightarrow> None) response)
            (\<lambda>v. if gc_mtu c < 1 then Panic ''attempt to subtract with overflow'' else Ok v))) t of
       (Ok v, t') \<Rightarrow>
         map_option (\<lambda>(r, t''). (r, (case r of Ok x \<Rightarrow> c\<lparr>gc_cached_values := bt_insert handle x (gc_cached_values c)\<rparr> | _ \<Rightarrow> c), t''))
           (let chunk = unat (gc_mtu c - 1)
            in if \<not> no_long_read \<and> length v = chunk
               then discovery_loop (\<lambda>_. True) (blob_pass tr handle chunk) (of_nat (length v)) v t'
               else Some (Ok v, t'))
     | (Err e, t') \<Rightarrow> Some (Err e, c, t')
     | (Panic p, t') \<Rightarrow> Some (Panic p, c, t'))"

definition gc_write_value :: "'t transport \<Rightarrow> u16 \<Rightarrow> bytes \<Rightarrow> bool \<Rightarrow> ('t, unit, gatt_error) op" where
  "gc_write_value tr handle v with_response =
     (if with_response then
        and_then (ask tr (AttWriteRequest handle v)) (\<lambda>response.
          lift_result (expect ''expected Write Response, got {other:?}'' (\<lambda>p. case p of AttWriteResponse \<Rightarrow> Some () | _ \<Rightarrow> None) response))
      else and_then (ask tr (AttWriteCommand handle v)) (\<lambda>_. lift_result (Ok ())))"

definition write_signed_value ::
  "block_cipher \<Rightarrow> 't transport \<Rightarrow> u16 \<Rightarrow> bytes \<Rightarrow> (signed_write_signer \<times> 't, unit, gatt_error) op" where
  "write_signed_value aes tr handle v = (\<lambda>(signer, t).
     case sign aes handle v signer of
       (Ok (Some command), signer') \<Rightarrow>
         (let (r, t') = and_then (ask tr command) (\<lambda>_. lift_result (Ok ())) t in (r, (signer', t')))
     | (Ok None, signer') \<Rightarrow> (Err (Protocol ''signed-write counter exhausted'' [] []), (signer', t))
     | (Err e, signer') \<Rightarrow> (Panic ''unreachable'', (signer', t))
     | (Panic p, signer') \<Rightarrow> (Panic p, (signer', t)))"

section \<open>Subscriptions\<close>

definition gc_subscribers :: "bool \<Rightarrow> 'w gatt_client \<Rightarrow> (u16, 'w gatt_subscription) btree_map" where
  "gc_subscribers indicate c = (if indicate then gc_indication_subscribers c else gc_notification_subscribers c)"

definition set_subscribers :: "bool \<Rightarrow> (u16, 'w gatt_subscription) btree_map \<Rightarrow> 'w gatt_client \<Rightarrow> 'w gatt_client" where
  "set_subscribers indicate m c =
     (if indicate then c\<lparr>gc_indication_subscribers := m\<rparr> else c\<lparr>gc_notification_subscribers := m\<rparr>)"

text \<open>\<open>entry(value_handle).or_default()\<close>, then the change.\<close>

definition change_subscription ::
  "u16 \<Rightarrow> ('w gatt_subscription \<Rightarrow> 'w gatt_subscription) \<Rightarrow> (u16, 'w gatt_subscription) btree_map \<Rightarrow> (u16, 'w gatt_subscription) btree_map" where
  "change_subscription h f m =
     bt_insert h (f (case bt_get m h of Some x \<Rightarrow> x | None \<Rightarrow> \<lparr>su_implicit = False, su_listeners = []\<rparr>)) m"

definition cccd_bits :: "bool \<Rightarrow> bytes" where
  "cccd_bits indicate = u16_to_le_bytes (if indicate then CCCD_INDICATION else CCCD_NOTIFICATION)"

definition subscribe :: "'t transport \<Rightarrow> u16 \<Rightarrow> u16 \<Rightarrow> bool \<Rightarrow> ('w, 't, unit) client_op" where
  "subscribe tr value_handle cccd_handle indicate =
     and_then (on_transport (gc_write_value tr cccd_handle (cccd_bits indicate) True)) (\<lambda>_ (c, t).
       (Ok (), (set_subscribers indicate (change_subscription value_handle (\<lambda>x. x\<lparr>su_implicit := True\<rparr>) (gc_subscribers indicate c)) c, t)))"

definition listener_in_use :: "'w gatt_client \<Rightarrow> u64 \<Rightarrow> bool" where
  "listener_in_use c k \<longleftrightarrow>
     list_ex (\<lambda>x. bt_contains_key (su_listeners x) k) (bt_values (gc_notification_subscribers c) @ bt_values (gc_indication_subscribers c))"

definition next_id :: "u64 \<Rightarrow> u64" where
  "next_id k = max (k + 1) 1"

partial_function (option) free_id :: "'w gatt_client \<Rightarrow> u64 \<Rightarrow> u64 option" where
  "free_id c k = (if listener_in_use c k then free_id c (next_id k) else Some k)"

definition allocate_listener_id :: "'w gatt_client \<Rightarrow> (u64 \<times> 'w gatt_client) option" where
  "allocate_listener_id c = map_option (\<lambda>k. (k, c\<lparr>gc_next_listener_id := next_id k\<rparr>)) (free_id c (gc_next_listener_id c))"

definition subscribe_with_listener ::
  "'t transport \<Rightarrow> u16 \<Rightarrow> u16 \<Rightarrow> bool \<Rightarrow> (bytes \<Rightarrow> 'w \<Rightarrow> 'w) \<Rightarrow> 'w gatt_client \<times> 't \<Rightarrow> ((u64, gatt_error) rresult \<times> 'w gatt_client \<times> 't) option" where
  "subscribe_with_listener tr value_handle cccd_handle indicate listener = (\<lambda>(c, t).
     case gc_write_value tr cccd_handle (cccd_bits indicate) True t of
       (Ok _, t') \<Rightarrow>
         map_option (\<lambda>(k, c'). (Ok k, set_subscribers indicate (change_subscription value_handle
             (\<lambda>x. x\<lparr>su_listeners := bt_insert k listener (su_listeners x)\<rparr>) (gc_subscribers indicate c')) c', t'))
           (allocate_listener_id c)
     | (Err e, t') \<Rightarrow> Some (Err e, c, t')
     | (Panic p, t') \<Rightarrow> Some (Panic p, c, t'))"

definition is_subscribed :: "u16 \<Rightarrow> bool \<Rightarrow> 'w gatt_client \<Rightarrow> bool" where
  "is_subscribed value_handle indicate c = bt_contains_key (gc_subscribers indicate c) value_handle"

definition subscription_listener_count :: "u16 \<Rightarrow> bool \<Rightarrow> 'w gatt_client \<Rightarrow> nat" where
  "subscription_listener_count value_handle indicate c =
     (case bt_get (gc_subscribers indicate c) value_handle of None \<Rightarrow> 0 | Some x \<Rightarrow> length (su_listeners x))"

definition unsubscribe_all :: "'t transport \<Rightarrow> u16 \<Rightarrow> u16 \<Rightarrow> bool \<Rightarrow> ('w, 't, bool) client_op" where
  "unsubscribe_all tr value_handle cccd_handle force = (\<lambda>(c, t).
     let subscribed = is_subscribed value_handle False c \<or> is_subscribed value_handle True c
     in if \<not> subscribed \<and> \<not> force then (Ok False, (c, t))
        else and_then (on_transport (gc_write_value tr cccd_handle (u16_to_le_bytes 0) True)) (\<lambda>_ (c, t).
          (Ok subscribed, (c\<lparr>gc_notification_subscribers := bt_remove value_handle (gc_notification_subscribers c),
              gc_indication_subscribers := bt_remove value_handle (gc_indication_subscribers c)\<rparr>, t))) (c, t))"

definition unsubscribe :: "'t transport \<Rightarrow> u16 \<Rightarrow> u16 \<Rightarrow> ('w, 't, unit) client_op" where
  "unsubscribe tr value_handle cccd_handle =
     and_then (unsubscribe_all tr value_handle cccd_handle False) (\<lambda>_. lift_result (Ok ()))"

definition has_listener :: "u16 \<Rightarrow> u64 \<Rightarrow> bool \<Rightarrow> 'w gatt_client \<Rightarrow> bool" where
  "has_listener h k indicate c =
     (case bt_get (gc_subscribers indicate c) h of None \<Rightarrow> False | Some x \<Rightarrow> bt_contains_key (su_listeners x) k)"

definition subscriber_remains :: "u16 \<Rightarrow> u64 \<Rightarrow> bool \<Rightarrow> 'w gatt_client \<Rightarrow> bool" where
  "subscriber_remains h k indicate c =
     (case bt_get (gc_subscribers indicate c) h of None \<Rightarrow> False
      | Some x \<Rightarrow> su_implicit x \<or> list_ex (\<lambda>j. j \<noteq> k) (bt_keys (su_listeners x)))"

definition remove_subscription_listener ::
  "u16 \<Rightarrow> u64 \<Rightarrow> (u16, 'w gatt_subscription) btree_map \<Rightarrow> (u16, 'w gatt_subscription) btree_map" where
  "remove_subscription_listener h k m =
     (case bt_get m h of None \<Rightarrow> m
      | Some x \<Rightarrow>
          let x' = x\<lparr>su_listeners := bt_remove k (su_listeners x)\<rparr>; m' = bt_insert h x' m
          in if \<not> su_implicit x' \<and> su_listeners x' = [] then bt_remove h m' else m')"

definition drop_listener :: "u16 \<Rightarrow> u64 \<Rightarrow> bool \<Rightarrow> 'w gatt_client \<Rightarrow> 'w gatt_client" where
  "drop_listener h k indicate c =
     (if has_listener h k indicate c then set_subscribers indicate (remove_subscription_listener h k (gc_subscribers indicate c)) c
      else c)"

definition unsubscribe_listener :: "'t transport \<Rightarrow> u16 \<Rightarrow> u16 \<Rightarrow> u64 \<Rightarrow> bool \<Rightarrow> ('w, 't, bool) client_op" where
  "unsubscribe_listener tr value_handle cccd_handle k force = (\<lambda>(c, t).
     let removed = has_listener value_handle k False c \<or> has_listener value_handle k True c;
         remains = subscriber_remains value_handle k False c \<or> subscriber_remains value_handle k True c
     in if \<not> removed \<and> \<not> force then (Ok False, (c, t))
        else and_then (if remains then lift_result (Ok ())
                       else on_transport (gc_write_value tr cccd_handle (u16_to_le_bytes 0) True)) (\<lambda>_ (c, t).
          (Ok removed, (drop_listener value_handle k True (drop_listener value_handle k False c), t))) (c, t))"

section \<open>Received values\<close>

definition run_listeners :: "u16 \<Rightarrow> bytes \<Rightarrow> (u16, 'w gatt_subscription) btree_map \<Rightarrow> 'w \<Rightarrow> 'w" where
  "run_listeners h v m w =
     (case bt_get m h of None \<Rightarrow> w | Some x \<Rightarrow> foldl (\<lambda>w f. f v w) w (bt_values (su_listeners x)))"

definition on_notification :: "att_pdu \<Rightarrow> ('w gatt_client \<times> 'w, bool, gatt_error) op" where
  "on_notification pdu = (\<lambda>(c, w).
     case pdu of
       AttHandleValueNotification h v \<Rightarrow>
         (Ok (is_subscribed h False c), (c\<lparr>gc_cached_values := bt_insert h v (gc_cached_values c)\<rparr>,
            run_listeners h v (gc_notification_subscribers c) w))
     | other \<Rightarrow> (Err (Protocol ''expected Handle Value Notification, got {other:?}'' [] [other]), (c, w)))"

definition on_indication :: "att_pdu \<Rightarrow> ('w gatt_client \<times> 'w, att_pdu, gatt_error) op" where
  "on_indication pdu = (\<lambda>(c, w).
     case pdu of
       AttHandleValueIndication h v \<Rightarrow>
         (Ok AttHandleValueConfirmation, (c\<lparr>gc_cached_values := bt_insert h v (gc_cached_values c)\<rparr>,
            run_listeners h v (gc_indication_subscribers c) w))
     | other \<Rightarrow> (Err (Protocol ''expected Handle Value Indication, got {other:?}'' [] [other]), (c, w)))"

definition cached_value :: "u16 \<Rightarrow> 'w gatt_client \<Rightarrow> bytes option" where
  "cached_value h c = bt_get (gc_cached_values c) h"

end
