(* ===== verification/Gatt_Access.thy ===== *)
theory Gatt_Access
  imports Gatt_Server
begin

text \<open>
  Access to the attributes of a \<open>GattServer\<close>: what a bearer without the required security can learn
  from any sequence of requests, up to the length of a value it may write, and what it can change.
\<close>

definition gs_step :: "block_cipher \<Rightarrow> 'w gatt_server \<Rightarrow> att_pdu \<times> access_context \<Rightarrow> (att_pdu, unit) rresult \<times> 'w gatt_server" where
  "gs_step aes s = (\<lambda>(r, c). gs_on_request aes r c s)"

section \<open>Servers that differ in protected values\<close>

text \<open>
  \<open>P\<close> selects the protected permissions and \<open>B\<close> bounds how far two protected values may differ. Two attributes are
  the same but for a protected value within the bound, two servers the same but for such values.
\<close>

definition same_attribute :: "(bytes \<Rightarrow> bytes \<Rightarrow> bool) \<Rightarrow> (u8 \<Rightarrow> bool) \<Rightarrow> 'w attribute \<Rightarrow> 'w attribute \<Rightarrow> bool" where
  "same_attribute B P a b \<longleftrightarrow> a\<lparr>at_value := at_value b\<rparr> = b \<and> (P (at_permissions a) \<and> B (at_value a) (at_value b) \<or> a = b)"

definition equal_but :: "(bytes \<Rightarrow> bytes \<Rightarrow> bool) \<Rightarrow> (u8 \<Rightarrow> bool) \<Rightarrow> 'w gatt_server \<Rightarrow> 'w gatt_server \<Rightarrow> bool" where
  "equal_but B P s t \<longleftrightarrow> s\<lparr>gs_attributes := gs_attributes t\<rparr> = t \<and> list_all2 (same_attribute B P) (gs_attributes s) (gs_attributes t) \<and>
     distinct (map at_handle (gs_attributes s))"

definition unreadable :: "(u8 \<Rightarrow> bool) \<Rightarrow> access_context \<Rightarrow> bool" where
  "unreadable P c \<longleftrightarrow> (\<forall>p. P p \<longrightarrow> check_read_access p c \<noteq> Ok ())"

definition unwritable :: "(u8 \<Rightarrow> bool) \<Rightarrow> access_context \<Rightarrow> bool" where
  "unwritable P c \<longleftrightarrow> (\<forall>p. P p \<longrightarrow> check_write_access p c \<noteq> Ok ())"

fun is_execute_write :: "att_pdu \<Rightarrow> bool" where
  "is_execute_write (AttExecuteWriteRequest flags) = True"
| "is_execute_write _ = False"

lemma same_attribute_fields:
  assumes "same_attribute B P a b"
  shows "at_handle b = at_handle a" "at_type b = at_type a" "at_end_group b = at_end_group a"
    "at_permissions b = at_permissions a" "at_dynamic b = at_dynamic a"
proof -
  from assms have eq: "a\<lparr>at_value := at_value b\<rparr> = b" by (simp add: same_attribute_def)
  show "at_handle b = at_handle a" "at_type b = at_type a" "at_end_group b = at_end_group a"
    "at_permissions b = at_permissions a" "at_dynamic b = at_dynamic a"
    using arg_cong [OF eq, of at_handle] arg_cong [OF eq, of at_type] arg_cong [OF eq, of at_end_group]
      arg_cong [OF eq, of at_permissions] arg_cong [OF eq, of at_dynamic] by simp_all
qed

lemma equal_but_fields:
  assumes "equal_but B P s t"
  shows "gs_mtu t = gs_mtu s" "gs_negotiated_mtus t = gs_negotiated_mtus s" "gs_prepared_writes t = gs_prepared_writes s"
    "gs_subscriptions t = gs_subscriptions s" "gs_verifier t = gs_verifier s" "gs_world t = gs_world s"
proof -
  from assms have eq: "s\<lparr>gs_attributes := gs_attributes t\<rparr> = t" by (simp add: equal_but_def)
  show "gs_mtu t = gs_mtu s" "gs_negotiated_mtus t = gs_negotiated_mtus s" "gs_prepared_writes t = gs_prepared_writes s"
    "gs_subscriptions t = gs_subscriptions s" "gs_verifier t = gs_verifier s" "gs_world t = gs_world s"
    using arg_cong [OF eq, of gs_mtu] arg_cong [OF eq, of gs_negotiated_mtus] arg_cong [OF eq, of gs_prepared_writes]
      arg_cong [OF eq, of gs_subscriptions] arg_cong [OF eq, of gs_verifier] arg_cong [OF eq, of gs_world] by simp_all
qed

lemma check_access_cases: "(\<exists>code. check_access r pl e an az p c = Err code) \<or> check_access r pl e an az p c = Ok ()"
  by (simp add: check_access_def)

lemma with_handle_Ok [simp]: "with_handle h r = Ok x \<longleftrightarrow> r = Ok x"
  by (cases r) (simp_all add: with_handle_def)

lemma check_read_Err: "check_read_access p c \<noteq> Ok () \<Longrightarrow> \<exists>code. check_read_access p c = Err code"
  using check_access_cases unfolding check_read_access_def by metis

lemma check_write_Err: "check_write_access p c \<noteq> Ok () \<Longrightarrow> \<exists>code. check_write_access p c = Err code"
  using check_access_cases unfolding check_write_access_def by metis

subsection \<open>Reads\<close>

lemma read_value_same: "equal_but B P s t \<Longrightarrow> read_value s c a = read_value t c a"
proof -
  assume "equal_but B P s t"
  then have "dynamic_read s c d = dynamic_read t c d" for d
    by (cases "(s, c, d)" rule: dynamic_read.cases) (simp_all add: subscription_bits_def equal_but_fields)
  then show ?thesis by (simp add: read_value_def split: option.splits)
qed

lemma read_attribute_same:
  assumes "equal_but B P s t" "same_attribute B P a b" "unreadable P c"
  shows "read_attribute s c a = read_attribute t c b"
proof (cases "P (at_permissions a)")
  case True
  then obtain code where "check_read_access (at_permissions a) c = Err code"
    using assms(3) check_read_Err [of "at_permissions a" c] by (auto simp: unreadable_def)
  then show ?thesis using same_attribute_fields [OF assms(2)] by (simp add: read_attribute_def)
next
  case False
  with assms(2) have "a = b" by (simp add: same_attribute_def)
  then show ?thesis using read_value_same [OF assms(1)] by (simp add: read_attribute_def)
qed

lemma find_same: "list_all2 (same_attribute B P) as bs \<Longrightarrow>
    rel_option (same_attribute B P) (List.find (\<lambda>a. at_handle a = h) as) (List.find (\<lambda>a. at_handle a = h) bs)"
  by (induction rule: list_all2_induct) (auto simp: same_attribute_fields)

lemma gs_find_same: "equal_but B P s t \<Longrightarrow> rel_option (same_attribute B P) (gs_find s h) (gs_find t h)"
  unfolding gs_find_def by (rule find_same) (simp add: equal_but_def)

lemma lookup_same:
  assumes "equal_but B P s t"
  obtains e where "gs_lookup s h = Err e" "gs_lookup t h = Err e"
  | a b where "gs_lookup s h = Ok a" "gs_lookup t h = Ok b" "same_attribute B P a b"
  using gs_find_same [OF assms, of h] by (auto simp: gs_lookup_def option_rel_Some1 elim!: option.rel_cases)

lemma read_handle_same:
  assumes "equal_but B P s t" "unreadable P c" shows "read_handle s c = read_handle t c"
proof
  fix h
  from assms(1) show "read_handle s c h = read_handle t c h"
    by (rule lookup_same [where h = h]) (simp_all add: read_handle_def read_attribute_same [OF assms(1) _ assms(2)])
qed

lemma filter_same:
  assumes "list_all2 (same_attribute B P) as bs" "\<And>a b. same_attribute B P a b \<Longrightarrow> f a = f b"
  shows "list_all2 (same_attribute B P) (filter f as) (filter f bs)"
  using assms(1) by (induction rule: list_all2_induct) (auto simp: assms(2))

lemma typed_in_range_same:
  "equal_but B P s t \<Longrightarrow> list_all2 (same_attribute B P) (typed_in_range s a b u) (typed_in_range t a b u)"
  unfolding typed_in_range_def by (rule filter_same) (auto simp: equal_but_def in_range_def same_attribute_fields)

lemma matching_groups_same:
  assumes "list_all2 (same_attribute B P) as bs" "equal_but B P s t" "unreadable P c"
  shows "matching_groups s c v as ls = matching_groups t c v bs ls"
  using assms(1)
proof (induction arbitrary: ls rule: list_all2_induct)
  case (Cons a as b bs)
  then show ?case
    using read_attribute_same [OF assms(2) Cons.hyps(1) assms(3)] same_attribute_fields [OF Cons.hyps(1)]
    by (cases "read_attribute t c b") auto
qed simp

lemma select_values_same:
  assumes "list_all2 (same_attribute B P) as bs" "equal_but B P s t" "unreadable P c"
  shows "select_values s c as sel = select_values t c bs sel"
  using assms(1)
proof (induction arbitrary: sel rule: list_all2_induct)
  case (Cons a as b bs)
  then show ?case
    using read_attribute_same [OF assms(2) Cons.hyps(1) assms(3)] same_attribute_fields [OF Cons.hyps(1)]
    by (cases "read_attribute t c b") auto
qed simp

lemma read_selected_same:
  assumes "equal_but B P s t" "unreadable P c"
  shows "read_selected s c a b u f = read_selected t c a b u f"
proof -
  note same = typed_in_range_same [OF assms(1), of a b u]
  then have "typed_in_range s a b u = [] \<longleftrightarrow> typed_in_range t a b u = []" by auto
  then show ?thesis using select_values_same [OF same assms] by (simp add: read_selected_def)
qed

lemma takeWhile_same:
  assumes "list_all2 (same_attribute B P) as bs" "\<And>a b. same_attribute B P a b \<Longrightarrow> f a = f b"
  shows "list_all2 (same_attribute B P) (takeWhile f as) (takeWhile f bs)"
  using assms(1) by (induction rule: list_all2_induct) (auto simp: assms(2))

lemma map_same:
  assumes "list_all2 (same_attribute B P) as bs" "\<And>a b. same_attribute B P a b \<Longrightarrow> f a = f b"
  shows "map f as = map f bs"
  using assms(1) by (induction rule: list_all2_induct) (auto simp: assms(2))

lemma find_information_same:
  assumes "equal_but B P s t" shows "find_information s a b = find_information t a b"
proof -
  let ?as = "filter (in_range a b) (gs_attributes s)" and ?bs = "filter (in_range a b) (gs_attributes t)"
  have "list_all2 (same_attribute B P) ?as ?bs"
    by (rule filter_same) (use assms in \<open>auto simp: equal_but_def in_range_def same_attribute_fields\<close>)
  then consider "?as = []" "?bs = []"
    | x xs y ys where "?as = x # xs" "?bs = y # ys" "same_attribute B P x y" "list_all2 (same_attribute B P) xs ys"
    by (cases ?as; cases ?bs) auto
  then show ?thesis
  proof cases
    case Cons: (2 x xs y ys)
    have "map (\<lambda>x. u16_to_le_bytes (at_handle x) @ uuid_bytes (at_type x)) (takeWhile (\<lambda>x. length (uuid_bytes (at_type x)) = n) (x # xs)) =
        map (\<lambda>x. u16_to_le_bytes (at_handle x) @ uuid_bytes (at_type x)) (takeWhile (\<lambda>x. length (uuid_bytes (at_type x)) = n) (y # ys))" for n
      by (rule map_same [OF takeWhile_same]) (use Cons in \<open>auto simp: same_attribute_fields\<close>)
    then show ?thesis using Cons same_attribute_fields [OF Cons(3)] by (simp only: find_information_def list.case Let_def)
  qed (simp add: find_information_def)
qed

subsection \<open>Writes\<close>

lemma equal_but_refl: "distinct (map at_handle (gs_attributes s)) \<Longrightarrow> equal_but B P s s"
  by (auto simp: equal_but_def same_attribute_def intro: list_all2_refl)

lemma update_first_handles: "(\<And>a. at_handle (f a) = at_handle a) \<Longrightarrow> map at_handle (update_first Q f as) = map at_handle as"
  by (induction as) auto

lemma update_first_same:
  "list_all2 (same_attribute B P) as bs \<Longrightarrow>
    list_all2 (same_attribute B P) (update_first (\<lambda>a. at_handle a = h) (\<lambda>a. a\<lparr>at_value := v\<rparr>) as)
      (update_first (\<lambda>a. at_handle a = h) (\<lambda>a. a\<lparr>at_value := v\<rparr>) bs)"
proof (induction rule: list_all2_induct)
  case (Cons a as b bs)
  have "same_attribute B P (a\<lparr>at_value := v\<rparr>) (b\<lparr>at_value := v\<rparr>)"
  proof -
    from Cons.hyps(1) have "a\<lparr>at_value := at_value b\<rparr> = b" by (simp add: same_attribute_def)
    from arg_cong [OF this, of "\<lambda>x. x\<lparr>at_value := v\<rparr>"] have "b\<lparr>at_value := v\<rparr> = a\<lparr>at_value := v\<rparr>" by simp
    then show ?thesis by (simp add: same_attribute_def)
  qed
  with Cons show ?case by (simp add: same_attribute_fields)
qed simp

lemma equal_but_replace:
  assumes "equal_but B P s t" "list_all2 (same_attribute B P) xs ys" "distinct (map at_handle xs)"
  shows "equal_but B P (s\<lparr>gs_attributes := xs\<rparr>) (t\<lparr>gs_attributes := ys\<rparr>)"
proof -
  from assms(1) have "s\<lparr>gs_attributes := gs_attributes t\<rparr> = t" by (simp add: equal_but_def)
  from arg_cong [OF this, of "\<lambda>x. x\<lparr>gs_attributes := ys\<rparr>"] show ?thesis using assms(2,3) by (simp add: equal_but_def)
qed

lemma equal_but_update:
  assumes "equal_but B P s t"
  shows "equal_but B P (gs_update h (\<lambda>a. a\<lparr>at_value := v\<rparr>) s) (gs_update h (\<lambda>a. a\<lparr>at_value := v\<rparr>) t)"
  unfolding gs_update_def
  by (rule equal_but_replace [OF assms update_first_same]) (use assms in \<open>simp_all add: equal_but_def update_first_handles\<close>)

text \<open>Updates of the other fields keep the relation.\<close>

lemma equal_but_other:
  assumes "equal_but B P s t" "\<And>xs. f (s\<lparr>gs_attributes := xs\<rparr>) = (f s)\<lparr>gs_attributes := xs\<rparr>" "gs_attributes (f s) = gs_attributes s"
  shows "equal_but B P (f s) (f t)"
proof -
  from assms(1) have t: "t = s\<lparr>gs_attributes := gs_attributes t\<rparr>" by (simp add: equal_but_def)
  then have "f t = (f s)\<lparr>gs_attributes := gs_attributes t\<rparr>" using assms(2) by metis
  then show ?thesis using assms(1,3) by (simp add: equal_but_def)
qed

lemma dynamic_write_same:
  assumes "equal_but B P s t"
  shows "fst (dynamic_write c v d s) = fst (dynamic_write c v d t) \<and> equal_but B P (snd (dynamic_write c v d s)) (snd (dynamic_write c v d t))"
proof (cases d)
  case (CccdValue h)
  have "equal_but B P (cccd_write c h v s) (cccd_write c h v t)"
    by (rule equal_but_other [OF assms, of "cccd_write c h v"]) (auto simp: cccd_write_def Let_def split: list.splits)
  then show ?thesis using CccdValue by simp
next
  case (DynamicValue r f)
  have "equal_but B P (s\<lparr>gs_world := w\<rparr>) (t\<lparr>gs_world := w\<rparr>)" for w
    by (rule equal_but_other [OF assms, of "gs_world_update (\<lambda>_. w)"]) auto
  then show ?thesis
    using DynamicValue equal_but_fields(6) [OF assms] assms by (cases f) (auto split: prod.splits)
qed

lemma write_attribute_same:
  assumes "equal_but B P s t"
  shows "fst (write_attribute c h v s) = fst (write_attribute c h v t) \<and> equal_but B P (snd (write_attribute c h v s)) (snd (write_attribute c h v t))"
  using assms
proof (rule lookup_same [where h = h])
  fix a b assume lookup: "gs_lookup s h = Ok a" "gs_lookup t h = Ok b" and ab: "same_attribute B P a b"
  note same = same_attribute_fields [OF ab]
  have "fst (write_value c v a s) = fst (write_value c v b t) \<and> equal_but B P (snd (write_value c v a s)) (snd (write_value c v b t))"
    using dynamic_write_same [OF assms] equal_but_update [OF assms] same by (auto simp: write_value_def split: option.splits)
  then show ?thesis
    using lookup same assms by (cases "check_write_access (at_permissions a) c") (auto simp: write_attribute_def with_handle_def split: prod.splits)
qed (use assms in \<open>simp_all add: write_attribute_def\<close>)

subsection \<open>Queued writes\<close>

lemma staged_values_get:
  assumes "distinct (map at_handle as)"
  shows "bt_wf (staged_values as) \<and> bt_get (staged_values as) h = map_option at_value (List.find (\<lambda>a. at_handle a = h) as)"
proof -
  have "bt_wf m \<Longrightarrow> distinct (map at_handle as) \<Longrightarrow>
      bt_wf (foldl (\<lambda>m a. bt_insert (at_handle a) (at_value a) m) m as) \<and>
      bt_get (foldl (\<lambda>m a. bt_insert (at_handle a) (at_value a) m) m as) h =
        (case List.find (\<lambda>a. at_handle a = h) as of Some a \<Rightarrow> Some (at_value a) | None \<Rightarrow> bt_get m h)" for m
  proof (induction as arbitrary: m)
    case (Cons a as)
    have "at_handle b \<noteq> at_handle a" if "b \<in> set as" for b
      using Cons.prems imageI [OF that, of at_handle] by auto
    then have "List.find (\<lambda>b. at_handle b = at_handle a) as = None" by (simp add: find_None_iff)
    then show ?case
      using Cons.IH [OF bt_wf_insert [OF Cons.prems(1)], of "at_handle a" "at_value a"] Cons.prems
      by (auto simp: bt_get_insert split: option.splits)
  qed simp
  from this [of "[]"] assms show ?thesis by (auto simp: staged_values_def split: option.splits)
qed

lemma apply_staged_map:
  assumes "distinct (map at_handle as)"
  shows "apply_staged as m = map (\<lambda>a. case bt_get m (at_handle a) of Some v \<Rightarrow> a\<lparr>at_value := v\<rparr> | None \<Rightarrow> a) as"
  using assms
proof (induction as arbitrary: m)
  case (Cons a as)
  have "bt_get (bt_remove (at_handle a) m) (at_handle b) = bt_get m (at_handle b)" if "b \<in> set as" for b
    using Cons.prems imageI [OF that, of at_handle] by (auto simp: bt_get_remove)
  then show ?case using Cons by (auto split: option.splits)
qed simp

lemma apply_staged_handles: "map at_handle (apply_staged as m) = map at_handle as"
  by (induction as arbitrary: m) (auto split: option.splits)

definition staged_same :: "(bytes \<Rightarrow> bytes \<Rightarrow> bool) \<Rightarrow> (u8 \<Rightarrow> bool) \<Rightarrow> 'w gatt_server \<Rightarrow> (u16, bytes) btree_map \<Rightarrow> (u16, bytes) btree_map \<Rightarrow> bool" where
  "staged_same B P s m m' \<longleftrightarrow> bt_wf m \<and> bt_wf m' \<and>
     (\<forall>h. rel_option (\<lambda>v w. v = w \<or> (\<exists>a. gs_find s h = Some a \<and> P (at_permissions a) \<and> B v w)) (bt_get m h) (bt_get m' h))"

lemma staged_sameD: "staged_same B P s m m' \<Longrightarrow>
    rel_option (\<lambda>v w. v = w \<or> (\<exists>a. gs_find s h = Some a \<and> P (at_permissions a) \<and> B v w)) (bt_get m h) (bt_get m' h)"
  by (simp add: staged_same_def)

lemma staged_same_insert:
  assumes "staged_same B P s m m'" "v = w \<or> (\<exists>a. gs_find s h = Some a \<and> P (at_permissions a) \<and> B v w)"
  shows "staged_same B P s (bt_insert h v m) (bt_insert h w m')"
proof -
  have "bt_wf m" "bt_wf m'" using assms(1) by (simp_all add: staged_same_def)
  then show ?thesis using staged_sameD [OF assms(1)] assms(2) by (simp add: staged_same_def bt_wf_insert bt_get_insert)
qed

text \<open>The offset check and the result of a partial write see the length of the value written to and nothing else of it.\<close>

definition writes_within :: "(bytes \<Rightarrow> bytes \<Rightarrow> bool) \<Rightarrow> bool" where
  "writes_within B \<longleftrightarrow> (\<forall>v w. B v w \<longrightarrow> length v = length w \<and> (\<forall>off part. B (overlay off part v) (overlay off part w)))"

lemma overlay_same_length: "length v = length w \<Longrightarrow> length (overlay off part v) = length (overlay off part w)"
  by (simp add: overlay_def Let_def)

lemma writes_within_length: "writes_within (\<lambda>v w. length v = length w)"
  unfolding writes_within_def using overlay_same_length by blast

lemma stage_write_same:
  assumes "staged_same B P s m m'" "gs_find s h = Some a" "\<not> P (at_permissions a) \<or> writes_within B"
  obtains e where "stage_write (h, off, part) m = Err e" "stage_write (h, off, part) m' = Err e"
  | k k' where "stage_write (h, off, part) m = Ok k" "stage_write (h, off, part) m' = Ok k'" "staged_same B P s k k'"
proof (cases "bt_get m h")
  case None
  with staged_sameD [OF assms(1), of h] have "bt_get m' h = None" by (cases "bt_get m' h") auto
  with None that(1) show ?thesis by (simp add: stage_write_def)
next
  case (Some v)
  with staged_sameD [OF assms(1), of h] obtain w where w: "bt_get m' h = Some w" "v = w \<or> P (at_permissions a) \<and> B v w"
    using assms(2) by (cases "bt_get m' h") auto
  then have "length w = length v" "overlay (unat off) part v = overlay (unat off) part w \<or>
      P (at_permissions a) \<and> B (overlay (unat off) part v) (overlay (unat off) part w)"
    using assms(3) by (auto simp: writes_within_def)
  with staged_same_insert [OF assms(1), of _ _ h] assms(2)
  show ?thesis using that Some w(1) by (cases "unat off > length v") (auto simp: stage_write_def)
qed

lemma gs_stage_same:
  assumes "equal_but B P s t" "unwritable P c \<or> writes_within B" "staged_same B P s m m'"
  shows "(\<exists>k k'. gs_stage s c ws m = Ok k \<and> gs_stage t c ws m' = Ok k' \<and> staged_same B P s k k') \<or>
    (\<exists>e. gs_stage s c ws m = Err e \<and> gs_stage t c ws m' = Err e)"
  using assms(3)
proof (induction ws arbitrary: m m')
  case (Cons w ws)
  obtain h off part where w: "w = (h, off, part)" by (cases w)
  from assms(1) show ?case
  proof (rule lookup_same [where h = h])
    fix a b assume lookup: "gs_lookup s h = Ok a" "gs_lookup t h = Ok b" and ab: "same_attribute B P a b"
    note same = same_attribute_fields [OF ab]
    show ?thesis
    proof (cases "check_write_access (at_permissions a) c = Ok ()")
      case True
      then have "\<not> P (at_permissions a) \<or> writes_within B" using assms(2) by (auto simp: unwritable_def)
      with lookup(1) have "gs_find s h = Some a" "\<not> P (at_permissions a) \<or> writes_within B"
        by (simp_all add: gs_lookup_def split: option.splits)
      then show ?thesis
      proof (rule stage_write_same [OF Cons.prems, where off = off and part = part])
        fix e assume "stage_write (h, off, part) m = Err e" "stage_write (h, off, part) m' = Err e"
        then show ?thesis using w lookup same True by (auto simp: with_handle_def)
      next
        fix k k' assume "stage_write (h, off, part) m = Ok k" "stage_write (h, off, part) m' = Ok k'" "staged_same B P s k k'"
        then show ?thesis using Cons.IH [of k k'] w lookup same True by (auto simp: with_handle_def)
      qed
    next
      case False
      then show ?thesis using w lookup same check_write_Err [OF False] by (auto simp: with_handle_def)
    qed
  qed (simp_all add: w)
qed simp

lemma apply_staged_same:
  assumes "equal_but B P s t" "staged_same B P s m m'"
  shows "list_all2 (same_attribute B P) (apply_staged (gs_attributes s) m) (apply_staged (gs_attributes t) m')"
proof -
  have handles: "map at_handle (gs_attributes t) = map at_handle (gs_attributes s)"
    using map_same [of B P "gs_attributes s" "gs_attributes t" at_handle] assms(1) by (auto simp: equal_but_def same_attribute_fields)
  have "distinct (map at_handle (gs_attributes s))" "list_all2 (same_attribute B P) (gs_attributes s) (gs_attributes t)"
    using assms(1) by (simp_all add: equal_but_def)
  moreover have "same_attribute B P (case bt_get m (at_handle a) of Some v \<Rightarrow> a\<lparr>at_value := v\<rparr> | None \<Rightarrow> a)
      (case bt_get m' (at_handle b) of Some v \<Rightarrow> b\<lparr>at_value := v\<rparr> | None \<Rightarrow> b)"
    if "same_attribute B P a b" "a \<in> set (gs_attributes s)" for a b
  proof -
    have find: "gs_find s (at_handle a) = Some a"
      using that(2) \<open>distinct _\<close> by (auto simp: gs_find_def find_Some_iff in_set_conv_nth distinct_conv_nth)
    have eq: "a\<lparr>at_value := at_value b\<rparr> = b" using that(1) by (simp add: same_attribute_def)
    have upd: "b\<lparr>at_value := v\<rparr> = a\<lparr>at_value := v\<rparr>" for v using arg_cong [OF eq, of "\<lambda>x. x\<lparr>at_value := v\<rparr>"] by simp
    show ?thesis
      using that(1) find same_attribute_fields(1) [OF that(1)] upd staged_sameD [OF assms(2), of "at_handle a"]
      by (cases "bt_get m (at_handle a)"; cases "bt_get m' (at_handle a)") (auto simp: same_attribute_def)
  qed
  ultimately show ?thesis
    unfolding apply_staged_map [OF \<open>distinct _\<close>] apply_staged_map [OF \<open>distinct _\<close> [folded handles]] list.rel_map
    by (blast intro: list.rel_mono_strong [of "same_attribute B P"])
qed

lemma execute_same:
  assumes "equal_but B P s t" "unwritable P c \<or> writes_within B"
  shows "fst (gs_execute_writes flags c s) = fst (gs_execute_writes flags c t) \<and>
    equal_but B P (snd (gs_execute_writes flags c s)) (snd (gs_execute_writes flags c t))"
proof -
  let ?f = "\<lambda>s. s\<lparr>gs_prepared_writes := bt_remove (bearer_id c) (gs_prepared_writes s)\<rparr>"
  have clear: "equal_but B P (?f s) (?f t)" by (rule equal_but_other [OF assms(1)]) auto
  have "prepared_of t (bearer_id c) = prepared_of s (bearer_id c)" by (simp add: prepared_of_def equal_but_fields [OF assms(1)])
  have dist: "distinct (map at_handle (gs_attributes s))" "distinct (map at_handle (gs_attributes t))"
    using assms(1) map_same [of B P "gs_attributes s" "gs_attributes t" at_handle] by (auto simp: equal_but_def same_attribute_fields)
  have "staged_same B P s (staged_values (gs_attributes s)) (staged_values (gs_attributes t))"
    unfolding staged_same_def
  proof (intro conjI allI impI)
    fix h
    have rel: "rel_option (same_attribute B P) (gs_find s h) (gs_find t h)" by (rule gs_find_same [OF assms(1)])
    have get: "bt_get (staged_values (gs_attributes s)) h = map_option at_value (gs_find s h)"
        "bt_get (staged_values (gs_attributes t)) h = map_option at_value (gs_find t h)"
      using staged_values_get [OF dist(1)] staged_values_get [OF dist(2)] by (simp_all add: gs_find_def)
    show "rel_option (\<lambda>v w. v = w \<or> (\<exists>a. gs_find s h = Some a \<and> P (at_permissions a) \<and> B v w))
        (bt_get (staged_values (gs_attributes s)) h) (bt_get (staged_values (gs_attributes t)) h)"
      using rel unfolding get by (cases "gs_find s h"; cases "gs_find t h") (auto simp: same_attribute_def)
  qed (use staged_values_get [OF dist(1)] staged_values_get [OF dist(2)] in auto)
  then consider (ok) k k' where "gs_stage s c (prepared_of s (bearer_id c)) (staged_values (gs_attributes s)) = Ok k"
      "gs_stage t c (prepared_of s (bearer_id c)) (staged_values (gs_attributes t)) = Ok k'" "staged_same B P s k k'"
    | (err) e where "gs_stage s c (prepared_of s (bearer_id c)) (staged_values (gs_attributes s)) = Err e"
      "gs_stage t c (prepared_of s (bearer_id c)) (staged_values (gs_attributes t)) = Err e"
    using gs_stage_same [OF assms] by blast
  then show ?thesis
  proof cases
    case (ok k k')
    have "equal_but B P ((?f s)\<lparr>gs_attributes := apply_staged (gs_attributes s) k\<rparr>) ((?f t)\<lparr>gs_attributes := apply_staged (gs_attributes t) k'\<rparr>)"
      using dist(1) by (intro equal_but_replace [OF clear apply_staged_same [OF assms(1) ok(3)]]) (simp add: apply_staged_handles)
    then show ?thesis using ok clear assms(1) \<open>prepared_of t _ = _\<close> by (simp add: gs_execute_writes_def Let_def)
  next
    case err
    then show ?thesis using clear assms(1) \<open>prepared_of t _ = _\<close> by (simp add: gs_execute_writes_def Let_def)
  qed
qed

subsection \<open>Whole requests\<close>

lemma command_write_same:
  assumes "equal_but B P s t"
  shows "fst (command_write c h v s) = fst (command_write c h v t) \<and> equal_but B P (snd (command_write c h v s)) (snd (command_write c h v t))"
proof -
  obtain r s' t' where "write_attribute c h v s = (r, s')" "write_attribute c h v t = (r, t')" "equal_but B P s' t'"
    using write_attribute_same [OF assms, of c h v] by (metis prod.collapse)
  then show ?thesis by (cases r) (simp_all add: command_write_def)
qed

lemma signed_write_same:
  assumes "equal_but B P s t"
  shows "fst (on_signed_write aes r c h v s) = fst (on_signed_write aes r c h v t) \<and>
    equal_but B P (snd (on_signed_write aes r c h v s)) (snd (on_signed_write aes r c h v t))"
proof -
  obtain verified verifier where v: "check_signature aes r (gs_verifier s) = (verified, verifier)" by (metis surj_pair)
  have set: "equal_but B P (s\<lparr>gs_verifier := verifier\<rparr>) (t\<lparr>gs_verifier := verifier\<rparr>)"
    by (rule equal_but_other [OF assms, of "gs_verifier_update (\<lambda>_. verifier)"]) auto
  show ?thesis
  proof (cases "verified = Ok True")
    case True
    then show ?thesis using command_write_same [OF set] v equal_but_fields(5) [OF assms] by (simp add: on_signed_write_def Let_def)
  next
    case False
    then show ?thesis using set v equal_but_fields(5) [OF assms]
      by (cases verified) (auto simp: on_signed_write_def Let_def split: bool.splits)
  qed
qed

lemma prepare_write_same:
  assumes "equal_but B P s t"
  shows "fst (gs_prepare_write c h off part s) = fst (gs_prepare_write c h off part t) \<and>
    equal_but B P (snd (gs_prepare_write c h off part s)) (snd (gs_prepare_write c h off part t))"
  using assms
proof (rule lookup_same [where h = h])
  fix a b assume lookup: "gs_lookup s h = Ok a" "gs_lookup t h = Ok b" and ab: "same_attribute B P a b"
  let ?f = "\<lambda>s. s\<lparr>gs_prepared_writes := bt_insert (bearer_id c) (prepared_of s (bearer_id c) @ [(h, off, part)]) (gs_prepared_writes s)\<rparr>"
  have "equal_but B P (?f s) (?f t)" by (rule equal_but_other [OF assms, of ?f]) (auto simp: prepared_of_def)
  then show ?thesis
    using lookup same_attribute_fields [OF ab] assms
    by (cases "check_write_access (at_permissions a) c") (auto simp: gs_prepare_write_def with_handle_def)
qed (use assms in \<open>simp_all add: gs_prepare_write_def\<close>)

lemma request_same:
  assumes "equal_but B P s t" "unreadable P c" "is_execute_write r \<longrightarrow> unwritable P c \<or> writes_within B"
  shows "fst (gs_on_request aes r c s) = fst (gs_on_request aes r c t) \<and> equal_but B P (snd (gs_on_request aes r c s)) (snd (gs_on_request aes r c t))"
proof (cases r)
  case (AttExchangeMtuRequest m)
  let ?f = "\<lambda>s. s\<lparr>gs_negotiated_mtus := bt_insert (bearer_id c) (max (min m (gs_mtu s)) ATT_DEFAULT_MTU) (gs_negotiated_mtus s)\<rparr>"
  have "equal_but B P (?f s) (?f t)" by (rule equal_but_other [OF assms(1), of ?f]) auto
  then show ?thesis using AttExchangeMtuRequest equal_but_fields [OF assms(1)] by (simp add: gs_on_request_def)
next
  case (AttWriteRequest h v)
  then show ?thesis using write_attribute_same [OF assms(1), of c h v] by (auto simp: gs_on_request_def split: prod.splits)
next
  case (AttPrepareWriteRequest h off part)
  then show ?thesis using prepare_write_same [OF assms(1), of c h off part] by (auto simp: gs_on_request_def split: prod.splits)
next
  case (AttExecuteWriteRequest flags)
  then show ?thesis using execute_same [OF assms(1), of c flags] assms(3) by (simp add: gs_on_request_def)
next
  case (AttWriteCommand h v)
  then show ?thesis using command_write_same [OF assms(1)] by (simp add: gs_on_request_def)
next
  case (AttSignedWriteCommand h v n sig)
  then show ?thesis using signed_write_same [OF assms(1)] by (simp add: gs_on_request_def)
next
  case (AttReadBlobRequest h off)
  have mtu: "negotiated_mtu s (bearer_id c) = negotiated_mtu t (bearer_id c)" by (simp add: negotiated_mtu_def equal_but_fields [OF assms(1)])
  have "read_blob s c h off = read_blob t c h off" unfolding read_blob_def read_handle_same [OF assms(1,2)] mtu ..
  then show ?thesis using AttReadBlobRequest assms(1) by (simp add: gs_on_request_def)
next
  case (AttFindByTypeValueRequest a b u v)
  then show ?thesis using assms matching_groups_same [OF typed_in_range_same [OF assms(1)] assms(1,2)]
    by (simp add: gs_on_request_def find_by_type_value_def)
qed (use assms read_handle_same [OF assms(1,2)] read_selected_same [OF assms(1,2)] find_information_same [OF assms(1)]
    equal_but_fields [OF assms(1)] in \<open>simp_all add: gs_on_request_def negotiated_mtu_def read_by_type_def read_by_group_type_def\<close>)

lemma run_same:
  assumes "equal_but B P s t" "\<forall>(r, c) \<in> set es. unreadable P c \<and> (is_execute_write r \<longrightarrow> unwritable P c \<or> writes_within B)"
  shows "fst (run_machine (gs_step aes) s es) = fst (run_machine (gs_step aes) t es) \<and>
    equal_but B P (snd (run_machine (gs_step aes) s es)) (snd (run_machine (gs_step aes) t es))"
  using assms
proof (induction es arbitrary: s t)
  case (Cons e es)
  obtain r c where e: "e = (r, c)" by (cases e)
  have "fst (gs_step aes s e) = fst (gs_step aes t e) \<and> equal_but B P (snd (gs_step aes s e)) (snd (gs_step aes t e))"
    using request_same [OF Cons.prems(1), of c r aes] Cons.prems(2) e by (simp add: gs_step_def)
  with Cons.IH [of "snd (gs_step aes s e)" "snd (gs_step aes t e)"] Cons.prems(2) show ?case
    by (simp add: split_beta Let_def)
qed simp

lemma equal_but_lengths:
  assumes "equal_but (\<lambda>_ _. True) P s t" "map (length \<circ> at_value) (gs_attributes s) = map (length \<circ> at_value) (gs_attributes t)"
  shows "equal_but (\<lambda>v w. length v = length w) P s t"
proof -
  have "list_all2 (\<lambda>a b. length (at_value a) = length (at_value b)) (gs_attributes s) (gs_attributes t)"
    using assms(2) by (auto simp: list_all2_conv_all_nth list_eq_iff_nth_eq)
  moreover have "list_all2 (same_attribute (\<lambda>_ _. True) P) (gs_attributes s) (gs_attributes t)" using assms(1) by (simp add: equal_but_def)
  ultimately have "list_all2 (same_attribute (\<lambda>v w. length v = length w) P) (gs_attributes s) (gs_attributes t)"
    by (auto simp: list_all2_conv_all_nth same_attribute_def)
  then show ?thesis using assms(1) by (simp add: equal_but_def)
qed

section \<open>What requests can change\<close>

text \<open>A value only changes under a context that may write it; the rest of an attribute never changes.\<close>

definition frame :: "'w attribute \<Rightarrow> 'w attribute" where
  "frame a = a\<lparr>at_value := []\<rparr>"

definition kept :: "access_context \<Rightarrow> 'w attribute \<Rightarrow> 'w attribute \<Rightarrow> bool" where
  "kept c a b \<longleftrightarrow> frame b = frame a \<and> (check_write_access (at_permissions a) c = Ok () \<or> b = a)"

lemma kept_refl: "kept c a a"
  by (simp add: kept_def)

lemma list_kept_refl: "list_all2 (kept c) as as"
  by (rule list_all2_refl) (rule kept_refl)

lemma gs_lookup_Ok: "gs_lookup s h = Ok a \<longleftrightarrow> gs_find s h = Some a"
  by (simp add: gs_lookup_def split: option.splits)

lemma update_first_kept:
  assumes "List.find (\<lambda>a. at_handle a = h) as = Some a" "check_write_access (at_permissions a) c = Ok ()"
  shows "list_all2 (kept c) as (update_first (\<lambda>a. at_handle a = h) (\<lambda>a. a\<lparr>at_value := v\<rparr>) as)"
  using assms by (induction as) (auto simp: kept_def frame_def list_kept_refl split: if_splits)

lemma dynamic_write_attributes: "gs_attributes (snd (dynamic_write c v d s)) = gs_attributes s"
proof (cases d)
  case (CccdValue h)
  then show ?thesis by (simp add: cccd_write_def Let_def split: list.splits)
next
  case (DynamicValue r f)
  then show ?thesis by (cases f) (auto split: prod.splits)
qed

lemma write_attribute_kept: "list_all2 (kept c) (gs_attributes s) (gs_attributes (snd (write_attribute c h v s)))"
proof (cases "gs_lookup s h")
  case (Ok a)
  then have find: "List.find (\<lambda>a. at_handle a = h) (gs_attributes s) = Some a" by (simp add: gs_lookup_Ok gs_find_def)
  then have "at_handle a = h" by (auto simp: find_Some_iff)
  show ?thesis
  proof (cases "check_write_access (at_permissions a) c = Ok ()")
    case True
    then have "list_all2 (kept c) (gs_attributes s) (gs_attributes (snd (write_value c v a s)))"
      using update_first_kept [OF find True] \<open>at_handle a = h\<close>
      by (simp add: write_value_def gs_update_def dynamic_write_attributes list_kept_refl split: option.splits)
    then show ?thesis using Ok True by (simp add: write_attribute_def with_handle_def split_beta)
  next
    case False
    then show ?thesis using Ok check_write_Err [OF False] list_kept_refl by (auto simp: write_attribute_def with_handle_def)
  qed
qed (simp_all add: write_attribute_def list_kept_refl)

lemma gs_stage_get:
  assumes "gs_stage s c ws m = Ok k" "bt_wf m"
  shows "bt_wf k \<and> (\<forall>h. bt_get k h = bt_get m h \<or>
    (\<exists>a. gs_find s h = Some a \<and> check_write_access (at_permissions a) c = Ok () \<and> at_dynamic a = None \<and> bt_get k h \<noteq> None))"
  using assms
proof (induction ws arbitrary: m)
  case (Cons w ws)
  obtain h off part where w: "w = (h, off, part)" by (cases w)
  from Cons.prems obtain a m1 where a: "gs_lookup s h = Ok a" "check_write_access (at_permissions a) c = Ok ()" "at_dynamic a = None"
      "stage_write w m = Ok m1" "gs_stage s c ws m1 = Ok k"
    by (auto simp: w split: if_splits)
  then obtain v where m1: "m1 = bt_insert h v m" by (auto simp: stage_write_def w split: option.splits if_splits)
  have IH: "bt_wf k" "bt_get k h' = bt_get m1 h' \<or>
      (\<exists>a. gs_find s h' = Some a \<and> check_write_access (at_permissions a) c = Ok () \<and> at_dynamic a = None \<and> bt_get k h' \<noteq> None)" for h'
    using Cons.IH [OF a(5)] Cons.prems(2) m1 by (simp_all add: bt_wf_insert)
  have "bt_get k h' = bt_get m h' \<or>
      (\<exists>a. gs_find s h' = Some a \<and> check_write_access (at_permissions a) c = Ok () \<and> at_dynamic a = None \<and> bt_get k h' \<noteq> None)" for h'
    using IH(2) [of h'] a(1-3) m1 Cons.prems(2) by (cases "h' = h") (auto simp: bt_get_insert gs_lookup_Ok)
  with IH(1) show ?case by blast
qed simp

lemma execute_kept:
  assumes "distinct (map at_handle (gs_attributes s))"
  shows "list_all2 (kept c) (gs_attributes s) (gs_attributes (snd (gs_execute_writes flags c s)))"
proof (cases "flags = 1 \<and> is_ok (gs_stage s c (prepared_of s (bearer_id c)) (staged_values (gs_attributes s)))")
  case True
  then obtain k where k: "gs_stage s c (prepared_of s (bearer_id c)) (staged_values (gs_attributes s)) = Ok k"
    by (auto elim: is_ok.elims)
  note staged = staged_values_get [OF assms]
  have "kept c a (case bt_get k (at_handle a) of Some v \<Rightarrow> a\<lparr>at_value := v\<rparr> | None \<Rightarrow> a)" if "a \<in> set (gs_attributes s)" for a
  proof -
    have find: "gs_find s (at_handle a) = Some a"
      using that assms by (auto simp: gs_find_def find_Some_iff in_set_conv_nth distinct_conv_nth)
    then have val: "bt_get (staged_values (gs_attributes s)) (at_handle a) = Some (at_value a)" "bt_wf (staged_values (gs_attributes s))"
      using staged [of "at_handle a"] by (simp_all add: gs_find_def)
    from spec [OF conjunct2 [OF gs_stage_get [OF k val(2)]], of "at_handle a"] find val(1)
    consider "bt_get k (at_handle a) = Some (at_value a)"
      | v where "bt_get k (at_handle a) = Some v" "check_write_access (at_permissions a) c = Ok ()" by auto
    then show ?thesis by cases (simp_all add: kept_def frame_def)
  qed
  then have "list_all2 (kept c) (gs_attributes s) (apply_staged (gs_attributes s) k)"
    by (auto simp: apply_staged_map [OF assms] list_all2_map2 intro: list_all2_refl simp: list_all2_same)
  then show ?thesis using True k by (simp add: gs_execute_writes_def Let_def)
next
  case False
  then show ?thesis
    by (cases "gs_stage s c (prepared_of s (bearer_id c)) (staged_values (gs_attributes s))")
      (auto simp: gs_execute_writes_def Let_def list_kept_refl)
qed

text \<open>A signed write is checked as an authenticated one.\<close>

fun write_context :: "att_pdu \<Rightarrow> access_context \<Rightarrow> access_context" where
  "write_context (AttSignedWriteCommand h v n sig) c = c\<lparr>ac_authenticated := True\<rparr>"
| "write_context _ c = c"

lemma command_write_kept: "list_all2 (kept c) (gs_attributes s) (gs_attributes (snd (command_write c h v s)))"
proof -
  obtain r s' where w: "write_attribute c h v s = (r, s')" by (metis surj_pair)
  with write_attribute_kept [of c s h v] show ?thesis by (cases r) (simp_all add: command_write_def)
qed

lemma request_kept:
  assumes "distinct (map at_handle (gs_attributes s))"
  shows "list_all2 (kept (write_context r c)) (gs_attributes s) (gs_attributes (snd (gs_on_request aes r c s)))"
proof (cases r)
  case (AttSignedWriteCommand h v n sig)
  obtain verified verifier where "check_signature aes r (gs_verifier s) = (verified, verifier)" by (metis surj_pair)
  then show ?thesis
    using command_write_kept [of "c\<lparr>ac_authenticated := True\<rparr>" "s\<lparr>gs_verifier := verifier\<rparr>" h v] AttSignedWriteCommand
    by (auto simp: gs_on_request_def on_signed_write_def Let_def list_kept_refl split: rresult.splits bool.splits)
next
  case (AttWriteRequest h v)
  then show ?thesis using write_attribute_kept [of c s h v] by (simp add: gs_on_request_def split_beta)
next
  case (AttPrepareWriteRequest h off part)
  have "gs_attributes (snd (gs_prepare_write c h off part s)) = gs_attributes s"
    by (simp add: gs_prepare_write_def split: rresult.splits)
  then show ?thesis using AttPrepareWriteRequest by (simp add: gs_on_request_def split_beta list_kept_refl)
next
  case (AttExecuteWriteRequest flags)
  then show ?thesis using execute_kept [OF assms] by (simp add: gs_on_request_def)
next
  case (AttWriteCommand h v)
  then show ?thesis using command_write_kept by (simp add: gs_on_request_def)
qed (simp_all add: gs_on_request_def list_kept_refl)

lemma kept_handles: "list_all2 (kept c) as bs \<Longrightarrow> map at_handle bs = map at_handle as"
proof (induction rule: list_all2_induct)
  case (Cons a as b bs)
  then have "at_handle (frame b) = at_handle (frame a)" by (simp add: kept_def)
  with Cons show ?case by (simp add: frame_def)
qed simp

lemma run_kept:
  assumes "distinct (map at_handle (gs_attributes s))"
    "\<forall>(r, c) \<in> set es. \<forall>p. P p \<longrightarrow> check_write_access p (write_context r c) \<noteq> Ok ()"
  shows "list_all2 (\<lambda>a b. frame b = frame a \<and> (P (at_permissions a) \<longrightarrow> b = a)) (gs_attributes s)
    (gs_attributes (snd (run_machine (gs_step aes) s es)))"
  using assms
proof (induction es arbitrary: s)
  case Nil
  then show ?case by (simp add: list_all2_same)
next
  case (Cons e es)
  obtain r c where e: "e = (r, c)" by (cases e)
  let ?s = "snd (gs_step aes s e)"
  have kept: "list_all2 (kept (write_context r c)) (gs_attributes s) (gs_attributes ?s)"
    using request_kept [OF Cons.prems(1)] by (simp add: e gs_step_def)
  then have first: "list_all2 (\<lambda>a b. frame b = frame a \<and> (P (at_permissions a) \<longrightarrow> b = a)) (gs_attributes s) (gs_attributes ?s)"
    using Cons.prems(2) e by (auto simp: kept_def elim!: list.rel_mono_strong)
  have "list_all2 (\<lambda>a b. frame b = frame a \<and> (P (at_permissions a) \<longrightarrow> b = a)) (gs_attributes ?s)
      (gs_attributes (snd (run_machine (gs_step aes) ?s es)))"
    using Cons.IH [of ?s] Cons.prems kept_handles [OF kept] by simp
  from list_all2_trans [OF _ first this] show ?case by (simp add: split_beta Let_def)
qed

section \<open>What the offset check tells\<close>

text \<open>
  A queued write of nothing at the length of a value is accepted, at a greater offset it is refused: a bearer that
  may write a value without reading it learns the length.
\<close>

lemma execute_probe:
  assumes "distinct (map at_handle (gs_attributes s))" "gs_find s h = Some a" "check_write_access (at_permissions a) c = Ok ()"
    "at_dynamic a = None" "prepared_of s (bearer_id c) = []"
  shows "fst (run_machine (gs_step aes) s [(AttPrepareWriteRequest h off [], c), (AttExecuteWriteRequest 1, c)]) =
    [Ok (AttPrepareWriteResponse h off []),
     if unat off \<le> length (at_value a) then Ok AttExecuteWriteResponse
     else Ok (AttErrorResponse ATT_EXECUTE_WRITE_REQUEST h ATT_INVALID_OFFSET_ERROR)]"
proof -
  let ?s = "s\<lparr>gs_prepared_writes := bt_insert (bearer_id c) [(h, off, [])] (gs_prepared_writes s)\<rparr>"
  have lookup: "gs_lookup s h = Ok a" "gs_lookup ?s h = Ok a" using assms(2) by (simp_all add: gs_lookup_def gs_find_def)
  have "bt_get (staged_values (gs_attributes s)) h = Some (at_value a)"
    using staged_values_get [OF assms(1), of h] assms(2) by (simp add: gs_find_def)
  then show ?thesis
    using lookup assms(3-5)
    by (auto simp: gs_step_def gs_on_request_def gs_prepare_write_def gs_execute_writes_def Let_def with_handle_def
        prepared_of_def bt_get_insert_same stage_write_def)
qed

section \<open>Property\<close>



end
