(* ===== verification/Gatt_Database.thy ===== *)
theory Gatt_Database
  imports Gatt_Server
begin

text \<open>
  The attribute database that \<open>GattServer::from_definitions\<close> builds: which definitions are accepted,
  the handles, the group of every service and the place of every characteristic.
\<close>

section \<open>Layout\<close>

definition total_count :: "service_definition list \<Rightarrow> nat" where
  "total_count ss = sum_list (map service_count ss)"

text \<open>The first handle of the \<open>i\<close>-th service, and of the \<open>j\<close>-th characteristic of a service at \<open>h\<close>.\<close>

definition service_start :: "service_definition list \<Rightarrow> nat \<Rightarrow> nat" where
  "service_start ss i = 1 + total_count (take i ss)"

definition characteristic_start :: "nat \<Rightarrow> service_definition \<Rightarrow> nat \<Rightarrow> nat" where
  "characteristic_start h s j =
     h + 1 + length (sd_included s) + sum_list (map characteristic_count (take j (sd_characteristics s)))"

lemma service_count_pos: "1 \<le> service_count s"
  by (simp add: service_count_def)

lemma total_count_Cons [simp]: "total_count (s # ss) = service_count s + total_count ss" "total_count [] = 0"
  by (simp_all add: total_count_def)

lemma layouts_Ok_iff: "(\<exists>ls. layouts k ss = Ok ls) \<longleftrightarrow> ss = [] \<or> k + total_count ss \<le> 65536"
proof (induction ss arbitrary: k)
  case (Cons s ss)
  have "1 \<le> service_count s" by (rule service_count_pos)
  then show ?case using Cons.IH [of "k + service_count s"] by (cases ss) (auto simp: Let_def)
qed simp

lemma layouts_no_panic: "\<not> is_panic (layouts k ss) \<and> (layouts k ss = Err e \<longrightarrow> e = TooManyAttributes)"
proof (induction ss arbitrary: k)
  case (Cons s ss)
  from Cons.IH [of "k + (service_count s - 1) + 1"] show ?case
    by (cases "layouts (k + (service_count s - 1) + 1) ss") (auto simp: Let_def)
qed simp

lemma layouts_nth:
  assumes "layouts k ss = Ok ls"
  shows "length ls = length ss \<and> (\<forall>i < length ss. ls ! i =
    (of_nat (k + total_count (take i ss)), of_nat (k + total_count (take (Suc i) ss) - 1)))"
  using assms
proof (induction ss arbitrary: k ls)
  case (Cons s ss)
  obtain ls' where ls: "layouts (k + service_count s) ss = Ok ls'"
      "ls = (of_nat k, of_nat (k + (service_count s - 1))) # ls'"
    using Cons.prems service_count_pos [of s] by (auto simp: Let_def split: if_splits)
  show ?case
  proof (intro conjI allI impI)
    show "length ls = length (s # ss)" using Cons.IH [OF ls(1)] ls(2) by simp
    fix i assume "i < length (s # ss)"
    then show "ls ! i = (of_nat (k + total_count (take i (s # ss))), of_nat (k + total_count (take (Suc i) (s # ss)) - 1))"
      using Cons.IH [OF ls(1)] ls(2) service_count_pos [of s] by (cases i) (auto simp: add.assoc)
  qed
qed simp

lemma check_included_Ok_iff:
  "check_included n i ss = Ok () \<longleftrightarrow> (\<forall>s \<in> set ss. \<forall>k \<in> set (sd_included s). k < n)"
proof (induction ss arbitrary: i)
  case (Cons s ss)
  show ?case
  proof (cases "List.find (\<lambda>k. n \<le> k) (sd_included s)")
    case None
    then have "\<forall>k \<in> set (sd_included s). k < n" by (auto simp: find_None_iff not_le)
    then show ?thesis using None Cons.IH by simp
  next
    case (Some k)
    then have "k \<in> set (sd_included s)" "n \<le> k" by (auto simp: find_Some_iff)
    then show ?thesis using Some by (auto simp: not_less)
  qed
qed simp

lemma check_included_no_panic: "\<not> is_panic (check_included n i ss)"
  by (induction ss arbitrary: i) (auto split: option.splits)

section \<open>Handles\<close>

lemma map_at_handle_enumerate:
  "(\<And>k x. at_handle (f k x) = of_nat k) \<Longrightarrow> map at_handle (map (\<lambda>(k, x). f k x) (enumerate h xs)) = map of_nat [h..<h + length xs]"
  by (induction xs arbitrary: h) (auto simp: upt_rec [of _ "Suc _ + _"] upt_rec)

lemma upt_Suc_head: "[h..<h + Suc n] = h # [Suc h..<Suc h + n]"
  by (subst upt_conv_Cons) auto

lemma upt_append: "[h..<h + (m + n)] = [h..<h + m] @ [h + m..<h + m + n]"
  using upt_add_eq_append [of h "h + m" n] by (simp add: add.assoc)

lemma characteristic_handles:
  "map at_handle (characteristic_attributes h c) = map of_nat [h..<h + characteristic_count c]"
proof -
  have count: "characteristic_count c = Suc (Suc (length (cd_descriptors c) + (if needs_cccd c then 1 else 0)))"
    by (simp add: characteristic_count_def)
  have "[h..<h + characteristic_count c] = h # Suc h # [h + 2..<h + 2 + length (cd_descriptors c)] @
      (if needs_cccd c then [h + 2 + length (cd_descriptors c)] else [])"
    unfolding count upt_Suc_head upt_append by simp
  moreover have "map at_handle (map (\<lambda>(k, d). descriptor_attribute (h + 1) k d) (enumerate (h + 2) (cd_descriptors c))) =
      map of_nat [h + 2..<h + 2 + length (cd_descriptors c)]"
    by (rule map_at_handle_enumerate) (simp add: descriptor_attribute_def)
  ultimately show ?thesis
    unfolding characteristic_attributes_def map_append
    by (auto simp: declaration_attribute_def value_attribute_def cccd_attribute_def simp del: map_map upt_Suc)
qed

lemma characteristic_attributes_length: "length (characteristic_attributes h c) = characteristic_count c"
  using arg_cong [OF characteristic_handles [of h c], of length] by simp

lemma characteristics_handles:
  "map at_handle (characteristics_attributes h cs) = map of_nat [h..<h + sum_list (map characteristic_count cs)]"
proof (induction cs arbitrary: h)
  case (Cons c cs)
  show ?case
    using Cons.IH [of "h + characteristic_count c"]
      upt_add_eq_append [of h "h + characteristic_count c" "sum_list (map characteristic_count cs)"]
    by (simp add: characteristic_handles add.assoc)
qed simp

lemma service_handles:
  "map at_handle (service_attributes ls us h l s) = map of_nat [h..<h + service_count s]"
proof -
  let ?n = "length (sd_included s)" and ?m = "sum_list (map characteristic_count (sd_characteristics s))"
  have count: "service_count s = Suc (?n + ?m)" by (simp add: service_count_def)
  have "[h..<h + service_count s] = h # [h + 1..<h + 1 + ?n] @ [h + 1 + ?n..<h + 1 + ?n + ?m]"
    unfolding count upt_Suc_head upt_append by simp
  moreover have "map at_handle (map (\<lambda>(k, i). include_attribute ls us k i) (enumerate (h + 1) (sd_included s))) =
      map of_nat [h + 1..<h + 1 + ?n]"
    by (rule map_at_handle_enumerate) (simp add: include_attribute_def)
  ultimately show ?thesis
    unfolding service_attributes_def
    by (simp add: service_declaration_def characteristics_handles del: map_map upt_Suc)
qed

lemma services_handles:
  "length ls = length ss \<Longrightarrow> map at_handle (services_attributes Ls us h ls ss) = map of_nat [h..<h + total_count ss]"
proof (induction ls ss arbitrary: h rule: list_induct2)
  case (Cons l ls s ss)
  show ?case
    using Cons.IH [of "h + service_count s"] upt_add_eq_append [of h "h + service_count s" "total_count ss"]
    by (simp add: service_handles add.assoc)
qed simp

lemma service_attributes_length: "length (service_attributes ls us h l s) = service_count s"
  using arg_cong [OF service_handles [of ls us h l s], of length] by simp

section \<open>The place of an attribute\<close>

lemma services_attributes_block:
  assumes "length ls = length ss" "i < length ss"
  shows "\<exists>xs ys :: 'w attribute list. services_attributes Ls us h ls ss = xs @ service_attributes Ls us (h + total_count (take i ss)) (ls ! i) (ss ! i) @ ys \<and>
    length xs = total_count (take i ss)"
  using assms
proof (induction ls ss arbitrary: i h rule: list_induct2)
  case (Cons l ls s ss)
  show ?case
  proof (cases i)
    case 0
    show ?thesis by (rule exI [of _ "[]"]) (simp add: 0)
  next
    case (Suc j)
    with Cons.IH [of j "h + service_count s"] Cons.prems obtain xs ys :: "'w attribute list" where
      "services_attributes Ls us (h + service_count s) ls ss =
         xs @ service_attributes Ls us (h + service_count s + total_count (take j ss)) (ls ! j) (ss ! j) @ ys"
      "length xs = total_count (take j ss)" by auto
    then show ?thesis
      by (intro exI [of _ "service_attributes Ls us h l s @ xs"] exI [of _ ys])
        (simp add: Suc service_attributes_length add.assoc)
  qed
qed simp

lemma characteristics_attributes_block:
  assumes "j < length cs"
  shows "\<exists>xs ys :: 'w attribute list. characteristics_attributes h cs =
      xs @ characteristic_attributes (h + sum_list (map characteristic_count (take j cs))) (cs ! j) @ ys \<and>
    length xs = sum_list (map characteristic_count (take j cs))"
  using assms
proof (induction cs arbitrary: j h)
  case (Cons c cs)
  show ?case
  proof (cases j)
    case 0
    show ?thesis by (rule exI [of _ "[]"]) (simp add: 0)
  next
    case (Suc k)
    with Cons.IH [of k "h + characteristic_count c"] Cons.prems obtain xs ys :: "'w attribute list" where
      "characteristics_attributes (h + characteristic_count c) cs =
        xs @ characteristic_attributes (h + characteristic_count c + sum_list (map characteristic_count (take k cs))) (cs ! k) @ ys"
      "length xs = sum_list (map characteristic_count (take k cs))" by auto
    then show ?thesis
      by (intro exI [of _ "characteristic_attributes h c @ xs"] exI [of _ ys]) (simp add: Suc characteristic_attributes_length add.assoc)
  qed
qed simp

lemma of_nat_u16_inj: "inj_on (of_nat :: nat \<Rightarrow> u16) {..65535}"
  by (rule inj_on_inverseI [of _ unat]) (simp add: unat_of_nat_u16)

text \<open>With consecutive handles from 1 on, a lookup is an access by index.\<close>

lemma find_by_index:
  assumes "map at_handle as = map of_nat [1..<Suc n]" "n \<le> 65535" "k < n"
  shows "List.find (\<lambda>a. at_handle a = of_nat (Suc k)) as = Some (as ! k)"
proof -
  have len: "length as = n" using arg_cong [OF assms(1), of length] by simp
  have nth: "at_handle (as ! j) = of_nat (Suc j)" if "j < n" for j
    using arg_cong [OF assms(1), of "\<lambda>xs. xs ! j"] that len by (simp del: upt_Suc)
  have "at_handle (as ! j) \<noteq> of_nat (Suc k)" if "j < k" for j
    using nth [of j] that assms(2,3) inj_onD [OF of_nat_u16_inj, of "Suc j" "Suc k"] by auto
  then show ?thesis using nth [OF assms(3)] assms(3) len by (auto simp: find_Some_iff)
qed

lemma from_definitions_OkE:
  assumes "from_definitions w ss = Ok s"
  obtains ls where "layouts 1 ss = Ok ls" "length ls = length ss"
    "gs_attributes s = services_attributes ls (map sd_uuid ss) 1 ls ss"
    "map at_handle (gs_attributes s) = map of_nat [1..<Suc (total_count ss)]" "total_count ss \<le> 65535"
proof -
  from assms obtain ls where ls: "layouts 1 ss = Ok ls" "gs_attributes s = services_attributes ls (map sd_uuid ss) 1 ls ss"
    by (auto simp: from_definitions_def)
  moreover from layouts_nth [OF ls(1)] have len: "length ls = length ss" by simp
  moreover from layouts_Ok_iff [of 1 ss] ls(1) have "total_count ss \<le> 65535" by (cases ss) auto
  ultimately show thesis using that services_handles [OF len, of ls "map sd_uuid ss" 1] by simp
qed

lemma from_definitions_Ok_iff:
  "(\<exists>s. from_definitions w ss = Ok s) \<longleftrightarrow>
     total_count ss \<le> 65535 \<and> (\<forall>sd \<in> set ss. \<forall>k \<in> set (sd_included sd). k < length ss)"
proof -
  have "(\<exists>s. from_definitions w ss = Ok s) \<longleftrightarrow> (\<exists>ls. layouts 1 ss = Ok ls) \<and> check_included (length ss) 0 ss = Ok ()"
    by (auto simp: from_definitions_def)
  also have "(\<exists>ls. layouts 1 ss = Ok ls) \<longleftrightarrow> total_count ss \<le> 65535"
    unfolding layouts_Ok_iff by (cases ss) auto
  finally show ?thesis by (simp add: check_included_Ok_iff)
qed

text \<open>The block of the \<open>i\<close>-th service in the database.\<close>

lemma service_block:
  fixes s :: "'w gatt_server"
  assumes "from_definitions w ss = Ok s" "i < length ss"
  obtains ls and xs ys :: "'w attribute list" where
    "gs_attributes s = xs @ service_attributes ls (map sd_uuid ss) (service_start ss i)
        (of_nat (service_start ss i), of_nat (service_start ss (Suc i) - 1)) (ss ! i) @ ys"
    "Suc (length xs) = service_start ss i" "service_start ss i + service_count (ss ! i) = service_start ss (Suc i)"
    "service_start ss (Suc i) \<le> Suc (total_count ss)"
proof -
  obtain ls where ls: "layouts 1 ss = Ok ls" "length ls = length ss"
      "gs_attributes s = services_attributes ls (map sd_uuid ss) 1 ls ss"
    using from_definitions_OkE [OF assms(1)] by metis
  obtain xs ys :: "'w attribute list" where block:
      "services_attributes ls (map sd_uuid ss) 1 ls ss =
        xs @ service_attributes ls (map sd_uuid ss) (1 + total_count (take i ss)) (ls ! i) (ss ! i) @ ys"
      "length xs = total_count (take i ss)"
    using services_attributes_block [OF ls(2) assms(2)] by metis
  have next_start: "total_count (take (Suc i) ss) = total_count (take i ss) + service_count (ss ! i)"
    using assms(2) by (simp add: take_Suc_conv_app_nth total_count_def)
  have "ls ! i = (of_nat (service_start ss i), of_nat (service_start ss (Suc i) - 1))"
    using layouts_nth [OF ls(1)] assms(2) by (simp add: service_start_def)
  moreover have "total_count (take (Suc i) ss) \<le> total_count ss"
    unfolding total_count_def by (metis append_take_drop_id le_add1 map_append sum_list.append)
  ultimately show thesis using that [of xs ls ys] block ls(3) next_start by (simp add: service_start_def)
qed

lemma gs_find_in_block:
  fixes s :: "'w gatt_server"
  assumes "from_definitions w ss = Ok s" "gs_attributes s = xs @ bs @ ys" "k < length bs"
  shows "gs_find s (of_nat (Suc (length xs) + k)) = Some (bs ! k)"
proof -
  obtain "map at_handle (gs_attributes s) = map of_nat [1..<Suc (total_count ss)]" "total_count ss \<le> 65535"
    using from_definitions_OkE [OF assms(1)] by metis
  moreover from arg_cong [OF this(1), of length] assms(2,3) have "length xs + k < total_count ss" by (simp del: upt_Suc)
  moreover have "gs_attributes s ! (length xs + k) = bs ! k" using assms(2,3) by (simp add: nth_append)
  ultimately show ?thesis using find_by_index [of "gs_attributes s" "total_count ss" "length xs + k"] by (simp add: gs_find_def)
qed

lemma characteristic_block:
  fixes s :: "'w gatt_server"
  assumes "from_definitions w ss = Ok s" "i < length ss" "j < length (sd_characteristics (ss ! i))"
    "h = characteristic_start (service_start ss i) (ss ! i) j" "c = sd_characteristics (ss ! i) ! j"
    "k < characteristic_count c"
  shows "gs_find s (of_nat (h + k)) = Some (characteristic_attributes h c ! k)"
proof -
  from service_block [OF assms(1,2)] obtain ls and xs ys :: "'w attribute list" where block:
      "gs_attributes s = xs @ service_attributes ls (map sd_uuid ss) (service_start ss i)
        (of_nat (service_start ss i), of_nat (service_start ss (Suc i) - 1)) (ss ! i) @ ys"
      "Suc (length xs) = service_start ss i" by metis
  let ?inc = "map (\<lambda>(k, i). include_attribute ls (map sd_uuid ss) k i) (enumerate (service_start ss i + 1) (sd_included (ss ! i)))"
  let ?decl = "service_declaration (service_start ss i) (of_nat (service_start ss i), of_nat (service_start ss (Suc i) - 1)) (ss ! i)"
  obtain us vs :: "'w attribute list" where cs:
      "characteristics_attributes (service_start ss i + 1 + length (sd_included (ss ! i))) (sd_characteristics (ss ! i)) =
        us @ characteristic_attributes h c @ vs"
      "length us = sum_list (map characteristic_count (take j (sd_characteristics (ss ! i))))"
    using characteristics_attributes_block [OF assms(3)] assms(4,5) unfolding characteristic_start_def by metis
  have "gs_attributes s = (xs @ ?decl # ?inc @ us) @ characteristic_attributes h c @ vs @ ys"
    using block(1) cs(1) by (simp add: service_attributes_def)
  moreover have "Suc (length (xs @ ?decl # ?inc @ us)) = h"
    using block(2) cs(2) assms(4) by (simp add: characteristic_start_def)
  moreover have "k < length (characteristic_attributes h c :: 'w attribute list)"
    using assms(6) by (simp add: characteristic_attributes_length)
  ultimately show ?thesis using gs_find_in_block [OF assms(1)] by metis
qed

section \<open>Property\<close>

text \<open>
  Property C16: the attribute database. Definitions are accepted exactly when they need at most 65535
  attributes and include only services that exist. The attributes then have the handles 1, 2, and so on without
  a gap. Every service has its declaration at its first handle, whose group ends right before the next
  service; every characteristic has its declaration, which names the next handle, its value there, and if it
  notifies or indicates and defines no configuration descriptor, one of its own after its descriptors.
\<close>

theorem gatt_database:
  "((\<exists>s. from_definitions w ss = Ok s) \<longleftrightarrow>
      total_count ss \<le> 65535 \<and> (\<forall>sd \<in> set ss. \<forall>k \<in> set (sd_included sd). k < length ss)) \<and>
   (from_definitions w ss = Ok s \<longrightarrow>
      map at_handle (gs_attributes s) = map of_nat [1..<Suc (total_count ss)] \<and> distinct (map at_handle (gs_attributes s)) \<and>
      (\<forall>i < length ss. gs_find s (of_nat (service_start ss i)) = Some (service_declaration (service_start ss i)
          (of_nat (service_start ss i), of_nat (service_start ss (Suc i) - 1)) (ss ! i)) \<and>
        (\<forall>j < length (sd_characteristics (ss ! i)).
          let h = characteristic_start (service_start ss i) (ss ! i) j; c = sd_characteristics (ss ! i) ! j
          in gs_find s (of_nat h) = Some (declaration_attribute h c) \<and>
             gs_find s (of_nat (h + 1)) = Some (value_attribute (h + 1) c) \<and>
             (needs_cccd c \<longrightarrow> gs_find s (of_nat (h + 2 + length (cd_descriptors c))) =
                Some (cccd_attribute (h + 1) (h + 2 + length (cd_descriptors c)))))))"
proof (intro conjI impI)
  show "(\<exists>s. from_definitions w ss = Ok s) \<longleftrightarrow>
      total_count ss \<le> 65535 \<and> (\<forall>sd \<in> set ss. \<forall>k \<in> set (sd_included sd). k < length ss)"
    by (rule from_definitions_Ok_iff)
next
  assume ok: "from_definitions w ss = Ok s"
  from from_definitions_OkE [OF ok] have handles: "map at_handle (gs_attributes s) = map of_nat [1..<Suc (total_count ss)]"
    "total_count ss \<le> 65535" by metis+
  show "map at_handle (gs_attributes s) = map of_nat [1..<Suc (total_count ss)]" by (fact handles)
  show "distinct (map at_handle (gs_attributes s))"
    unfolding handles(1) distinct_map using handles(2) by (auto intro: inj_on_subset [OF of_nat_u16_inj])
  show "\<forall>i < length ss. gs_find s (of_nat (service_start ss i)) = Some (service_declaration (service_start ss i)
          (of_nat (service_start ss i), of_nat (service_start ss (Suc i) - 1)) (ss ! i)) \<and>
        (\<forall>j < length (sd_characteristics (ss ! i)).
          let h = characteristic_start (service_start ss i) (ss ! i) j; c = sd_characteristics (ss ! i) ! j
          in gs_find s (of_nat h) = Some (declaration_attribute h c) \<and>
             gs_find s (of_nat (h + 1)) = Some (value_attribute (h + 1) c) \<and>
             (needs_cccd c \<longrightarrow> gs_find s (of_nat (h + 2 + length (cd_descriptors c))) =
                Some (cccd_attribute (h + 1) (h + 2 + length (cd_descriptors c)))))"
  proof (intro allI impI conjI)
    fix i assume i: "i < length ss"
    from service_block [OF ok i] obtain ls xs ys where block:
        "gs_attributes s = xs @ service_attributes ls (map sd_uuid ss) (service_start ss i)
          (of_nat (service_start ss i), of_nat (service_start ss (Suc i) - 1)) (ss ! i) @ ys"
        "Suc (length xs) = service_start ss i" by metis
    show "gs_find s (of_nat (service_start ss i)) = Some (service_declaration (service_start ss i)
          (of_nat (service_start ss i), of_nat (service_start ss (Suc i) - 1)) (ss ! i))"
      using gs_find_in_block [OF ok block(1), of 0] block(2) by (simp add: service_attributes_def)
  next
    fix i j assume i: "i < length ss" and j: "j < length (sd_characteristics (ss ! i))"
    let ?h = "characteristic_start (service_start ss i) (ss ! i) j" and ?c = "sd_characteristics (ss ! i) ! j"
    note find = characteristic_block [OF ok i j refl refl]
    have "gs_find s (of_nat (?h + 0)) = Some (declaration_attribute ?h ?c)"
      "gs_find s (of_nat (?h + 1)) = Some (value_attribute (?h + 1) ?c)"
      using find [of 0] find [of 1] by (simp_all add: characteristic_attributes_def characteristic_count_def)
    moreover have "gs_find s (of_nat (?h + (2 + length (cd_descriptors ?c)))) =
        Some (cccd_attribute (?h + 1) (?h + 2 + length (cd_descriptors ?c)))" if "needs_cccd ?c"
      using find [of "2 + length (cd_descriptors ?c)"] that
      by (simp add: characteristic_attributes_def characteristic_count_def nth_append)
    ultimately show "let h = ?h; c = ?c
          in gs_find s (of_nat h) = Some (declaration_attribute h c) \<and>
             gs_find s (of_nat (h + 1)) = Some (value_attribute (h + 1) c) \<and>
             (needs_cccd c \<longrightarrow> gs_find s (of_nat (h + 2 + length (cd_descriptors c))) =
                Some (cccd_attribute (h + 1) (h + 2 + length (cd_descriptors c))))"
      unfolding Let_def by (simp add: add.assoc)
  qed
qed

theorem gatt_database_witness:
  "\<exists>s. from_definitions () [\<lparr>sd_uuid = Uuid [0x0F, 0x18], sd_primary = True, sd_included = [],
       sd_characteristics = [\<lparr>cd_uuid = Uuid [0x19, 0x2A], cd_properties = 0x12, cd_permissions = 1, cd_value = [100], cd_descriptors = []\<rparr>]\<rparr>] = Ok s \<and>
     map at_handle (gs_attributes s) = [1, 2, 3, 4] \<and> gs_find s 4 = Some (cccd_attribute 3 4)"
proof -
  let ?c = "\<lparr>cd_uuid = Uuid [0x19, 0x2A], cd_properties = 0x12, cd_permissions = 1, cd_value = [100], cd_descriptors = []\<rparr>"
  let ?s = "\<lparr>sd_uuid = Uuid [0x0F, 0x18], sd_primary = True, sd_included = [], sd_characteristics = [?c]\<rparr>"
  have c: "needs_cccd ?c" by (simp add: needs_cccd_def NOTIFY_def INDICATE_def)
  then have n: "total_count [?s] = 4" by (simp add: total_count_def service_count_def characteristic_count_def)
  obtain s where s: "from_definitions () [?s] = Ok s"
    using conjunct1 [OF gatt_database [of "()" "[?s]"]] n by auto
  with conjunct2 [OF gatt_database [of "()" "[?s]" s]] c n show ?thesis
    by (auto simp: service_start_def characteristic_start_def Let_def upt_rec cccd_attribute_def)
qed

end
