(* ===== verification/Gatt_Safety.thy ===== *)
theory Gatt_Safety
  imports Gatt_Access Gatt_Database
begin

text \<open>
  No request panics the attribute server, and the responses to reads fit the negotiated MTU. A
  truncated Read Multiple Variable response cannot be read back.
\<close>

section \<open>Invariant\<close>

fun quiet_dynamic :: "'w dynamic_value \<Rightarrow> bool" where
  "quiet_dynamic (CccdValue h) \<longleftrightarrow> True"
| "quiet_dynamic (DynamicValue r f) \<longleftrightarrow>
     (\<forall>g c w. r = Some g \<longrightarrow> \<not> is_panic (g c w)) \<and> (\<forall>g c v w. f = Some g \<longrightarrow> \<not> is_panic (fst (g c v w)))"

text \<open>
  The MTUs are at least the default, the signing key has 16 bytes, the callbacks of the application do not panic;
  the block cipher returns 16 bytes.
\<close>

definition gs_inv :: "block_cipher \<Rightarrow> 'w gatt_server \<Rightarrow> bool" where
  "gs_inv aes s \<longleftrightarrow> (\<forall>k b. length (aes k b) = 16) \<and> distinct (map at_handle (gs_attributes s)) \<and> ATT_DEFAULT_MTU \<le> gs_mtu s \<and>
     bt_wf (gs_negotiated_mtus s) \<and> (\<forall>b m. bt_get (gs_negotiated_mtus s) b = Some m \<longrightarrow> ATT_DEFAULT_MTU \<le> m) \<and>
     (\<forall>v. gs_verifier s = Some v \<longrightarrow> length (ver_csrk v) = 16) \<and>
     (\<forall>a \<in> set (gs_attributes s). \<forall>d. at_dynamic a = Some d \<longrightarrow> quiet_dynamic d)"

lemma negotiated_mtu_ge: "gs_inv aes s \<Longrightarrow> ATT_DEFAULT_MTU \<le> negotiated_mtu s b"
  by (auto simp: gs_inv_def negotiated_mtu_def split: option.splits)

lemma mtu_minus_Ok: "ATT_DEFAULT_MTU \<le> m \<Longrightarrow> k \<le> 23 \<Longrightarrow> mtu_minus m k = Ok (unat m - unat k)"
  by (auto simp: mtu_minus_def ATT_DEFAULT_MTU_def unat_sub word_le_nat_alt word_less_nat_alt)

lemma panic_bind_iff: "is_panic (bind_result r k) \<longleftrightarrow> is_panic r \<or> (\<exists>x. r = Ok x \<and> is_panic (k x))"
  by (cases r) auto

lemma bind_result_quiet: "\<not> is_panic r \<Longrightarrow> (\<And>x. r = Ok x \<Longrightarrow> \<not> is_panic (k x)) \<Longrightarrow> \<not> is_panic (bind_result r k)"
  by (cases r) auto

lemma bind_result_Panic: "bind_result r k = Panic p \<longleftrightarrow> r = Panic p \<or> (\<exists>x. r = Ok x \<and> k x = Panic p)"
  by (cases r) auto

lemma with_handle_Panic: "with_handle h r = Panic p \<longleftrightarrow> r = Panic p"
  by (cases r) (simp_all add: with_handle_def)

lemma answer_ok: "\<not> is_panic r \<Longrightarrow> is_ok (answer op_code r)"
  by (cases "(op_code, r)" rule: answer.cases) auto

lemma with_handle_quiet: "is_panic (with_handle h r) \<longleftrightarrow> is_panic r"
  by (cases r) (simp_all add: with_handle_def)

lemma check_quiet: "\<not> is_panic (check_read_access p c)" "\<not> is_panic (check_write_access p c)"
  using check_access_cases unfolding check_read_access_def check_write_access_def by (metis is_panic.simps(2,3))+

lemma check_write_quiet: "check_write_access p c \<noteq> Panic x"
  using check_quiet(2) [of p c] by auto

lemma gs_lookup_quiet: "\<not> is_panic (gs_lookup s h)"
  by (simp add: gs_lookup_def split: option.splits)

lemma gs_find_in: "gs_find s h = Some a \<Longrightarrow> a \<in> set (gs_attributes s) \<and> at_handle a = h"
  by (auto simp: gs_find_def find_Some_iff)

lemma read_attribute_quiet:
  assumes "gs_inv aes s" "a \<in> set (gs_attributes s)" shows "\<not> is_panic (read_attribute s c a)"
proof -
  have "\<not> is_panic (read_value s c a)"
  proof (cases "at_dynamic a")
    case (Some d)
    then have "quiet_dynamic d" using assms by (auto simp: gs_inv_def)
    then show ?thesis using Some by (cases "(s, c, d)" rule: dynamic_read.cases) (simp_all add: read_value_def)
  qed (simp add: read_value_def)
  then show ?thesis unfolding read_attribute_def with_handle_quiet by (rule bind_result_quiet [OF check_quiet(1)])
qed

lemma read_handle_quiet: "gs_inv aes s \<Longrightarrow> \<not> is_panic (read_handle s c h)"
  unfolding read_handle_def
  by (rule bind_result_quiet [OF gs_lookup_quiet]) (metis read_attribute_quiet gs_lookup_Ok gs_find_in)

section \<open>Responses to reads\<close>

lemma length_truncate_to [simp]: "length (truncate_to v n) = min (length v) n"
  by (simp add: truncate_to_def)

lemma variable_tuples_bound:
  assumes "\<And>h. \<not> is_panic (read h)" "ATT_DEFAULT_MTU \<le> m"
  shows "\<not> is_panic (variable_tuples read m hs n ts) \<and> (variable_tuples read m hs n ts = Ok us \<longrightarrow>
    length (concat (map (\<lambda>(k, v). u16_to_le_bytes k @ v) us)) \<le> length (concat (map (\<lambda>(k, v). u16_to_le_bytes k @ v) ts)) + n)"
proof (induction hs arbitrary: n ts)
  case (Cons h hs)
  show ?case
  proof (cases "read h")
    case (Ok v)
    let ?part = "truncate_to v (min (unat m - 3) 251)"
    show ?thesis
      using Ok Cons.IH [of "n - (length ?part + 2)" "ts @ [(of_nat (min (length v) 65535), ?part)]"]
      by (auto simp: mtu_minus_Ok [OF assms(2)] Let_def simp del: length_truncate_to)
  qed (use assms(1) [of h] in auto)
qed simp

lemma joined_values_bound:
  assumes "\<And>h. \<not> is_panic (read h)" "ATT_DEFAULT_MTU \<le> m"
  shows "\<not> is_panic (joined_values read m hs n vs) \<and> (joined_values read m hs n vs = Ok us \<longrightarrow> length us \<le> length vs + n)"
proof (induction hs arbitrary: n vs)
  case (Cons h hs)
  show ?case
  proof (cases "read h")
    case (Ok v)
    let ?part = "truncate_to v (min (unat m - 1) 251)"
    show ?thesis
      using Ok Cons.IH [of "n - length ?part" "vs @ ?part"] by (auto simp: mtu_minus_Ok [OF assms(2)] Let_def simp del: length_truncate_to)
  qed (use assms(1) [of h] in auto)
qed simp

lemma read_multiple_bound:
  assumes "\<And>h. \<not> is_panic (read h)" "ATT_DEFAULT_MTU \<le> m"
  shows "\<exists>p. read_multiple read m hs variable = Ok p \<and> length (att_to_bytes p) \<le> unat m"
proof -
  have m: "23 \<le> unat m" using assms(2) by (simp add: ATT_DEFAULT_MTU_def word_le_nat_alt)
  show ?thesis
  proof (cases variable)
    case True
    note bound = variable_tuples_bound [of read m hs "unat m - 1" "[]", OF assms]
    show ?thesis
    proof (cases "variable_tuples read m hs (unat m - 1) []")
      case (Ok us)
      with bound [of us] m True show ?thesis by (simp add: read_multiple_def mtu_minus_Ok [OF assms(2)] att_to_bytes_def)
    next
      case (Err e)
      with m True show ?thesis by (cases e) (simp add: read_multiple_def mtu_minus_Ok [OF assms(2)] att_to_bytes_def)
    qed (use bound in simp)
  next
    case False
    note bound = joined_values_bound [of read m hs "unat m - 1" "[]", OF assms]
    show ?thesis
    proof (cases "joined_values read m hs (unat m - 1) []")
      case (Ok us)
      with bound [of us] m False show ?thesis by (simp add: read_multiple_def mtu_minus_Ok [OF assms(2)] att_to_bytes_def)
    next
      case (Err e)
      with m False show ?thesis by (cases e) (simp add: read_multiple_def mtu_minus_Ok [OF assms(2)] att_to_bytes_def)
    qed (use bound in simp)
  qed
qed

fun bounded_request :: "att_pdu \<Rightarrow> bool" where
  "bounded_request (AttReadByGroupTypeRequest a b u) = False"
| "bounded_request (AttReadByTypeRequest a b u) = False"
| "bounded_request (AttFindInformationRequest a b) = False"
| "bounded_request (AttFindByTypeValueRequest a b u v) = False"
| "bounded_request (AttPrepareWriteRequest h off part) = False"
| "bounded_request _ = True"

section \<open>Every request\<close>

lemma typed_in_range_set: "set (typed_in_range s a b u) \<subseteq> set (gs_attributes s)"
  by (auto simp: typed_in_range_def)

lemma matching_groups_quiet:
  "gs_inv aes s \<Longrightarrow> set as \<subseteq> set (gs_attributes s) \<Longrightarrow> \<not> is_panic (matching_groups s c v as ls)"
  by (induction as arbitrary: ls) (auto simp: panic_bind_iff read_attribute_quiet)

lemma select_values_quiet:
  "gs_inv aes s \<Longrightarrow> set as \<subseteq> set (gs_attributes s) \<Longrightarrow> \<not> is_panic (select_values s c as sel)"
  by (induction as arbitrary: sel) (auto simp: panic_bind_iff read_attribute_quiet)

lemma select_values_extends: "select_values s c as sel = Ok sel' \<Longrightarrow> \<exists>more. sel' = sel @ more"
  by (induction as arbitrary: sel) (fastforce split: if_splits)+

lemma select_values_nonempty: "select_values s c (a # as) [] = Ok sel \<Longrightarrow> sel \<noteq> []"
  using select_values_extends by fastforce

lemma read_selected_quiet:
  assumes "gs_inv aes s" shows "\<not> is_panic (read_selected s c a b u f)"
proof (cases "typed_in_range s a b u")
  case (Cons x xs)
  with select_values_quiet [OF assms typed_in_range_set [of s a b u], of c "[]"] show ?thesis
    using select_values_nonempty [of s c x xs]
    by (cases "select_values s c (x # xs) []") (auto simp: read_selected_def split: list.splits)
qed (simp add: read_selected_def)

lemma write_attribute_quiet: "gs_inv aes s \<Longrightarrow> \<not> is_panic (fst (write_attribute c h v s))"
proof (cases "gs_lookup s h")
  case (Ok a)
  assume inv: "gs_inv aes s"
  have "\<not> is_panic (fst (write_value c v a s))"
  proof (cases "at_dynamic a")
    case (Some d)
    then have "quiet_dynamic d" using inv Ok gs_find_in by (fastforce simp: gs_inv_def gs_lookup_Ok)
    then show ?thesis using Some by (cases "(c, v, d, s)" rule: dynamic_write.cases) (auto simp: write_value_def split_beta Let_def)
  qed (simp add: write_value_def)
  then show ?thesis
    using Ok check_quiet(2) [of "at_permissions a" c]
    by (cases "check_write_access (at_permissions a) c"; cases "fst (write_value c v a s)")
      (simp_all add: write_attribute_def with_handle_def split_beta Let_def)
qed (use gs_lookup_quiet [of s h] in \<open>simp_all add: write_attribute_def\<close>)

lemma check_signature_ok:
  assumes "gs_inv aes s"
  shows "is_ok (fst (check_signature aes r (gs_verifier s))) \<and>
    (\<forall>v. snd (check_signature aes r (gs_verifier s)) = Some v \<longrightarrow> length (ver_csrk v) = 16)"
proof (cases "gs_verifier s")
  case (Some v)
  then have csrk: "length (ver_csrk v) = 16" using assms by (simp add: gs_inv_def)
  have "\<And>k b. length (aes k b) = 16" using assms by (simp add: gs_inv_def)
  then have sig: "\<exists>t. signed_write_signature aes (ver_csrk v) h d n = Ok t \<and> length t = 8" for h d n
    by (rule signature_ok [of aes "ver_csrk v", OF _ csrk])
  have "is_ok (fst (verify aes r v)) \<and> ver_csrk (snd (verify aes r v)) = ver_csrk v"
  proof (cases r)
    case (AttSignedWriteCommand h d n t)
    with sig [of h d n] show ?thesis by (auto simp: verify_def split: option.splits)
  qed (simp_all add: verify_def)
  then show ?thesis using Some csrk by (simp add: check_signature_def split_beta)
qed (simp add: check_signature_def)

lemma command_write_ok: "gs_inv aes s \<Longrightarrow> fst (command_write c h v s) = Ok AttHandleValueConfirmation"
  using write_attribute_quiet [of aes s c h v]
  by (cases "fst (write_attribute c h v s)") (simp_all add: command_write_def split_beta Let_def)

lemma gs_inv_verifier: "gs_inv aes s \<Longrightarrow> (\<And>v. w = Some v \<Longrightarrow> length (ver_csrk v) = 16) \<Longrightarrow> gs_inv aes (s\<lparr>gs_verifier := w\<rparr>)"
  by (simp add: gs_inv_def)

lemma stage_quiet: "\<not> is_panic (gs_stage s c ws m)"
proof (induction ws arbitrary: m)
  case (Cons w ws)
  have "\<not> is_panic (stage_write w m)" by (auto simp: stage_write_def split: prod.splits option.splits)
  then show ?case
    using Cons.IH by (auto simp: panic_bind_iff gs_lookup_quiet with_handle_quiet check_quiet)
qed simp

lemma gs_on_request_ok:
  assumes "gs_inv aes s" shows "is_ok (fst (gs_on_request aes r c s))"
proof -
  note mtu = mtu_minus_Ok [OF negotiated_mtu_ge [OF assms]]
  note read = read_handle_quiet [OF assms]
  show ?thesis
  proof (cases r)
    case (AttReadRequest h)
    then show ?thesis by (auto simp: gs_on_request_def mtu panic_bind_iff read intro!: answer_ok)
  next
    case (AttReadBlobRequest h off)
    have "\<not> is_panic (read_blob s c h off)"
      using read [of c h] by (cases "read_handle s c h") (simp_all add: read_blob_def mtu Let_def)
    with AttReadBlobRequest show ?thesis by (simp add: gs_on_request_def answer_ok)
  next
    case (AttReadMultipleRequest hs)
    then show ?thesis
      using read_multiple_bound [of "read_handle s c" "negotiated_mtu s (bearer_id c)", OF read negotiated_mtu_ge [OF assms], of hs False]
      by (auto simp: gs_on_request_def)
  next
    case (AttReadMultipleVariableRequest hs)
    then show ?thesis
      using read_multiple_bound [of "read_handle s c" "negotiated_mtu s (bearer_id c)", OF read negotiated_mtu_ge [OF assms], of hs True]
      by (auto simp: gs_on_request_def)
  next
    case (AttWriteRequest h v)
    then show ?thesis
      using write_attribute_quiet [OF assms, of c h v]
      by (auto simp: gs_on_request_def split_beta Let_def panic_bind_iff intro!: answer_ok)
  next
    case (AttFindByTypeValueRequest a b u v)
    then show ?thesis
      using matching_groups_quiet [OF assms typed_in_range_set]
      by (auto simp: gs_on_request_def find_by_type_value_def panic_bind_iff split: if_splits intro!: answer_ok)
  next
    case (AttFindInformationRequest a b)
    then show ?thesis by (auto simp: gs_on_request_def find_information_def Let_def split: list.splits intro!: answer_ok)
  next
    case (AttPrepareWriteRequest h off part)
    have "\<not> is_panic (fst (gs_prepare_write c h off part s))"
      using gs_lookup_quiet [of s h]
      by (auto simp: gs_prepare_write_def check_write_quiet bind_result_Panic with_handle_Panic split: rresult.splits if_splits)
    then show ?thesis using AttPrepareWriteRequest by (auto simp: gs_on_request_def split_beta Let_def intro: answer_ok)
  next
    case (AttExecuteWriteRequest flags)
    then show ?thesis
      using stage_quiet [of s c "prepared_of s (bearer_id c)" "staged_values (gs_attributes s)"]
      by (auto simp: gs_on_request_def gs_execute_writes_def Let_def answer_ok split: rresult.splits)
  next
    case (AttSignedWriteCommand h v n t)
    obtain verified verifier where sig: "check_signature aes r (gs_verifier s) = (verified, verifier)" by (metis surj_pair)
    with check_signature_ok [OF assms, of r] have "is_ok verified" "gs_inv aes (s\<lparr>gs_verifier := verifier\<rparr>)"
      using gs_inv_verifier [OF assms] by auto
    then show ?thesis
      using AttSignedWriteCommand sig command_write_ok [of aes "s\<lparr>gs_verifier := verifier\<rparr>" "c\<lparr>ac_authenticated := True\<rparr>" h v]
      by (auto simp: gs_on_request_def on_signed_write_def Let_def split: rresult.splits bool.splits)
  qed (use read_selected_quiet [OF assms] command_write_ok [OF assms] in
      \<open>auto simp: gs_on_request_def read_by_type_def read_by_group_type_def intro!: answer_ok\<close>)
qed


section \<open>The invariant of every run\<close>

definition same_settings :: "'w gatt_server \<Rightarrow> 'w gatt_server \<Rightarrow> bool" where
  "same_settings s t \<longleftrightarrow> gs_mtu t = gs_mtu s \<and> gs_negotiated_mtus t = gs_negotiated_mtus s \<and> gs_verifier t = gs_verifier s"

lemma same_settings_refl [simp]: "same_settings s s"
  by (simp add: same_settings_def)

lemma write_attribute_settings: "same_settings s (snd (write_attribute c h v s))"
proof -
  have "same_settings s (snd (dynamic_write c v d s))" for d
    by (cases "(c, v, d, s)" rule: dynamic_write.cases)
      (auto simp: same_settings_def cccd_write_def Let_def split_beta split: list.splits)
  then show ?thesis
    by (auto simp: write_attribute_def write_value_def same_settings_def gs_update_def split_beta Let_def split: rresult.splits option.splits)
qed

lemma command_write_settings: "same_settings s (snd (command_write c h v s))"
  using write_attribute_settings [of s c h v] by (auto simp: command_write_def split_beta Let_def split: rresult.splits)

lemma kept_dynamic:
  assumes "list_all2 (kept c) as bs" "\<forall>a \<in> set as. P (at_dynamic a)" shows "\<forall>b \<in> set bs. P (at_dynamic b)"
  using assms
proof (induction rule: list_all2_induct)
  case (Cons a as b bs)
  then have "at_dynamic (frame b) = at_dynamic (frame a)" by (simp add: kept_def)
  with Cons show ?case by (simp add: frame_def)
qed simp

lemma gs_inv_kept:
  assumes "gs_inv aes s" "list_all2 (kept c) (gs_attributes s) (gs_attributes t)" "ATT_DEFAULT_MTU \<le> gs_mtu t"
    "bt_wf (gs_negotiated_mtus t)" "\<And>b m. bt_get (gs_negotiated_mtus t) b = Some m \<Longrightarrow> ATT_DEFAULT_MTU \<le> m"
    "\<And>v. gs_verifier t = Some v \<Longrightarrow> length (ver_csrk v) = 16"
  shows "gs_inv aes t"
proof -
  have "\<forall>a \<in> set (gs_attributes t). \<forall>d. at_dynamic a = Some d \<longrightarrow> quiet_dynamic d"
    by (rule kept_dynamic [OF assms(2)]) (use assms(1) in \<open>simp add: gs_inv_def\<close>)
  then show ?thesis using assms kept_handles [OF assms(2)] by (simp add: gs_inv_def)
qed

lemma gs_step_inv:
  assumes "gs_inv aes s" shows "gs_inv aes (snd (gs_step aes s e))"
proof -
  obtain r c where e: "e = (r, c)" by (cases e)
  let ?t = "snd (gs_on_request aes r c s)"
  have inv: "ATT_DEFAULT_MTU \<le> gs_mtu s" "bt_wf (gs_negotiated_mtus s)"
      "\<And>b m. bt_get (gs_negotiated_mtus s) b = Some m \<Longrightarrow> ATT_DEFAULT_MTU \<le> m"
      "\<And>v. gs_verifier s = Some v \<Longrightarrow> length (ver_csrk v) = 16"
    using assms by (simp_all add: gs_inv_def)
  have kept: "list_all2 (kept (write_context r c)) (gs_attributes s) (gs_attributes ?t)"
    by (rule request_kept) (use assms in \<open>simp add: gs_inv_def\<close>)
  consider (mtu) m where "r = AttExchangeMtuRequest m" | (signed) h v n t where "r = AttSignedWriteCommand h v n t"
    | (other) "same_settings s ?t"
    by (cases r) (auto simp: write_attribute_settings [unfolded same_settings_def] command_write_settings [unfolded same_settings_def] gs_on_request_def split_beta Let_def gs_execute_writes_def same_settings_def
        gs_prepare_write_def split: rresult.splits)
  then show ?thesis
  proof cases
    case mtu
    show ?thesis unfolding e gs_step_def
      by (simp only: prod.case, rule gs_inv_kept [OF assms kept])
        (use inv mtu in \<open>auto simp: gs_on_request_def bt_wf_insert bt_get_insert split: if_splits\<close>)
  next
    case signed
    obtain verified verifier where sig: "check_signature aes r (gs_verifier s) = (verified, verifier)" by (metis surj_pair)
    have "gs_mtu ?t = gs_mtu s \<and> gs_negotiated_mtus ?t = gs_negotiated_mtus s \<and> gs_verifier ?t = verifier"
      using signed sig command_write_settings [of "s\<lparr>gs_verifier := verifier\<rparr>"]
      by (auto simp: gs_on_request_def on_signed_write_def Let_def same_settings_def split: rresult.splits bool.splits)
    then show ?thesis unfolding e gs_step_def
      by (simp only: prod.case, intro gs_inv_kept [OF assms kept])
        (use inv sig check_signature_ok [OF assms, of r] in auto)
  next
    case other
    then show ?thesis unfolding e gs_step_def
      by (simp only: prod.case, intro gs_inv_kept [OF assms kept]) (use inv in \<open>auto simp: same_settings_def\<close>)
  qed
qed

interpretation gs: machine "gs_step aes" "gs_inv aes" is_ok for aes
proof unfold_locales
  fix s :: "'a gatt_server" and e assume inv: "gs_inv aes s"
  show "gs_inv aes (snd (gs_step aes s e))" using inv by (rule gs_step_inv)
  show "is_ok (fst (gs_step aes s e))" using gs_on_request_ok [OF inv] by (cases e) (simp add: gs_step_def)
qed


lemma bounded_response:
  assumes "gs_inv aes s" "bounded_request r" "fst (gs_on_request aes r c s) = Ok p"
  shows "length (att_to_bytes p) \<le> unat (negotiated_mtu s (bearer_id c))"
proof -
  let ?m = "negotiated_mtu s (bearer_id c)"
  have ge: "ATT_DEFAULT_MTU \<le> ?m" using assms(1) by (rule negotiated_mtu_ge)
  then have m: "23 \<le> unat ?m" by (simp add: ATT_DEFAULT_MTU_def word_le_nat_alt)
  have err: "Suc (length (att_payload p)) \<le> unat ?m" if "answer op_code (Err e) = Ok p" for op_code e
    using that m by (cases e) auto
  have short: "Suc (length (att_payload p)) \<le> unat ?m"
    if "answer op_code x = Ok p" "\<And>q. x = Ok q \<Longrightarrow> Suc (length (att_payload q)) \<le> unat ?m" for op_code x
    using that err by (cases x) auto
  note mtu = mtu_minus_Ok [OF ge]
  show ?thesis
  proof (cases r)
    case (AttReadRequest h)
    then show ?thesis
      using assms(3) m by (auto simp: gs_on_request_def mtu att_to_bytes_def elim!: short)
  next
    case (AttReadBlobRequest h off)
    then show ?thesis
      using assms(3) m
      by (auto simp: gs_on_request_def read_blob_def mtu att_to_bytes_def Let_def split: if_splits elim!: short)
  next
    case (AttReadMultipleRequest hs)
    then show ?thesis
      using assms(3) read_multiple_bound [of "read_handle s c" ?m, OF read_handle_quiet [OF assms(1)] ge, of hs False]
      by (auto simp: gs_on_request_def)
  next
    case (AttReadMultipleVariableRequest hs)
    then show ?thesis
      using assms(3) read_multiple_bound [of "read_handle s c" ?m, OF read_handle_quiet [OF assms(1)] ge, of hs True]
      by (auto simp: gs_on_request_def)
  next
    case (AttWriteRequest h v)
    then show ?thesis
      using assms(3) m by (auto simp: gs_on_request_def split_beta Let_def att_to_bytes_def elim!: short)
  next
    case (AttExecuteWriteRequest flags)
    then show ?thesis
      using assms(3) m err
      by (auto simp: gs_on_request_def gs_execute_writes_def Let_def att_to_bytes_def split: rresult.splits if_splits)
  next
    case (AttWriteCommand h v)
    then show ?thesis
      using assms(3) m command_write_ok [OF assms(1)] by (auto simp: gs_on_request_def att_to_bytes_def)
  next
    case (AttSignedWriteCommand h v n t)
    then show ?thesis
      using assms(3) m
      by (auto simp: gs_on_request_def on_signed_write_def command_write_def split_beta Let_def att_to_bytes_def
          split: rresult.splits bool.splits)
  qed (use assms m in \<open>auto simp: gs_on_request_def att_to_bytes_def\<close>)
qed

lemma service_attributes_quiet:
  "a \<in> set (services_attributes ls us h ls' ss) \<Longrightarrow> at_dynamic a = Some d \<Longrightarrow> quiet_dynamic d"
proof (induction ls us h ls' ss rule: services_attributes.induct)
  case (1 ls us h l rest s ss)
  have "at_dynamic a = Some d \<Longrightarrow> quiet_dynamic d" if "a \<in> set (characteristics_attributes k cs)" for k cs
    using that
    by (induction k cs rule: characteristics_attributes.induct)
      (auto simp: characteristic_attributes_def declaration_attribute_def value_attribute_def descriptor_attribute_def
        cccd_attribute_def split: if_splits)
  with 1 show ?case by (auto simp: service_attributes_def service_declaration_def include_attribute_def)
qed simp_all

lemma from_definitions_inv:
  assumes "from_definitions w ss = Ok s" "\<And>k b. length (aes k b) = 16" shows "gs_inv aes s"
proof -
  from from_definitions_OkE [OF assms(1)] have handles: "map at_handle (gs_attributes s) = map of_nat [1..<Suc (total_count ss)]"
    "total_count ss \<le> 65535" by metis+
  have "distinct (map at_handle (gs_attributes s))"
    unfolding handles(1) distinct_map using handles(2) by (auto intro: inj_on_subset [OF of_nat_u16_inj])
  moreover have "\<forall>a \<in> set (gs_attributes s). \<forall>d. at_dynamic a = Some d \<longrightarrow> quiet_dynamic d"
    using from_definitions_OkE [OF assms(1)] service_attributes_quiet by metis
  ultimately show ?thesis using assms by (auto simp: gs_inv_def from_definitions_def bt_get_def)
qed


section \<open>Properties\<close>

text \<open>
  Property C15: the attribute server never panics. A database built from definitions satisfies the invariant,
  and whatever requests any bearers send, in whatever order and security context, every one gets an answer and the
  invariant is kept. At any point, the answer to any request but the discovery requests and the echo of a
  prepared write fits the MTU negotiated with the bearer, which is at least 23.
\<close>

theorem gatt_server_safe:
  "(from_definitions w ss = Ok s0 \<and> (\<forall>k b. length (aes k b) = 16) \<longrightarrow> gs_inv aes s0) \<and>
   (gs_inv aes s \<longrightarrow>
      (\<forall>x \<in> set (fst (run_machine (gs_step aes) s es)). is_ok x) \<and>
      (let t = snd (run_machine (gs_step aes) s es); m = negotiated_mtu t (bearer_id c)
       in gs_inv aes t \<and> ATT_DEFAULT_MTU \<le> m \<and>
          (bounded_request r \<longrightarrow> (\<exists>p. fst (gs_on_request aes r c t) = Ok p \<and> length (att_to_bytes p) \<le> unat m))))"
proof (intro conjI impI)
  assume inv: "gs_inv aes s"
  let ?t = "snd (run_machine (gs_step aes) s es)"
  have t: "gs_inv aes ?t" using inv by (rule gs.run_inv)
  obtain p where "fst (gs_on_request aes r c ?t) = Ok p"
    using gs_on_request_ok [OF t, of r c] by (cases "fst (gs_on_request aes r c ?t)") simp_all
  then show "let t = ?t; m = negotiated_mtu t (bearer_id c)
       in gs_inv aes t \<and> ATT_DEFAULT_MTU \<le> m \<and>
          (bounded_request r \<longrightarrow> (\<exists>p. fst (gs_on_request aes r c t) = Ok p \<and> length (att_to_bytes p) \<le> unat m))"
    using t negotiated_mtu_ge [OF t] bounded_response [OF t] by (simp add: Let_def)
  show "\<forall>x \<in> set (fst (run_machine (gs_step aes) s es)). is_ok x" using gs.run_good [OF inv] by blast
qed (elim conjE, rule from_definitions_inv, simp_all)

text \<open>A battery service whose level is 30 bytes: after an MTU exchange and a write, the read still fits.\<close>

theorem gatt_server_safe_witness:
  "\<exists>s p. from_definitions () [\<lparr>sd_uuid = Uuid [0x0F, 0x18], sd_primary = True, sd_included = [],
       sd_characteristics = [\<lparr>cd_uuid = Uuid [0x19, 0x2A], cd_properties = 0x0A, cd_permissions = 3,
         cd_value = replicate 30 1, cd_descriptors = []\<rparr>]\<rparr>] = Ok s \<and>
     fst (gs_on_request (\<lambda>k b. replicate 16 0) (AttReadRequest 3) access_context_default
       (snd (run_machine (gs_step (\<lambda>k b. replicate 16 0)) s [(AttExchangeMtuRequest 5, access_context_default)]))) = Ok p \<and>
     length (att_to_bytes p) \<le> unat (negotiated_mtu
       (snd (run_machine (gs_step (\<lambda>k b. replicate 16 0)) s [(AttExchangeMtuRequest 5, access_context_default)])) 0)"
proof -
  let ?aes = "\<lambda>(k :: bytes) (b :: bytes). replicate 16 (0 :: u8)"
  let ?c = "\<lparr>cd_uuid = Uuid [0x19, 0x2A], cd_properties = 0x0A, cd_permissions = 3, cd_value = replicate 30 1, cd_descriptors = []\<rparr>"
  let ?s = "\<lparr>sd_uuid = Uuid [0x0F, 0x18], sd_primary = True, sd_included = [], sd_characteristics = [?c]\<rparr>"
  have "total_count [?s] \<le> 65535"
    by (simp add: total_count_def service_count_def characteristic_count_def needs_cccd_def NOTIFY_def INDICATE_def)
  then obtain s where s: "from_definitions () [?s] = Ok s" using from_definitions_Ok_iff [of "()" "[?s]"] by auto
  then have inv: "gs_inv ?aes s" using conjunct1 [OF gatt_server_safe [of "()" "[?s]" s ?aes]] by simp
  let ?es = "[(AttExchangeMtuRequest 5, access_context_default)]"
  from conjunct2 [OF gatt_server_safe [of "()" "[?s]" s ?aes s ?es access_context_default "AttReadRequest 3"]] inv s show ?thesis
    by (auto simp: Let_def access_context_default_def)
qed


subsection \<open>Limits of the responses\<close>

lemma length_concat_const: "(\<And>x. x \<in> set xs \<Longrightarrow> length (f x) = n) \<Longrightarrow> length (concat (map f xs)) = n * length xs"
  by (induction xs) auto

lemma truncated_tuple_rejected:
  assumes "ATT_DEFAULT_MTU \<le> m" "read h = Ok v" "unat m - 3 < length v \<or> 251 < length v"
  shows "\<exists>p e. read_multiple read m [h] True = Ok p \<and> att_from_bytes (att_to_bytes p) = Err e"
proof -
  have m: "23 \<le> unat m" "unat m < 65536" using assms(1) unsigned_less [of m] by (simp_all add: ATT_DEFAULT_MTU_def word_le_nat_alt)
  let ?part = "truncate_to v (min (unat m - 3) 251)" and ?n = "of_nat (min (length v) 65535) :: u16"
  have n: "unat ?n = min (length v) 65535" by (rule unat_of_nat_u16) simp
  have short: "length ?part < unat ?n" unfolding n using assms(3) m by auto
  have resp: "read_multiple read m [h] True = Ok (AttReadMultipleVariableResponse [(?n, ?part)])"
    using m assms(2) by (simp add: read_multiple_def mtu_minus_Ok [OF assms(1)] Let_def)
  have "att_le16 (u16_to_le_bytes ?n @ ?part) 0 = Ok ?n" by simp
  then have "parse_tuples_loop (u16_to_le_bytes ?n @ ?part) 0 [] = Err (InvalidPacket ''truncated ATT length/value tuple'' [])"
    using short by (subst parse_tuples_loop.simps) (simp add: Let_def)
  then show ?thesis
    unfolding resp by (simp add: att_to_bytes_def att_from_bytes_def att_codes parse_length_value_tuples_def)
qed

end
