(* ===== verification/Gatt_Discovery.thy ===== *)
theory Gatt_Discovery
  imports Gatt_Client Gatt_Safety
begin

text \<open>
  What the client's procedures do with an arbitrary peer: which loops end, which a peer can keep running, and which
  panics a peer can cause.
\<close>

section \<open>Loops\<close>

lemma discovery_loop_returns:
  assumes adv: "\<And>s a t s' a' t'. guard s \<Longrightarrow> body s a t = (Ok (Continue s' a'), t') \<Longrightarrow> s < s'"
  shows "\<exists>y. discovery_loop guard body s a t = Some y"
proof (induction s arbitrary: a t rule: measure_induct_rule [of "\<lambda>s. 65536 - unat s"])
  case (less s)
  show ?case
  proof (cases "guard s \<and> (\<exists>s' a' t'. body s a t = (Ok (Continue s' a'), t'))")
    case True
    then obtain s' a' t' where step: "guard s" "body s a t = (Ok (Continue s' a'), t')" by blast
    with adv have "unat s < unat s'" by (simp add: word_less_nat_alt)
    moreover have "unat s' < 65536" using unsigned_less [of s'] by simp
    ultimately have "65536 - unat s' < 65536 - unat s" by simp
    with less.IH [of s' a' t'] step show ?thesis by (subst discovery_loop.simps) simp
  next
    case False
    then show ?thesis
      by (subst discovery_loop.simps) (auto split: prod.splits rresult.splits progress.splits)
  qed
qed

text \<open>A property of every result, given that every pass keeps an invariant and ends with the property.\<close>

lemma discovery_loop_result:
  assumes ret: "discovery_loop guard body s a t = Some y" and inv: "I s a"
    and cont: "\<And>s a t s' a' t'. I s a \<Longrightarrow> guard s \<Longrightarrow> body s a t = (Ok (Continue s' a'), t') \<Longrightarrow> I s' a'"
    and stop: "\<And>s a t a' t'. I s a \<Longrightarrow> guard s \<Longrightarrow> body s a t = (Ok (Break a'), t') \<Longrightarrow> Q (Ok a')"
      "\<And>s a t r t'. I s a \<Longrightarrow> guard s \<Longrightarrow> body s a t = (r, t') \<Longrightarrow> \<not> is_ok r \<Longrightarrow> Q (case r of Err e \<Rightarrow> Err e | Panic p \<Rightarrow> Panic p)"
      "\<And>s a. I s a \<Longrightarrow> \<not> guard s \<Longrightarrow> Q (Ok a)"
  shows "Q (fst y)"
proof -
  have "g = guard \<longrightarrow> b = body \<longrightarrow> I s a \<longrightarrow> Q (fst y)" if "discovery_loop g b s a t = Some y" for g b s a t y
  proof (rule discovery_loop.raw_induct [where P = "\<lambda>g b s a t y. g = guard \<longrightarrow> b = body \<longrightarrow> I s a \<longrightarrow> Q (fst y)", OF _ that], intro impI, goal_cases)
    case (1 f g b s a t y)
    obtain r t' where body: "body s a t = (r, t')" by (cases "body s a t")
    show ?case
    proof (cases "guard s")
      case True
      show ?thesis
      proof (cases r)
        case (Ok p)
        show ?thesis
          using 1 True body Ok cont [of s a t] stop(1) [of s a t] by (cases p) auto
      qed (use 1 True body stop(2) [of s a t] in auto)
    qed (use 1 stop(3) in auto)
  qed
  with ret inv show ?thesis by blast
qed

lemma discovery_loop_diverges:
  assumes step: "\<And>s a t. I s \<Longrightarrow> guard s \<and> (\<exists>s' a' t'. body s a t = (Ok (Continue s' a'), t') \<and> I s')"
    and start: "I s"
  shows "discovery_loop guard body s a t = None"
proof (rule ccontr)
  assume "discovery_loop guard body s a t \<noteq> None"
  then obtain y where "discovery_loop guard body s a t = Some y" by blast
  then show False
  proof (rule discovery_loop_result [where I = "\<lambda>s a. I s" and Q = "\<lambda>_. False"])
    show "I s" by (fact start)
    show "I s'" if "I s" "body s a t = (Ok (Continue s' a'), t')" for s a t s' a' t' using step [of s a t] that by auto
    show False if "I s" "body s a t = (Ok (Break a'), t')" for s a t a' t' using step [of s a t] that by auto
    show False if "I s" "body s a t = (r, t')" "\<not> is_ok r" for s a t r t' using step [of s a t] that by auto
    show False if "I s" "\<not> guard s" for s and a :: 'b using step that by blast
  qed
qed

section \<open>Requests\<close>

lemma ask_cases:
  obtains p t' where "tr r t = (Ok p, t')" "ask tr r t = (Ok p, t')"
  | m t' where "tr r t = (Err m, t')" "ask tr r t = (Err (TransportError m), t')"
  | m t' where "tr r t = (Panic m, t')" "ask tr r t = (Panic m, t')"
  by (cases "tr r t"; cases "fst (tr r t)") (auto simp: ask_def)

lemma and_then_ask:
  "and_then (ask tr r) k t = (y, t') \<Longrightarrow> (\<exists>p t''. tr r t = (Ok p, t'') \<and> k p t'' = (y, t')) \<or>
     (\<exists>m. y = Err (TransportError m)) \<or> (\<exists>m. y = Panic m \<and> tr r t = (Panic m, t'))"
  by (rule ask_cases [of tr r t]) (auto simp: and_then_def)

lemma unless_error_Continue:
  "unless_error msg a f p t = (Ok (Continue s b), t') \<Longrightarrow> \<exists>m. f p = Some m \<and> m t = (Ok (Continue s b), t')"
  by (auto simp: unless_error_def split: att_pdu.splits if_splits option.splits)

lemma service_entries_last:
  "service_entries start es l xs = Ok (l', ys) \<Longrightarrow> es \<noteq> [] \<or> start \<le> l \<Longrightarrow> start \<le> l'"
proof (induction start es l xs rule: service_entries.induct)
  case (2 start h e v es l xs)
  then have "start \<le> h" "h \<le> e" by (auto simp: not_less split: if_splits)
  then have "start \<le> e" by (rule order_trans)
  with 2 show ?case by (auto split: if_splits)
qed simp

lemma unat_u16_Suc: "l \<noteq> (0xFFFF :: u16) \<Longrightarrow> unat (l + 1) = unat l + 1"
proof -
  assume "l \<noteq> 0xFFFF"
  then have "unat l \<noteq> unat (0xFFFF :: u16)" using unsigned_word_eqI by blast
  then have "unat l \<noteq> 65535" by simp
  moreover have "unat l < 65536" using unsigned_less [of l] by simp
  ultimately have "unat (of_nat (unat l + 1) :: u16) = unat l + 1" by (intro unat_of_nat_u16) simp
  then show ?thesis by (simp add: add.commute)
qed

lemma u16_less_max: "l < e \<Longrightarrow> l \<noteq> (0xFFFF :: u16)"
proof -
  assume "l < e"
  moreover have "unat e < 65536" using unsigned_less [of e] by simp
  ultimately show ?thesis by (auto simp: word_less_nat_alt)
qed

lemma u16_next: "l \<noteq> (0xFFFF :: u16) \<Longrightarrow> s \<le> l \<Longrightarrow> s < l + 1"
  by (simp add: word_less_nat_alt word_le_nat_alt unat_u16_Suc)


section \<open>Every pass advances\<close>

lemma services_pass_advances:
  assumes "services_pass tr start xs t = (Ok (Continue s ys), t')" shows "start < s"
proof -
  from and_then_ask [OF assms [unfolded services_pass_def]] obtain p t'' where
    "unless_error ''unexpected response to Read By Group Type: {other:?}'' xs (\<lambda>p. case p of
          AttReadByGroupTypeResponse n data \<Rightarrow> Some (lift_result (bind_result (parse_group_entries n data) (\<lambda>es.
            if es = [] then Ok (Break xs)
            else bind_result (service_entries start es 0 xs) (\<lambda>r. Ok (after_services r)))))
        | _ \<Rightarrow> None) p t'' = (Ok (Continue s ys), t')" by auto
  from unless_error_Continue [OF this] obtain es r where
    "service_entries start es 0 xs = Ok r" "es \<noteq> []" "after_services r = Continue s ys"
    by (auto simp: lift_result_def split: att_pdu.splits if_splits)
  then show ?thesis
    using service_entries_last [of start es 0 xs] u16_next by (cases r) (auto simp: after_services_def split: if_splits)
qed

lemma characteristic_entries_last:
  "characteristic_entries start e es l xs = Ok (l', ys) \<Longrightarrow> es \<noteq> [] \<or> start \<le> l \<Longrightarrow> start \<le> l'"
  by (induction start e es l xs rule: characteristic_entries.induct) (auto simp: not_less split: if_splits)

lemma characteristics_pass_advances:
  assumes "characteristics_pass tr e start xs t = (Ok (Continue s ys), t')" shows "start < s"
proof -
  from and_then_ask [OF assms [unfolded characteristics_pass_def]] obtain p t'' where
    "unless_error ''unexpected response to Read By Type: {other:?}'' xs (\<lambda>p. case p of
          AttReadByTypeResponse n data \<Rightarrow> Some (lift_result (bind_result (parse_type_entries n data) (\<lambda>es.
            if es = [] then Ok (Break xs)
            else bind_result (characteristic_entries start e es 0 xs) (\<lambda>(last_decl, cs').
              Ok (if last_decl \<ge> e then Break cs' else Continue (last_decl + 1) cs')))))
        | _ \<Rightarrow> None) p t'' = (Ok (Continue s ys), t')" by auto
  from unless_error_Continue [OF this] obtain es l where
    "characteristic_entries start e es 0 xs = Ok (l, ys)" "es \<noteq> []" "l < e" "s = l + 1"
    by (auto simp: lift_result_def not_le split: att_pdu.splits if_splits)
  then show ?thesis
    using characteristic_entries_last [of start e es 0 xs] u16_next [of l start] u16_less_max [of l e] by auto
qed

lemma blob_pass_advances:
  assumes "blob_pass tr h n off v t = (Ok (Continue s v'), t')" "0 < n"
    "\<And>part r t t'. tr r t = (Ok (AttReadBlobResponse part), t') \<Longrightarrow> length part < 65536"
  shows "off < s"
proof -
  obtain p t'' where p: "tr (AttReadBlobRequest h off) t = (Ok p, t'')"
    by (rule ask_cases [of tr "AttReadBlobRequest h off" t]) (use assms(1) in \<open>auto simp: blob_pass_def and_then_def\<close>)
  have "\<exists>part. p = AttReadBlobResponse part \<and> \<not> length part < n \<and>
      unat off + unat (of_nat (length part) :: u16) \<le> 65535 \<and> s = off + of_nat (length part)"
    using assms(1) p by (cases p) (auto simp: blob_pass_def and_then_def ask_def split: if_splits)
  then obtain part where part: "tr (AttReadBlobRequest h off) t = (Ok (AttReadBlobResponse part), t'')"
      "\<not> length part < n" "unat off + unat (of_nat (length part) :: u16) \<le> 65535" "s = off + of_nat (length part)"
    using p by blast
  have len: "unat (of_nat (length part) :: u16) = length part" using assms(3) [OF part(1)] by (rule unat_of_nat_u16)
  have "s = of_nat (unat off + length part)" using part(4) by simp
  then have "unat s = unat off + length part" using part(3) len by (simp only:) (rule unat_of_nat_u16, simp)
  moreover have "0 < length part" using part(2) assms(2) by (cases part) auto
  ultimately show ?thesis by (simp add: word_less_nat_alt)
qed


section \<open>No panic\<close>

lemma entry_chunks_quiet: "\<not> is_panic (entry_chunks m m' k n data)"
  by (simp add: entry_chunks_def)

lemma uuid_or_quiet: "\<not> is_panic (uuid_or m b)"
  by (simp add: uuid_or_def uuid_from_bytes_def)

lemma service_entries_quiet: "\<not> is_panic (service_entries start es l xs)"
  by (induction start es l xs rule: service_entries.induct) (auto simp: panic_bind_iff uuid_or_quiet)

lemma and_then_ask_quiet:
  assumes "\<And>r t. \<not> is_panic (fst (tr r t))" "\<And>p t. \<not> is_panic (fst (k p t))" shows "\<not> is_panic (fst (and_then (ask tr r) k t))"
  by (rule ask_cases [of tr r t]) (use assms(1) [of r t] assms(2) in \<open>auto simp: and_then_def\<close>)

lemma unless_error_quiet:
  "(\<And>m. f p = Some m \<Longrightarrow> \<not> is_panic (fst (m t))) \<Longrightarrow> \<not> is_panic (fst (unless_error msg found f p t))"
  by (cases p; cases "f p") (auto simp: unless_error_def)

lemma services_pass_quiet:
  assumes "\<And>r t. \<not> is_panic (fst (tr r t))" shows "\<not> is_panic (fst (services_pass tr start xs t))"
  unfolding services_pass_def
proof (rule and_then_ask_quiet [OF assms], rule unless_error_quiet)
  fix p m t assume "(case p of
          AttReadByGroupTypeResponse n data \<Rightarrow> Some (lift_result (bind_result (parse_group_entries n data) (\<lambda>es.
            if es = [] then Ok (Break xs)
            else bind_result (service_entries start es 0 xs) (\<lambda>r. Ok (after_services r)))))
        | _ \<Rightarrow> None) = Some m"
  then show "\<not> is_panic (fst (m t))"
    by (cases p) (auto simp: lift_result_def parse_group_entries_def panic_bind_iff entry_chunks_quiet
        service_entries_quiet split: if_splits)
qed

lemma characteristic_entries_quiet:
  "0 < start \<Longrightarrow> \<not> is_panic (characteristic_entries start e es l xs)"
proof (induction start e es l xs rule: characteristic_entries.induct)
  case (2 start e h v es l xs)
  have "h < start \<or> \<not> is_panic (close_previous h xs)" using \<open>0 < start\<close> by (auto simp: close_previous_def)
  with 2 show ?case by (auto simp: panic_bind_iff uuid_or_quiet)
qed simp

lemma characteristics_pass_quiet:
  assumes "\<And>r t. \<not> is_panic (fst (tr r t))" "0 < start" shows "\<not> is_panic (fst (characteristics_pass tr e start xs t))"
  unfolding characteristics_pass_def
proof (rule and_then_ask_quiet [OF assms(1)], rule unless_error_quiet)
  fix p m t assume "(case p of
          AttReadByTypeResponse n data \<Rightarrow> Some (lift_result (bind_result (parse_type_entries n data) (\<lambda>es.
            if es = [] then Ok (Break xs)
            else bind_result (characteristic_entries start e es 0 xs) (\<lambda>(last_decl, cs').
              Ok (if last_decl \<ge> e then Break cs' else Continue (last_decl + 1) cs')))))
        | _ \<Rightarrow> None) = Some m"
  then show "\<not> is_panic (fst (m t))"
    by (cases p) (auto simp: lift_result_def parse_type_entries_def panic_bind_iff entry_chunks_quiet
        characteristic_entries_quiet [OF assms(2)] split: if_splits)
qed

lemma discovery_loop_quiet:
  assumes "discovery_loop guard body s a t = Some y" "P s"
    "\<And>s a t. P s \<Longrightarrow> \<not> is_panic (fst (body s a t))"
    "\<And>s a t s' a' t'. body s a t = (Ok (Continue s' a'), t') \<Longrightarrow> s < s'" "\<And>s s'. P s \<Longrightarrow> s < s' \<Longrightarrow> P s'"
  shows "\<not> is_panic (fst y)"
proof (rule discovery_loop_result [OF assms(1), where I = "\<lambda>s a. P s" and Q = "\<lambda>r. \<not> is_panic r"])
  show "P s" by (fact assms(2))
  show "P s'" if "P s" "body s a t = (Ok (Continue s' a'), t')" for s a t s' a' t' using that assms(4,5) by blast
  show "\<not> is_panic (case r of Err e \<Rightarrow> Err e | Panic p \<Rightarrow> Panic p)"
    if "P s" "body s a t = (r, t')" "\<not> is_ok r" for s a t r t'
    using assms(3) [OF that(1), of a t] that by (cases r) auto
qed simp_all


section \<open>Properties\<close>

lemma gc_read_value_returns:
  assumes "\<And>part r t t'. tr r t = (Ok (AttReadBlobResponse part), t') \<Longrightarrow> length part < 65536" "1 < gc_mtu c"
  shows "\<exists>y. gc_read_value tr h no_long_read (c, t) = Some y"
proof -
  have "0 < unat (gc_mtu c - 1)" using assms(2) by (simp add: unat_gt_0)
  then have "\<exists>y. discovery_loop (\<lambda>_. True) (blob_pass tr h (unat (gc_mtu c - 1))) s v t = Some y" for s v t
    by (intro discovery_loop_returns) (metis blob_pass_advances assms(1))
  then show ?thesis
    by (auto simp: gc_read_value_def Let_def split: prod.splits rresult.splits)
qed

text \<open>
  Property C19: discovery ends with every peer. Whatever a transport answers, discovering the primary services and the
  characteristics of a service returns; with a transport that does not panic neither panics (characteristics of a
  service with a handle other than 0). Reading a value returns too, when no blob of the peer is longer
  than 65535 bytes.
\<close>

theorem gatt_discovery_ends:
  fixes tr :: "'t transport"
  shows "(\<exists>y. discover_services tr t = Some y) \<and> (\<exists>y. discover_characteristics tr sv t = Some y) \<and>
    ((\<forall>r t. \<not> is_panic (fst (tr r t))) \<longrightarrow>
      \<not> is_panic (fst (the (discover_services tr t))) \<and>
      (sp_handle sv \<noteq> 0 \<longrightarrow> \<not> is_panic (fst (the (discover_characteristics tr sv t))))) \<and>
    ((\<forall>r t part t'. tr r t = (Ok (AttReadBlobResponse part), t') \<longrightarrow> length part < 65536) \<and> 1 < gc_mtu c \<longrightarrow>
      (\<exists>y. gc_read_value tr h no_long_read (c, t) = Some y))"
proof -
  obtain y where y: "discover_services tr t = Some y"
    using discovery_loop_returns [of "\<lambda>_. True" "services_pass tr"] services_pass_advances unfolding discover_services_def by metis
  let ?e = "sp_end_group sv"
  obtain r t' where z: "discovery_loop (\<lambda>start. start \<le> ?e) (characteristics_pass tr ?e) (sp_handle sv) [] t = Some (r, t')"
    using discovery_loop_returns [of "\<lambda>start. start \<le> ?e" "characteristics_pass tr ?e"] characteristics_pass_advances by (metis surj_pair)
  then have ch: "discover_characteristics tr sv t = Some (bind_result r (\<lambda>cs. Ok (close_last ?e cs)), t')"
    by (simp add: discover_characteristics_def)
  have "\<not> is_panic (fst y)" if quiet: "\<And>r t. \<not> is_panic (fst (tr r t))"
    using y [unfolded discover_services_def]
    by (rule discovery_loop_quiet [where P = "\<lambda>_. True"])
      (use services_pass_quiet [of tr] quiet in \<open>auto intro: services_pass_advances\<close>)
  moreover have "\<not> is_panic r" if quiet: "\<And>r t. \<not> is_panic (fst (tr r t))" and pos: "sp_handle sv \<noteq> 0"
  proof -
    have "0 < sp_handle sv" using pos by (simp add: word_neq_0_conv)
    with z have "\<not> is_panic (fst (r, t'))"
      by (rule discovery_loop_quiet [where P = "\<lambda>s. 0 < s"])
        (use characteristics_pass_quiet [of tr] quiet in \<open>auto intro: characteristics_pass_advances\<close>)
    then show ?thesis by simp
  qed
  moreover have "\<exists>y. gc_read_value tr h no_long_read (c, t) = Some y"
    if "\<forall>r t part t'. tr r t = (Ok (AttReadBlobResponse part), t') \<longrightarrow> length part < 65536" "1 < gc_mtu c"
    by (rule gc_read_value_returns) (use that in blast)+
  ultimately show ?thesis using y ch by (auto simp: panic_bind_iff)
qed


text \<open>A peer that answers every request with the same service: discovery reports the handle it cannot accept.\<close>

theorem gatt_discovery_ends_witness:
  "\<exists>y. discover_services (\<lambda>r t. (Ok (AttReadByGroupTypeResponse 6 [1, 0, 1, 0, 0, 0x18]), t)) () = Some y \<and> \<not> is_panic (fst y)"
  using gatt_discovery_ends [of "\<lambda>r t. (Ok (AttReadByGroupTypeResponse 6 [1, 0, 1, 0, 0, 0x18]), t)" "()"] by fastforce

subsection \<open>Peers that repeat one answer\<close>

lemma u16_le_max: "(s :: u16) \<le> 0xFFFF"
proof -
  have "unat s < 65536" using unsigned_less [of s] by simp
  then show ?thesis by (simp add: word_le_nat_alt)
qed

definition repeats :: "att_pdu \<Rightarrow> 't transport" where
  "repeats p = (\<lambda>r t. (Ok p, t))"

lemma and_then_repeats: "and_then (ask (repeats p) r) k t = k p t"
  by (simp add: repeats_def ask_def and_then_def)

lemmas pass_simps = and_then_repeats unless_error_def lift_result_def chunks_rec uuid_or_def uuid_from_bytes_def
  u16_from_le_bytes_def Let_def u16_le_max

lemma attributes_hang: "discover_attributes (repeats (AttFindInformationResponse 1 [1, 0, 0, 0x28])) t = None"
  unfolding discover_attributes_def discover_attribute_range_def
  by (rule discovery_loop_diverges [where I = "\<lambda>_. True"]) (simp_all add: attributes_pass_def parse_information_entries_def pass_simps word_le_nat_alt [of _ 1])

lemma services_by_uuid_hang: "discover_service_by_uuid (repeats (AttFindByTypeValueResponse [1, 0, 1, 0])) u t = None"
  unfolding discover_service_by_uuid_def discover_service_by_uuid_with_type_def
  by (rule discovery_loop_diverges [where I = "\<lambda>_. True"]) (simp_all add: handles_pass_def after_services_def pass_simps)

lemma included_services_hang:
  assumes "sp_handle sv < sp_end_group sv" "1 < sp_end_group sv"
  shows "discover_included_services (repeats (AttReadByTypeResponse 8 [1, 0, 1, 0, 1, 0, 0, 0x18])) sv t = None"
proof -
  have start: "sp_handle sv + 1 \<le> sp_end_group sv" using assms(1) by (rule inc_le)
  have two: "2 \<le> sp_end_group sv" using inc_le [OF assms(2)] by simp
  have "discovery_loop (\<lambda>start. start \<le> sp_end_group sv)
      (included_pass (repeats (AttReadByTypeResponse 8 [1, 0, 1, 0, 1, 0, 0, 0x18])) (sp_end_group sv)) (sp_handle sv + 1) [] t = None"
    by (rule discovery_loop_diverges [where I = "\<lambda>s. s \<le> sp_end_group sv"])
      (use start two assms(2) in \<open>auto simp: included_pass_def included_uuid_def parse_type_entries_def entry_chunks_def and_then_def [of "lift_result _"]
        and_then_def [of "included_entries _ _ _ _"] pass_simps\<close>)
  with assms(1) show ?thesis by (simp add: discover_included_services_def)
qed

lemma handle_zero_panic:
  "discover_characteristics (repeats (AttReadByTypeResponse 7 [0, 0, 2, 1, 0, 0, 0x2A, 0, 0, 2, 1, 0, 0, 0x2A]))
     \<lparr>sp_handle = 0, sp_end_group = e, sp_uuid = u\<rparr> t = Some (Panic ''attempt to subtract with overflow'', t)"
  by (simp add: discover_characteristics_def discovery_loop.simps characteristics_pass_def parse_type_entries_def entry_chunks_def
      close_previous_def pass_simps)

text \<open>
  Property C20: procedures a peer can hang or panic. A peer that repeats one answer keeps the discovery of attributes,
  of services by UUID and of included services running for ever: these loops continue after the handle the peer
  reports, without comparing it with the handle they asked for. A service found by UUID may have the handle 0,
  and then two declarations at handle 0 panic the discovery of its characteristics.
\<close>


theorem gatt_discovery_hangs:
  "discover_attributes (repeats (AttFindInformationResponse 1 [1, 0, 0, 0x28])) t = None \<and>
   discover_service_by_uuid (repeats (AttFindByTypeValueResponse [1, 0, 1, 0])) u t = None \<and>
   (sp_handle sv < sp_end_group sv \<and> 1 < sp_end_group sv \<longrightarrow>
     discover_included_services (repeats (AttReadByTypeResponse 8 [1, 0, 1, 0, 1, 0, 0, 0x18])) sv t = None) \<and>
   discover_characteristics (repeats (AttReadByTypeResponse 7 [0, 0, 2, 1, 0, 0, 0x2A, 0, 0, 2, 1, 0, 0, 0x2A]))
     \<lparr>sp_handle = 0, sp_end_group = e, sp_uuid = u\<rparr> t = Some (Panic ''attempt to subtract with overflow'', t)"
  by (simp add: attributes_hang services_by_uuid_hang included_services_hang handle_zero_panic)

theorem gatt_discovery_hangs_witness:
  "discover_included_services (repeats (AttReadByTypeResponse 8 [1, 0, 1, 0, 1, 0, 0, 0x18]))
     \<lparr>sp_handle = 1, sp_end_group = 9, sp_uuid = Uuid [0, 0x18]\<rparr> () = None"
  using gatt_discovery_hangs [of "()" "Uuid [0, 0x18]" "\<lparr>sp_handle = 1, sp_end_group = 9, sp_uuid = Uuid [0, 0x18]\<rparr>"] by simp

end
