(* ===== verification/Gatt_Session.thy ===== *)
theory Gatt_Session
  imports Gatt_Discovery
begin

text \<open>
  The client over the server: \<open>impl AttTransport for H\<close> answers a request in the process. Reads reassemble
  whole values, and discovery returns the services the database was built from; the responses it gets are as long as the
  database makes them, whatever the MTU.
\<close>

definition handler_transport :: "block_cipher \<Rightarrow> 'w gatt_server transport" where
  "handler_transport aes r s =
     (case gs_on_request aes r access_context_default s of
        (Ok p, s') \<Rightarrow> (Ok p, s')
      | (Err _, s') \<Rightarrow> (Err '''', s')
      | (Panic m, s') \<Rightarrow> (Panic m, s'))"

abbreviation dflt :: access_context where
  "dflt \<equiv> access_context_default"

lemma ask_server:
  "gs_on_request aes r dflt s = (Ok p, s') \<Longrightarrow> and_then (ask (handler_transport aes) r) k s = k p s'"
  by (simp add: handler_transport_def ask_def and_then_def)

lemma bearer_default [simp]: "bearer_id dflt = 0"
  by (simp add: access_context_default_def)

section \<open>Reads\<close>

lemma read_server:
  assumes "gs_inv aes s" "read_handle s dflt h = Ok v"
  shows "gs_on_request aes (AttReadRequest h) dflt s = (Ok (AttReadResponse (take (unat (negotiated_mtu s 0) - 1) v)), s)"
  using assms(2) by (simp add: gs_on_request_def truncate_to_def min_def mtu_minus_Ok [OF negotiated_mtu_ge [OF assms(1)]])

lemma blob_server:
  assumes "gs_inv aes s" "read_handle s dflt h = Ok v" "unat off \<le> length v"
  shows "gs_on_request aes (AttReadBlobRequest h off) dflt s =
    (Ok (AttReadBlobResponse (take (unat (negotiated_mtu s 0) - 1) (drop (unat off) v))), s)"
  using assms(2,3)
  by (simp add: gs_on_request_def read_blob_def Let_def min_def mtu_minus_Ok [OF negotiated_mtu_ge [OF assms(1)]])

lemma blob_loop:
  assumes inv: "gs_inv aes s" and v: "read_handle s dflt h = Ok v" and n: "n = unat (negotiated_mtu s 0) - 1"
    and off: "k \<le> length v" "k \<le> 65535"
  shows "(length v \<le> 65535 \<longrightarrow>
      discovery_loop (\<lambda>_. True) (blob_pass (handler_transport aes) h n) (of_nat k) (take k v) s = Some (Ok v, s)) \<and>
    (65535 + n \<le> length v \<longrightarrow>
      discovery_loop (\<lambda>_. True) (blob_pass (handler_transport aes) h n) (of_nat k) (take k v) s =
        Some (Panic ''attempt to add with overflow'', s))"
  using off
proof (induction "length v - k" arbitrary: k rule: less_induct)
  case less
  have n: "0 < n" "n < 65536"
    using negotiated_mtu_ge [OF inv, of 0] unsigned_less [of "negotiated_mtu s 0", where ?'a = nat] n
    by (auto simp: ATT_DEFAULT_MTU_def word_le_nat_alt)
  have k: "unat (of_nat k :: u16) = k" using less.prems by (simp add: unat_of_nat_u16)
  have un: "unat (of_nat n :: u16) = n" using n by (simp add: unat_of_nat_u16)
  let ?part = "take n (drop k v)"
  have resp: "gs_on_request aes (AttReadBlobRequest h (of_nat k)) dflt s = (Ok (AttReadBlobResponse ?part), s)"
    using blob_server [OF inv v, of "of_nat k"] less.prems(1) assms(3) by (simp add: k)
  show ?case
  proof (cases "k + n \<le> length v")
    case False
    then have "take k v @ ?part = v" by simp
    with False n less.prems(2) show ?thesis
      by (subst (1 2) discovery_loop.simps) (auto simp: blob_pass_def ask_server [OF resp])
  next
    case True
    then have len: "length ?part = n" by simp
    show ?thesis
    proof (cases "k + n \<le> 65535")
      case True
      have "take k v @ ?part = take (k + n) v" by (simp add: take_add)
      moreover have "(of_nat k :: u16) + of_nat n = of_nat (k + n)" by simp
      ultimately show ?thesis
        using less.hyps [of "k + n"] \<open>k + n \<le> length v\<close> True n k un
        by (subst (1 2) discovery_loop.simps) (simp add: blob_pass_def ask_server [OF resp] len)
    next
      case False
      then show ?thesis
        using True k un by (subst (1 2) discovery_loop.simps) (simp add: blob_pass_def ask_server [OF resp] len)
    qed
  qed
qed


lemma gc_read_value_server:
  assumes inv: "gs_inv aes s" and v: "read_handle s dflt h = Ok v" and mtu: "gc_mtu c = negotiated_mtu s 0"
  shows "(length v \<le> 65535 \<longrightarrow> gc_read_value (handler_transport aes) h False (c, s) =
      Some (Ok v, c\<lparr>gc_cached_values := bt_insert h v (gc_cached_values c)\<rparr>, s)) \<and>
    (65534 + unat (negotiated_mtu s 0) \<le> length v \<longrightarrow> gc_read_value (handler_transport aes) h False (c, s) =
      Some (Panic ''attempt to add with overflow'', c, s))"
proof -
  let ?n = "unat (negotiated_mtu s 0) - 1"
  have m: "\<not> gc_mtu c < 1" "unat (gc_mtu c - 1) = ?n" "0 < ?n" "?n \<le> 65535" "unat (negotiated_mtu s 0) = Suc ?n"
    using negotiated_mtu_ge [OF inv, of 0] unsigned_less [of "negotiated_mtu s 0", where ?'a = nat] mtu
    by (auto simp: ATT_DEFAULT_MTU_def word_le_nat_alt word_less_nat_alt unat_sub)
  note loop = blob_loop [OF inv v refl, of ?n]
  show ?thesis
  proof (cases "?n \<le> length v")
    case True
    with loop m show ?thesis
      by (auto simp: gc_read_value_def ask_server [OF read_server [OF inv v]] expect_def lift_result_def)
  next
    case False
    with m show ?thesis
      by (auto simp: gc_read_value_def ask_server [OF read_server [OF inv v]] expect_def lift_result_def)
  qed
qed


section \<open>Discovery of services\<close>

definition proxy_of :: "'w attribute \<Rightarrow> service_proxy" where
  "proxy_of a = \<lparr>sp_handle = at_handle a, sp_end_group = at_end_group a, sp_uuid = Uuid (at_value a)\<rparr>"

text \<open>What \<open>select_values\<close> takes from static readable attributes: the first values of one length.\<close>

definition first_run :: "'w attribute list \<Rightarrow> 'w attribute list" where
  "first_run as = (case as of [] \<Rightarrow> [] | a # _ \<Rightarrow> takeWhile (\<lambda>b. length (at_value b) = length (at_value a)) as)"

lemma select_values_run:
  assumes "\<forall>a \<in> set as. read_attribute s c a = Ok (at_value a)" "\<forall>x \<in> set sel. length (snd (snd x)) = n" "sel \<noteq> []"
  shows "select_values s c as sel = Ok (sel @ map (\<lambda>a. (at_handle a, at_end_group a, at_value a)) (takeWhile (\<lambda>b. length (at_value b) = n) as))"
  using assms
proof (induction as arbitrary: sel)
  case (Cons a as)
  have hd: "length (snd (snd (hd sel))) = n" using Cons.prems by simp
  show ?case
  proof (cases "length (at_value a) = n")
    case True
    have "select_values s c as (sel @ [(at_handle a, at_end_group a, at_value a)]) = Ok ((sel @ [(at_handle a, at_end_group a, at_value a)]) @
        map (\<lambda>a. (at_handle a, at_end_group a, at_value a)) (takeWhile (\<lambda>b. length (at_value b) = n) as))"
      by (rule Cons.IH) (use Cons.prems True in auto)
    with True hd Cons.prems show ?thesis by simp
  qed (use hd Cons.prems in simp)
qed simp

lemma select_values_first_run:
  assumes "\<forall>a \<in> set as. read_attribute s c a = Ok (at_value a)"
  shows "select_values s c as [] = Ok (map (\<lambda>a. (at_handle a, at_end_group a, at_value a)) (first_run as))"
proof (cases as)
  case (Cons a bs)
  with assms select_values_run [of bs s c "[(at_handle a, at_end_group a, at_value a)]" "length (at_value a)"]
  show ?thesis by (simp add: first_run_def)
qed (simp add: first_run_def)

lemma chunks_concat:
  assumes "0 < n" "\<forall>x \<in> set xs. length (f x) = n" shows "chunks n (concat (map f xs)) = map f xs"
  using assms(2)
proof (induction xs)
  case (Cons x xs)
  then have "concat (map f (x # xs)) \<noteq> []" using assms(1) by auto
  with Cons assms(1) show ?case by (subst chunks_rec) simp_all
qed simp

lemma parse_group_entries_run:
  assumes "\<forall>a \<in> set as. length (at_value a) = n" "n < 252"
  shows "parse_group_entries (of_nat (4 + n)) (concat (map (\<lambda>a. u16_to_le_bytes (at_handle a) @ u16_to_le_bytes (at_end_group a) @ at_value a) as)) =
    Ok (map (\<lambda>a. (at_handle a, at_end_group a, at_value a)) as)"
proof -
  let ?f = "\<lambda>a. u16_to_le_bytes (at_handle a) @ u16_to_le_bytes (at_end_group a) @ at_value a"
  have n: "unat (of_nat (4 + n) :: u8) = 4 + n" using assms(2) by (intro unat_of_nat_u8) simp
  have "length (concat (map ?f as)) = (4 + n) * length as"
    by (rule length_concat_const) (use assms(1) in auto)
  moreover have "chunks (4 + n) (concat (map ?f as)) = map ?f as" by (rule chunks_concat) (use assms(1) in auto)
  ultimately show ?thesis
    unfolding parse_group_entries_def entry_chunks_def n by (simp add: u16_to_le_bytes_def)
qed


text \<open>Groups that can be discovered: readable static UUIDs, in ranges that follow each other.\<close>

definition service_chain :: "'w gatt_server \<Rightarrow> u16 \<Rightarrow> 'w attribute list \<Rightarrow> bool" where
  "service_chain s start as \<longleftrightarrow> (\<forall>a \<in> set as. read_attribute s dflt a = Ok (at_value a) \<and> length (at_value a) \<in> {2, 4, 16} \<and>
     start \<le> at_handle a \<and> at_handle a \<le> at_end_group a) \<and> sorted_wrt (\<lambda>a b. at_end_group a < at_handle b) as"

lemma service_entries_run:
  assumes "\<forall>a \<in> set as. length (at_value a) \<in> {2, 4, 16} \<and> start \<le> at_handle a \<and> at_handle a \<le> at_end_group a" "as \<noteq> []"
  shows "service_entries start (map (\<lambda>a. (at_handle a, at_end_group a, at_value a)) as) l xs =
    Ok (at_end_group (last as), xs @ map proxy_of as)"
  using assms
proof (induction as arbitrary: l xs)
  case (Cons a as)
  then show ?case
    by (cases "as = []") (auto simp: uuid_or_def uuid_from_bytes_def proxy_of_def not_less)
qed simp

lemma first_run_split: "as = first_run as @ drop (length (first_run as)) as"
  by (cases as) (simp_all add: first_run_def takeWhile_dropWhile_id dropWhile_eq_drop [symmetric])

lemma first_run_nonempty: "as \<noteq> [] \<Longrightarrow> first_run as \<noteq> []"
  by (cases as) (simp_all add: first_run_def)

lemma first_run_length: "a \<in> set (first_run as) \<Longrightarrow> length (at_value a) = length (at_value (hd as))"
  by (cases as) (auto simp: first_run_def dest: set_takeWhileD)

lemma first_run_subset: "set (first_run as) \<subseteq> set as"
  by (cases as) (auto simp: first_run_def dest: set_takeWhileD)

lemma services_pass_server:
  assumes ps: "typed_in_range s start 0xFFFF (uuid_from_16_bits GATT_PRIMARY_SERVICE_UUID) = ps" "ps \<noteq> []"
    and chain: "service_chain s start ps"
  shows "services_pass (handler_transport aes) start xs s =
    (Ok (after_services (at_end_group (last (first_run ps)), xs @ map proxy_of (first_run ps))), s)"
proof -
  let ?qs = "first_run ps" and ?n = "length (at_value (hd ps))"
  have qs: "?qs \<noteq> []" "\<forall>a \<in> set ?qs. length (at_value a) = ?n"
    using first_run_nonempty [OF ps(2)] first_run_length by blast+
  have n: "?n < 252" using chain ps(2) by (auto simp: service_chain_def dest!: bspec [OF _ hd_in_set])
  have sel: "select_values s dflt ps [] = Ok (map (\<lambda>a. (at_handle a, at_end_group a, at_value a)) ?qs)"
    by (rule select_values_first_run) (use chain in \<open>auto simp: service_chain_def\<close>)
  let ?data = "concat (map (\<lambda>a. u16_to_le_bytes (at_handle a) @ u16_to_le_bytes (at_end_group a) @ at_value a) ?qs)"
  have "hd ?qs \<in> set ?qs" using qs(1) by simp
  then have "length (at_value (hd ?qs)) = ?n" using qs(2) by blast
  then have resp: "gs_on_request aes (AttReadByGroupTypeRequest start 0xFFFF (uuid_from_16_bits GATT_PRIMARY_SERVICE_UUID)) dflt s =
      (Ok (AttReadByGroupTypeResponse (of_nat (4 + ?n)) ?data), s)"
    using ps sel qs(1) by (cases ?qs) (auto simp: gs_on_request_def read_by_group_type_def read_selected_def comp_def)
  have entries: "service_entries start (map (\<lambda>a. (at_handle a, at_end_group a, at_value a)) ?qs) 0 xs =
      Ok (at_end_group (last ?qs), xs @ map proxy_of ?qs)"
    by (rule service_entries_run) (use chain first_run_subset [of ps] qs(1) in \<open>auto simp: service_chain_def\<close>)
  show ?thesis
    unfolding services_pass_def ask_server [OF resp] using parse_group_entries_run [OF qs(2) n] entries qs(1)
    by (simp add: unless_error_def lift_result_def)
qed

lemma typed_in_range_later:
  "start \<le> start' \<Longrightarrow> typed_in_range s start' e u = filter (\<lambda>a. start' \<le> at_handle a) (typed_in_range s start e u)"
  by (auto simp: typed_in_range_def in_range_def intro!: filter_cong)

lemma sorted_wrt_last: "sorted_wrt R xs \<Longrightarrow> a \<in> set xs \<Longrightarrow> a = last xs \<or> R a (last xs)"
  by (induction xs) (auto split: if_splits)

lemma services_loop_server:
  assumes "typed_in_range s start 0xFFFF (uuid_from_16_bits GATT_PRIMARY_SERVICE_UUID) = ps" "service_chain s start ps"
  shows "discovery_loop (\<lambda>_. True) (services_pass (handler_transport aes)) start xs s = Some (Ok (xs @ map proxy_of ps), s)"
  using assms
proof (induction "length ps" arbitrary: start xs ps rule: less_induct)
  case less
  show ?case
  proof (cases "ps = []")
    case True
    with less.prems(1) have "gs_on_request aes (AttReadByGroupTypeRequest start 0xFFFF (uuid_from_16_bits GATT_PRIMARY_SERVICE_UUID)) dflt s =
        (Ok (AttErrorResponse ATT_READ_BY_GROUP_TYPE_REQUEST start ATT_ATTRIBUTE_NOT_FOUND_ERROR), s)"
      by (simp add: gs_on_request_def read_by_group_type_def read_selected_def)
    then have "services_pass (handler_transport aes) start xs s = (Ok (Break xs), s)"
      unfolding services_pass_def by (simp add: ask_server unless_error_def)
    with True show ?thesis by (subst discovery_loop.simps) simp
  next
    case False
    let ?qs = "first_run ps" and ?l = "at_end_group (last (first_run ps))"
    obtain rest where split: "ps = ?qs @ rest" using first_run_split by blast
    have qs: "?qs \<noteq> []" using first_run_nonempty [OF False] .
    note pass = services_pass_server [OF less.prems(1) False less.prems(2), of aes xs]
    have sorted: "sorted_wrt (\<lambda>a b. at_end_group a < at_handle b) (?qs @ rest)" using less.prems(2) split by (simp add: service_chain_def)
    have after: "?l < at_handle r" if "r \<in> set rest" for r
      using sorted that qs by (simp add: sorted_wrt_append)
    have upto: "at_handle a \<le> ?l" if "a \<in> set ?qs" for a
    proof -
      have bounds: "at_handle b \<le> at_end_group b" if "b \<in> set ?qs" for b
        using less.prems(2) that first_run_subset [of ps] by (auto simp: service_chain_def)
      from sorted that have "a = last ?qs \<or> at_end_group a < at_handle (last ?qs)"
        using sorted_wrt_last [of "\<lambda>a b. at_end_group a < at_handle b" ?qs a] by (simp add: sorted_wrt_append)
      then show ?thesis using bounds [OF that] bounds [of "last ?qs"] qs by auto
    qed
    show ?thesis
    proof (cases "?l = 0xFFFF")
      case True
      then have "rest = []" using after u16_le_max by (cases rest) (auto simp: not_less [symmetric])
      with True pass split show ?thesis by (subst discovery_loop.simps) (simp add: after_services_def)
    next
      case False
      have "last ?qs \<in> set ps" using qs first_run_subset [of ps] by (meson last_in_set subsetD)
      then have "start \<le> at_handle (last ?qs)" using less.prems(2) by (simp add: service_chain_def)
      then have "start \<le> ?l" using upto [of "last ?qs"] qs by (meson last_in_set order_trans)
      then have later: "start \<le> ?l + 1" using u16_next [OF False] by (simp add: order_less_imp_le)
      have next_handle: "?l + 1 \<le> at_handle r" if "r \<in> set rest" for r using after [OF that] by (rule inc_le)
      have "filter (\<lambda>a. ?l + 1 \<le> at_handle a) (?qs @ rest) = rest"
        using upto u16_next [OF False] next_handle by (auto simp: filter_empty_conv not_le intro!: filter_True)
      then have "typed_in_range s (?l + 1) 0xFFFF (uuid_from_16_bits GATT_PRIMARY_SERVICE_UUID) = rest"
        using typed_in_range_later [OF later] less.prems(1) split by metis
      moreover have "set rest \<subseteq> set ps" using split by (metis set_append sup_ge2)
      then have "service_chain s (?l + 1) rest"
        using less.prems(2) sorted next_handle unfolding service_chain_def sorted_wrt_append by blast
      moreover have "length rest < length ps" using arg_cong [OF split, of length] qs by simp
      ultimately have "discovery_loop (\<lambda>_. True) (services_pass (handler_transport aes)) (?l + 1) (xs @ map proxy_of ?qs) s =
          Some (Ok ((xs @ map proxy_of ?qs) @ map proxy_of rest), s)" using less.hyps by blast
      moreover have "map proxy_of ps = map proxy_of ?qs @ map proxy_of rest" using split by (metis map_append)
      ultimately show ?thesis using False pass by (subst discovery_loop.simps) (simp add: after_services_def)
    qed
  qed
qed


subsection \<open>The services of a database\<close>

fun expected_services :: "nat \<Rightarrow> service_definition list \<Rightarrow> service_proxy list" where
  "expected_services h [] = []"
| "expected_services h (sd # ss) =
     (if sd_primary sd then [\<lparr>sp_handle = of_nat h, sp_end_group = of_nat (h + service_count sd - 1), sp_uuid = sd_uuid sd\<rparr>] else []) @
     expected_services (h + service_count sd) ss"

definition primary_type :: "uuid \<Rightarrow> bool" where
  "primary_type u \<longleftrightarrow> uuid_eq u (uuid_from_16_bits GATT_PRIMARY_SERVICE_UUID)"

text \<open>The UUIDs are UUIDs, and no characteristic or descriptor has the type of a primary service declaration.\<close>

definition discoverable :: "service_definition \<Rightarrow> bool" where
  "discoverable sd \<longleftrightarrow> length (uuid_bytes (sd_uuid sd)) \<in> {2, 4, 16} \<and>
     (\<forall>c \<in> set (sd_characteristics sd). \<not> primary_type (cd_uuid c) \<and> (\<forall>d \<in> set (cd_descriptors c). \<not> primary_type (dd_uuid d)))"

lemma primary_types [simp]:
  "primary_type (uuid_from_16_bits GATT_PRIMARY_SERVICE_UUID)" "\<not> primary_type (uuid_from_16_bits GATT_SECONDARY_SERVICE_UUID)"
  "\<not> primary_type (uuid_from_16_bits GATT_INCLUDE_UUID)" "\<not> primary_type (uuid_from_16_bits GATT_CHARACTERISTIC_UUID)"
  "\<not> primary_type (uuid_from_16_bits GATT_CLIENT_CHARACTERISTIC_CONFIGURATION_UUID)"
  by (simp_all add: primary_type_def uuid_eq_def uuid_128_bytes_def uuid_from_16_bits_def u16_to_le_bytes_def GATT_PRIMARY_SERVICE_UUID_def
      GATT_SECONDARY_SERVICE_UUID_def GATT_INCLUDE_UUID_def GATT_CHARACTERISTIC_UUID_def GATT_CLIENT_CHARACTERISTIC_CONFIGURATION_UUID_def)

lemma set_enumerate_snd: "(k, x) \<in> set (enumerate n xs) \<Longrightarrow> x \<in> set xs"
  by (induction xs arbitrary: n) auto

lemma characteristics_not_primary:
  assumes "\<forall>c \<in> set cs. \<not> primary_type (cd_uuid c) \<and> (\<forall>d \<in> set (cd_descriptors c). \<not> primary_type (dd_uuid d))"
    "a \<in> set (characteristics_attributes h cs)"
  shows "\<not> primary_type (at_type a)"
  using assms
proof (induction h cs rule: characteristics_attributes.induct)
  case (2 h c cs)
  then show ?case
    by (auto simp: characteristic_attributes_def declaration_attribute_def value_attribute_def descriptor_attribute_def
        cccd_attribute_def split: if_splits dest!: set_enumerate_snd)
qed simp


lemma service_attributes_primary:
  assumes "discoverable sd"
  shows "filter (\<lambda>a. primary_type (at_type a)) (service_attributes Ls us h l sd :: 'w attribute list) = (if sd_primary sd then [service_declaration h l sd] else [])"
proof -
  have "\<not> primary_type (at_type a)" if "a \<in> set (tl (service_attributes Ls us h l sd))" for a :: "'w attribute"
    using that assms characteristics_not_primary by (auto simp: service_attributes_def discoverable_def include_attribute_def)
  then have "filter (\<lambda>a. primary_type (at_type a)) (tl (service_attributes Ls us h l sd :: 'w attribute list)) = []"
    by (simp add: filter_empty_conv)
  moreover have "(service_attributes Ls us h l sd :: 'w attribute list) = service_declaration h l sd # tl (service_attributes Ls us h l sd)"
    by (simp add: service_attributes_def)
  moreover have "primary_type (at_type (service_declaration h l sd :: 'w attribute)) \<longleftrightarrow> sd_primary sd"
    by (simp add: service_declaration_def)
  ultimately show ?thesis by (metis (no_types, lifting) filter.simps(2))
qed

text \<open>The declarations \<open>ps\<close> of the primary services of a database that starts at handle \<open>h\<close>.\<close>

lemma primary_declarations:
  fixes ps :: "'w attribute list"
  assumes "layouts h ss = Ok ls" "\<forall>sd \<in> set ss. discoverable sd" "1 \<le> h"
    "ps = filter (\<lambda>a. primary_type (at_type a)) (services_attributes Ls us h ls ss)"
  shows "map proxy_of ps = expected_services h ss \<and>
    (\<forall>a \<in> set ps. h \<le> unat (at_handle a) \<and> at_handle a \<le> at_end_group a \<and> at_permissions a = READABLE \<and> at_dynamic a = None \<and>
       length (at_value a) \<in> {2, 4, 16}) \<and>
    sorted_wrt (\<lambda>a b. at_end_group a < at_handle b) ps"
  using assms
proof (induction ss arbitrary: h ls ps)
  case (Cons sd ss)
  let ?e = "h + service_count sd - 1"
  from Cons.prems(1) obtain ls' where ls: "layouts (h + service_count sd) ss = Ok ls'" "ls = (of_nat h, of_nat ?e) # ls'" "?e \<le> 65535"
    using service_count_pos [of sd] by (auto simp: Let_def split: if_splits)
  have sd: "discoverable sd" "\<forall>sd \<in> set ss. discoverable sd" using Cons.prems(2) by auto
  have he: "h \<le> ?e" using service_count_pos [of sd] by simp
  have words: "unat (of_nat h :: u16) = h" "unat (of_nat ?e :: u16) = ?e"
    by (rule unat_of_nat_u16, use ls(3) he in linarith)+
  let ?d = "service_declaration h (of_nat h, of_nat ?e) sd :: 'w attribute"
  let ?qs = "filter (\<lambda>a. primary_type (at_type a)) (services_attributes Ls us (h + service_count sd) ls' ss) :: 'w attribute list"
  have ps: "ps = (if sd_primary sd then [?d] else []) @ ?qs"
    using Cons.prems(4) ls(2) by (simp add: service_attributes_primary [OF sd(1)])
  have pos: "1 \<le> h + service_count sd" using Cons.prems(3) by simp
  note IH = Cons.IH [OF ls(1) sd(2) pos refl]
  have "at_end_group ?d < at_handle a" if "a \<in> set ?qs" for a
  proof -
    from IH that have "h + service_count sd \<le> unat (at_handle a)" by simp
    then have "?e < unat (at_handle a)" using service_count_pos [of sd] by linarith
    then show ?thesis
      using words(2) unfolding word_less_nat_alt by (simp add: service_declaration_def del: of_nat_diff of_nat_add)
  qed
  moreover have "proxy_of ?d = \<lparr>sp_handle = of_nat h, sp_end_group = of_nat ?e, sp_uuid = sd_uuid sd\<rparr>"
    by (simp add: proxy_of_def service_declaration_def)
  moreover have "h \<le> unat (at_handle ?d) \<and> at_handle ?d \<le> at_end_group ?d \<and> at_permissions ?d = READABLE \<and> at_dynamic ?d = None \<and>
      length (at_value ?d) \<in> {2, 4, 16}"
    using words he sd(1) by (auto simp: service_declaration_def discoverable_def word_le_nat_alt simp del: of_nat_diff of_nat_add)
  ultimately show ?case using IH Cons.prems(3) ps by auto
qed simp


text \<open>The attributes a primary service discovery finds, in the whole range of handles.\<close>

lemma database_declarations:
  assumes ok: "from_definitions w ss = Ok s" and disc: "\<forall>sd \<in> set ss. discoverable sd"
  obtains ps where "ps = filter (\<lambda>a. primary_type (at_type a)) (gs_attributes s)" "map proxy_of ps = expected_services 1 ss"
    "\<forall>a \<in> set ps. at_handle a \<le> at_end_group a \<and> at_permissions a = READABLE \<and> at_dynamic a = None \<and>
       length (at_value a) \<in> {2, 4, 16}"
    "sorted_wrt (\<lambda>a b. at_end_group a < at_handle b) ps" "\<forall>a \<in> set (gs_attributes s). in_range 1 0xFFFF a"
proof -
  obtain ls where ls: "layouts 1 ss = Ok ls" "gs_attributes s = services_attributes ls (map sd_uuid ss) 1 ls ss"
      "map at_handle (gs_attributes s) = map of_nat [1..<Suc (total_count ss)]" "total_count ss \<le> 65535"
    using from_definitions_OkE [OF ok] by metis
  let ?ps = "filter (\<lambda>a. primary_type (at_type a)) (gs_attributes s)"
  note ps = primary_declarations [OF ls(1) disc order_refl, of ?ps ls "map sd_uuid ss", unfolded ls(2), OF refl, folded ls(2)]
  have "in_range 1 0xFFFF a" if "a \<in> set (gs_attributes s)" for a
  proof -
    have "at_handle a \<in> set (map of_nat [1..<Suc (total_count ss)])" unfolding ls(3) [symmetric] using that by simp
    then obtain k where "at_handle a = of_nat k" "1 \<le> k" "k \<le> 65535" using ls(4) by auto
    then show ?thesis by (simp add: in_range_def word_le_nat_alt unat_of_nat_u16)
  qed
  with ps show thesis using that [of ?ps] by blast
qed

lemma typed_primary:
  "\<forall>a \<in> set (gs_attributes s). in_range 1 0xFFFF a \<Longrightarrow>
    typed_in_range s 1 0xFFFF (uuid_from_16_bits GATT_PRIMARY_SERVICE_UUID) = filter (\<lambda>a. primary_type (at_type a)) (gs_attributes s)"
  by (auto simp: typed_in_range_def primary_type_def intro!: filter_cong)

lemma read_declaration:
  "at_permissions a = READABLE \<Longrightarrow> at_dynamic a = None \<Longrightarrow> read_attribute s c a = Ok (at_value a)"
  by (simp add: read_attribute_def read_value_def check_read_access_def check_access_def
      READABLE_def READ_REQUIRES_ENCRYPTION_def READ_REQUIRES_AUTHENTICATION_def READ_REQUIRES_AUTHORIZATION_def)

lemma discover_services_server:
  assumes ok: "from_definitions w ss = Ok s" and disc: "\<forall>sd \<in> set ss. discoverable sd"
  shows "discover_services (handler_transport aes) s = Some (Ok (expected_services 1 ss), s)"
proof (rule database_declarations [OF assms])
  fix ps assume ps: "ps = filter (\<lambda>a. primary_type (at_type a)) (gs_attributes s)" "map proxy_of ps = expected_services 1 ss"
    "\<forall>a \<in> set ps. at_handle a \<le> at_end_group a \<and> at_permissions a = READABLE \<and> at_dynamic a = None \<and> length (at_value a) \<in> {2, 4, 16}"
    "sorted_wrt (\<lambda>a b. at_end_group a < at_handle b) ps" "\<forall>a \<in> set (gs_attributes s). in_range 1 0xFFFF a"
  have "service_chain s 1 ps" using ps by (auto simp: service_chain_def in_range_def read_declaration)
  then show ?thesis
    using services_loop_server [of s 1 ps aes "[]"] typed_primary [OF ps(5)] ps(1,2) by (simp add: discover_services_def)
qed

subsection \<open>The size of a discovery response\<close>

text \<open>Declarations are not writable, so no run of requests changes them.\<close>

lemma kept_filter:
  assumes "list_all2 (\<lambda>a b. frame b = frame a \<and> (Q (at_permissions a) \<longrightarrow> b = a)) as bs"
    "\<forall>a \<in> set as. primary_type (at_type a) \<longrightarrow> Q (at_permissions a)"
  shows "filter (\<lambda>a. primary_type (at_type a)) bs = filter (\<lambda>a. primary_type (at_type a)) as \<and> map at_handle bs = map at_handle as"
  using assms
proof (induction rule: list_all2_induct)
  case (Cons a as b bs)
  then have eq: "frame b = frame a" by simp
  have "at_type b = at_type a" "at_handle b = at_handle a" "at_permissions b = at_permissions a"
    using arg_cong [OF eq, of at_type] arg_cong [OF eq, of at_handle] arg_cong [OF eq, of at_permissions] by (simp_all add: frame_def)
  with Cons show ?case by simp
qed simp

lemma run_primary:
  assumes "from_definitions w ss = Ok s" "\<forall>sd \<in> set ss. discoverable sd" "t = snd (run_machine (gs_step aes) s es)"
  shows "typed_in_range t 1 0xFFFF (uuid_from_16_bits GATT_PRIMARY_SERVICE_UUID) = filter (\<lambda>a. primary_type (at_type a)) (gs_attributes s)"
proof (rule database_declarations [OF assms(1,2)])
  fix ps assume ps: "ps = filter (\<lambda>a. primary_type (at_type a)) (gs_attributes s)"
    "\<forall>a \<in> set ps. at_handle a \<le> at_end_group a \<and> at_permissions a = READABLE \<and> at_dynamic a = None \<and> length (at_value a) \<in> {2, 4, 16}"
    "\<forall>a \<in> set (gs_attributes s). in_range 1 0xFFFF a"
  have "check_write_access READABLE c \<noteq> Ok ()" for c
    by (simp add: check_write_access_def check_access_def READABLE_def WRITEABLE_def WRITE_REQUIRES_ENCRYPTION_def
        WRITE_REQUIRES_AUTHENTICATION_def WRITE_REQUIRES_AUTHORIZATION_def)
  moreover have "distinct (map at_handle (gs_attributes s))"
    using from_definitions_inv [OF assms(1), of "\<lambda>k b. replicate 16 0"] by (simp add: gs_inv_def)
  ultimately have kept: "list_all2 (\<lambda>a b. frame b = frame a \<and> (at_permissions a = READABLE \<longrightarrow> b = a)) (gs_attributes s) (gs_attributes t)"
    unfolding assms(3) by (intro run_kept [where P = "\<lambda>p. p = READABLE"]) auto
  have "\<forall>a \<in> set (gs_attributes s). primary_type (at_type a) \<longrightarrow> at_permissions a = READABLE" using ps(1,2) by simp
  note same = kept_filter [OF kept this]
  have "in_range 1 0xFFFF a" if "a \<in> set (gs_attributes t)" for a
  proof -
    have "at_handle a \<in> set (map at_handle (gs_attributes s))" using that same by (metis imageI list.set_map)
    then show ?thesis using ps(3) by (auto simp: in_range_def)
  qed
  then show ?thesis using same typed_primary [of t] by simp
qed

lemma expected_services_uuids: "map sp_uuid (expected_services h ss) = map sd_uuid (filter sd_primary ss)"
  by (induction ss arbitrary: h) auto

lemma first_run_count:
  "length (first_run as) = length (takeWhile (\<lambda>k. k = hd (map (length \<circ> at_value) as)) (map (length \<circ> at_value) as))"
  by (cases as) (simp_all add: first_run_def takeWhile_map comp_def)

lemma discovery_response:
  fixes ss :: "service_definition list"
  defines "ns \<equiv> map (length \<circ> uuid_bytes \<circ> sd_uuid) (filter sd_primary ss)"
  assumes "from_definitions w ss = Ok s" "\<forall>sd \<in> set ss. discoverable sd" "t = snd (run_machine (gs_step aes) s es)" "ns \<noteq> []"
  shows "\<exists>p. fst (gs_on_request aes (AttReadByGroupTypeRequest 1 0xFFFF (uuid_from_16_bits GATT_PRIMARY_SERVICE_UUID)) c t) = Ok p \<and>
    length (att_to_bytes p) = 2 + (4 + hd ns) * length (takeWhile (\<lambda>k. k = hd ns) ns)"
proof (rule database_declarations [OF assms(2,3)])
  fix ps assume ps: "ps = filter (\<lambda>a. primary_type (at_type a)) (gs_attributes s)" "map proxy_of ps = expected_services 1 ss"
    "\<forall>a \<in> set ps. at_handle a \<le> at_end_group a \<and> at_permissions a = READABLE \<and> at_dynamic a = None \<and> length (at_value a) \<in> {2, 4, 16}"
  have "map (uuid_bytes \<circ> sp_uuid) (map proxy_of ps) = map (uuid_bytes \<circ> sd_uuid) (filter sd_primary ss)"
    unfolding ps(2) map_map [symmetric] expected_services_uuids ..
  from arg_cong [OF this, of "map length"] have ns: "map (length \<circ> at_value) ps = ns" by (simp add: ns_def comp_def proxy_of_def)
  then have ne: "ps \<noteq> []" using assms(5) by auto
  let ?qs = "first_run ps"
  have qs: "?qs \<noteq> []" "\<forall>a \<in> set ?qs. length (at_value a) = hd ns"
    using first_run_nonempty [OF ne] first_run_length [of _ ps] ne unfolding ns [symmetric] by (auto simp: hd_map)
  have sel: "select_values t c ps [] = Ok (map (\<lambda>a. (at_handle a, at_end_group a, at_value a)) ?qs)"
    by (rule select_values_first_run) (use ps(3) read_declaration in auto)
  let ?data = "concat (map (\<lambda>a. u16_to_le_bytes (at_handle a) @ u16_to_le_bytes (at_end_group a) @ at_value a) ?qs)"
  have data: "length ?data = (4 + hd ns) * length ?qs" by (rule length_concat_const) (use qs(2) in auto)
  have "\<exists>n. fst (gs_on_request aes (AttReadByGroupTypeRequest 1 0xFFFF (uuid_from_16_bits GATT_PRIMARY_SERVICE_UUID)) c t) =
      Ok (AttReadByGroupTypeResponse n ?data)"
    using run_primary [OF assms(2-4)] ps(1) sel qs(1) ne
    by (cases ?qs) (auto simp: gs_on_request_def read_by_group_type_def read_selected_def comp_def)
  then obtain n where resp: "fst (gs_on_request aes (AttReadByGroupTypeRequest 1 0xFFFF (uuid_from_16_bits GATT_PRIMARY_SERVICE_UUID)) c t) =
      Ok (AttReadByGroupTypeResponse n ?data)" ..
  have "length ?qs = length (takeWhile (\<lambda>k. k = hd ns) ns)" using first_run_count [of ps] unfolding ns .
  then have "length (att_to_bytes (AttReadByGroupTypeResponse n ?data)) = 2 + (4 + hd ns) * length (takeWhile (\<lambda>k. k = hd ns) ns)"
    using data by (simp only: att_to_bytes_def) simp
  with resp show ?thesis by blast
qed

section \<open>Properties\<close>

text \<open>
  Property C3: service discovery. The client that discovers the primary services of a server finds exactly the
  primary services of the definitions the server was built from, in their order, each with its UUID, the handle of its declaration and
  the last handle before the next service; the UUIDs may be of mixed widths, which takes several requests.
\<close>

theorem gatt_service_discovery:
  assumes "from_definitions w ss = Ok s" and "\<forall>sd \<in> set ss. discoverable sd"
  shows "discover_services (handler_transport aes) s = Some (Ok (expected_services 1 ss), s)"
  by (rule discover_services_server [OF assms])

theorem gatt_service_discovery_witness:
  "\<exists>s. from_definitions () [\<lparr>sd_uuid = Uuid [0x0F, 0x18], sd_primary = True, sd_included = [], sd_characteristics = []\<rparr>,
       \<lparr>sd_uuid = Uuid (replicate 16 7), sd_primary = True, sd_included = [], sd_characteristics = []\<rparr>] = Ok s \<and>
     discover_services (handler_transport (\<lambda>k b. b)) s = Some (Ok [\<lparr>sp_handle = 1, sp_end_group = 1, sp_uuid = Uuid [0x0F, 0x18]\<rparr>,
       \<lparr>sp_handle = 2, sp_end_group = 2, sp_uuid = Uuid (replicate 16 7)\<rparr>], s)"
proof -
  let ?ss = "[\<lparr>sd_uuid = Uuid [0x0F, 0x18], sd_primary = True, sd_included = [], sd_characteristics = []\<rparr>,
    \<lparr>sd_uuid = Uuid (replicate 16 7), sd_primary = True, sd_included = [], sd_characteristics = []\<rparr>]"
  have "total_count ?ss \<le> 65535" by (simp add: service_count_def)
  then obtain s where s: "from_definitions () ?ss = Ok s" using from_definitions_Ok_iff [of "()" ?ss] by auto
  have "\<forall>sd \<in> set ?ss. discoverable sd" by (simp add: discoverable_def)
  from gatt_service_discovery [OF s this, of "\<lambda>k b. b"] s show ?thesis by (simp add: service_count_def)
qed

text \<open>
  Property C18: long reads. With the MTU the server negotiated, the client reads any readable value of up to 65535 bytes
  whole, with as many blobs as it takes, and caches it; the server is unchanged. A value longer
  by the size of a blob overflows the 16-bit offset of the client, which panics.
\<close>

theorem gatt_long_read:
  assumes "gs_inv aes s" and "read_handle s access_context_default h = Ok v" and "gc_mtu c = negotiated_mtu s 0"
  shows "(length v \<le> 65535 \<longrightarrow> gc_read_value (handler_transport aes) h False (c, s) =
      Some (Ok v, c\<lparr>gc_cached_values := bt_insert h v (gc_cached_values c)\<rparr>, s)) \<and>
    (65534 + unat (negotiated_mtu s 0) \<le> length v \<longrightarrow> gc_read_value (handler_transport aes) h False (c, s) =
      Some (Panic ''attempt to add with overflow'', c, s))"
  by (rule gc_read_value_server [OF assms])

theorem gatt_long_read_witness:
  "\<exists>s :: unit gatt_server. \<exists>c :: unit gatt_client. gc_read_value (handler_transport (\<lambda>k b. replicate 16 0)) 1 False (c, s) =
     Some (Ok (replicate 50 7), c\<lparr>gc_cached_values := [(1, replicate 50 7)]\<rparr>, s)"
proof -
  let ?aes = "\<lambda>(k :: bytes) (b :: bytes). replicate 16 (0 :: u8)"
  let ?a = "\<lparr>at_handle = 1, at_type = Uuid [1, 2], at_end_group = 1, at_permissions = READABLE, at_value = replicate 50 7, at_dynamic = None\<rparr>"
  let ?s = "\<lparr>gs_attributes = [?a], gs_mtu = 23, gs_negotiated_mtus = [], gs_prepared_writes = [], gs_subscriptions = [],
    gs_verifier = None, gs_world = ()\<rparr>"
  have inv: "gs_inv ?aes ?s" by (simp add: gs_inv_def ATT_DEFAULT_MTU_def bt_wf_def bt_get_def)
  have val: "read_handle ?s access_context_default 1 = Ok (replicate 50 7)"
    by (simp add: read_handle_def gs_lookup_def gs_find_def read_attribute_def read_value_def check_read_access_def check_access_def
        READABLE_def READ_REQUIRES_ENCRYPTION_def READ_REQUIRES_AUTHENTICATION_def READ_REQUIRES_AUTHORIZATION_def)
  have mtu: "gc_mtu (gatt_client_new :: unit gatt_client) = negotiated_mtu ?s 0"
    by (simp add: gatt_client_new_def negotiated_mtu_def bt_get_def)
  show ?thesis
    using gatt_long_read [OF inv val mtu] by (intro exI [of _ ?s] exI [of _ gatt_client_new]) (simp add: gatt_client_new_def)
qed

text \<open>
  Property C17: limits of the responses. On a database from definitions with proper UUIDs and at least one primary service, whatever requests came before and whatever MTU they negotiated, the
  response to the first request of a primary service discovery has two bytes and, for each of the leading primary services whose
  UUID is as wide as the first one's, four bytes and the UUID: its size does not depend on the MTU, so it is longer than
  the MTU as soon as these services are enough, four of them with 16-bit UUIDs for the default MTU of 23. A Read Multiple Variable
  of one value longer than the response can carry announces the length of the whole value before the part
  that fits, and the parser of the same crate rejects the response.
\<close>

theorem gatt_response_limits:
  fixes ss :: "service_definition list"
  defines "ns \<equiv> map (length \<circ> uuid_bytes \<circ> sd_uuid) (filter sd_primary ss)"
  shows "(from_definitions w ss = Ok s \<and> (\<forall>sd \<in> set ss. discoverable sd) \<and> ns \<noteq> [] \<longrightarrow>
    (\<exists>p. fst (gs_on_request aes (AttReadByGroupTypeRequest 1 0xFFFF (uuid_from_16_bits GATT_PRIMARY_SERVICE_UUID)) c
        (snd (run_machine (gs_step aes) s es))) = Ok p \<and>
      length (att_to_bytes p) = 2 + (4 + hd ns) * length (takeWhile (\<lambda>k. k = hd ns) ns))) \<and>
   (gs_inv aes t \<and> read_handle t c h = Ok v \<and> unat (negotiated_mtu t (bearer_id c)) < length v + 3 \<longrightarrow>
    (\<exists>p e. fst (gs_on_request aes (AttReadMultipleVariableRequest [h]) c t) = Ok p \<and> att_from_bytes (att_to_bytes p) = Err e))"
proof (intro conjI impI)
  assume "gs_inv aes t \<and> read_handle t c h = Ok v \<and> unat (negotiated_mtu t (bearer_id c)) < length v + 3"
  then have m: "ATT_DEFAULT_MTU \<le> negotiated_mtu t (bearer_id c)" and t: "read_handle t c h = Ok v"
      "unat (negotiated_mtu t (bearer_id c)) < length v + 3" using negotiated_mtu_ge by blast+
  then have "unat (negotiated_mtu t (bearer_id c)) - 3 < length v"
    by (auto simp: ATT_DEFAULT_MTU_def word_le_nat_alt)
  with m t show "\<exists>p e. fst (gs_on_request aes (AttReadMultipleVariableRequest [h]) c t) = Ok p \<and> att_from_bytes (att_to_bytes p) = Err e"
    using truncated_tuple_rejected [of "negotiated_mtu t (bearer_id c)" "read_handle t c" h v] by (simp add: gs_on_request_def)
qed (use discovery_response [of w ss s _ aes es c] in \<open>simp add: ns_def\<close>)

text \<open>
  Four services with 16-bit UUIDs, after the client asked for the default MTU: 26 bytes for
  an MTU of 23. With alternating widths the response stops at the second service, after eight bytes.
\<close>

theorem gatt_response_limits_witness:
  "\<exists>s t p q. from_definitions () (replicate 4 \<lparr>sd_uuid = Uuid [0x0F, 0x18], sd_primary = True, sd_included = [], sd_characteristics = []\<rparr>) = Ok s \<and>
     fst (gs_on_request (\<lambda>k b. b) (AttReadByGroupTypeRequest 1 0xFFFF (uuid_from_16_bits GATT_PRIMARY_SERVICE_UUID)) access_context_default
       (snd (run_machine (gs_step (\<lambda>k b. b)) s [(AttExchangeMtuRequest 23, access_context_default)]))) = Ok p \<and>
     negotiated_mtu (snd (run_machine (gs_step (\<lambda>k b. b)) s [(AttExchangeMtuRequest 23, access_context_default)])) 0 = 23 \<and>
     length (att_to_bytes p) = 26 \<and>
     from_definitions () [\<lparr>sd_uuid = Uuid [0x0F, 0x18], sd_primary = True, sd_included = [], sd_characteristics = []\<rparr>,
       \<lparr>sd_uuid = Uuid (replicate 16 7), sd_primary = True, sd_included = [], sd_characteristics = []\<rparr>] = Ok t \<and>
     fst (gs_on_request (\<lambda>k b. b) (AttReadByGroupTypeRequest 1 0xFFFF (uuid_from_16_bits GATT_PRIMARY_SERVICE_UUID)) access_context_default t) = Ok q \<and>
     length (att_to_bytes q) = 8"
proof -
  let ?ss = "replicate 4 \<lparr>sd_uuid = Uuid [0x0F, 0x18], sd_primary = True, sd_included = [], sd_characteristics = []\<rparr>"
  let ?ts = "[\<lparr>sd_uuid = Uuid [0x0F, 0x18], sd_primary = True, sd_included = [], sd_characteristics = []\<rparr>,
    \<lparr>sd_uuid = Uuid (replicate 16 7), sd_primary = True, sd_included = [], sd_characteristics = []\<rparr>]"
  have "total_count ?ss \<le> 65535" "total_count ?ts \<le> 65535"
    by (simp_all add: total_count_def service_count_def sum_list_replicate)
  then obtain s t where st: "from_definitions () ?ss = Ok s" "from_definitions () ?ts = Ok t"
    using from_definitions_Ok_iff [of "()" ?ss] from_definitions_Ok_iff [of "()" ?ts] by auto
  have "\<forall>sd \<in> set ?ss. discoverable sd" "\<forall>sd \<in> set ?ts. discoverable sd" by (simp_all add: discoverable_def)
  moreover have "negotiated_mtu (snd (run_machine (gs_step (\<lambda>k b. b)) s [(AttExchangeMtuRequest 23, access_context_default)])) 0 = 23"
    using st(1) by (auto simp: from_definitions_def gs_step_def gs_on_request_def negotiated_mtu_def access_context_default_def
        bt_get_insert_same ATT_DEFAULT_MTU_def)
  ultimately show ?thesis
    using st conjunct1 [OF gatt_response_limits [of "()" ?ss s "\<lambda>k b. b" access_context_default "[(AttExchangeMtuRequest 23, access_context_default)]"]]
    conjunct1 [OF gatt_response_limits [of "()" ?ts t "\<lambda>k b. b" access_context_default "[]"]]
    by (auto simp: eval_nat_numeral)
qed

end
