(* ===== verification/Spec2Isabelle.thy ===== *)
theory Spec2Isabelle
  imports Ertm_Link Le_Credit_Link Le_Manager_Safety Classic_Safety H4_Framer Host_Rfcomm Gatt_Session
begin

text \<open>
  Verification of the protocol core of \<open>bumble-rs\<close>, a Bluetooth host stack in Rust.

  \<^bold>\<open>The program.\<close> A byte transport carries HCI packets between host and controller. The host \<open>Device\<close>
  (\<open>bumble-host\<close>) fragments L2CAP PDUs into ACL packets, holds them in a queue that respects the
  buffers of the controller, and reassembles what it receives. Per connection it keeps an L2CAP channel
  manager: BR/EDR channels in basic or enhanced retransmission mode, or LE credit-based channels. RFCOMM
  multiplexes serial links with their own credits over one BR/EDR channel. The attribute protocol runs over a
  fixed LE channel; its signed writes are authenticated with AES-CMAC. Above it a server keeps a database of services
  with access rules per attribute, and a client discovers and uses the database of a peer.

  \<^bold>\<open>Theories and sources\<close> (all under \<open>src/\<close>). Each theory models its component with the source's data and
  one definition per function, then proves its properties.
  \<^item> \<open>Prelude\<close>: words, byte vectors, results with panics, little-endian conversions, the locales
    \<open>machine\<close> (an operation driven by a list of calls) and \<open>codec\<close> (an encoder with its decoder).
    \<open>Ordered_Map\<close>: \<open>BTreeMap\<close> as a list sorted by key.
  \<^item> \<open>Data_Queue\<close>: \<open>bumble-host/src/data_queue.rs\<close>. Accounting of the controller window, order, completion,
    flushing and progress under arbitrary calls.
  \<^item> \<open>Hci_Packet\<close>: \<open>bumble-hci/src/packet.rs\<close> and the cursor \<open>Reader\<close>. Codecs, fragmentation, reassembly.
  \<^item> \<open>H4_Framer\<close>: \<open>PacketFramer\<close> and \<open>H4Transport\<close> of \<open>bumble-transport/src/common.rs\<close> and the dispatch of
    \<open>bumble-hci/src/lib.rs\<close>. How the reads cut the stream does not matter, up to the
    packets that come with a bad one in the same read.
  \<^item> \<open>L2cap_Pdu\<close>, \<open>L2cap_Signaling\<close>: \<open>bumble-l2cap/src/lib.rs\<close>. Frames, frame check sequence, PSM fields, all
    control frames and configuration options.
  \<^item> \<open>Ertm\<close>, \<open>Ertm_Engine\<close>, \<open>Ertm_Link\<close>: \<open>bumble-l2cap/src/ertm.rs\<close>. The engine, its invariant and
    retransmission budget under an arbitrary peer, and two engines over wires that lose frames.
  \<^item> \<open>Le_Credit\<close>, \<open>Le_Credit_Link\<close>, \<open>Le_Manager\<close>, \<open>Le_Manager_Safety\<close>: \<open>bumble-l2cap/src/le_credit.rs\<close>. The channel,
    two channels over ordered wires, the manager with every signaling handler, its invariant and the handshake.
  \<^item> \<open>Classic\<close>, \<open>Classic_Safety\<close>: \<open>bumble-l2cap/src/classic.rs\<close>. The BR/EDR channel manager and its invariant
    under an arbitrary application and peer.
  \<^item> \<open>Rfcomm\<close>, \<open>Rfcomm_Mux\<close>, \<open>Rfcomm_Link\<close>, \<open>Rfcomm_Session\<close>, \<open>Rfcomm_L2cap\<close>: \<open>bumble-rfcomm/src\<close>. The wire format, the
    session, two connections and two sessions against each other, and the binding to a BR/EDR channel.
  \<^item> \<open>Host_Data\<close>, \<open>Host_Rfcomm\<close>: the data paths of \<open>Device\<close> in \<open>bumble-host/src/lib.rs\<close>: sending and queueing
    L2CAP PDUs and isochronous SDUs, completed packets, and reassembly up to the BR/EDR channel managers.
  \<^item> \<open>Att\<close>, \<open>Signed_Write\<close>: \<open>bumble-att/src/lib.rs\<close>, \<open>bumble/src/uuid.rs\<close> and AES-CMAC of
    \<open>bumble-crypto/src/lib.rs\<close>.
  \<^item> \<open>Gatt_Server\<close>, \<open>Gatt_Database\<close>, \<open>Gatt_Access\<close>, \<open>Gatt_Safety\<close>: \<open>bumble-gatt/src/lib.rs\<close>. The attribute servers; the layout of
    the database, access control over whole runs, no panic and the bounds of responses.
  \<^item> \<open>Gatt_Client\<close>, \<open>Gatt_Discovery\<close>, \<open>Gatt_Session\<close>: \<open>bumble-gatt/src/client.rs\<close>. The client against an arbitrary peer, and
    against the server: discovery, the size of its responses, and long reads.
  \<^item> This theory: the composition of the layers, from an RFCOMM session down to the ACL packets of one host and
    up to the session of the other.

  \<^bold>\<open>Conventions.\<close> A method on \<open>&mut self\<close> is an \<open>op\<close>: it maps the state to a result and the new state, also on
  an error, so that partial updates before an early return are visible. A result is \<open>Ok\<close>, \<open>Err\<close> or \<open>Panic\<close>; arithmetic
  on fixed-width integers is on words, and where the build with overflow checks panics the model
  returns \<open>Panic\<close>. \<open>usize\<close> is \<open>nat\<close>: lengths of vectors do not overflow it; its subtractions are
  checked. Error messages are kept as format strings with their arguments. Loops are functions with a
  termination proof; the loops of the client, which a peer may keep running, are partial functions whose
  value is \<open>None\<close> when they do not end, with theorems that say which end. No definition uses fuel.

  \<^bold>\<open>Parameters.\<close> The command and event codecs (\<open>H4_Framer\<close>), the transport below the host (\<open>Host_Data\<close>), the reads
  of the byte stream (\<open>H4_Framer\<close>), the AES block cipher (\<open>Signed_Write\<close>), the callbacks of the application
  (\<open>Gatt_Server\<close>) and the transport of the attribute client (\<open>Gatt_Client\<close>) are arguments of the
  definitions that use them. The links between two engines, channels, connections and hosts are part of the
  statements: wires that keep the order of frames, and lose some where the theorem says so.

  \<^bold>\<open>What the theorems show.\<close> Safety of every stateful component against an arbitrary sequence of calls and peer
  input (no panic, invariants of the tables and counters, bounds of windows and credits); in-order delivery and
  progress of the three flow-controlled transfers (retransmission, LE credits, RFCOMM credits); round trips of all
  codecs; independence of the framer from the chunking as far as it goes; at-most-once acceptance of signed writes; that
  the attribute server tells nothing but the length of values a bearer may not read; that a client finds the services the server was built from;
  and the error behaviours where the code departs from its intent, each as a theorem.

  \<^bold>\<open>Not modelled.\<close> The command and event tables of \<open>bumble-hci\<close>, the software controller, the rest of \<open>Device\<close>
  (connection set-up, pairing, advertising, the LE and fixed channels of \<open>on_acl\<close>), the security manager, service
  discovery, the value adapters of \<open>bumble-gatt\<close>, the audio and input profiles, drivers, the other transports and the programs. They are
  tables, I/O, vendor protocols or layers above the ones here. Next in the plan: service discovery
  data elements, the pairing state machines of \<open>bumble-smp\<close> over a
  cryptographic parameter, and the LE half of \<open>on_acl\<close>.
\<close>

section \<open>RFCOMM over the host\<close>

text \<open>
  A run of the sending side: the binding flushes the frames of its session into the channel manager,
  the host flushes the manager, and the controller reports completed packets.
\<close>

definition sent_packets ::
  "l2cap_multiplexer \<Rightarrow> channel_manager \<Rightarrow> u16 \<Rightarrow> host_data \<Rightarrow> (u16 list \<times> u16 list) list \<Rightarrow> host_data \<times> acl_data_packet list" where
  "sent_packets l cm h d events =
     (let (r, (l', cm')) = lx_flush (l, cm);
          (r', s) = flush_classic_channel_manager log_send h (put_manager h cm' d, [])
      in snd (run_machine host_step s (map (\<lambda>(hs, ns). NumberOfCompletedPackets hs ns) events)))"

lemma put_manager_host:
  "host_inv (put_manager h cm d) = host_inv d" "same_config d (put_manager h cm d)"
  "pool_waiting le (put_manager h cm d) = pool_waiting le d"
  by (simp_all add: put_manager_def host_inv_def pool_ok_def pool_waiting_def in_le_pool_def same_config_def)

lemma completions_no_fragments:
  "concat (map (call_fragments d) (map (\<lambda>(hs, ns). NumberOfCompletedPackets hs ns) events)) = []"
  by (induction events) auto

lemma of_pool_all: "of_pool True d ps = [] \<Longrightarrow> of_pool False d ps = ps"
  by (auto simp: of_pool_def filter_empty_conv filter_id_conv)

lemma sent_packets_fragments:
  assumes "basic_open (lx_source_cid l) cm ch" "cm_outbound cm = []"
    "\<forall>f \<in> set (mx_outbox (lx_multiplexer l)). rf_wf f \<and> length (frame_bytes f) \<le> unat (cc_peer_mtu ch)"
    "host_inv d" "pool_waiting True d = []" "pool_waiting False d = []" "h \<notin> set (le_connections d)"
    "1 \<le> acl_data_packet_length d" "acl_data_packet_length d \<le> 65535"
    "sent_packets l cm h d events = (d', log)"
  shows "log @ map fst (pool_waiting False d') =
    concat (map (sdu_fragments h (acl_data_packet_length d) (cc_destination_cid ch)) (map frame_bytes (mx_outbox (lx_multiplexer l))))"
proof -
  let ?fs = "mx_outbox (lx_multiplexer l)" and ?c = "cc_destination_cid ch"
  let ?frags = "concat (map (sdu_fragments h (acl_data_packet_length d) ?c) (map frame_bytes ?fs))"
  define cm1 where "cm1 = queue_pdus ?c ?fs cm"
  define e where "e = put_manager h (cm1\<lparr>cm_outbound := []\<rparr>) d"
  have flush: "lx_flush (l, cm) = (Ok (length ?fs), (l\<lparr>lx_multiplexer := (lx_multiplexer l)\<lparr>mx_outbox := []\<rparr>\<rparr>, cm1))"
    unfolding cm1_def using assms(1,3) by (rule flush_basic)
  have out: "cm_outbound cm1 = map (l2cap_pdu_new ?c) (map frame_bytes ?fs)"
    using assms(2) by (simp add: cm1_def queue_pdus_def)
  have e: "host_inv e" "same_config d e" "pool_waiting le e = []" for le
    using assms(4-6) put_manager_host by (cases le; simp add: e_def)+
  have len: "\<forall>sdu \<in> set (map frame_bytes ?fs). length sdu \<le> 65535"
    using assms(3) unat_u16_le [of "cc_peer_mtu ch"] by fastforce
  have conf: "le_connections e = le_connections d" "acl_data_packet_length e = acl_data_packet_length d"
    using e(2) by (simp_all add: same_config_def)
  obtain d1 ps where d1: "send_pdus log_send h (map (l2cap_pdu_new ?c) (map frame_bytes ?fs)) (e, []) = (Ok (), (d1, ps))"
      "host_inv d1" "same_config e d1" "\<forall>le. of_pool le e ps @ map fst (pool_waiting le d1) = of_pool le e ?frags"
    using send_pdus_log [OF e(1), of h "map frame_bytes ?fs" ?c "[]"] assms(7-9) len e(3) conf by auto
  have fl: "flush_classic_channel_manager log_send h (put_manager h cm1 d, []) = (Ok (), (d1, ps))"
    using d1(1) out by (simp add: flush_classic_channel_manager_def cm_drain_outbound_def e_def put_manager_def bt_get_insert_same bt_insert_twice)
  let ?calls = "map (\<lambda>(hs, ns). NumberOfCompletedPackets hs ns) events"
  obtain outs where run: "run_machine host_step (d1, ps) ?calls = (outs, (d', log))"
    using assms(10) flush fl by (cases "run_machine host_step (d1, ps) ?calls") (simp add: sent_packets_def)
  have frag0: "of_pool le x [] = []" for le x by (simp add: of_pool_def)
  from host_run_log [OF d1(2) run] obtain qs where qs: "log = ps @ qs"
      "\<forall>le. of_pool le d1 qs @ map fst (pool_waiting le d') = map fst (pool_waiting le d1)"
    unfolding completions_no_fragments frag0 append_Nil2 by blast
  have pools: "of_pool le e = of_pool le d1" "of_pool le d = of_pool le d1" for le
    using same_config_pools [OF d1(3)] same_config_pools [OF e(2)] by simp_all
  have all: "of_pool le d1 log @ map fst (pool_waiting le d') = of_pool le d1 ?frags" for le
    using d1(4) qs by (simp add: pools)
  have "\<forall>p \<in> set ?frags. connection_handle p = h"
  proof -
    have "\<forall>p \<in> set (sdu_fragments h (acl_data_packet_length d) ?c (frame_bytes f)). connection_handle p = h" if "f \<in> set ?fs" for f
      using fragments_facts(2) [OF sdu_fragments_ok [OF assms(8,9), of "frame_bytes f" h ?c]] len that by simp
    then show ?thesis by auto
  qed
  then have none: "of_pool True d1 ?frags = []" "of_pool False d1 ?frags = ?frags"
    using assms(7) conf d1(3) by (auto simp: of_pool_def in_le_pool_def same_config_def filter_empty_conv filter_id_conv)
  then have "of_pool True d1 log = []" using all [of True] by simp
  from of_pool_all [OF this] all [of False] none(2) show ?thesis by simp
qed

text \<open>
  Property C1: the whole path of RFCOMM over BR/EDR. The frames a session has queued are flushed
  into its open basic-mode channel, fragmented by the host for the controller and sent as the controller
  completes packets. Once nothing waits, the packets on the transport, delivered under the peer's connection
  handle, make the receiving host accept every one of them without an error, append exactly these frames
  to the peer's channel, and polling there hands its session the frames in order: the peer ends in the
  state that receiving the frames directly would give.
\<close>

theorem rfcomm_over_acl:
  assumes "basic_open (lx_source_cid la) cma cha" and "cm_outbound cma = []"
    and "\<forall>f \<in> set (mx_outbox (lx_multiplexer la)). rf_wf f \<and> length (frame_bytes f) \<le> unat (cc_peer_mtu cha) \<and>
      length (frame_bytes f) \<le> unat (cc_mtu chb)"
    and "host_inv da" and "pool_waiting True da = []" and "pool_waiting False da = []" and "h \<notin> set (le_connections da)"
    and "2 \<le> acl_data_packet_length da" and "acl_data_packet_length da \<le> 65535"
    and "sent_packets la cma h da events = (da', log)" and "pool_waiting False da' = []"
    and "basic_open (lx_source_cid lb) cmb chb" and "cm_outbound cmb = []" and "cc_received chb = []"
    and "lx_source_cid lb = cc_destination_cid cha" and "lx_source_cid lb \<noteq> L2CAP_SIGNALING_CID"
    and "bt_get (classic_channel_managers db) h' = Some cmb"
    and "feed_frames (mx_outbox (lx_multiplexer la)) (lx_multiplexer lb) = (Ok (), m)"
  shows "\<exists>db' cmb' cmb''. receive_acls send (map (relabel h') log) (db, link) = (replicate (length log) (Ok None), (db', link)) \<and>
    bt_get (classic_channel_managers db') h' = Some cmb' \<and>
    lx_poll_loop 0 (lb, cmb') = (Ok (length (mx_outbox (lx_multiplexer la))), (lb\<lparr>lx_multiplexer := m\<rparr>, cmb'')) \<and>
    basic_open (lx_source_cid lb) cmb'' chb"
proof -
  let ?fs = "mx_outbox (lx_multiplexer la)" and ?c = "lx_source_cid lb" and ?n = "acl_data_packet_length da"
  have frames: "\<forall>f \<in> set ?fs. rf_wf f \<and> length (frame_bytes f) \<le> unat (cc_peer_mtu cha)" using assms(3) by blast
  have "1 \<le> ?n" using assms(8) by simp
  have len: "length (frame_bytes f) \<le> 65535" if "f \<in> set ?fs" for f
    using that frames unat_u16_le [of "cc_peer_mtu cha"] by fastforce
  have log: "log = concat (map (sdu_fragments h ?n ?c) (map frame_bytes ?fs))"
    using sent_packets_fragments [OF assms(1,2) frames assms(4-7) \<open>1 \<le> ?n\<close> assms(9,10)] assms(11,15) by simp
  have "map (relabel h') (sdu_fragments h ?n ?c (frame_bytes f)) = sdu_fragments h' ?n ?c (frame_bytes f)" if "f \<in> set ?fs" for f
    by (rule sdu_fragments_relabel [OF \<open>1 \<le> ?n\<close> assms(9) len [OF that]])
  then have relabelled: "map (relabel h') log = concat (map (sdu_fragments h' ?n ?c) (map frame_bytes ?fs))"
    unfolding log by (simp add: map_concat o_def cong: map_cong)
  have "length log = length (concat (map (sdu_fragments h' ?n ?c) (map frame_bytes ?fs)))"
    using relabelled by (metis length_map)
  moreover have "\<forall>sdu \<in> set (map frame_bytes ?fs). length sdu \<le> unat (cc_mtu chb)" using assms(3) by simp
  ultimately obtain db' where db': "receive_acls send (map (relabel h') log) (db, link) = (replicate (length log) (Ok None), (db', link))"
      "bt_get (classic_channel_managers db') h' = Some (receive_sdus ?c (map frame_bytes ?fs) cmb)"
    using receive_sdu_fragments [OF assms(8,9,17,12,16) _ assms(13), of "map frame_bytes ?fs" send link] relabelled by auto
  have "list_all rf_wf ?fs" using assms(3) by (simp add: list_all_iff)
  with poll_loop_frames [OF receive_sdus_open [OF assms(12), of "map frame_bytes ?fs"] _ _ assms(18), of 0] assms(14)
  obtain cmb'' where "lx_poll_loop 0 (lb, receive_sdus ?c (map frame_bytes ?fs) cmb) =
      (Ok (length ?fs), (lb\<lparr>lx_multiplexer := m\<rparr>, cmb''))" "basic_open ?c cmb'' (chb\<lparr>cc_received := []\<rparr>)" by auto
  moreover have "chb\<lparr>cc_received := []\<rparr> = chb" using assms(14) by (cases chb) simp
  ultimately show ?thesis using db' by auto
qed

theorem rfcomm_over_acl_witness:
  "\<exists>la lb cma da da' log db db' cmb' cmb'' m. mx_outbox (lx_multiplexer la) = [rf_sabm True 0] \<and>
     sent_packets la cma 64 da [] = (da', log) \<and>
     receive_acls log_send (map (relabel 65) log) (db, []) = (replicate (length log) (Ok None), (db', [])) \<and>
     bt_get (classic_channel_managers db') 65 = Some cmb' \<and>
     lx_poll_loop 0 (lb, cmb') = (Ok 1, (lb\<lparr>lx_multiplexer := m\<rparr>, cmb'')) \<and> mx_state m = MConnected"
proof -
  let ?f = "rf_sabm True 0"
  define cha chb where "cha = (classic_outgoing 3 0x40 (BasicSpec \<lparr>cs_mtu = 48\<rparr>))\<lparr>cc_state := COpen, cc_destination_cid := 0x41\<rparr>"
    and "chb = (classic_incoming 3 0x41 0x40 (BasicSpec \<lparr>cs_mtu = 48\<rparr>))\<lparr>cc_state := COpen\<rparr>"
  define cma cmb where "cma = cm_new\<lparr>cm_channels := [(0x40, cha)]\<rparr>" and "cmb = cm_new\<lparr>cm_channels := [(0x41, chb)]\<rparr>"
  define q :: "acl_data_packet data_packet_queue" where "q = \<lparr>max_in_flight = 2, in_flight = 0, per_connection_in_flight = [], packets = [], queued = 0, completed = 0\<rparr>"
  define da where "da = \<lparr>acl_packet_queue = q, le_acl_packet_queue = None, iso_packet_queue = None, acl_data_packet_length = 27,
    le_acl_data_packet_length = None, iso_data_packet_length = None, le_connections = [], cis_links = [], bis_directions = [],
    iso_sequence_numbers = [], iso_assemblers = [], iso_inbox = [], acl_assemblers = [], classic_channel_managers = [],
    classic_channel_errors = []\<rparr>"
  define db where "db = da\<lparr>classic_channel_managers := [(65, cmb)]\<rparr>"
  define la lb where "la = \<lparr>lx_source_cid = 0x40, lx_multiplexer = (mx_new Initiator 48)\<lparr>mx_outbox := [?f]\<rparr>\<rparr>"
    and "lb = \<lparr>lx_source_cid = 0x41, lx_multiplexer = mx_new Responder 48\<rparr>"
  have wf: "rf_wf ?f" by (simp add: rf_wf_def rf_sabm_def rf_control_frame_def)
  have "length (frame_bytes ?f) = 4"
    by (simp add: frame_bytes_def rf_to_bytes_def length_field_def rf_fcs_def rf_sabm_def rf_control_frame_def)
  then obtain x y z w where bytes: "frame_bytes ?f = [x, y, z, w]" by (auto simp: length_Suc_conv eval_nat_numeral)
  obtain m where m: "feed_frames [?f] (lx_multiplexer lb) = (Ok (), m)" "mx_state m = MConnected"
    by (auto simp: lb_def and_then_def lift_result_def mx_defs)
  have a: "basic_open (lx_source_cid la) cma cha" "cm_outbound cma = []" "mx_outbox (lx_multiplexer la) = [?f]"
    "unat (cc_peer_mtu cha) = 48" "cc_destination_cid cha = 0x41"
    by (simp_all add: basic_open_def la_def cma_def cha_def cm_new_def bt_get_def classic_outgoing_def L2CAP_MIN_BR_EDR_MTU_def)
  have b: "basic_open (lx_source_cid lb) cmb chb" "cm_outbound cmb = []" "cc_received chb = []" "unat (cc_mtu chb) = 48"
    "lx_source_cid lb = 0x41" "bt_get (classic_channel_managers db) 65 = Some cmb"
    by (simp_all add: basic_open_def lb_def cmb_def chb_def cm_new_def bt_get_def classic_incoming_def db_def)
  have h: "host_inv da" "pool_waiting True da = []" "pool_waiting False da = []" "le_connections da = []" "acl_data_packet_length da = 27"
    by (simp_all add: da_def q_def host_inv_def queue_inv_def bt_values_def pool_ok_def)
  obtain da' log where sent: "sent_packets la cma 64 da [] = (da', log)" by (metis surj_pair)
  let ?pdu = "[4, 0, 0x41, 0, x, y, z, w]"
  have chunk: "chunks 27 ?pdu = [?pdu]" by (simp add: chunks_rec)
  have flush: "lx_flush (la, cma) = (Ok 1, (la\<lparr>lx_multiplexer := (lx_multiplexer la)\<lparr>mx_outbox := []\<rparr>\<rparr>, queue_pdus 0x41 [?f] cma))"
    using flush_basic [OF a(1)] a(3-5) wf bytes by simp
  have "pool_waiting False da' = []"
    using sent flush a(2) bytes chunk
    by (auto simp: sent_packets_def flush_classic_channel_manager_def queue_pdus_def cm_drain_outbound_def put_manager_def da_def
        send_l2cap_on_handle_def Let_def fragment_l2cap_pdu_def pdu_to_bytes_def l2cap_pdu_new_def u16_to_le_bytes_def
        u16_from_le_bytes_def bt_get_def and_then_def flush_acl_queue_def q_def enqueue_def flush_queue.simps poll_ready_def
        log_send_def connection_in_flight_def)
  with rfcomm_over_acl [where send = log_send and link = "[]", OF a(1,2) _ h(1-3) _ _ _ sent _ b(1-3) _ _ b(6), of m]
  obtain db' cmb' cmb'' where "receive_acls log_send (map (relabel 65) log) (db, []) = (replicate (length log) (Ok None), (db', []))"
    "bt_get (classic_channel_managers db') 65 = Some cmb'" "lx_poll_loop 0 (lb, cmb') = (Ok 1, (lb\<lparr>lx_multiplexer := m\<rparr>, cmb''))"
    using a b h m(1) wf bytes by (auto simp: L2CAP_SIGNALING_CID_def)
  with a(3) sent m(2) show ?thesis by blast
qed

end
